(* ===== verification/Prelude.thy ===== *)
theory Prelude
  imports Main "HOL-Library.Word"
begin

text \<open>
  Shared vocabulary of the development: the machine integer types of the C++ sources, the
  ways in which the C++ code can stop (\<open>error\<close>), the result type with its sequencing
  combinator \<open>rbind\<close>, pointers as optional addresses, and the theory of circular doubly
  linked lists over field functions (\<open>links\<close>, \<open>ring\<close>) on which the order book proofs
  rest.
\<close>

section \<open>Machine integers\<close>

type_synonym u8 = "8 word"
type_synonym u16 = "16 word"
type_synonym u32 = "32 word"
type_synonym u64 = "64 word"

text \<open>
  \<open>size_t\<close> indices and counters are natural numbers; \<open>SIZE_T_MAX\<close> is
  \<open>std::numeric_limits<size_t>::max()\<close> on the 64 bit targets of the build.
\<close>

definition SIZE_T_MAX :: nat where
  "SIZE_T_MAX = 2 ^ 64 - 1"

text \<open>The values of the constants of the sources, for proofs about bounds.\<close>

named_theorems model_constants "values of the constants of the sources"

section \<open>Errors and results\<close>

text \<open>
  How an operation can fail to return. \<open>NullPointer\<close> and \<open>OutOfBounds\<close> are undefined
  behaviour of the C++ (a null dereference, an unchecked \<open>operator[]\<close> past the end), and so
  is \<open>SignedOverflow\<close>, arithmetic of a signed type that leaves its range;
  \<open>OutOfRange\<close> is the \<open>std::out_of_range\<close> of \<open>at()\<close>, which terminates the process
  in a \<open>noexcept\<close> function; \<open>AssertFailed\<close> and \<open>Fatal\<close> are \<open>utils::ASSERT\<close>,
  \<open>utils::DEBUG_ASSERT\<close> and \<open>utils::FATAL\<close>, which print a message and exit;
  \<open>OutOfFuel\<close> marks a loop that was cut off by the fuel of the model.
\<close>

datatype error =
    NullPointer
  | OutOfBounds
  | OutOfRange
  | SignedOverflow
  | AssertFailed string
  | Fatal string
  | OutOfFuel

type_synonym 'a result = "error + 'a"

definition rbind :: "'a result \<Rightarrow> ('a \<Rightarrow> 'b result) \<Rightarrow> 'b result" where
  "rbind m f = (case m of Inl e \<Rightarrow> Inl e | Inr x \<Rightarrow> f x)"

lemma rbind_simps [simp]:
  "rbind (Inl e) f = Inl e"
  "rbind (Inr x) f = f x"
  by (simp_all add: rbind_def)

lemma rbind_assoc: "rbind (rbind m f) g = rbind m (\<lambda>x. rbind (f x) g)"
  by (simp add: rbind_def split: sum.split)

lemma rbind_Inr_iff: "rbind m f = Inr y \<longleftrightarrow> (\<exists>x. m = Inr x \<and> f x = Inr y)"
  by (auto simp: rbind_def split: sum.split)

lemma rbind_cong [fundef_cong]:
  "m = m' \<Longrightarrow> (\<And>x. m' = Inr x \<Longrightarrow> f x = g x) \<Longrightarrow> rbind m f = rbind m' g"
  by (auto simp: rbind_def split: sum.split)

definition DEBUG_ASSERT :: "bool \<Rightarrow> string \<Rightarrow> unit result" where
  "DEBUG_ASSERT c msg = (if c then Inr () else Inl (AssertFailed msg))"

lemma DEBUG_ASSERT_simps [simp]:
  "c \<Longrightarrow> DEBUG_ASSERT c msg = Inr ()"
  "\<not> c \<Longrightarrow> DEBUG_ASSERT c msg = Inl (AssertFailed msg)"
  by (simp_all add: DEBUG_ASSERT_def)

lemma DEBUG_ASSERT_Inr: "DEBUG_ASSERT c msg = Inr u \<longleftrightarrow> c"
  by (simp add: DEBUG_ASSERT_def)

text \<open>Running an operation over a list; the first error stops.\<close>

fun rfold :: "('x \<Rightarrow> 's \<Rightarrow> 's result) \<Rightarrow> 'x list \<Rightarrow> 's \<Rightarrow> 's result" where
  "rfold f [] s = Inr s"
| "rfold f (x # xs) s = rbind (f x s) (rfold f xs)"

lemma rfold_append: "rfold f (xs @ ys) s = rbind (rfold f xs s) (rfold f ys)"
proof (induction xs arbitrary: s)
  case (Cons x xs)
  have "rfold f (xs @ ys) = (\<lambda>s. rbind (rfold f xs s) (rfold f ys))" using Cons.IH by (rule ext)
  then show ?case by (simp add: rbind_assoc)
qed simp

text \<open>An invariant of the step carries over to the run.\<close>

lemma rfold_rule:
  assumes "P [] s" and "\<And>done x s. P done s \<Longrightarrow> x \<in> set xs \<Longrightarrow> \<exists>s'. f x s = Inr s' \<and> P (done @ [x]) s'"
  shows "\<exists>s'. rfold f xs s = Inr s' \<and> P xs s'"
proof -
  have "set rest \<subseteq> set xs \<Longrightarrow> P pre t \<Longrightarrow> \<exists>s'. rfold f rest t = Inr s' \<and> P (pre @ rest) s'" for pre rest t
  proof (induction rest arbitrary: pre t)
    case (Cons x rest)
    obtain t' where "f x t = Inr t'" "P (pre @ [x]) t'" using assms(2) [OF Cons.prems(2), of x] Cons.prems(1) by auto
    then show ?case using Cons.IH [of "pre @ [x]" t'] Cons.prems(1) by simp
  qed simp
  from this [of xs "[]" s] assms(1) show ?thesis by simp
qed

section \<open>Signed arithmetic\<close>

text \<open>
  The result of an \<open>int\<close> or \<open>int64_t\<close> expression, computed in the integers: in range it is
  the value, out of range the behaviour is undefined.
\<close>

definition i32 :: "int \<Rightarrow> int result" where
  "i32 z = (if - (2 ^ 31) \<le> z \<and> z < 2 ^ 31 then Inr z else Inl SignedOverflow)"

definition i64 :: "int \<Rightarrow> int result" where
  "i64 z = (if - (2 ^ 63) \<le> z \<and> z < 2 ^ 63 then Inr z else Inl SignedOverflow)"

lemma i32_ok [simp]: "\<bar>z\<bar> < 2 ^ 31 \<Longrightarrow> i32 z = Inr z"
  by (auto simp: i32_def)

lemma i64_ok [simp]: "\<bar>z\<bar> < 2 ^ 63 \<Longrightarrow> i64 z = Inr z"
  by (auto simp: i64_def)

section \<open>Pointers\<close>

text \<open>
  An object is named by its address in its pool; a pointer is an optional address,
  \<open>None\<close> being \<open>nullptr\<close>. Dereferencing goes through \<open>deref\<close>.
\<close>

type_synonym ptr = "nat option"

definition deref :: "ptr \<Rightarrow> nat result" where
  "deref p = (case p of None \<Rightarrow> Inl NullPointer | Some a \<Rightarrow> Inr a)"

lemma deref_simps [simp]:
  "deref None = Inl NullPointer"
  "deref (Some a) = Inr a"
  by (simp_all add: deref_def)

lemma comp_fun_upd [simp]: "f \<circ> (g(a := b)) = (f \<circ> g)(a := f b)"
  by (simp add: fun_eq_iff)

lemma comp_fun_upd_same [simp]: "(f \<circ> g)(a := f (g a)) = f \<circ> g"
  by (simp add: fun_eq_iff)

lemma comp_fun_upd_other [simp]: "c \<noteq> a \<Longrightarrow> (f \<circ> g)(a := v, c := f (g c)) = (f \<circ> g)(a := v)"
  by (auto simp: fun_eq_iff)

lemma fun_upd_comp_ext: "(\<And>x. x \<noteq> a \<Longrightarrow> f x = g x) \<Longrightarrow> f = g(a := f a)"
  by (auto simp: fun_eq_iff)

section \<open>Doubly linked paths and rings\<close>

text \<open>
  \<open>links nx pv xs\<close>: along \<open>xs\<close> every node's next field leads to its successor and the
  successor's previous field back. \<open>ring\<close> closes the path: the last node leads to the
  first. These are the circular lists of price levels and of orders at a price level.
\<close>

fun links :: "(nat \<Rightarrow> ptr) \<Rightarrow> (nat \<Rightarrow> ptr) \<Rightarrow> nat list \<Rightarrow> bool" where
  "links nx pv (x # y # ys) \<longleftrightarrow> nx x = Some y \<and> pv y = Some x \<and> links nx pv (y # ys)"
| "links nx pv xs \<longleftrightarrow> True"

definition ring :: "(nat \<Rightarrow> ptr) \<Rightarrow> (nat \<Rightarrow> ptr) \<Rightarrow> nat list \<Rightarrow> bool" where
  "ring nx pv xs \<longleftrightarrow> xs \<noteq> [] \<and> distinct xs \<and> links nx pv (xs @ [hd xs])"

lemma links_append:
  "links nx pv (xs @ y # ys) \<longleftrightarrow> links nx pv (xs @ [y]) \<and> links nx pv (y # ys)"
proof (induction xs)
  case (Cons x xs)
  then show ?case by (cases xs) auto
qed simp

lemma links_snoc2: "links nx pv (xs @ [x, y]) \<longleftrightarrow> links nx pv (xs @ [x]) \<and> nx x = Some y \<and> pv y = Some x"
  using links_append [of nx pv xs x "[y]"] by auto

lemma links_cong:
  "(\<And>x. x \<in> set (butlast xs) \<Longrightarrow> nx x = nx' x) \<Longrightarrow> (\<And>x. x \<in> set (tl xs) \<Longrightarrow> pv x = pv' x) \<Longrightarrow>
    links nx pv xs = links nx' pv' xs"
proof (induction nx pv xs rule: links.induct)
  case (1 nx pv x y ys)
  have "links nx pv (y # ys) = links nx' pv' (y # ys)"
    by (rule "1.IH") (use "1.prems" in \<open>auto split: if_splits\<close>)
  then show ?case using "1.prems" by auto
qed auto

lemma ring_cong:
  assumes "\<And>x. x \<in> set xs \<Longrightarrow> nx x = nx' x" and "\<And>x. x \<in> set xs \<Longrightarrow> pv x = pv' x"
  shows "ring nx pv xs = ring nx' pv' xs"
proof (cases xs)
  case (Cons y ys)
  have "links nx pv (xs @ [hd xs]) = links nx' pv' (xs @ [hd xs])"
    by (rule links_cong) (use assms Cons in \<open>auto\<close>)
  then show ?thesis by (simp add: ring_def)
qed (simp add: ring_def)

lemma ring_upd_next [simp]: "z \<notin> set xs \<Longrightarrow> ring (nx(z := v)) pv xs = ring nx pv xs"
  by (rule ring_cong) auto

lemma ring_upd_prev [simp]: "z \<notin> set xs \<Longrightarrow> ring nx (pv(z := v)) xs = ring nx pv xs"
  by (rule ring_cong) auto

lemma ring_not_Nil [simp]: "\<not> ring nx pv []"
  by (simp add: ring_def)

lemma ring_distinct: "ring nx pv xs \<Longrightarrow> distinct xs"
  by (simp add: ring_def)

lemma ring_singleton [simp]: "ring nx pv [x] \<longleftrightarrow> nx x = Some x \<and> pv x = Some x"
  by (auto simp: ring_def)

lemma links_mid: "links nx pv (xs @ x # y # ys) \<Longrightarrow> nx x = Some y \<and> pv y = Some x"
  using links_append [of nx pv xs x "y # ys"] by simp

lemma ring_mid: "ring nx pv (xs @ x # y # ys) \<Longrightarrow> nx x = Some y \<and> pv y = Some x"
  by (rule links_mid [of nx pv xs x y "ys @ [hd (xs @ [x])]"]) (cases xs; simp add: ring_def)

lemma ring_next: "ring nx pv (xs @ x # y # ys) \<Longrightarrow> nx x = Some y"
  and ring_prev: "ring nx pv (xs @ x # y # ys) \<Longrightarrow> pv y = Some x"
  by (simp_all add: ring_mid)

lemma ring_last_next: "ring nx pv xs \<Longrightarrow> nx (last xs) = Some (hd xs)"
  by (cases xs rule: rev_cases) (auto simp: ring_def links_snoc2)

lemma ring_hd_prev: "ring nx pv xs \<Longrightarrow> pv (hd xs) = Some (last xs)"
  by (cases xs rule: rev_cases) (auto simp: ring_def links_snoc2)

lemma ring_rotate1:
  assumes "ring nx pv (x # xs)"
  shows "ring nx pv (xs @ [x])"
proof (cases xs)
  case Nil
  then show ?thesis using assms by simp
next
  case (Cons y ys)
  have "links nx pv ((xs @ [x]) @ [y])"
    using assms Cons links_snoc2 [of nx pv xs x y] by (simp add: ring_def)
  then show ?thesis using assms Cons by (simp add: ring_def)
qed

lemma ring_rotate: "ring nx pv (xs @ ys) \<Longrightarrow> ring nx pv (ys @ xs)"
proof (induction xs arbitrary: ys)
  case (Cons x xs)
  have "ring nx pv ((xs @ ys) @ [x])" using ring_rotate1 [of nx pv x "xs @ ys"] Cons.prems by simp
  then show ?case using Cons.IH [of "ys @ [x]"] by simp
qed simp

lemma ring_rotate_iff: "ring nx pv (xs @ ys) \<longleftrightarrow> ring nx pv (ys @ xs)"
  using ring_rotate by blast

text \<open>Unlinking the last node of a ring of at least two, and linking a new one at the end.\<close>

lemma ring_snoc_insert:
  assumes r: "ring nx pv xs" and z: "z \<notin> set xs" and b: "b = last xs" and c: "c = hd xs"
  shows "ring (nx(b := Some z, z := Some c)) (pv(z := Some b, c := Some z)) (xs @ [z])"
proof -
  obtain as where xs: "xs = as @ [b]" using r b by (metis append_butlast_last_id ring_not_Nil)
  have d: "distinct (as @ [b])" and l: "links nx pv (as @ [b])"
    using r xs by (auto simp: ring_def links_snoc2)
  have "links (nx(b := Some z, z := Some c)) (pv(z := Some b, c := Some z)) (as @ [b])
      = links nx pv (as @ [b])"
    by (rule links_cong) (use d z xs c in \<open>(cases as; auto)+\<close>)
  moreover have "hd (xs @ [z]) = c" using r c by (cases xs) auto
  moreover have "c \<noteq> z" "b \<noteq> z" using z c xs by (cases as; auto)+
  ultimately show ?thesis using d z l xs links_append [of _ _ as b "[z, c]"]
    by (simp add: ring_def)
qed

lemma ring_snoc_remove:
  assumes r: "ring nx pv (xs @ [z])" and ne: "xs \<noteq> []"
  shows "ring (nx(last xs := Some (hd xs))) (pv(hd xs := Some (last xs))) xs"
proof -
  obtain as b where xs: "xs = as @ [b]" using ne by (metis append_butlast_last_id)
  have d: "distinct (as @ [b])" using r xs by (auto simp: ring_def)
  have "links nx pv ((as @ [b]) @ z # [hd xs])" using r xs by (cases as) (simp_all add: ring_def)
  then have l: "links nx pv (as @ [b])" using links_append [of nx pv as b "[z, hd xs]"] by simp
  have "links (nx(b := Some (hd xs))) (pv(hd xs := Some b)) (as @ [b]) = links nx pv (as @ [b])"
    by (rule links_cong) (use d xs in \<open>(cases as; auto)+\<close>)
  then show ?thesis using d l xs links_snoc2 by (simp add: ring_def)
qed

text \<open>The same in the middle of a ring, by rotation.\<close>

lemma ring_insert:
  assumes r: "ring nx pv (xs @ ys)" and ne: "xs \<noteq> []" and z: "z \<notin> set (xs @ ys)"
    and b: "b = last xs" and c: "c = hd (ys @ xs)"
  shows "ring (nx(b := Some z, z := Some c)) (pv(z := Some b, c := Some z)) (xs @ z # ys)"
proof -
  have "ring nx pv (ys @ xs)" using r by (rule ring_rotate)
  then have "ring (nx(b := Some z, z := Some c)) (pv(z := Some b, c := Some z)) ((ys @ xs) @ [z])"
    by (rule ring_snoc_insert) (use ne z b c in auto)
  then show ?thesis using ring_rotate [of _ _ ys "xs @ [z]"] by simp
qed

lemma ring_remove:
  assumes r: "ring nx pv (xs @ z # ys)" and ne: "xs @ ys \<noteq> []"
    and b: "b = last (ys @ xs)" and c: "c = hd (ys @ xs)"
  shows "nx z = Some c" and "pv z = Some b" and "b \<in> set (xs @ ys)" and "c \<in> set (xs @ ys)"
    and "z \<notin> set (xs @ ys)" and "ring (nx(b := Some c)) (pv(c := Some b)) (xs @ ys)"
proof -
  have r1: "ring nx pv ((ys @ xs) @ [z])" using ring_rotate [of nx pv "xs @ [z]" ys] r by simp
  have ne': "ys @ xs \<noteq> []" using ne by auto
  have "ring (nx(b := Some c)) (pv(c := Some b)) (ys @ xs)"
    unfolding b c by (rule ring_snoc_remove [OF r1 ne'])
  then show "ring (nx(b := Some c)) (pv(c := Some b)) (xs @ ys)" by (rule ring_rotate)
  show "z \<notin> set (xs @ ys)" using ring_distinct [OF r] by auto
  show "b \<in> set (xs @ ys)" and "c \<in> set (xs @ ys)"
    using ne' b c last_in_set [OF ne'] hd_in_set [OF ne'] by auto
  show "nx z = Some c" using ring_last_next [OF r1] ne' c by (simp add: hd_append)
  obtain as where "ys @ xs = as @ [b]" using ne' b by (metis append_butlast_last_id)
  then show "pv z = Some b" using ring_prev [of nx pv as b z "[]"] r1 by simp
qed

text \<open>A node is its own predecessor exactly in a ring of one.\<close>

lemma ring_prev_self: "ring nx pv xs \<Longrightarrow> x \<in> set xs \<Longrightarrow> pv x = Some x \<longleftrightarrow> xs = [x]"
proof (cases "xs = [x]")
  case False
  assume r: "ring nx pv xs" and "x \<in> set xs"
  then obtain as bs where xs: "xs = as @ x # bs" by (meson split_list)
  then have "as @ bs \<noteq> []" using False by auto
  from ring_remove(2,3,5) [OF r [unfolded xs] this refl refl] False show ?thesis by auto
qed simp

lemma ring_next_self: "ring nx pv xs \<Longrightarrow> x \<in> set xs \<Longrightarrow> nx x = Some x \<longleftrightarrow> xs = [x]"
proof (cases "xs = [x]")
  case False
  assume r: "ring nx pv xs" and "x \<in> set xs"
  then obtain as bs where xs: "xs = as @ x # bs" by (meson split_list)
  then have "as @ bs \<noteq> []" using False by auto
  from ring_remove(1,4,5) [OF r [unfolded xs] this refl refl] False show ?thesis by auto
qed simp

end
