(* ===== verification/Types.thy ===== *)
theory Types
  imports Prelude
begin

text \<open>
  The data model of \<open>src/models\<close>: identifiers, prices and quantities at their width,
  the enumerations, the order, and the four message structs with the default member values
  that aggregate initialisation fills in.
\<close>

section \<open>Constants (constants.hpp)\<close>

definition MAX_NUM_INSTRUMENTS :: nat where [model_constants]: "MAX_NUM_INSTRUMENTS = 8"
definition MAX_CLIENT_UPDATES :: nat where [model_constants]: "MAX_CLIENT_UPDATES = 256 * 1024"
definition MAX_MARKET_UPDATES :: nat where [model_constants]: "MAX_MARKET_UPDATES = 256 * 1024"
definition MAX_NUM_CLIENTS :: nat where [model_constants]: "MAX_NUM_CLIENTS = 10"
definition MAX_NUM_ORDERS :: nat where [model_constants]: "MAX_NUM_ORDERS = 2048"
definition MAX_PRICE_LEVELS :: nat where [model_constants]: "MAX_PRICE_LEVELS = 256"

section \<open>Basic types (basic\_types.hpp)\<close>

type_synonym order_id_t = u64
type_synonym instrument_id_t = u8
type_synonym client_id_t = u32
type_synonym quantity_t = u32
type_synonym priority_t = u64

text \<open>\<open>price_t\<close> is \<open>int64_t\<close>: the 64 bits are read as two's complement by \<open>sint\<close>.\<close>

type_synonym price_t = u64

definition INVALID_ORDER_ID :: order_id_t where "INVALID_ORDER_ID = - 1"
definition INVALID_INSTRUMENT_ID :: instrument_id_t where "INVALID_INSTRUMENT_ID = - 1"
definition INVALID_CLIENT_ID :: client_id_t where "INVALID_CLIENT_ID = - 1"
definition INVALID_PRICE :: price_t where "INVALID_PRICE = 2 ^ 63 - 1"
definition INVALID_QUANTITY :: quantity_t where "INVALID_QUANTITY = - 1"
definition INVALID_PRIORITY :: priority_t where "INVALID_PRIORITY = - 1"

lemmas invalid_defs = INVALID_ORDER_ID_def INVALID_INSTRUMENT_ID_def INVALID_CLIENT_ID_def
  INVALID_PRICE_def INVALID_QUANTITY_def INVALID_PRIORITY_def

text \<open>
  The enumerations have the fixed underlying type \<open>uint8_t\<close>, and the decoders copy a raw
  byte into them, so every byte is a value: the last constructor of each datatype stands for
  the bytes that name no enumerator.
\<close>

datatype side_t = SIDE_INVALID | BUY | SELL | SIDE_UNKNOWN u8

definition side_of_byte :: "u8 \<Rightarrow> side_t" where
  "side_of_byte b = (if b = 0 then SIDE_INVALID else if b = 1 then BUY else if b = 2 then SELL
     else SIDE_UNKNOWN b)"

fun byte_of_side :: "side_t \<Rightarrow> u8" where
  "byte_of_side SIDE_INVALID = 0"
| "byte_of_side BUY = 1"
| "byte_of_side SELL = 2"
| "byte_of_side (SIDE_UNKNOWN b) = b"

fun wire_side :: "side_t \<Rightarrow> bool" where
  "wire_side (SIDE_UNKNOWN b) \<longleftrightarrow> b \<notin> {0, 1, 2}"
| "wire_side _ \<longleftrightarrow> True"

section \<open>Client requests (client\_request.hpp)\<close>

datatype client_request_type = REQ_INVALID | REQ_NEW | REQ_CANCEL | REQ_MODIFY | REQ_UNKNOWN u8

definition request_type_of_byte :: "u8 \<Rightarrow> client_request_type" where
  "request_type_of_byte b = (if b = 0 then REQ_INVALID else if b = 1 then REQ_NEW
     else if b = 2 then REQ_CANCEL else if b = 3 then REQ_MODIFY else REQ_UNKNOWN b)"

fun byte_of_request_type :: "client_request_type \<Rightarrow> u8" where
  "byte_of_request_type REQ_INVALID = 0"
| "byte_of_request_type REQ_NEW = 1"
| "byte_of_request_type REQ_CANCEL = 2"
| "byte_of_request_type REQ_MODIFY = 3"
| "byte_of_request_type (REQ_UNKNOWN b) = b"

fun wire_request_type :: "client_request_type \<Rightarrow> bool" where
  "wire_request_type (REQ_UNKNOWN b) \<longleftrightarrow> b \<notin> {0, 1, 2, 3}"
| "wire_request_type _ \<longleftrightarrow> True"

record client_request_internal =
  rq_type :: client_request_type
  rq_client_id :: client_id_t
  rq_instrument_id :: instrument_id_t
  rq_order_id :: order_id_t
  rq_side :: side_t
  rq_price :: price_t
  rq_qty :: quantity_t

definition default_client_request :: client_request_internal where
  "default_client_request = \<lparr>rq_type = REQ_INVALID, rq_client_id = INVALID_CLIENT_ID,
     rq_instrument_id = INVALID_INSTRUMENT_ID, rq_order_id = INVALID_ORDER_ID,
     rq_side = SIDE_INVALID, rq_price = INVALID_PRICE, rq_qty = INVALID_QUANTITY\<rparr>"

record client_request_external =
  rqx_sequence_number :: u64
  rqx_request :: client_request_internal

section \<open>Client responses (client\_response.hpp)\<close>

datatype client_response_type = RESP_INVALID | ACCEPTED | CANCELED | MODIFIED | FILLED
  | CANCEL_REJECTED | MODIFY_REJECTED | INVALID_REQUEST | RESP_UNKNOWN u8

definition response_type_of_byte :: "u8 \<Rightarrow> client_response_type" where
  "response_type_of_byte b = (if b = 0 then RESP_INVALID else if b = 1 then ACCEPTED
     else if b = 2 then CANCELED else if b = 3 then MODIFIED else if b = 4 then FILLED
     else if b = 5 then CANCEL_REJECTED else if b = 6 then MODIFY_REJECTED
     else if b = 7 then INVALID_REQUEST else RESP_UNKNOWN b)"

fun byte_of_response_type :: "client_response_type \<Rightarrow> u8" where
  "byte_of_response_type RESP_INVALID = 0"
| "byte_of_response_type ACCEPTED = 1"
| "byte_of_response_type CANCELED = 2"
| "byte_of_response_type MODIFIED = 3"
| "byte_of_response_type FILLED = 4"
| "byte_of_response_type CANCEL_REJECTED = 5"
| "byte_of_response_type MODIFY_REJECTED = 6"
| "byte_of_response_type INVALID_REQUEST = 7"
| "byte_of_response_type (RESP_UNKNOWN b) = b"

fun wire_response_type :: "client_response_type \<Rightarrow> bool" where
  "wire_response_type (RESP_UNKNOWN b) \<longleftrightarrow> b \<notin> {0, 1, 2, 3, 4, 5, 6, 7}"
| "wire_response_type _ \<longleftrightarrow> True"

record client_response_internal =
  rs_type :: client_response_type
  rs_client_id :: client_id_t
  rs_instrument_id :: instrument_id_t
  rs_client_order_id :: order_id_t
  rs_market_order_id :: order_id_t
  rs_side :: side_t
  rs_price :: price_t
  rs_exec_qty :: quantity_t
  rs_leaves_qty :: quantity_t

definition default_client_response :: client_response_internal where
  "default_client_response = \<lparr>rs_type = RESP_INVALID, rs_client_id = INVALID_CLIENT_ID,
     rs_instrument_id = INVALID_INSTRUMENT_ID, rs_client_order_id = INVALID_ORDER_ID,
     rs_market_order_id = INVALID_ORDER_ID, rs_side = SIDE_INVALID, rs_price = INVALID_PRICE,
     rs_exec_qty = INVALID_QUANTITY, rs_leaves_qty = INVALID_QUANTITY\<rparr>"

record client_response_external =
  rsx_sequence_number :: u64
  rsx_response :: client_response_internal

section \<open>Market updates (market\_update.hpp)\<close>

datatype market_update_type = MU_INVALID | MU_CLEAR | MU_ADD | MU_MODIFY | MU_CANCEL | MU_TRADE
  | MU_SNAPSHOT_START | MU_SNAPSHOT_END | MU_UNKNOWN u8

definition market_update_type_of_byte :: "u8 \<Rightarrow> market_update_type" where
  "market_update_type_of_byte b = (if b = 0 then MU_INVALID else if b = 1 then MU_CLEAR
     else if b = 2 then MU_ADD else if b = 3 then MU_MODIFY else if b = 4 then MU_CANCEL
     else if b = 5 then MU_TRADE else if b = 6 then MU_SNAPSHOT_START
     else if b = 7 then MU_SNAPSHOT_END else MU_UNKNOWN b)"

fun byte_of_market_update_type :: "market_update_type \<Rightarrow> u8" where
  "byte_of_market_update_type MU_INVALID = 0"
| "byte_of_market_update_type MU_CLEAR = 1"
| "byte_of_market_update_type MU_ADD = 2"
| "byte_of_market_update_type MU_MODIFY = 3"
| "byte_of_market_update_type MU_CANCEL = 4"
| "byte_of_market_update_type MU_TRADE = 5"
| "byte_of_market_update_type MU_SNAPSHOT_START = 6"
| "byte_of_market_update_type MU_SNAPSHOT_END = 7"
| "byte_of_market_update_type (MU_UNKNOWN b) = b"

fun wire_market_update_type :: "market_update_type \<Rightarrow> bool" where
  "wire_market_update_type (MU_UNKNOWN b) \<longleftrightarrow> b \<notin> {0, 1, 2, 3, 4, 5, 6, 7}"
| "wire_market_update_type _ \<longleftrightarrow> True"

record market_update =
  mu_type :: market_update_type
  mu_order_id :: order_id_t
  mu_instrument_id :: instrument_id_t
  mu_side :: side_t
  mu_price :: price_t
  mu_qty :: quantity_t
  mu_priority :: priority_t

definition default_market_update :: market_update where
  "default_market_update = \<lparr>mu_type = MU_INVALID, mu_order_id = INVALID_ORDER_ID,
     mu_instrument_id = INVALID_INSTRUMENT_ID, mu_side = SIDE_INVALID, mu_price = INVALID_PRICE,
     mu_qty = INVALID_QUANTITY, mu_priority = INVALID_PRIORITY\<rparr>"

record client_market_update =
  cmu_sequence_number :: u64
  cmu_update :: market_update

section \<open>Orders and price levels (order.hpp)\<close>

text \<open>
  \<open>order_info\<close> holds the order's data, its extension \<open>order\<close> the two list links; the
  data part (\<open>order_info.truncate\<close>) is what the abstract order book keeps of an order.
\<close>

record order_info =
  o_instrument_id :: instrument_id_t
  o_client_id :: client_id_t
  o_client_order_id :: order_id_t
  o_market_order_id :: order_id_t
  o_side :: side_t
  o_price :: price_t
  o_qty :: quantity_t
  o_priority :: priority_t

record order = order_info +
  prev_order :: ptr
  next_order :: ptr

definition default_order :: order where
  "default_order = \<lparr>o_instrument_id = INVALID_INSTRUMENT_ID, o_client_id = INVALID_CLIENT_ID,
     o_client_order_id = INVALID_ORDER_ID, o_market_order_id = INVALID_ORDER_ID,
     o_side = SIDE_INVALID, o_price = INVALID_PRICE, o_qty = INVALID_QUANTITY,
     o_priority = INVALID_PRIORITY, prev_order = None, next_order = None\<rparr>"

record price_level =
  l_side :: side_t
  l_price :: price_t
  first_order :: ptr
  prev_entry :: ptr
  next_entry :: ptr

definition default_price_level :: price_level where
  "default_price_level = \<lparr>l_side = SIDE_INVALID, l_price = INVALID_PRICE, first_order = None,
     prev_entry = None, next_entry = None\<rparr>"

section \<open>Enumerations and bytes\<close>

lemma side_of_byte_inverse [simp]: "byte_of_side (side_of_byte b) = b"
  by (simp add: side_of_byte_def)

lemma request_type_of_byte_inverse [simp]: "byte_of_request_type (request_type_of_byte b) = b"
  by (simp add: request_type_of_byte_def)

lemma response_type_of_byte_inverse [simp]: "byte_of_response_type (response_type_of_byte b) = b"
  by (simp add: response_type_of_byte_def)

lemma market_update_type_of_byte_inverse [simp]:
  "byte_of_market_update_type (market_update_type_of_byte b) = b"
  by (simp add: market_update_type_of_byte_def)

lemma byte_of_side_inverse [simp]: "wire_side s \<Longrightarrow> side_of_byte (byte_of_side s) = s"
  by (cases s) (auto simp: side_of_byte_def)

lemma byte_of_request_type_inverse [simp]:
  "wire_request_type t \<Longrightarrow> request_type_of_byte (byte_of_request_type t) = t"
  by (cases t) (auto simp: request_type_of_byte_def)

lemma byte_of_response_type_inverse [simp]:
  "wire_response_type t \<Longrightarrow> response_type_of_byte (byte_of_response_type t) = t"
  by (cases t) (auto simp: response_type_of_byte_def)

lemma byte_of_market_update_type_inverse [simp]:
  "wire_market_update_type t \<Longrightarrow> market_update_type_of_byte (byte_of_market_update_type t) = t"
  by (cases t) (auto simp: market_update_type_of_byte_def)

lemma wire_of_byte [simp]:
  "wire_side (side_of_byte b)" "wire_request_type (request_type_of_byte b)"
  "wire_response_type (response_type_of_byte b)"
  "wire_market_update_type (market_update_type_of_byte b)"
  by (simp_all add: side_of_byte_def request_type_of_byte_def response_type_of_byte_def
      market_update_type_of_byte_def)

end
