(* ===== verification/ByteOrder.thy ===== *)
theory ByteOrder
  imports Types
begin

unbundle bit_operations_syntax

text \<open>
  The byte order helpers of \<open>utils/utils.hpp\<close>, and integers in memory. What
  \<open>std::memcpy\<close> stores for an integer depends on the host's byte order, which is a
  parameter here (\<open>be\<close>, what \<open>is_big_endian()\<close> returns). The main result is that the pair
  of \<open>to_big_endian\<close> and \<open>memcpy\<close> produces the same bytes, most significant first, on
  both kinds of host.
\<close>

section \<open>The helpers\<close>

definition swap_bytes_16 :: "u16 \<Rightarrow> u16" where
  "swap_bytes_16 v = drop_bit 8 v OR push_bit 8 v"

definition swap_bytes_32 :: "u32 \<Rightarrow> u32" where
  "swap_bytes_32 v =
     (drop_bit 24 v AND 0xFF) OR
     (drop_bit 8 v AND 0xFF00) OR
     (push_bit 8 v AND 0xFF0000) OR
     (push_bit 24 v AND 0xFF000000)"

definition swap_bytes_64 :: "u64 \<Rightarrow> u64" where
  "swap_bytes_64 v =
     (drop_bit 56 v AND 0xFF) OR
     (drop_bit 40 v AND 0xFF00) OR
     (drop_bit 24 v AND 0xFF0000) OR
     (drop_bit 8 v AND 0xFF000000) OR
     (push_bit 8 v AND 0xFF00000000) OR
     (push_bit 24 v AND 0xFF0000000000) OR
     (push_bit 40 v AND 0xFF000000000000) OR
     (push_bit 56 v AND 0xFF00000000000000)"

definition to_big_endian_16 :: "bool \<Rightarrow> u16 \<Rightarrow> u16" where
  "to_big_endian_16 be v = (if be then v else swap_bytes_16 v)"
definition to_big_endian_32 :: "bool \<Rightarrow> u32 \<Rightarrow> u32" where
  "to_big_endian_32 be v = (if be then v else swap_bytes_32 v)"
definition to_big_endian_64 :: "bool \<Rightarrow> u64 \<Rightarrow> u64" where
  "to_big_endian_64 be v = (if be then v else swap_bytes_64 v)"
definition from_big_endian_16 :: "bool \<Rightarrow> u16 \<Rightarrow> u16" where
  "from_big_endian_16 be v = (if be then v else swap_bytes_16 v)"
definition from_big_endian_32 :: "bool \<Rightarrow> u32 \<Rightarrow> u32" where
  "from_big_endian_32 be v = (if be then v else swap_bytes_32 v)"
definition from_big_endian_64 :: "bool \<Rightarrow> u64 \<Rightarrow> u64" where
  "from_big_endian_64 be v = (if be then v else swap_bytes_64 v)"

section \<open>Integers in memory\<close>

text \<open>The byte of weight \<open>i\<close>, and the object representation on a little or big endian host.\<close>

definition byte_at :: "nat \<Rightarrow> 'a::len word \<Rightarrow> u8" where
  "byte_at i v = ucast (drop_bit (8 * i) v)"

definition object_bytes :: "bool \<Rightarrow> nat \<Rightarrow> 'a::len word \<Rightarrow> u8 list" where
  "object_bytes be n v = (let lo = map (\<lambda>i. byte_at i v) [0..<n] in if be then rev lo else lo)"

fun join_bytes :: "u8 list \<Rightarrow> 'a::len word" where
  "join_bytes [] = 0"
| "join_bytes (b # bs) = ucast b OR push_bit 8 (join_bytes bs)"

definition object_value :: "bool \<Rightarrow> u8 list \<Rightarrow> 'a::len word" where
  "object_value be bs = join_bytes (if be then rev bs else bs)"

text \<open>A buffer is memory addressed from its first byte; \<open>memcpy\<close> in both directions.\<close>

type_synonym buffer = "nat \<Rightarrow> u8"

definition write_bytes :: "nat \<Rightarrow> u8 list \<Rightarrow> buffer \<Rightarrow> buffer" where
  "write_bytes off bs buf = (\<lambda>i. if off \<le> i \<and> i < off + length bs then bs ! (i - off) else buf i)"

definition read_bytes :: "nat \<Rightarrow> nat \<Rightarrow> buffer \<Rightarrow> u8 list" where
  "read_bytes off n buf = map (\<lambda>i. buf (off + i)) [0..<n]"

section \<open>Swapping reverses the bytes\<close>

lemma bit_byte_at: "bit (byte_at i v) n \<longleftrightarrow> n < 8 \<and> bit (v :: 'a::len word) (8 * i + n)"
  by (auto simp: byte_at_def bit_simps)

lemma masks:
  "(0xFF :: 'a::len word) = mask 8"
  "(0xFF00 :: 'a word) = push_bit 8 (mask 8)"
  "(0xFF0000 :: 'a word) = push_bit 16 (mask 8)"
  "(0xFF000000 :: 'a word) = push_bit 24 (mask 8)"
  "(0xFF00000000 :: 'a word) = push_bit 32 (mask 8)"
  "(0xFF0000000000 :: 'a word) = push_bit 40 (mask 8)"
  "(0xFF000000000000 :: 'a word) = push_bit 48 (mask 8)"
  "(0xFF00000000000000 :: 'a word) = push_bit 56 (mask 8)"
  by (simp_all add: mask_eq_exp_minus_1 push_bit_eq_mult)

lemma bit_masked:
  fixes v :: "'a::len word"
  shows "bit (drop_bit a v AND push_bit b (mask 8)) n \<longleftrightarrow> b \<le> n \<and> n < b + 8 \<and> n < LENGTH('a) \<and> bit v (a + n)"
    and "bit (push_bit a v AND push_bit b (mask 8)) n \<longleftrightarrow>
      b \<le> n \<and> n < b + 8 \<and> n < LENGTH('a) \<and> a \<le> n \<and> bit v (n - a)"
    and "bit (drop_bit a v AND mask 8) n \<longleftrightarrow> n < 8 \<and> n < LENGTH('a) \<and> bit v (a + n)"
  by (auto simp: bit_simps)

lemma bit_swap_bytes_64:
  assumes "k < 8" and "m < 8"
  shows "bit (swap_bytes_64 v) (8 * k + m) \<longleftrightarrow> bit v (8 * (7 - k) + m)"
proof -
  from assms(1) have "k \<in> {0, 1, 2, 3, 4, 5, 6, 7}" by auto
  then show ?thesis using assms(2) unfolding swap_bytes_64_def masks
    by (elim insertE emptyE) (simp_all add: bit_or_iff bit_masked)
qed

lemma bit_swap_bytes_32:
  assumes "k < 4" and "m < 8"
  shows "bit (swap_bytes_32 v) (8 * k + m) \<longleftrightarrow> bit v (8 * (3 - k) + m)"
proof -
  from assms(1) have "k \<in> {0, 1, 2, 3}" by auto
  then show ?thesis using assms(2) unfolding swap_bytes_32_def masks
    by (elim insertE emptyE) (simp_all add: bit_or_iff bit_masked)
qed

lemma bit_swap_bytes_16:
  assumes "k < 2" and "m < 8"
  shows "bit (swap_bytes_16 v) (8 * k + m) \<longleftrightarrow> bit v (8 * (1 - k) + m)"
proof -
  from assms(1) have "k \<in> {0, 1}" by auto
  then show ?thesis using assms(2) unfolding swap_bytes_16_def
    by (elim insertE emptyE) (auto simp: bit_simps dest: bit_imp_le_length)
qed

lemma byte_at_swap_64: "i < 8 \<Longrightarrow> byte_at i (swap_bytes_64 v) = byte_at (7 - i) v"
  by (rule bit_word_eqI) (simp add: bit_byte_at bit_swap_bytes_64)

lemma byte_at_swap_32: "i < 4 \<Longrightarrow> byte_at i (swap_bytes_32 v) = byte_at (3 - i) v"
  by (rule bit_word_eqI) (simp add: bit_byte_at bit_swap_bytes_32)

lemma byte_at_swap_16: "i < 2 \<Longrightarrow> byte_at i (swap_bytes_16 v) = byte_at (1 - i) v"
  by (rule bit_word_eqI) (simp add: bit_byte_at bit_swap_bytes_16)

lemma map_rev_upt: "(\<And>i. i < n \<Longrightarrow> f i = g (n - 1 - i)) \<Longrightarrow> map f [0..<n] = rev (map g [0..<n])"
  by (rule nth_equalityI) (auto simp: rev_nth)

section \<open>The wire format\<close>

text \<open>Most significant byte first, whatever the host.\<close>

definition wire_bytes :: "nat \<Rightarrow> 'a::len word \<Rightarrow> u8 list" where
  "wire_bytes n v = rev (map (\<lambda>i. byte_at i v) [0..<n])"

lemma length_wire_bytes [simp]: "length (wire_bytes n v) = n"
  by (simp add: wire_bytes_def)

lemma object_bytes_to_big_endian:
  "object_bytes be 2 (to_big_endian_16 be v2) = wire_bytes 2 v2"
  "object_bytes be 4 (to_big_endian_32 be v4) = wire_bytes 4 v4"
  "object_bytes be 8 (to_big_endian_64 be v8) = wire_bytes 8 v8"
  unfolding object_bytes_def wire_bytes_def to_big_endian_16_def to_big_endian_32_def
    to_big_endian_64_def Let_def
  by (auto simp: byte_at_swap_16 byte_at_swap_32 byte_at_swap_64 intro!: map_rev_upt)

lemma bit_join_bytes:
  "bit (join_bytes bs :: 'a::len word) n \<longleftrightarrow>
    n < LENGTH('a) \<and> n div 8 < length bs \<and> bit (bs ! (n div 8)) (n mod 8)"
proof (induction bs arbitrary: n)
  case (Cons b bs)
  show ?case
  proof (cases "n < 8")
    case True
    then show ?thesis by (auto simp: bit_simps)
  next
    case False
    then obtain k where "n = k + 8" by (metis add.commute le_add_diff_inverse not_less)
    moreover have "(k + 8) div 8 = Suc (k div 8)" by simp
    ultimately show ?thesis using Cons.IH [of k] by (auto simp: bit_simps dest: bit_imp_le_length)
  qed
qed simp

lemma join_byte_at:
  fixes v :: "'a::len word"
  assumes "LENGTH('a) = 8 * n"
  shows "join_bytes (map (\<lambda>i. byte_at i v) [0..<n]) = v"
proof (rule bit_word_eqI)
  fix k assume "k < LENGTH('a)"
  then have "k div 8 < n" using assms by simp
  then show "bit (join_bytes (map (\<lambda>i. byte_at i v) [0..<n]) :: 'a word) k \<longleftrightarrow> bit v k"
    using \<open>k < LENGTH('a)\<close> by (simp add: bit_join_bytes bit_byte_at)
qed

lemma object_value_object_bytes:
  fixes v :: "'a::len word"
  shows "LENGTH('a) = 8 * n \<Longrightarrow> object_value be (object_bytes be n v) = v"
  by (simp add: object_value_def object_bytes_def Let_def join_byte_at)

lemma swap_swap:
  "swap_bytes_64 (swap_bytes_64 v) = v" "swap_bytes_32 (swap_bytes_32 w) = w"
  "swap_bytes_16 (swap_bytes_16 u) = u"
proof -
  have split: "k = 8 * (k div 8) + k mod 8" for k :: nat by simp
  show "swap_bytes_64 (swap_bytes_64 v) = v"
    by (rule bit_word_eqI, subst split, subst bit_swap_bytes_64) (auto simp: bit_swap_bytes_64)
  show "swap_bytes_32 (swap_bytes_32 w) = w"
    by (rule bit_word_eqI, subst split, subst bit_swap_bytes_32) (auto simp: bit_swap_bytes_32)
  show "swap_bytes_16 (swap_bytes_16 u) = u"
    by (rule bit_word_eqI, subst split, subst bit_swap_bytes_16) (auto simp: bit_swap_bytes_16)
qed

lemma from_to_big_endian [simp]:
  "from_big_endian_16 be (to_big_endian_16 be v2) = v2"
  "from_big_endian_32 be (to_big_endian_32 be v4) = v4"
  "from_big_endian_64 be (to_big_endian_64 be v8) = v8"
  by (simp_all add: from_big_endian_16_def to_big_endian_16_def from_big_endian_32_def
      to_big_endian_32_def from_big_endian_64_def to_big_endian_64_def swap_swap)

text \<open>Decoding the wire bytes on any host gives the value back.\<close>

lemma object_value_wire_bytes [simp]:
  "from_big_endian_32 be (object_value be (wire_bytes 4 v4)) = v4"
  "from_big_endian_64 be (object_value be (wire_bytes 8 v8)) = v8"
proof -
  show "from_big_endian_32 be (object_value be (wire_bytes 4 v4)) = v4"
    using object_value_object_bytes [of 4 be "to_big_endian_32 be v4"]
    by (simp add: object_bytes_to_big_endian)
  show "from_big_endian_64 be (object_value be (wire_bytes 8 v8)) = v8"
    using object_value_object_bytes [of 8 be "to_big_endian_64 be v8"]
    by (simp add: object_bytes_to_big_endian)
qed

section \<open>Reading back what was written\<close>

lemma read_write_same [simp]: "n = length bs \<Longrightarrow> read_bytes off n (write_bytes off bs buf) = bs"
  by (rule nth_equalityI) (auto simp: read_bytes_def write_bytes_def)

lemma read_write_other:
  "off' + length bs \<le> off \<or> off + n \<le> off' \<Longrightarrow>
    read_bytes off n (write_bytes off' bs buf) = read_bytes off n buf"
  by (auto simp: read_bytes_def write_bytes_def)

lemma length_read_bytes [simp]: "length (read_bytes off n buf) = n"
  by (simp add: read_bytes_def)

lemma write_write_adjacent:
  "off' = off + length bs \<Longrightarrow>
    write_bytes off' cs (write_bytes off bs buf) = write_bytes off (bs @ cs) buf"
  by (auto simp: write_bytes_def fun_eq_iff nth_append)

lemma read_bytes_append: "read_bytes off (m + n) buf = read_bytes off m buf @ read_bytes (off + m) n buf"
  by (rule nth_equalityI) (auto simp: read_bytes_def nth_append)

lemma nth_read_bytes [simp]: "i < n \<Longrightarrow> read_bytes off n buf ! i = buf (off + i)"
  by (simp add: read_bytes_def)

lemma write_read_same [simp]: "write_bytes off (read_bytes off n buf) buf = buf"
  by (rule ext) (auto simp: write_bytes_def)

lemma read_bytes_take:
  assumes "read_bytes off (length bs) buf = bs" and "i + n \<le> length bs"
  shows "read_bytes (off + i) n buf = take n (drop i bs)"
proof (rule nth_equalityI)
  fix j assume j: "j < length (read_bytes (off + i) n buf)"
  then have "read_bytes (off + i) n buf ! j = read_bytes off (length bs) buf ! (i + j)"
    using assms(2) by (simp add: add.assoc)
  also have "\<dots> = take n (drop i bs) ! j" using assms j by simp
  finally show "read_bytes (off + i) n buf ! j = take n (drop i bs) ! j" .
qed (use assms(2) in simp)

end
