(* ===== verification/Serializer.thy ===== *)
theory Serializer
  imports ByteOrder
begin

text \<open>
  The binary protocol: the encoders and decoders of \<open>src/order_server/serializer.hpp\<close>,
  \<open>src/market_data/market_data_encoder.hpp\<close> and, on the client's side,
  \<open>example/feed_handler/market_data_decoder.hpp\<close>, as the sequences of copies at a running
  offset that they are. \<open>be\<close> is the byte order of the host that runs the code, \<open>base\<close> the
  position of the buffer pointer it is given. The theory proves that each encoder writes exactly
  the message's wire bytes, and that decoding is a bijection with encoding between any two hosts.
\<close>

section \<open>Sizes of the packed structs\<close>

definition sizeof_client_request_external :: nat where "sizeof_client_request_external = 35"
definition sizeof_client_response_external :: nat where "sizeof_client_response_external = 47"
definition sizeof_client_market_update :: nat where "sizeof_client_market_update = 39"

lemmas sizeof_defs = sizeof_client_request_external_def sizeof_client_response_external_def
  sizeof_client_market_update_def

section \<open>Encoders and decoders\<close>

definition serialize_client_request :: "bool \<Rightarrow> client_request_external \<Rightarrow> nat \<Rightarrow> buffer \<Rightarrow> buffer" where
  "serialize_client_request be x base buffer =
     (let offset = base;
          seq_number_be = to_big_endian_64 be (rqx_sequence_number x);
          buffer = write_bytes offset (object_bytes be 8 seq_number_be) buffer;
          offset = offset + 8;
          buffer = write_bytes offset [byte_of_request_type (rq_type (rqx_request x))] buffer;
          offset = offset + 1;
          client_id_be = to_big_endian_32 be (rq_client_id (rqx_request x));
          buffer = write_bytes offset (object_bytes be 4 client_id_be) buffer;
          offset = offset + 4;
          buffer = write_bytes offset [rq_instrument_id (rqx_request x)] buffer;
          offset = offset + 1;
          order_id_be = to_big_endian_64 be (rq_order_id (rqx_request x));
          buffer = write_bytes offset (object_bytes be 8 order_id_be) buffer;
          offset = offset + 8;
          buffer = write_bytes offset [byte_of_side (rq_side (rqx_request x))] buffer;
          offset = offset + 1;
          price_be = to_big_endian_64 be (rq_price (rqx_request x));
          buffer = write_bytes offset (object_bytes be 8 price_be) buffer;
          offset = offset + 8;
          qty_be = to_big_endian_32 be (rq_qty (rqx_request x));
          buffer = write_bytes offset (object_bytes be 4 qty_be) buffer
      in buffer)"

definition deserialize_client_request :: "bool \<Rightarrow> nat \<Rightarrow> buffer \<Rightarrow> client_request_external" where
  "deserialize_client_request be base buffer =
     (let offset = base;
          sequence_number_be = object_value be (read_bytes offset 8 buffer);
          sequence_number = from_big_endian_64 be sequence_number_be;
          offset = offset + 8;
          type = request_type_of_byte (buffer offset);
          offset = offset + 1;
          client_id_be = object_value be (read_bytes offset 4 buffer);
          client_id = from_big_endian_32 be client_id_be;
          offset = offset + 4;
          instrument_id = buffer offset;
          offset = offset + 1;
          order_id_be = object_value be (read_bytes offset 8 buffer);
          order_id = from_big_endian_64 be order_id_be;
          offset = offset + 8;
          side = side_of_byte (buffer offset);
          offset = offset + 1;
          price_be = object_value be (read_bytes offset 8 buffer);
          price = from_big_endian_64 be price_be;
          offset = offset + 8;
          qty_be = object_value be (read_bytes offset 4 buffer);
          qty = from_big_endian_32 be qty_be
      in \<lparr>rqx_sequence_number = sequence_number, rqx_request = \<lparr>rq_type = type, rq_client_id = client_id, rq_instrument_id = instrument_id, rq_order_id = order_id, rq_side = side, rq_price = price, rq_qty = qty\<rparr>\<rparr>)"

definition serialize_client_response :: "bool \<Rightarrow> client_response_external \<Rightarrow> nat \<Rightarrow> buffer \<Rightarrow> buffer" where
  "serialize_client_response be x base buffer =
     (let offset = base;
          seq_number_be = to_big_endian_64 be (rsx_sequence_number x);
          buffer = write_bytes offset (object_bytes be 8 seq_number_be) buffer;
          offset = offset + 8;
          buffer = write_bytes offset [byte_of_response_type (rs_type (rsx_response x))] buffer;
          offset = offset + 1;
          client_id_be = to_big_endian_32 be (rs_client_id (rsx_response x));
          buffer = write_bytes offset (object_bytes be 4 client_id_be) buffer;
          offset = offset + 4;
          buffer = write_bytes offset [rs_instrument_id (rsx_response x)] buffer;
          offset = offset + 1;
          client_order_id_be = to_big_endian_64 be (rs_client_order_id (rsx_response x));
          buffer = write_bytes offset (object_bytes be 8 client_order_id_be) buffer;
          offset = offset + 8;
          market_order_id_be = to_big_endian_64 be (rs_market_order_id (rsx_response x));
          buffer = write_bytes offset (object_bytes be 8 market_order_id_be) buffer;
          offset = offset + 8;
          buffer = write_bytes offset [byte_of_side (rs_side (rsx_response x))] buffer;
          offset = offset + 1;
          price_be = to_big_endian_64 be (rs_price (rsx_response x));
          buffer = write_bytes offset (object_bytes be 8 price_be) buffer;
          offset = offset + 8;
          exec_qty_be = to_big_endian_32 be (rs_exec_qty (rsx_response x));
          buffer = write_bytes offset (object_bytes be 4 exec_qty_be) buffer;
          offset = offset + 4;
          leaves_qty_be = to_big_endian_32 be (rs_leaves_qty (rsx_response x));
          buffer = write_bytes offset (object_bytes be 4 leaves_qty_be) buffer
      in buffer)"

definition deserialize_client_response :: "bool \<Rightarrow> nat \<Rightarrow> buffer \<Rightarrow> client_response_external" where
  "deserialize_client_response be base buffer =
     (let offset = base;
          sequence_number_be = object_value be (read_bytes offset 8 buffer);
          sequence_number = from_big_endian_64 be sequence_number_be;
          offset = offset + 8;
          type = response_type_of_byte (buffer offset);
          offset = offset + 1;
          client_id_be = object_value be (read_bytes offset 4 buffer);
          client_id = from_big_endian_32 be client_id_be;
          offset = offset + 4;
          instrument_id = buffer offset;
          offset = offset + 1;
          client_order_id_be = object_value be (read_bytes offset 8 buffer);
          client_order_id = from_big_endian_64 be client_order_id_be;
          offset = offset + 8;
          market_order_id_be = object_value be (read_bytes offset 8 buffer);
          market_order_id = from_big_endian_64 be market_order_id_be;
          offset = offset + 8;
          side = side_of_byte (buffer offset);
          offset = offset + 1;
          price_be = object_value be (read_bytes offset 8 buffer);
          price = from_big_endian_64 be price_be;
          offset = offset + 8;
          exec_qty_be = object_value be (read_bytes offset 4 buffer);
          exec_qty = from_big_endian_32 be exec_qty_be;
          offset = offset + 4;
          leaves_qty_be = object_value be (read_bytes offset 4 buffer);
          leaves_qty = from_big_endian_32 be leaves_qty_be
      in \<lparr>rsx_sequence_number = sequence_number, rsx_response = \<lparr>rs_type = type, rs_client_id = client_id, rs_instrument_id = instrument_id, rs_client_order_id = client_order_id, rs_market_order_id = market_order_id, rs_side = side, rs_price = price, rs_exec_qty = exec_qty, rs_leaves_qty = leaves_qty\<rparr>\<rparr>)"

definition serialize_client_market_update :: "bool \<Rightarrow> client_market_update \<Rightarrow> nat \<Rightarrow> buffer \<Rightarrow> buffer" where
  "serialize_client_market_update be x base buffer =
     (let offset = base;
          seq_number_be = to_big_endian_64 be (cmu_sequence_number x);
          buffer = write_bytes offset (object_bytes be 8 seq_number_be) buffer;
          offset = offset + 8;
          buffer = write_bytes offset [byte_of_market_update_type (mu_type (cmu_update x))] buffer;
          offset = offset + 1;
          order_id_be = to_big_endian_64 be (mu_order_id (cmu_update x));
          buffer = write_bytes offset (object_bytes be 8 order_id_be) buffer;
          offset = offset + 8;
          buffer = write_bytes offset [mu_instrument_id (cmu_update x)] buffer;
          offset = offset + 1;
          buffer = write_bytes offset [byte_of_side (mu_side (cmu_update x))] buffer;
          offset = offset + 1;
          price_be = to_big_endian_64 be (mu_price (cmu_update x));
          buffer = write_bytes offset (object_bytes be 8 price_be) buffer;
          offset = offset + 8;
          qty_be = to_big_endian_32 be (mu_qty (cmu_update x));
          buffer = write_bytes offset (object_bytes be 4 qty_be) buffer;
          offset = offset + 4;
          priority_be = to_big_endian_64 be (mu_priority (cmu_update x));
          buffer = write_bytes offset (object_bytes be 8 priority_be) buffer
      in buffer)"

definition deserialize_market_update :: "bool \<Rightarrow> nat \<Rightarrow> buffer \<Rightarrow> client_market_update" where
  "deserialize_market_update be base buffer =
     (let offset = base;
          sequence_number_be = object_value be (read_bytes offset 8 buffer);
          sequence_number = from_big_endian_64 be sequence_number_be;
          offset = offset + 8;
          type = market_update_type_of_byte (buffer offset);
          offset = offset + 1;
          order_id_be = object_value be (read_bytes offset 8 buffer);
          order_id = from_big_endian_64 be order_id_be;
          offset = offset + 8;
          instrument_id = buffer offset;
          offset = offset + 1;
          side = side_of_byte (buffer offset);
          offset = offset + 1;
          price_be = object_value be (read_bytes offset 8 buffer);
          price = from_big_endian_64 be price_be;
          offset = offset + 8;
          qty_be = object_value be (read_bytes offset 4 buffer);
          qty = from_big_endian_32 be qty_be;
          offset = offset + 4;
          priority_be = object_value be (read_bytes offset 8 buffer);
          priority = from_big_endian_64 be priority_be
      in \<lparr>cmu_sequence_number = sequence_number, cmu_update = \<lparr>mu_type = type, mu_order_id = order_id, mu_instrument_id = instrument_id, mu_side = side, mu_price = price, mu_qty = qty, mu_priority = priority\<rparr>\<rparr>)"

section \<open>The wire images\<close>

definition request_bytes :: "client_request_external \<Rightarrow> u8 list" where
  "request_bytes x = wire_bytes 8 (rqx_sequence_number x) @
     [byte_of_request_type (rq_type (rqx_request x))] @
     wire_bytes 4 (rq_client_id (rqx_request x)) @
     [rq_instrument_id (rqx_request x)] @
     wire_bytes 8 (rq_order_id (rqx_request x)) @
     [byte_of_side (rq_side (rqx_request x))] @
     wire_bytes 8 (rq_price (rqx_request x)) @
     wire_bytes 4 (rq_qty (rqx_request x))"

definition response_bytes :: "client_response_external \<Rightarrow> u8 list" where
  "response_bytes x = wire_bytes 8 (rsx_sequence_number x) @
     [byte_of_response_type (rs_type (rsx_response x))] @
     wire_bytes 4 (rs_client_id (rsx_response x)) @
     [rs_instrument_id (rsx_response x)] @
     wire_bytes 8 (rs_client_order_id (rsx_response x)) @
     wire_bytes 8 (rs_market_order_id (rsx_response x)) @
     [byte_of_side (rs_side (rsx_response x))] @
     wire_bytes 8 (rs_price (rsx_response x)) @
     wire_bytes 4 (rs_exec_qty (rsx_response x)) @
     wire_bytes 4 (rs_leaves_qty (rsx_response x))"

definition market_update_bytes :: "client_market_update \<Rightarrow> u8 list" where
  "market_update_bytes x = wire_bytes 8 (cmu_sequence_number x) @
     [byte_of_market_update_type (mu_type (cmu_update x))] @
     wire_bytes 8 (mu_order_id (cmu_update x)) @
     [mu_instrument_id (cmu_update x)] @
     [byte_of_side (mu_side (cmu_update x))] @
     wire_bytes 8 (mu_price (cmu_update x)) @
     wire_bytes 4 (mu_qty (cmu_update x)) @
     wire_bytes 8 (mu_priority (cmu_update x))"

lemma length_images [simp]:
  "length (request_bytes q) = sizeof_client_request_external"
  "length (response_bytes r) = sizeof_client_response_external"
  "length (market_update_bytes u) = sizeof_client_market_update"
  by (simp_all add: request_bytes_def response_bytes_def market_update_bytes_def sizeof_defs)

definition wire_request :: "client_request_external \<Rightarrow> bool" where
  "wire_request x \<longleftrightarrow> wire_request_type (rq_type (rqx_request x)) \<and> wire_side (rq_side (rqx_request x))"

definition wire_response :: "client_response_external \<Rightarrow> bool" where
  "wire_response x \<longleftrightarrow> wire_response_type (rs_type (rsx_response x)) \<and> wire_side (rs_side (rsx_response x))"

definition wire_market_update :: "client_market_update \<Rightarrow> bool" where
  "wire_market_update x \<longleftrightarrow> wire_market_update_type (mu_type (cmu_update x)) \<and> wire_side (mu_side (cmu_update x))"

section \<open>Encoders write the wire image\<close>

lemma serialize_client_request_eq:
  "serialize_client_request be x base buf = write_bytes base (request_bytes x) buf"
  unfolding serialize_client_request_def request_bytes_def Let_def
  by (simp add: object_bytes_to_big_endian write_write_adjacent)

lemma serialize_client_response_eq:
  "serialize_client_response be x base buf = write_bytes base (response_bytes x) buf"
  unfolding serialize_client_response_def response_bytes_def Let_def
  by (simp add: object_bytes_to_big_endian write_write_adjacent)

lemma serialize_client_market_update_eq:
  "serialize_client_market_update be x base buf = write_bytes base (market_update_bytes x) buf"
  unfolding serialize_client_market_update_def market_update_bytes_def Let_def
  by (simp add: object_bytes_to_big_endian write_write_adjacent)

section \<open>Decoders read it back\<close>

lemma buffer_byte:
  "read_bytes base (length bs) buf = bs \<Longrightarrow> i < length bs \<Longrightarrow> buf (base + i) = bs ! i"
  using nth_read_bytes [of i "length bs" base buf] by simp

lemma deserialize_client_request_image:
  assumes "read_bytes base sizeof_client_request_external buf = request_bytes x" and "wire_request x"
  shows "deserialize_client_request be base buf = x"
proof -
  have r: "read_bytes base (length (request_bytes x)) buf = request_bytes x" using assms(1) by simp
  note seg = read_bytes_take [OF r] and byte = buffer_byte [OF r]
  show ?thesis using assms(2)
    seg [of 0 8] byte [of 8] seg [of 9 4] byte [of 13] seg [of 14 8] byte [of 22] seg [of 23 8] seg [of 31 4]
    by (simp add: deserialize_client_request_def Let_def request_bytes_def sizeof_defs wire_request_def
        nth_append add.commute)
qed

lemma deserialize_client_response_image:
  assumes "read_bytes base sizeof_client_response_external buf = response_bytes x" and "wire_response x"
  shows "deserialize_client_response be base buf = x"
proof -
  have r: "read_bytes base (length (response_bytes x)) buf = response_bytes x" using assms(1) by simp
  note seg = read_bytes_take [OF r] and byte = buffer_byte [OF r]
  show ?thesis using assms(2)
    seg [of 0 8] byte [of 8] seg [of 9 4] byte [of 13] seg [of 14 8] seg [of 22 8] byte [of 30]
    seg [of 31 8] seg [of 39 4] seg [of 43 4]
    by (simp add: deserialize_client_response_def Let_def response_bytes_def sizeof_defs wire_response_def
        nth_append add.commute)
qed

lemma deserialize_market_update_image:
  assumes "read_bytes base sizeof_client_market_update buf = market_update_bytes x" and "wire_market_update x"
  shows "deserialize_market_update be base buf = x"
proof -
  have r: "read_bytes base (length (market_update_bytes x)) buf = market_update_bytes x" using assms(1) by simp
  note seg = read_bytes_take [OF r] and byte = buffer_byte [OF r]
  show ?thesis using assms(2)
    seg [of 0 8] byte [of 8] seg [of 9 8] byte [of 17] byte [of 18] seg [of 19 8] seg [of 27 4]
    seg [of 31 8]
    by (simp add: deserialize_market_update_def Let_def market_update_bytes_def sizeof_defs
        wire_market_update_def nth_append add.commute)
qed

section \<open>Every byte string is some message\<close>

lemma byte_at_join_bytes:
  "LENGTH('a::len) = 8 * length bs \<Longrightarrow> i < length bs \<Longrightarrow> byte_at i (join_bytes bs :: 'a word) = bs ! i"
  by (rule bit_word_eqI) (auto simp: bit_byte_at bit_join_bytes dest: bit_imp_le_length)

lemma object_bytes_object_value:
  assumes "LENGTH('a::len) = 8 * length bs"
  shows "object_bytes be (length bs) (object_value be bs :: 'a word) = bs"
proof (cases be)
  case True
  then show ?thesis using assms
    by (auto simp: object_bytes_def object_value_def Let_def byte_at_join_bytes rev_nth
        intro!: nth_equalityI)
next
  case False
  then show ?thesis using assms
    by (auto simp: object_bytes_def object_value_def Let_def byte_at_join_bytes intro!: nth_equalityI)
qed

lemma to_from_big_endian:
  "to_big_endian_32 be (from_big_endian_32 be v4) = v4"
  "to_big_endian_64 be (from_big_endian_64 be v8) = v8"
  by (simp_all add: from_big_endian_32_def to_big_endian_32_def from_big_endian_64_def
      to_big_endian_64_def swap_swap)

lemma wire_bytes_object_value [simp]:
  "wire_bytes 4 (from_big_endian_32 be (object_value be (read_bytes off 4 buf))) = read_bytes off 4 buf"
  "wire_bytes 8 (from_big_endian_64 be (object_value be (read_bytes off 8 buf))) = read_bytes off 8 buf"
  using object_bytes_object_value [where 'a = 32, of "read_bytes off 4 buf" be]
    object_bytes_object_value [where 'a = 64, of "read_bytes off 8 buf" be]
  by (simp_all flip: object_bytes_to_big_endian(2) [of be] object_bytes_to_big_endian(3) [of be]
      add: to_from_big_endian)

lemma read_bytes_1: "[buf off] = read_bytes off 1 buf"
  by (simp add: read_bytes_def)

lemma read_bytes_join:
  "off' = off + m \<Longrightarrow> read_bytes off m buf @ read_bytes off' n buf = read_bytes off (m + n) buf"
  "off' = off + m \<Longrightarrow>
    read_bytes off m buf @ read_bytes off' n buf @ rest = read_bytes off (m + n) buf @ rest"
  by (simp_all add: read_bytes_append)

lemma request_bytes_deserialize:
  "request_bytes (deserialize_client_request be base buf) = read_bytes base sizeof_client_request_external buf"
  unfolding deserialize_client_request_def Let_def request_bytes_def sizeof_defs
  by (simp add: read_bytes_1 read_bytes_join)

lemma response_bytes_deserialize:
  "response_bytes (deserialize_client_response be base buf) = read_bytes base sizeof_client_response_external buf"
  unfolding deserialize_client_response_def Let_def response_bytes_def sizeof_defs
  by (simp add: read_bytes_1 read_bytes_join)

lemma market_update_bytes_deserialize:
  "market_update_bytes (deserialize_market_update be base buf) = read_bytes base sizeof_client_market_update buf"
  unfolding deserialize_market_update_def Let_def market_update_bytes_def sizeof_defs
  by (simp add: read_bytes_1 read_bytes_join)

lemma wire_deserialize [simp]:
  "wire_request (deserialize_client_request be base buf)"
  "wire_response (deserialize_client_response be base buf)"
  "wire_market_update (deserialize_market_update be base buf)"
  by (simp_all add: wire_request_def wire_response_def wire_market_update_def Let_def
      deserialize_client_request_def deserialize_client_response_def deserialize_market_update_def)

end
