(* ===== verification/MemoryPool.thy ===== *)
theory MemoryPool
  imports Types
begin

text \<open>
  \<open>utils/memory_pool.hpp\<close>: the fixed size object pools \<open>memory_pool\<close> and
  \<open>uv_memory_pool\<close>, whose free blocks form a linked list through \<open>next_free_block\<close>. An
  object's address is the index of its block. The theory proves that the free list and the
  \<open>is_free\<close> flags always agree, so that no assertion of the pool can fail while no more
  than \<open>capacity\<close> objects are live and only live objects are freed, and states this
  as the allocator interface the order book and the snapshot synthesizer are proved against.
\<close>

section \<open>The pool\<close>

record 'a memory_block =
  mb_data :: 'a
  next_free_block :: nat
  is_free :: bool

text \<open>\<open>memory_blocks\<close> is the vector's contents and \<open>memory_blocks_size\<close> its \<open>size()\<close>.\<close>

record 'a memory_pool =
  memory_blocks :: "nat \<Rightarrow> 'a memory_block"
  memory_blocks_size :: nat
  free_block_index :: nat
  free_block_count :: nat

text \<open>
  The constructor: \<open>d\<close> is the value-initialised \<open>T\<close>. With \<open>size = 0\<close> the write to the
  last block is out of bounds.
\<close>

definition memory_pool_init :: "nat \<Rightarrow> 'a \<Rightarrow> 'a memory_pool result" where
  "memory_pool_init n d =
     (if n = 0 then Inl OutOfBounds
      else let blocks = (\<lambda>_. \<lparr>mb_data = d, next_free_block = 0, is_free = True\<rparr>);
               chained = fold (\<lambda>i b. b(i := (b i)\<lparr>next_free_block := i + 1\<rparr>)) [0..<n - 1] blocks
           in Inr \<lparr>memory_blocks = chained(n - 1 := (chained (n - 1))\<lparr>next_free_block := SIZE_T_MAX\<rparr>),
                   memory_blocks_size = n, free_block_index = 0, free_block_count = n\<rparr>)"

text \<open>
  \<open>alloc\<close> takes the head of the free list and constructs the object in it; reading a
  block past the end of the vector is undefined.
\<close>

definition pool_alloc :: "'a \<Rightarrow> 'a memory_pool \<Rightarrow> (nat \<times> 'a memory_pool) result" where
  "pool_alloc v p =
     rbind (DEBUG_ASSERT (0 < free_block_count p) ''No free memory blocks.'') (\<lambda>_.
     let i = free_block_index p; blk = memory_blocks p i in
     if \<not> i < memory_blocks_size p then Inl OutOfBounds
     else rbind (DEBUG_ASSERT (is_free blk) ''Memory block is not free.'') (\<lambda>_.
       Inr (i, p\<lparr>memory_blocks := (memory_blocks p)(i := blk\<lparr>is_free := False, mb_data := v\<rparr>),
                 free_block_index := next_free_block blk,
                 free_block_count := free_block_count p - 1\<rparr>)))"

definition pool_free :: "nat \<Rightarrow> 'a memory_pool \<Rightarrow> 'a memory_pool result" where
  "pool_free i p =
     rbind (DEBUG_ASSERT (i < memory_blocks_size p) ''Invalid memory block index.'') (\<lambda>_.
     let blk = memory_blocks p i in
     rbind (DEBUG_ASSERT (\<not> is_free blk) ''Memory block is already free.'') (\<lambda>_.
       Inr (p\<lparr>memory_blocks := (memory_blocks p)(i := blk\<lparr>is_free := True,
                 next_free_block := free_block_index p\<rparr>),
              free_block_index := i,
              free_block_count := free_block_count p + 1\<rparr>)))"

definition pool_capacity :: "'a memory_pool \<Rightarrow> nat" where
  "pool_capacity p = memory_blocks_size p"

definition pool_available :: "'a memory_pool \<Rightarrow> nat" where
  "pool_available p = free_block_count p"

text \<open>
  \<open>uv_memory_pool\<close> has the same members over raw storage: its \<open>alloc\<close> constructs nothing,
  so the block keeps the bytes it had.
\<close>

definition uv_pool_alloc :: "'a memory_pool \<Rightarrow> (nat \<times> 'a memory_pool) result" where
  "uv_pool_alloc p =
     rbind (DEBUG_ASSERT (0 < free_block_count p) ''No free memory blocks.'') (\<lambda>_.
     let i = free_block_index p; blk = memory_blocks p i in
     if \<not> i < memory_blocks_size p then Inl OutOfBounds
     else rbind (DEBUG_ASSERT (is_free blk) ''Memory block is not free.'') (\<lambda>_.
       Inr (i, p\<lparr>memory_blocks := (memory_blocks p)(i := blk\<lparr>is_free := False\<rparr>),
                 free_block_index := next_free_block blk,
                 free_block_count := free_block_count p - 1\<rparr>)))"

definition uv_pool_free :: "nat \<Rightarrow> 'a memory_pool \<Rightarrow> 'a memory_pool result" where
  "uv_pool_free i p =
     rbind (DEBUG_ASSERT (i < memory_blocks_size p) ''Invalid memory block index.'') (\<lambda>_.
     let blk = memory_blocks p i in
     rbind (DEBUG_ASSERT (\<not> is_free blk) ''Memory block is already free.'') (\<lambda>_.
       Inr (p\<lparr>memory_blocks := (memory_blocks p)(i := blk\<lparr>is_free := True,
                 next_free_block := free_block_index p\<rparr>),
              free_block_index := i,
              free_block_count := free_block_count p + 1\<rparr>)))"

text \<open>Access to the object in a block, through a pointer the pool has handed out.\<close>

definition pool_get :: "'a memory_pool \<Rightarrow> nat \<Rightarrow> 'a" where
  "pool_get p a = mb_data (memory_blocks p a)"

definition pool_set :: "nat \<Rightarrow> ('a \<Rightarrow> 'a) \<Rightarrow> 'a memory_pool \<Rightarrow> 'a memory_pool" where
  "pool_set a f p = p\<lparr>memory_blocks := (memory_blocks p)(a := (memory_blocks p a)\<lparr>mb_data := f (mb_data (memory_blocks p a))\<rparr>)\<rparr>"

section \<open>The free list\<close>

text \<open>
  \<open>free_chain nf i fl\<close>: following \<open>next_free_block\<close> from index \<open>i\<close> visits exactly \<open>fl\<close>
  and then the end marker.
\<close>

fun free_chain :: "(nat \<Rightarrow> nat) \<Rightarrow> nat \<Rightarrow> nat list \<Rightarrow> bool" where
  "free_chain nf i [] \<longleftrightarrow> i = SIZE_T_MAX"
| "free_chain nf i (x # xs) \<longleftrightarrow> i = x \<and> free_chain nf (nf x) xs"

definition pool_inv :: "'a memory_pool \<Rightarrow> bool" where
  "pool_inv p \<longleftrightarrow> (\<exists>fl. free_chain (next_free_block \<circ> memory_blocks p) (free_block_index p) fl \<and>
     distinct fl \<and> length fl = free_block_count p \<and>
     set fl = {i. i < memory_blocks_size p \<and> is_free (memory_blocks p i)})"

definition pool_live :: "'a memory_pool \<Rightarrow> nat set" where
  "pool_live p = {i. i < memory_blocks_size p \<and> \<not> is_free (memory_blocks p i)}"

lemma free_chain_cong: "(\<And>x. x \<in> set fl \<Longrightarrow> nf x = nf' x) \<Longrightarrow> free_chain nf i fl = free_chain nf' i fl"
  by (induction fl arbitrary: i) auto

lemma free_chain_upd [simp]: "x \<notin> set fl \<Longrightarrow> free_chain (nf(x := v)) i fl = free_chain nf i fl"
  by (rule free_chain_cong) auto

lemma card_pool_live:
  assumes "pool_inv p"
  shows "card (pool_live p) + free_block_count p = memory_blocks_size p"
proof -
  obtain fl where fl: "distinct fl" "length fl = free_block_count p"
    "set fl = {i. i < memory_blocks_size p \<and> is_free (memory_blocks p i)}"
    using assms by (auto simp: pool_inv_def)
  have "{..<memory_blocks_size p} = pool_live p \<union> set fl" and "pool_live p \<inter> set fl = {}"
    by (auto simp: pool_live_def fl)
  moreover have "finite (pool_live p)" by (simp add: pool_live_def)
  ultimately have "memory_blocks_size p = card (pool_live p) + card (set fl)"
    by (metis List.finite_set card_Un_disjoint card_lessThan)
  also have "card (set fl) = free_block_count p" using fl(1,2) distinct_card by metis
  finally show ?thesis by simp
qed

section \<open>The allocator interface\<close>

text \<open>Allocating a list of objects one after another.\<close>

fun alloc_all :: "('a \<Rightarrow> 'p \<Rightarrow> (nat \<times> 'p) result) \<Rightarrow> 'a list \<Rightarrow> 'p \<Rightarrow> (nat list \<times> 'p) result" where
  "alloc_all alloc [] p = Inr ([], p)"
| "alloc_all alloc (v # vs) p =
     rbind (alloc v p) (\<lambda>(a, p'). rbind (alloc_all alloc vs p') (\<lambda>(as, q). Inr (a # as, q)))"

locale allocator =
  fixes invar :: "'p \<Rightarrow> bool"
    and live :: "'p \<Rightarrow> nat set"
    and capacity :: "'p \<Rightarrow> nat"
    and get :: "'p \<Rightarrow> nat \<Rightarrow> 'a"
    and put :: "nat \<Rightarrow> ('a \<Rightarrow> 'a) \<Rightarrow> 'p \<Rightarrow> 'p"
    and alloc :: "'a \<Rightarrow> 'p \<Rightarrow> (nat \<times> 'p) result"
    and free :: "nat \<Rightarrow> 'p \<Rightarrow> 'p result"
  assumes finite_live: "invar p \<Longrightarrow> finite (live p)"
    and alloc_ok: "invar p \<Longrightarrow> card (live p) < capacity p \<Longrightarrow>
      \<exists>a p'. alloc v p = Inr (a, p') \<and> a \<notin> live p \<and> live p' = insert a (live p) \<and> invar p' \<and>
        get p' = (get p)(a := v) \<and> capacity p' = capacity p"
    and alloc_full: "invar p \<Longrightarrow> card (live p) = capacity p \<Longrightarrow> \<exists>e. alloc v p = Inl e"
    and free_ok: "invar p \<Longrightarrow> a \<in> live p \<Longrightarrow>
      \<exists>p'. free a p = Inr p' \<and> live p' = live p - {a} \<and> invar p' \<and> get p' = get p \<and>
        capacity p' = capacity p"
    and free_dead: "a \<notin> live p \<Longrightarrow> \<exists>e. free a p = Inl e"
    and put_get: "get (put a f p) = (get p)(a := f (get p a))"
    and put_invar: "invar (put a f p) = invar p"
    and put_live: "live (put a f p) = live p"
    and put_capacity: "capacity (put a f p) = capacity p"
begin

lemma alloc_after_free:
  assumes "invar p" and "a \<in> live p" and "card (live p) \<le> capacity p" and "free a p = Inr p'"
  shows "\<exists>b q. alloc v p' = Inr (b, q) \<and> card (live q) = card (live p)"
proof -
  have p': "live p' = live p - {a}" "invar p'" "capacity p' = capacity p"
    using free_ok [OF assms(1,2)] assms(4) by auto
  have c: "card (live p') < card (live p)"
    using card_Diff1_less [OF finite_live [OF assms(1)] assms(2)] p' by simp
  then obtain b q where "alloc v p' = Inr (b, q)" "live q = insert b (live p')" "b \<notin> live p'"
    using alloc_ok [OF p'(2), of v] assms(3) p'(3) by (metis order_less_le_trans)
  moreover have "Suc (card (live p - {a})) = card (live p)"
    using finite_live [OF assms(1)] assms(2) by (rule card_Suc_Diff1)
  ultimately show ?thesis using finite_live [OF assms(1)] p'(1) by (auto simp: card_insert_if)
qed

lemma free_twice:
  assumes "invar p" and "a \<in> live p" and "free a p = Inr p'"
  shows "\<exists>e. free a p' = Inl e"
  using free_ok [OF assms(1,2)] assms(3) free_dead [of a p'] by auto

text \<open>Any number of allocations succeeds while they fit.\<close>

lemma alloc_all_frame:
  "alloc_all alloc vs p = Inr (as, q) \<Longrightarrow> invar p \<Longrightarrow> card (live p) + length vs \<le> capacity p \<Longrightarrow>
    b \<in> live p \<Longrightarrow> get q b = get p b"
proof (induction vs arbitrary: p as)
  case (Cons v vs)
  obtain a p' where a: "alloc v p = Inr (a, p')" "a \<notin> live p" "live p' = insert a (live p)"
    "invar p'" "get p' = (get p)(a := v)" "capacity p' = capacity p"
    using alloc_ok [of p v] Cons.prems by auto
  obtain as' where "alloc_all alloc vs p' = Inr (as', q)"
    using Cons.prems(1) a(1) by (auto simp: rbind_Inr_iff)
  moreover have "card (live p') + length vs \<le> capacity p'"
    using a Cons.prems finite_live [OF Cons.prems(2)] by simp
  ultimately have "get q b = get p' b" using Cons.IH [of p' as'] a Cons.prems by auto
  then show ?case using a Cons.prems by auto
qed auto

lemma alloc_all_ok:
  assumes "invar p" and "card (live p) + length vs \<le> capacity p"
  shows "\<exists>as q. alloc_all alloc vs p = Inr (as, q) \<and> distinct as \<and> set as \<inter> live p = {} \<and>
    length as = length vs \<and> live q = live p \<union> set as \<and> invar q \<and> map (get q) as = vs \<and>
      capacity q = capacity p"
  using assms
proof (induction vs arbitrary: p)
  case (Cons v vs)
  then obtain a p' where a: "alloc v p = Inr (a, p')" "a \<notin> live p" "live p' = insert a (live p)"
    "invar p'" "get p' = (get p)(a := v)" "capacity p' = capacity p"
    using alloc_ok [of p v] by auto
  have "card (live p') + length vs \<le> capacity p'"
    using a Cons.prems finite_live [OF Cons.prems(1)] by simp
  note fits = this
  from Cons.IH [OF a(4) this] obtain as q where q: "alloc_all alloc vs p' = Inr (as, q)" "distinct as"
    "set as \<inter> live p' = {}" "length as = length vs" "live q = live p' \<union> set as" "invar q"
    "map (get q) as = vs" "capacity q = capacity p'" by blast
  have "get q a = v" using alloc_all_frame [OF q(1) a(4) fits, of a] a by simp
  then show ?case using a q by auto
qed auto

end

section \<open>The pools provide the interface\<close>

lemma pool_inv_obtain:
  assumes "pool_inv p" and "0 < free_block_count p"
  obtains fl where "free_chain (next_free_block \<circ> memory_blocks p)
      (next_free_block (memory_blocks p (free_block_index p))) fl"
    and "distinct (free_block_index p # fl)" and "Suc (length fl) = free_block_count p"
    and "insert (free_block_index p) (set fl) = {i. i < memory_blocks_size p \<and> is_free (memory_blocks p i)}"
proof -
  obtain gl where gl: "free_chain (next_free_block \<circ> memory_blocks p) (free_block_index p) gl"
    "distinct gl" "length gl = free_block_count p"
    "set gl = {i. i < memory_blocks_size p \<and> is_free (memory_blocks p i)}"
    using assms(1) by (auto simp: pool_inv_def)
  then obtain x fl where "gl = x # fl" using assms(2) by (cases gl) auto
  then show ?thesis using gl by (intro that [of fl]) auto
qed

lemma pool_alloc_ok:
  assumes "pool_inv p" and "card (pool_live p) < memory_blocks_size p"
  shows "\<exists>p'. pool_alloc v p = Inr (free_block_index p, p') \<and> free_block_index p \<notin> pool_live p \<and>
    pool_live p' = insert (free_block_index p) (pool_live p) \<and> pool_inv p' \<and>
    pool_get p' = (pool_get p)(free_block_index p := v) \<and> memory_blocks_size p' = memory_blocks_size p"
proof -
  let ?i = "free_block_index p"
  have pos: "0 < free_block_count p" using card_pool_live [OF assms(1)] assms(2) by simp
  from assms(1) pos obtain fl where fl: "free_chain (next_free_block \<circ> memory_blocks p)
      (next_free_block (memory_blocks p ?i)) fl" "distinct (?i # fl)" "Suc (length fl) = free_block_count p"
    "insert ?i (set fl) = {i. i < memory_blocks_size p \<and> is_free (memory_blocks p i)}"
    by (rule pool_inv_obtain)
  then have i: "?i < memory_blocks_size p" "is_free (memory_blocks p ?i)" by auto
  define p' where "p' = p\<lparr>memory_blocks := (memory_blocks p)(?i := (memory_blocks p ?i)\<lparr>is_free := False, mb_data := v\<rparr>),
      free_block_index := next_free_block (memory_blocks p ?i), free_block_count := free_block_count p - 1\<rparr>"
  have "pool_alloc v p = Inr (?i, p')" using pos i by (simp add: pool_alloc_def p'_def Let_def)
  moreover have "pool_live p' = insert ?i (pool_live p)" using i by (auto simp: p'_def pool_live_def)
  moreover have "pool_inv p'" unfolding pool_inv_def
  proof (intro exI conjI)
    show "free_chain (next_free_block \<circ> memory_blocks p') (free_block_index p') fl"
      using fl by (simp add: p'_def comp_def fun_upd_def)
        (rule free_chain_cong [THEN iffD1, rotated], assumption, auto)
    show "set fl = {i. i < memory_blocks_size p' \<and> is_free (memory_blocks p' i)}"
      using fl(2,4) by (auto simp: p'_def)
  qed (use fl in \<open>simp_all add: p'_def\<close>)
  moreover have "pool_get p' = (pool_get p)(?i := v)" by (auto simp: p'_def pool_get_def fun_eq_iff)
  moreover have "?i \<notin> pool_live p" using i by (simp add: pool_live_def)
  moreover have "memory_blocks_size p' = memory_blocks_size p" by (simp add: p'_def)
  ultimately show ?thesis by blast
qed

lemma pool_free_ok:
  assumes "pool_inv p" and "a \<in> pool_live p"
  shows "\<exists>p'. pool_free a p = Inr p' \<and> pool_live p' = pool_live p - {a} \<and> pool_inv p' \<and>
    pool_get p' = pool_get p \<and> memory_blocks_size p' = memory_blocks_size p"
proof -
  obtain fl where fl: "free_chain (next_free_block \<circ> memory_blocks p) (free_block_index p) fl"
    "distinct fl" "length fl = free_block_count p"
    "set fl = {i. i < memory_blocks_size p \<and> is_free (memory_blocks p i)}"
    using assms(1) by (auto simp: pool_inv_def)
  have a: "a < memory_blocks_size p" "\<not> is_free (memory_blocks p a)" "a \<notin> set fl"
    using assms(2) fl(4) by (auto simp: pool_live_def)
  define p' where "p' = p\<lparr>memory_blocks := (memory_blocks p)(a := (memory_blocks p a)\<lparr>is_free := True,
      next_free_block := free_block_index p\<rparr>), free_block_index := a, free_block_count := free_block_count p + 1\<rparr>"
  have "pool_free a p = Inr p'" using a by (simp add: pool_free_def p'_def Let_def)
  moreover have "pool_live p' = pool_live p - {a}" using a by (auto simp: p'_def pool_live_def)
  moreover have "pool_inv p'" unfolding pool_inv_def
  proof (intro exI conjI)
    show "free_chain (next_free_block \<circ> memory_blocks p') (free_block_index p') (a # fl)"
      using fl(1) a(3) by (simp add: p'_def)
    show "set (a # fl) = {i. i < memory_blocks_size p' \<and> is_free (memory_blocks p' i)}"
      using fl(4) a by (auto simp: p'_def)
  qed (use fl a in \<open>simp_all add: p'_def\<close>)
  moreover have "pool_get p' = pool_get p" by (auto simp: p'_def pool_get_def fun_eq_iff)
  ultimately show ?thesis by (auto simp: p'_def)
qed

lemma pool_set_simps [simp]:
  "pool_get (pool_set a f p) = (pool_get p)(a := f (pool_get p a))"
  "pool_live (pool_set a f p) = pool_live p"
  "memory_blocks_size (pool_set a f p) = memory_blocks_size p"
  by (auto simp: pool_set_def pool_get_def pool_live_def fun_eq_iff)

lemma pool_set_inv [simp]: "pool_inv (pool_set a f p) = pool_inv p"
proof -
  have "next_free_block \<circ> memory_blocks (pool_set a f p) = next_free_block \<circ> memory_blocks p"
    and "is_free (memory_blocks (pool_set a f p) i) = is_free (memory_blocks p i)" for i
    by (auto simp: pool_set_def fun_eq_iff)
  then show ?thesis by (simp add: pool_inv_def) (simp add: pool_set_def)
qed

interpretation pool: allocator pool_inv pool_live memory_blocks_size pool_get pool_set pool_alloc pool_free
proof unfold_locales
  fix p :: "'a memory_pool" and v :: 'a and a
  show "pool_inv p \<Longrightarrow> finite (pool_live p)" by (simp add: pool_live_def)
  show "pool_inv p \<Longrightarrow> card (pool_live p) < memory_blocks_size p \<Longrightarrow>
    \<exists>a p'. pool_alloc v p = Inr (a, p') \<and> a \<notin> pool_live p \<and> pool_live p' = insert a (pool_live p) \<and>
      pool_inv p' \<and> pool_get p' = (pool_get p)(a := v) \<and> memory_blocks_size p' = memory_blocks_size p"
    by (meson pool_alloc_ok)
  show "pool_inv p \<Longrightarrow> card (pool_live p) = memory_blocks_size p \<Longrightarrow> \<exists>e. pool_alloc v p = Inl e"
    using card_pool_live [of p] by (simp add: pool_alloc_def)
  show "a \<notin> pool_live p \<Longrightarrow> \<exists>e. pool_free a p = Inl e"
    by (cases "a < memory_blocks_size p") (auto simp: pool_free_def pool_live_def)
qed (use pool_free_ok in auto)

text \<open>The raw storage pool is the same allocator with the block's old contents.\<close>

lemma uv_pool_alloc_eq: "uv_pool_alloc p = pool_alloc (pool_get p (free_block_index p)) p"
  by (simp add: uv_pool_alloc_def pool_alloc_def pool_get_def Let_def)

lemma uv_pool_free_eq: "uv_pool_free a p = pool_free a p"
  by (simp add: uv_pool_free_def pool_free_def)

section \<open>A fresh pool\<close>

lemma fold_chain:
  "fold (\<lambda>i b. b(i := (b i)\<lparr>next_free_block := i + 1\<rparr>)) [0..<n] b =
    (\<lambda>i. if i < n then (b i)\<lparr>next_free_block := i + 1\<rparr> else b i)"
  by (induction n) (auto simp: fun_eq_iff less_Suc_eq)

text \<open>The pool the constructor builds, in closed form.\<close>

definition fresh_pool :: "nat \<Rightarrow> 'a \<Rightarrow> 'a memory_pool" where
  "fresh_pool n d = \<lparr>memory_blocks = (\<lambda>i. \<lparr>mb_data = d, next_free_block = (if i < n - 1 then i + 1
       else if i = n - 1 then SIZE_T_MAX else 0), is_free = True\<rparr>),
     memory_blocks_size = n, free_block_index = 0, free_block_count = n\<rparr>"

lemma memory_pool_init_eq: "0 < n \<Longrightarrow> memory_pool_init n d = Inr (fresh_pool n d)"
  unfolding memory_pool_init_def Let_def fold_chain by (auto simp: fresh_pool_def fun_eq_iff)

lemma free_chain_upt:
  "i \<le> n \<Longrightarrow> (\<And>j. i \<le> j \<Longrightarrow> j < n \<Longrightarrow> nf j = Suc j) \<Longrightarrow> nf n = SIZE_T_MAX \<Longrightarrow>
    free_chain nf i [i..<Suc n]"
proof (induction "n - i" arbitrary: i)
  case (Suc k)
  have "free_chain nf (Suc i) [Suc i..<Suc n]" by (rule Suc.hyps(1)) (use Suc in auto)
  then show ?case using Suc.prems Suc.hyps(2) by (subst upt_conv_Cons) auto
qed simp

lemma fresh_pool_inv:
  assumes "0 < n"
  shows "pool_inv (fresh_pool n d)"
proof -
  have "free_chain (next_free_block \<circ> memory_blocks (fresh_pool n d)) 0 [0..<Suc (n - 1)]"
    by (rule free_chain_upt) (auto simp: fresh_pool_def)
  then show ?thesis using assms unfolding pool_inv_def
    by (intro exI [of _ "[0..<n]"]) (auto simp: fresh_pool_def)
qed

lemma fresh_pool_simps [simp]:
  "pool_live (fresh_pool n d) = {}"
  "memory_blocks_size (fresh_pool n d) = n"
  "pool_get (fresh_pool n d) = (\<lambda>_. d)"
  by (auto simp: fresh_pool_def pool_live_def pool_get_def)

end
