(* ===== verification/LockFreeQueue.thy ===== *)
theory LockFreeQueue
  imports Types
begin

text \<open>
  \<open>utils/lock_free_queue.hpp\<close>: the ring buffer between the threads of the exchange, its
  operations as the code has them, the interface of a bounded FIFO queue as a locale with the
  facts its clients use, and the proof that the ring buffer provides it as long as no more than
  its capacity is stored. The buffer itself never refuses a write.
\<close>

section \<open>The ring buffer\<close>

text \<open>\<open>q_data\<close> is the vector's contents and \<open>q_size\<close> its \<open>size()\<close>.\<close>

record 'a lock_free_queue =
  q_data :: "nat \<Rightarrow> 'a"
  q_size :: nat
  q_next_write_index :: nat
  q_next_read_index :: nat
  q_num_elements :: nat

text \<open>
  The constructor initialises the vector with \<open>q_data{size, T()}\<close>. For the message structs
  this is \<open>size\<close> copies of \<open>T()\<close>. For \<open>T = size_t\<close>, both expressions in the braces are
  values of the element type, so the initializer list constructor is chosen: the vector has the
  two elements \<open>size\<close> and \<open>0\<close>.
\<close>

definition lock_free_queue_init :: "nat \<Rightarrow> 'a \<Rightarrow> 'a lock_free_queue" where
  "lock_free_queue_init n d = \<lparr>q_data = (\<lambda>_. d), q_size = n, q_next_write_index = 0,
     q_next_read_index = 0, q_num_elements = 0\<rparr>"

definition lock_free_queue_init_size_t :: "nat \<Rightarrow> nat lock_free_queue" where
  "lock_free_queue_init_size_t n = \<lparr>q_data = (\<lambda>i. if i = 0 then n else 0), q_size = 2,
     q_next_write_index = 0, q_next_read_index = 0, q_num_elements = 0\<rparr>"

text \<open>
  \<open>get_next_write_element\<close> hands out the address of the slot at \<open>q_next_write_index\<close>; what
  the callers do with it is to assign the slot, which is \<open>put_next_write_element\<close>.
\<close>

definition get_next_write_element :: "'a lock_free_queue \<Rightarrow> nat" where
  "get_next_write_element q = q_next_write_index q"

definition put_next_write_element :: "'a \<Rightarrow> 'a lock_free_queue \<Rightarrow> 'a lock_free_queue" where
  "put_next_write_element v q = q\<lparr>q_data := (q_data q)(get_next_write_element q := v)\<rparr>"

definition queue_size :: "'a lock_free_queue \<Rightarrow> nat" where
  "queue_size q = q_num_elements q"

definition get_next_read_element :: "'a lock_free_queue \<Rightarrow> 'a option" where
  "get_next_read_element q = (if queue_size q \<noteq> 0 then Some (q_data q (q_next_read_index q)) else None)"

definition next_write_index :: "'a lock_free_queue \<Rightarrow> 'a lock_free_queue" where
  "next_write_index q = q\<lparr>q_next_write_index := (q_next_write_index q + 1) mod q_size q,
     q_num_elements := q_num_elements q + 1\<rparr>"

definition next_read_index :: "'a lock_free_queue \<Rightarrow> 'a lock_free_queue" where
  "next_read_index q = (if queue_size q \<noteq> 0
     then q\<lparr>q_next_read_index := (q_next_read_index q + 1) mod q_size q,
       q_num_elements := q_num_elements q - 1\<rparr>
     else q)"

text \<open>The three-line idiom of every producer: take the slot, assign it, publish it.\<close>

definition enqueue :: "'a \<Rightarrow> 'a lock_free_queue \<Rightarrow> 'a lock_free_queue" where
  "enqueue v q = next_write_index (put_next_write_element v q)"

lemmas queue_defs = get_next_write_element_def put_next_write_element_def queue_size_def
  get_next_read_element_def next_write_index_def next_read_index_def enqueue_def

section \<open>The interface of a bounded FIFO queue\<close>

locale bounded_queue =
  fixes invar :: "'q \<Rightarrow> bool"
    and items :: "'q \<Rightarrow> 'a list"
    and capacity :: "'q \<Rightarrow> nat"
    and put :: "'a \<Rightarrow> 'q \<Rightarrow> 'q"
    and peek :: "'q \<Rightarrow> 'a option"
    and pop :: "'q \<Rightarrow> 'q"
  assumes put_items: "invar q \<Longrightarrow> length (items q) < capacity q \<Longrightarrow> items (put x q) = items q @ [x]"
    and put_inv: "invar q \<Longrightarrow> length (items q) < capacity q \<Longrightarrow> invar (put x q)"
    and put_capacity: "capacity (put x q) = capacity q"
    and peek_items: "invar q \<Longrightarrow> peek q = (case items q of [] \<Rightarrow> None | x # _ \<Rightarrow> Some x)"
    and pop_items: "invar q \<Longrightarrow> items (pop q) = tl (items q)"
    and pop_inv: "invar q \<Longrightarrow> invar (pop q)"
    and pop_capacity: "capacity (pop q) = capacity q"
begin

lemma fold_put:
  "invar q \<Longrightarrow> length (items q) + length xs \<le> capacity q \<Longrightarrow>
    invar (fold put xs q) \<and> items (fold put xs q) = items q @ xs \<and>
    capacity (fold put xs q) = capacity q"
proof (induction xs arbitrary: q)
  case (Cons x xs)
  then have "invar (put x q)" "items (put x q) = items q @ [x]" "capacity (put x q) = capacity q"
    by (simp_all add: put_inv put_items put_capacity)
  then show ?case using Cons.IH [of "put x q"] Cons.prems by simp
qed simp

lemma funpow_pop:
  "invar q \<Longrightarrow> invar ((pop ^^ n) q) \<and> items ((pop ^^ n) q) = drop n (items q)"
proof (induction n)
  case (Suc n)
  then show ?case by (simp add: pop_inv pop_items drop_Suc tl_drop)
qed simp

lemma put_pop_commute:
  "invar q \<Longrightarrow> length (items q) < capacity q \<Longrightarrow> items q \<noteq> [] \<Longrightarrow>
    items (pop (put x q)) = items (put x (pop q))"
proof -
  assume a: "invar q" "length (items q) < capacity q" "items q \<noteq> []"
  have "items (pop (put x q)) = tl (items q @ [x])" by (simp add: a pop_items put_items put_inv)
  moreover have "items (put x (pop q)) = tl (items q) @ [x]"
    using a by (subst put_items) (auto simp: pop_inv pop_capacity pop_items)
  ultimately show ?thesis using a(3) by simp
qed

lemma peek_None_iff: "invar q \<Longrightarrow> peek q = None \<longleftrightarrow> items q = []"
  by (simp add: peek_items split: list.split)

end

section \<open>The ring buffer is a bounded queue\<close>

definition queue_inv :: "'a lock_free_queue \<Rightarrow> bool" where
  "queue_inv q \<longleftrightarrow> q_next_read_index q < q_size q \<and> q_num_elements q \<le> q_size q \<and>
     q_next_write_index q = (q_next_read_index q + q_num_elements q) mod q_size q"

definition queue_items :: "'a lock_free_queue \<Rightarrow> 'a list" where
  "queue_items q = map (\<lambda>i. q_data q ((q_next_read_index q + i) mod q_size q)) [0..<q_num_elements q]"

lemma length_queue_items [simp]: "length (queue_items q) = q_num_elements q"
  by (simp add: queue_items_def)

lemma mod_add_inj:
  fixes r :: nat
  assumes eq: "(r + i) mod c = (r + j) mod c" and "i < c" and "j < c"
  shows "i = j"
proof -
  have wlog: "x = y" if "(r + x) mod c = (r + y) mod c" "x \<le> y" "y < c" for x y
  proof -
    have "c dvd (r + y) - (r + x)" using that mod_eq_dvd_iff_nat [of "r + x" "r + y" c] by simp
    then show ?thesis using that by (auto dest: dvd_imp_le)
  qed
  show ?thesis using wlog [of i j] wlog [of j i] assms by (cases "i \<le> j") auto
qed

lemma queue_items_enqueue:
  assumes "queue_inv q" and "q_num_elements q < q_size q"
  shows "queue_items (enqueue x q) = queue_items q @ [x]"
proof -
  have "(q_next_read_index q + i) mod q_size q \<noteq> (q_next_read_index q + q_num_elements q) mod q_size q"
    if "i < q_num_elements q" for i
    using mod_add_inj [of "q_next_read_index q" i "q_size q" "q_num_elements q"] that assms by auto
  then show ?thesis using assms
    by (auto simp: queue_items_def queue_defs queue_inv_def)
qed

lemma queue_inv_enqueue:
  assumes "queue_inv q" and "q_num_elements q < q_size q"
  shows "queue_inv (enqueue x q)"
  using assms by (auto simp: queue_inv_def queue_defs mod_simps)

lemma queue_items_next_read_index: "queue_inv q \<Longrightarrow> queue_items (next_read_index q) = tl (queue_items q)"
proof (cases "q_num_elements q")
  case (Suc n)
  assume i: "queue_inv q"
  have "queue_items q = q_data q ((q_next_read_index q + 0) mod q_size q) #
      map (\<lambda>i. q_data q ((q_next_read_index q + i) mod q_size q)) (map Suc [0..<n])"
    unfolding queue_items_def Suc upt_conv_Cons [OF zero_less_Suc] map_Suc_upt by simp
  then show ?thesis using Suc
    by (auto simp: queue_items_def queue_defs mod_simps comp_def)
qed (simp add: queue_defs queue_items_def)

lemma queue_inv_next_read_index: "queue_inv q \<Longrightarrow> queue_inv (next_read_index q)"
  by (cases "q_num_elements q") (auto simp: queue_inv_def queue_defs mod_simps)

lemma get_next_read_element_items:
  "queue_inv q \<Longrightarrow>
    get_next_read_element q = (case queue_items q of [] \<Rightarrow> None | x # _ \<Rightarrow> Some x)"
proof (cases "q_num_elements q")
  case (Suc n)
  assume "queue_inv q"
  then show ?thesis using Suc
    by (simp add: queue_items_def queue_defs queue_inv_def upt_conv_Cons del: upt_Suc)
qed (simp add: queue_defs queue_items_def)

lemma q_size_ops [simp]:
  "q_size (enqueue x q) = q_size q"
  "q_size (next_read_index q) = q_size q"
  by (simp_all add: queue_defs)

interpretation lfq: bounded_queue queue_inv queue_items q_size enqueue
  get_next_read_element next_read_index
  by unfold_locales (simp_all add: queue_items_enqueue queue_inv_enqueue get_next_read_element_items
      queue_items_next_read_index queue_inv_next_read_index)

lemma queue_init_items [simp]: "queue_items (lock_free_queue_init n d) = []"
  by (simp add: queue_items_def lock_free_queue_init_def)

lemma queue_init_inv: "0 < n \<Longrightarrow> queue_inv (lock_free_queue_init n d)"
  by (simp add: queue_inv_def lock_free_queue_init_def)

lemma queue_init_size_t_inv: "queue_inv (lock_free_queue_init_size_t n)"
  by (simp add: queue_inv_def lock_free_queue_init_size_t_def)

lemma q_num_elements_enqueue [simp]: "q_num_elements (enqueue x q) = Suc (q_num_elements q)"
  by (simp add: queue_defs)

lemma q_size_init [simp]: "q_size (lock_free_queue_init n d) = n"
  by (simp add: lock_free_queue_init_def)

lemma filled_queue:
  assumes "0 < n" and "length xs \<le> n"
  shows "queue_inv (fold enqueue xs (lock_free_queue_init n d))"
    and "queue_items (fold enqueue xs (lock_free_queue_init n d)) = xs"
    and "q_size (fold enqueue xs (lock_free_queue_init n d)) = n"
  using lfq.fold_put [OF queue_init_inv [OF assms(1), of d], of xs] assms(2) by simp_all

end
