(* ===== verification/MessageHandler.thy ===== *)
theory MessageHandler
  imports LockFreeQueue
begin

text \<open>
  \<open>src/engine/message_handler.hpp\<close>: the engine's two outgoing queues. A sequence of sends is
  described by the list of messages sent (\<open>out_msg\<close>), which is the order book's trace.
\<close>

record message_handler =
  outgoing_responses :: "client_response_internal lock_free_queue"
  outgoing_market_updates :: "market_update lock_free_queue"

definition send_client_response :: "client_response_internal \<Rightarrow> message_handler \<Rightarrow> message_handler" where
  "send_client_response r mh =
     mh\<lparr>outgoing_responses := next_write_index (put_next_write_element r (outgoing_responses mh))\<rparr>"

definition send_market_update :: "market_update \<Rightarrow> message_handler \<Rightarrow> message_handler" where
  "send_market_update u mh =
     mh\<lparr>outgoing_market_updates := next_write_index (put_next_write_element u (outgoing_market_updates mh))\<rparr>"

datatype out_msg = Resp client_response_internal | Upd market_update

fun send :: "out_msg \<Rightarrow> message_handler \<Rightarrow> message_handler" where
  "send (Resp r) mh = send_client_response r mh"
| "send (Upd u) mh = send_market_update u mh"

definition sends :: "out_msg list \<Rightarrow> message_handler \<Rightarrow> message_handler" where
  "sends ms mh = fold send ms mh"

fun responses_of :: "out_msg list \<Rightarrow> client_response_internal list" where
  "responses_of [] = []"
| "responses_of (Resp r # ms) = r # responses_of ms"
| "responses_of (Upd u # ms) = responses_of ms"

fun updates_of :: "out_msg list \<Rightarrow> market_update list" where
  "updates_of [] = []"
| "updates_of (Resp r # ms) = updates_of ms"
| "updates_of (Upd u # ms) = u # updates_of ms"

lemma sends_Nil [simp]: "sends [] mh = mh"
  by (simp add: sends_def)

lemma sends_Cons [simp]: "sends (m # ms) mh = sends ms (send m mh)"
  by (simp add: sends_def)

lemma sends_append [simp]: "sends (ms @ ns) mh = sends ns (sends ms mh)"
  by (simp add: sends_def)

lemma responses_of_append [simp]: "responses_of (ms @ ns) = responses_of ms @ responses_of ns"
  by (induction ms rule: responses_of.induct) simp_all

lemma updates_of_append [simp]: "updates_of (ms @ ns) = updates_of ms @ updates_of ns"
  by (induction ms rule: updates_of.induct) simp_all

text \<open>Each queue receives its own messages in the order they were sent.\<close>

lemma sends_queues:
  "outgoing_responses (sends ms mh) = fold enqueue (responses_of ms) (outgoing_responses mh)"
  "outgoing_market_updates (sends ms mh) = fold enqueue (updates_of ms) (outgoing_market_updates mh)"
proof (induction ms arbitrary: mh)
  case (Cons m ms)
  { case 1 show ?case using Cons(1)
      by (cases m) (simp_all add: send_client_response_def send_market_update_def enqueue_def) }
  { case 2 show ?case using Cons(2)
      by (cases m) (simp_all add: send_client_response_def send_market_update_def enqueue_def) }
qed simp_all

end
