(* ===== verification/OrderBook.thy ===== *)
theory OrderBook
  imports MemoryPool MessageHandler
begin

text \<open>
  \<open>src/engine/order_book.hpp\<close> and \<open>order_book.cpp\<close>: one instrument's limit order book, on
  the heap the code uses: orders and price levels live in the two memory pools, price levels
  form one ring per side, the orders of a level another ring, and two arrays of pointers find a
  level by its price modulo 256 and an order by its client's identifiers. Every field access
  and assignment of the C++ is one here, in its order.
\<close>

section \<open>State\<close>

text \<open>
  Arrays are functions from indices, their sizes being the constants of \<open>constants.hpp\<close>.
  \<open>message_handler_\<close> is held by value; the engine passes it from book to book.
\<close>

record order_book =
  instrument_id :: instrument_id_t
  message_handler :: message_handler
  client_orders :: "nat \<Rightarrow> nat \<Rightarrow> ptr"
  price_level_pool :: "price_level memory_pool"
  bid :: ptr
  ask :: ptr
  price_levels :: "nat \<Rightarrow> ptr"
  order_pool :: "order memory_pool"
  client_response :: client_response_internal
  market_update :: market_update
  next_market_order_id :: order_id_t

definition order_book_init :: "instrument_id_t \<Rightarrow> message_handler \<Rightarrow> order_book result" where
  "order_book_init i mh =
     rbind (memory_pool_init MAX_PRICE_LEVELS default_price_level) (\<lambda>lp.
     rbind (memory_pool_init MAX_NUM_ORDERS default_order) (\<lambda>op.
     Inr \<lparr>instrument_id = i, message_handler = mh, client_orders = (\<lambda>_ _. None),
          price_level_pool = lp, bid = None, ask = None, price_levels = (\<lambda>_. None),
          order_pool = op, client_response = default_client_response,
          market_update = default_market_update, next_market_order_id = 1\<rparr>))"

text \<open>Objects in the pools, and assignment to their members.\<close>

definition level_at :: "order_book \<Rightarrow> nat \<Rightarrow> price_level" where
  "level_at s = pool_get (price_level_pool s)"

definition order_at :: "order_book \<Rightarrow> nat \<Rightarrow> order" where
  "order_at s = pool_get (order_pool s)"

definition set_level :: "nat \<Rightarrow> (price_level \<Rightarrow> price_level) \<Rightarrow> order_book \<Rightarrow> order_book" where
  "set_level a f s = s\<lparr>price_level_pool := pool_set a f (price_level_pool s)\<rparr>"

definition set_order :: "nat \<Rightarrow> (order \<Rightarrow> order) \<Rightarrow> order_book \<Rightarrow> order_book" where
  "set_order a f s = s\<lparr>order_pool := pool_set a f (order_pool s)\<rparr>"

text \<open>
  \<open>best_price_level\<close> is a reference to \<open>bid_\<close> or \<open>ask_\<close>: every side but \<open>BUY\<close> selects
  the asks.
\<close>

definition best :: "side_t \<Rightarrow> order_book \<Rightarrow> ptr" where
  "best sd s = (if sd = BUY then bid s else ask s)"

definition set_best :: "side_t \<Rightarrow> ptr \<Rightarrow> order_book \<Rightarrow> order_book" where
  "set_best sd p s = (if sd = BUY then s\<lparr>bid := p\<rparr> else s\<lparr>ask := p\<rparr>)"

text \<open>Storing a message in the member \<open>client_response_\<close> or \<open>market_update_\<close> and sending it.\<close>

definition respond :: "client_response_internal \<Rightarrow> order_book \<Rightarrow> order_book" where
  "respond r s = s\<lparr>client_response := r, message_handler := send_client_response r (message_handler s)\<rparr>"

definition publish_update :: "market_update \<Rightarrow> order_book \<Rightarrow> order_book" where
  "publish_update u s = s\<lparr>market_update := u, message_handler := send_market_update u (message_handler s)\<rparr>"

section \<open>Price levels (order\_book.hpp)\<close>

definition get_new_market_order_id :: "order_book \<Rightarrow> order_id_t \<times> order_book" where
  "get_new_market_order_id s = (next_market_order_id s, s\<lparr>next_market_order_id := next_market_order_id s + 1\<rparr>)"

text \<open>\<open>price % MAX_PRICE_LEVELS\<close> converts the signed price to \<open>size_t\<close> first.\<close>

definition price_to_index :: "price_t \<Rightarrow> nat" where
  "price_to_index p = unat p mod MAX_PRICE_LEVELS"

definition get_price_level :: "side_t \<Rightarrow> price_t \<Rightarrow> order_book \<Rightarrow> ptr" where
  "get_price_level sd p s = (case price_levels s (price_to_index p) of None \<Rightarrow> None
     | Some l \<Rightarrow> if l_side (level_at s l) = sd then Some l else None)"

definition get_order_priority_at_price_level :: "side_t \<Rightarrow> price_t \<Rightarrow> order_book \<Rightarrow> priority_t result" where
  "get_order_priority_at_price_level sd p s = (case get_price_level sd p s of None \<Rightarrow> Inr 1
     | Some l \<Rightarrow> rbind (deref (first_order (level_at s l))) (\<lambda>f. Inr (o_priority (order_at s f) + 1)))"

definition comparison_func :: "price_t \<Rightarrow> price_t \<Rightarrow> side_t \<Rightarrow> bool" where
  "comparison_func a b sd = (if sd = BUY then sint b < sint a else sint a < sint b)"

definition add_after :: "nat \<Rightarrow> nat \<Rightarrow> order_book \<Rightarrow> order_book result" where
  "add_after current new s =
     (let s = set_level new (\<lambda>l. l\<lparr>next_entry := next_entry (level_at s current)\<rparr>) s;
          s = set_level new (\<lambda>l. l\<lparr>prev_entry := Some current\<rparr>) s
      in rbind (deref (next_entry (level_at s current))) (\<lambda>c.
      let s = set_level c (\<lambda>l. l\<lparr>prev_entry := Some new\<rparr>) s;
          s = set_level current (\<lambda>l. l\<lparr>next_entry := Some new\<rparr>) s
      in Inr s))"

definition add_before :: "nat \<Rightarrow> nat \<Rightarrow> order_book \<Rightarrow> order_book result" where
  "add_before current new s =
     (let s = set_level new (\<lambda>l. l\<lparr>prev_entry := prev_entry (level_at s current)\<rparr>) s;
          s = set_level new (\<lambda>l. l\<lparr>next_entry := Some current\<rparr>) s
      in rbind (deref (prev_entry (level_at s current))) (\<lambda>c.
      let s = set_level c (\<lambda>l. l\<lparr>next_entry := Some new\<rparr>) s;
          s = set_level current (\<lambda>l. l\<lparr>prev_entry := Some new\<rparr>) s
      in Inr s))"

text \<open>
  The search loop of \<open>add_price_level\<close>: it returns \<open>current_price_level\<close> and
  \<open>add_after_flag\<close>.
\<close>

fun find_slot :: "nat \<Rightarrow> order_book \<Rightarrow> ptr \<Rightarrow> side_t \<Rightarrow> price_t \<Rightarrow> nat \<Rightarrow> bool \<Rightarrow> (nat \<times> bool) result" where
  "find_slot fuel s bst sd p current flag =
     (if \<not> flag \<and> \<not> comparison_func p (l_price (level_at s current)) sd
      then if fuel = 0 then Inl OutOfFuel
           else rbind (deref (next_entry (level_at s current))) (\<lambda>c.
             find_slot (fuel - 1) s bst sd p c (next_entry (level_at s c) = bst))
      else Inr (current, flag))"

definition add_price_level :: "nat \<Rightarrow> order_book \<Rightarrow> order_book result" where
  "add_price_level new s =
     (let s = s\<lparr>price_levels := (price_levels s)(price_to_index (l_price (level_at s new)) := Some new)\<rparr>;
          sd = l_side (level_at s new); p = l_price (level_at s new)
      in case best sd s of
           None \<Rightarrow> Inr (set_best sd (Some new)
             (set_level new (\<lambda>l. l\<lparr>prev_entry := Some new, next_entry := Some new\<rparr>) s))
         | Some b \<Rightarrow>
             if comparison_func p (l_price (level_at s b)) sd
             then rbind (add_before b new s) (\<lambda>s. Inr (set_best sd (Some new) s))
             else rbind (deref (next_entry (level_at s b))) (\<lambda>c.
                  rbind (find_slot (MAX_PRICE_LEVELS + 1) s (Some b) sd p c False) (\<lambda>(current, flag).
                  if flag then add_after current new s else add_before current new s)))"

definition remove_price_level :: "side_t \<Rightarrow> price_t \<Rightarrow> order_book \<Rightarrow> order_book result" where
  "remove_price_level sd p s = (case get_price_level sd p s of
       None \<Rightarrow> Inr s
     | Some l \<Rightarrow>
         rbind
           (if next_entry (level_at s l) = Some l then Inr (set_best sd None s)
            else rbind (deref (prev_entry (level_at s l))) (\<lambda>before.
              let s = set_level before (\<lambda>x. x\<lparr>next_entry := next_entry (level_at s l)\<rparr>) s
              in rbind (deref (next_entry (level_at s l))) (\<lambda>after.
              let s = set_level after (\<lambda>x. x\<lparr>prev_entry := prev_entry (level_at s l)\<rparr>) s
              in rbind (deref (best sd s)) (\<lambda>b.
              let s = (if l_price (level_at s b) = l_price (level_at s l)
                       then set_best sd (next_entry (level_at s l)) s else s)
              in Inr (set_level l (\<lambda>x. x\<lparr>prev_entry := None, next_entry := None\<rparr>) s)))))
           (\<lambda>s. let s = s\<lparr>price_levels := (price_levels s)(price_to_index p := None)\<rparr>
                in rbind (pool_free l (price_level_pool s)) (\<lambda>lp. Inr (s\<lparr>price_level_pool := lp\<rparr>))))"

section \<open>Orders (order\_book.hpp)\<close>

definition set_client_order :: "client_id_t \<Rightarrow> order_id_t \<Rightarrow> ptr \<Rightarrow> order_book \<Rightarrow> order_book result" where
  "set_client_order c i p s =
     (if unat c < MAX_NUM_CLIENTS \<and> unat i < MAX_NUM_ORDERS
      then Inr (s\<lparr>client_orders := (client_orders s)(unat c := (client_orders s (unat c))(unat i := p))\<rparr>)
      else Inl OutOfRange)"

definition add_order :: "nat \<Rightarrow> order_book \<Rightarrow> order_book result" where
  "add_order a s =
     rbind
       (case get_price_level (o_side (order_at s a)) (o_price (order_at s a)) s of
          None \<Rightarrow>
            let s = set_order a (\<lambda>x. x\<lparr>prev_order := Some a, next_order := Some a\<rparr>) s
            in rbind (pool_alloc \<lparr>l_side = o_side (order_at s a), l_price = o_price (order_at s a),
                 first_order = Some a, prev_entry = None, next_entry = None\<rparr> (price_level_pool s)) (\<lambda>(l, lp).
               add_price_level l (s\<lparr>price_level_pool := lp\<rparr>))
        | Some l \<Rightarrow>
            rbind (DEBUG_ASSERT (l_side (level_at s l) = o_side (order_at s a)) ''Side mismatch'') (\<lambda>_.
            rbind (deref (first_order (level_at s l))) (\<lambda>f.
            rbind (deref (prev_order (order_at s f))) (\<lambda>old_last.
            let s = set_order old_last (\<lambda>x. x\<lparr>next_order := Some a\<rparr>) s;
                s = set_order a (\<lambda>x. x\<lparr>prev_order := Some old_last\<rparr>) s;
                s = set_order a (\<lambda>x. x\<lparr>next_order := first_order (level_at s l)\<rparr>) s;
                s = set_order f (\<lambda>x. x\<lparr>prev_order := Some a\<rparr>) s
            in Inr s))))
       (\<lambda>s. set_client_order (o_client_id (order_at s a)) (o_client_order_id (order_at s a)) (Some a) s)"

definition remove_order :: "nat \<Rightarrow> order_book \<Rightarrow> order_book result" where
  "remove_order a s =
     (let lvl = get_price_level (o_side (order_at s a)) (o_price (order_at s a)) s in
      rbind
       (if prev_order (order_at s a) = Some a
        then remove_price_level (o_side (order_at s a)) (o_price (order_at s a)) s
        else
          rbind (deref (prev_order (order_at s a))) (\<lambda>before.
          rbind (deref (next_order (order_at s a))) (\<lambda>after.
          let s = set_order before (\<lambda>x. x\<lparr>next_order := Some after\<rparr>) s;
              s = set_order after (\<lambda>x. x\<lparr>prev_order := Some before\<rparr>) s
          in rbind (deref lvl) (\<lambda>l.
          let s = (if first_order (level_at s l) = Some a
                   then set_level l (\<lambda>x. x\<lparr>first_order := Some after\<rparr>) s else s)
          in Inr (set_order a (\<lambda>x. x\<lparr>prev_order := None, next_order := None\<rparr>) s)))))
       (\<lambda>s. rbind (set_client_order (o_client_id (order_at s a)) (o_client_order_id (order_at s a)) None s) (\<lambda>s.
            rbind (pool_free a (order_pool s)) (\<lambda>op. Inr (s\<lparr>order_pool := op\<rparr>)))))"

section \<open>Matching (order\_book.cpp)\<close>

text \<open>
  \<open>match\<close>: fills the incoming order against the resting order at address \<open>a\<close>; the
  result is the incoming order's remaining quantity.
\<close>

definition match_order :: "client_id_t \<Rightarrow> side_t \<Rightarrow> order_id_t \<Rightarrow> order_id_t \<Rightarrow> quantity_t \<Rightarrow> nat \<Rightarrow>
    order_book \<Rightarrow> (quantity_t \<times> order_book) result" where
  "match_order cid sd coid moid leaves_qty a s =
     (let matched_qty = min leaves_qty (o_qty (order_at s a));
          old_qty = o_qty (order_at s a);
          leaves_qty_after_match = leaves_qty - matched_qty;
          s = set_order a (\<lambda>x. x\<lparr>o_qty := o_qty x - matched_qty\<rparr>) s;
          o' = order_at s a;
          s = respond \<lparr>rs_type = FILLED, rs_client_id = cid, rs_instrument_id = instrument_id s,
                rs_client_order_id = coid, rs_market_order_id = moid, rs_side = sd,
                rs_price = o_price o', rs_exec_qty = matched_qty,
                rs_leaves_qty = leaves_qty_after_match\<rparr> s;
          s = respond \<lparr>rs_type = FILLED, rs_client_id = o_client_id o',
                rs_instrument_id = o_instrument_id o', rs_client_order_id = o_client_order_id o',
                rs_market_order_id = o_market_order_id o', rs_side = o_side o',
                rs_price = o_price o', rs_exec_qty = matched_qty, rs_leaves_qty = o_qty o'\<rparr> s;
          s = publish_update \<lparr>mu_type = MU_TRADE, mu_order_id = INVALID_ORDER_ID,
                mu_instrument_id = instrument_id s, mu_side = sd, mu_price = o_price o',
                mu_qty = matched_qty, mu_priority = INVALID_PRIORITY\<rparr> s
      in if o_qty o' = 0
         then rbind (remove_order a (publish_update \<lparr>mu_type = MU_CANCEL,
                mu_order_id = o_market_order_id o', mu_instrument_id = instrument_id s,
                mu_side = o_side o', mu_price = o_price o', mu_qty = old_qty,
                mu_priority = o_priority o'\<rparr> s)) (\<lambda>s. Inr (leaves_qty_after_match, s))
         else Inr (leaves_qty_after_match, publish_update \<lparr>mu_type = MU_MODIFY,
                mu_order_id = o_market_order_id o', mu_instrument_id = instrument_id s,
                mu_side = o_side o', mu_price = o_price o', mu_qty = o_qty o',
                mu_priority = o_priority o'\<rparr> s))"

text \<open>
  The two loops of \<open>check_for_match\<close> differ in the ring they take the resting order from and
  in the price comparison that stops them.
\<close>

definition opposite :: "side_t \<Rightarrow> order_book \<Rightarrow> ptr" where
  "opposite sd s = (if sd = BUY then ask s else bid s)"

definition too_far :: "side_t \<Rightarrow> price_t \<Rightarrow> price_t \<Rightarrow> bool" where
  "too_far sd resting limit = (if sd = BUY then sint limit < sint resting else sint resting < sint limit)"

fun match_loop :: "nat \<Rightarrow> client_id_t \<Rightarrow> order_id_t \<Rightarrow> order_id_t \<Rightarrow> side_t \<Rightarrow> price_t \<Rightarrow> quantity_t \<Rightarrow>
    order_book \<Rightarrow> (quantity_t \<times> order_book) result" where
  "match_loop fuel cid coid moid sd price leaves_qty s =
     (if leaves_qty \<noteq> 0 \<and> opposite sd s \<noteq> None
      then if fuel = 0 then Inl OutOfFuel
           else rbind (deref (opposite sd s)) (\<lambda>l.
                rbind (deref (first_order (level_at s l))) (\<lambda>a.
                if too_far sd (o_price (order_at s a)) price then Inr (leaves_qty, s)
                else rbind (match_order cid sd coid moid leaves_qty a s) (\<lambda>(leaves_qty, s).
                     match_loop (fuel - 1) cid coid moid sd price leaves_qty s)))
      else Inr (leaves_qty, s))"

declare find_slot.simps [simp del] match_loop.simps [simp del]

text \<open>Each iteration but the last removes a resting order: the fuel is the order pool's size and one.\<close>

definition check_for_match :: "client_id_t \<Rightarrow> order_id_t \<Rightarrow> order_id_t \<Rightarrow> side_t \<Rightarrow> price_t \<Rightarrow> quantity_t \<Rightarrow>
    order_book \<Rightarrow> (quantity_t \<times> order_book) result" where
  "check_for_match cid coid moid sd price qty s =
     match_loop (MAX_NUM_ORDERS + 1) cid coid moid sd price qty s"

section \<open>The three operations (order\_book.cpp)\<close>

definition ob_add :: "client_id_t \<Rightarrow> order_id_t \<Rightarrow> side_t \<Rightarrow> price_t \<Rightarrow> quantity_t \<Rightarrow> order_book \<Rightarrow>
    order_book result" where
  "ob_add cid coid sd price qty s =
     (let (moid, s) = get_new_market_order_id s;
          s = respond \<lparr>rs_type = ACCEPTED, rs_client_id = cid, rs_instrument_id = instrument_id s,
                rs_client_order_id = coid, rs_market_order_id = moid, rs_side = sd,
                rs_price = price, rs_exec_qty = 0, rs_leaves_qty = qty\<rparr> s
      in rbind (check_for_match cid coid moid sd price qty s) (\<lambda>(leaves_qty, s).
         if 0 < leaves_qty
         then rbind (get_order_priority_at_price_level sd price s) (\<lambda>priority.
              rbind (pool_alloc \<lparr>o_instrument_id = instrument_id s, o_client_id = cid,
                o_client_order_id = coid, o_market_order_id = moid, o_side = sd, o_price = price,
                o_qty = leaves_qty, o_priority = priority, prev_order = None, next_order = None\<rparr>
                (order_pool s)) (\<lambda>(a, op).
              rbind (add_order a (s\<lparr>order_pool := op\<rparr>)) (\<lambda>s.
              Inr (publish_update \<lparr>mu_type = MU_ADD, mu_order_id = moid,
                mu_instrument_id = instrument_id s, mu_side = sd, mu_price = price,
                mu_qty = leaves_qty, mu_priority = priority\<rparr> s))))
         else Inr s))"

text \<open>
  The lookup shared by \<open>cancel\<close> and \<open>modify\<close>: no such client gives \<open>nullptr\<close>, an order
  identifier past the end of the client's vector throws in \<open>at\<close>.
\<close>

definition find_client_order :: "client_id_t \<Rightarrow> order_id_t \<Rightarrow> order_book \<Rightarrow> ptr result" where
  "find_client_order cid coid s =
     (if unat cid < MAX_NUM_CLIENTS
      then if unat coid < MAX_NUM_ORDERS then Inr (client_orders s (unat cid) (unat coid)) else Inl OutOfRange
      else Inr None)"

definition ob_cancel :: "client_id_t \<Rightarrow> order_id_t \<Rightarrow> order_book \<Rightarrow> order_book result" where
  "ob_cancel cid coid s = rbind (find_client_order cid coid s) (\<lambda>p. case p of
       None \<Rightarrow> Inr (respond \<lparr>rs_type = CANCEL_REJECTED, rs_client_id = cid,
         rs_instrument_id = instrument_id s, rs_client_order_id = coid,
         rs_market_order_id = INVALID_ORDER_ID, rs_side = SIDE_INVALID, rs_price = INVALID_PRICE,
         rs_exec_qty = INVALID_QUANTITY, rs_leaves_qty = INVALID_QUANTITY\<rparr> s)
     | Some a \<Rightarrow>
         let r = \<lparr>rs_type = CANCELED, rs_client_id = cid, rs_instrument_id = instrument_id s,
               rs_client_order_id = coid, rs_market_order_id = o_market_order_id (order_at s a),
               rs_side = o_side (order_at s a), rs_price = o_price (order_at s a),
               rs_exec_qty = INVALID_QUANTITY, rs_leaves_qty = o_qty (order_at s a)\<rparr>;
             u = \<lparr>mu_type = MU_CANCEL, mu_order_id = o_market_order_id (order_at s a),
               mu_instrument_id = instrument_id s, mu_side = o_side (order_at s a),
               mu_price = o_price (order_at s a), mu_qty = 0, mu_priority = o_priority (order_at s a)\<rparr>
         in rbind (remove_order a s) (\<lambda>s. Inr (publish_update u (respond r s))))"

text \<open>
  On a price change or a larger quantity, \<open>modify\<close> cancels and adds again; it reads the
  side from the freed block, whose contents \<open>free\<close> has left alone.
\<close>

definition ob_modify :: "client_id_t \<Rightarrow> order_id_t \<Rightarrow> price_t \<Rightarrow> quantity_t \<Rightarrow> order_book \<Rightarrow>
    order_book result" where
  "ob_modify cid coid new_price new_qty s = rbind (find_client_order cid coid s) (\<lambda>p. case p of
       None \<Rightarrow> Inr (respond \<lparr>rs_type = MODIFY_REJECTED, rs_client_id = cid,
         rs_instrument_id = instrument_id s, rs_client_order_id = coid,
         rs_market_order_id = INVALID_ORDER_ID, rs_side = SIDE_INVALID, rs_price = INVALID_PRICE,
         rs_exec_qty = INVALID_QUANTITY, rs_leaves_qty = INVALID_QUANTITY\<rparr> s)
     | Some a \<Rightarrow>
         if o_price (order_at s a) \<noteq> new_price \<or> o_qty (order_at s a) < new_qty
         then rbind (ob_cancel cid coid s) (\<lambda>s.
              ob_add cid coid (o_side (order_at s a)) new_price new_qty s)
         else
           let s = set_order a (\<lambda>x. x\<lparr>o_qty := new_qty\<rparr>) s;
               s = respond \<lparr>rs_type = MODIFIED, rs_client_id = cid,
                 rs_instrument_id = instrument_id s, rs_client_order_id = coid,
                 rs_market_order_id = o_market_order_id (order_at s a),
                 rs_side = o_side (order_at s a), rs_price = new_price, rs_exec_qty = 0,
                 rs_leaves_qty = new_qty\<rparr> s
           in Inr (publish_update \<lparr>mu_type = MU_MODIFY, mu_order_id = o_market_order_id (order_at s a),
                 mu_instrument_id = instrument_id s, mu_side = o_side (order_at s a),
                 mu_price = new_price, mu_qty = new_qty, mu_priority = o_priority (order_at s a)\<rparr> s))"

end
