(* ===== verification/OrderBookSpec.thy ===== *)
theory OrderBookSpec
  imports OrderBook
begin

text \<open>
  The abstract order book: each side is the list of its price levels in ring order from the
  best, each level its price and its orders in arrival order, without pointers, pools or index
  arrays. The operations return the new book and the messages sent. This is what the heap
  implementation of \<open>OrderBook\<close> is proved to compute (in \<open>OrderBookRefine\<close>), and what the
  trading rules are stated on.
\<close>

section \<open>Where a new price level goes\<close>

text \<open>
  \<open>slot_insert\<close> is the position \<open>add_price_level\<close> gives a new level, over any list whose
  elements have a price (\<open>key\<close>). \<open>slot_tail\<close> covers the third level onwards: it compares with
  every level but the last, behind which the new one is linked unseen.
\<close>

fun slot_tail :: "('x \<Rightarrow> price_t) \<Rightarrow> side_t \<Rightarrow> 'x \<Rightarrow> 'x list \<Rightarrow> 'x list" where
  "slot_tail key sd x [] = [x]"
| "slot_tail key sd x [y] = [y, x]"
| "slot_tail key sd x (y # z # zs) =
     (if comparison_func (key x) (key y) sd then x # y # z # zs else y # slot_tail key sd x (z # zs))"

fun slot_insert :: "('x \<Rightarrow> price_t) \<Rightarrow> side_t \<Rightarrow> 'x \<Rightarrow> 'x list \<Rightarrow> 'x list" where
  "slot_insert key sd x [] = [x]"
| "slot_insert key sd x [b] = (if comparison_func (key x) (key b) sd then [x, b] else [b, x])"
| "slot_insert key sd x (b # y # ys) =
     (if comparison_func (key x) (key b) sd then x # b # y # ys
      else if comparison_func (key x) (key y) sd then b # x # y # ys
      else b # y # slot_tail key sd x ys)"

lemma map_slot_tail:
  "(\<And>y. y \<in> set (x # ys) \<Longrightarrow> key' (f y) = key y) \<Longrightarrow>
    map f (slot_tail key sd x ys) = slot_tail key' sd (f x) (map f ys)"
  by (induction key sd x ys rule: slot_tail.induct) auto

lemma map_slot_insert:
  "(\<And>y. y \<in> set (x # ys) \<Longrightarrow> key' (f y) = key y) \<Longrightarrow>
    map f (slot_insert key sd x ys) = slot_insert key' sd (f x) (map f ys)"
  by (cases "(key, sd, x, ys)" rule: slot_insert.cases) (auto intro!: map_slot_tail)

lemma set_slot_tail [simp]: "set (slot_tail key sd x ys) = insert x (set ys)"
  by (induction key sd x ys rule: slot_tail.induct) auto

lemma set_slot_insert [simp]: "set (slot_insert key sd x ys) = insert x (set ys)"
  by (cases "(key, sd, x, ys)" rule: slot_insert.cases) auto

definition inserted :: "'x \<Rightarrow> 'x list \<Rightarrow> 'x list \<Rightarrow> bool" where
  "inserted x ys zs \<longleftrightarrow> (\<exists>L1 L2. ys = L1 @ L2 \<and> zs = L1 @ x # L2)"

lemma inserted_here [simp, intro]: "inserted x ys (x # ys)"
  unfolding inserted_def by (metis append_Nil)

lemma inserted_later [simp, intro]: "inserted x ys zs \<Longrightarrow> inserted x (y # ys) (y # zs)"
  unfolding inserted_def by (metis append_Cons)

lemma inserted_slot_tail [simp]: "inserted x ys (slot_tail key sd x ys)"
  by (induction key sd x ys rule: slot_tail.induct) auto

lemma inserted_slot_insert [simp]: "inserted x ys (slot_insert key sd x ys)"
  by (cases "(key, sd, x, ys)" rule: slot_insert.cases) auto

section \<open>The abstract book\<close>

type_synonym level = "price_t \<times> order_info list"

record abook =
  a_instrument :: instrument_id_t
  a_bids :: "level list"
  a_asks :: "level list"
  a_next_id :: order_id_t

definition a_init :: "instrument_id_t \<Rightarrow> abook" where
  "a_init i = \<lparr>a_instrument = i, a_bids = [], a_asks = [], a_next_id = 1\<rparr>"

definition a_side :: "bool \<Rightarrow> abook \<Rightarrow> level list" where
  "a_side b A = (if b then a_bids A else a_asks A)"

definition set_a_side :: "bool \<Rightarrow> level list \<Rightarrow> abook \<Rightarrow> abook" where
  "set_a_side b L A = (if b then A\<lparr>a_bids := L\<rparr> else A\<lparr>a_asks := L\<rparr>)"

lemma a_side_set [simp]:
  "a_side b (set_a_side b' L A) = (if b = b' then L else a_side b A)"
  "a_instrument (set_a_side b L A) = a_instrument A"
  "a_next_id (set_a_side b L A) = a_next_id A"
  by (auto simp: a_side_def set_a_side_def)

abbreviation level_orders :: "level list \<Rightarrow> order_info list" where
  "level_orders L \<equiv> concat (map snd L)"

definition a_orders :: "abook \<Rightarrow> order_info list" where
  "a_orders A = level_orders (a_bids A) @ level_orders (a_asks A)"

section \<open>Matching\<close>

text \<open>The messages of one match of the incoming order against a resting one.\<close>

definition match_msgs :: "instrument_id_t \<Rightarrow> client_id_t \<Rightarrow> side_t \<Rightarrow> order_id_t \<Rightarrow> order_id_t \<Rightarrow>
    quantity_t \<Rightarrow> order_info \<Rightarrow> out_msg list" where
  "match_msgs i cid sd coid moid leaves_qty x =
     (let m = min leaves_qty (o_qty x); rest = o_qty x - m in
      [Resp \<lparr>rs_type = FILLED, rs_client_id = cid, rs_instrument_id = i, rs_client_order_id = coid,
         rs_market_order_id = moid, rs_side = sd, rs_price = o_price x, rs_exec_qty = m,
         rs_leaves_qty = leaves_qty - m\<rparr>,
       Resp \<lparr>rs_type = FILLED, rs_client_id = o_client_id x, rs_instrument_id = o_instrument_id x,
         rs_client_order_id = o_client_order_id x, rs_market_order_id = o_market_order_id x,
         rs_side = o_side x, rs_price = o_price x, rs_exec_qty = m, rs_leaves_qty = rest\<rparr>,
       Upd \<lparr>mu_type = MU_TRADE, mu_order_id = INVALID_ORDER_ID, mu_instrument_id = i, mu_side = sd,
         mu_price = o_price x, mu_qty = m, mu_priority = INVALID_PRIORITY\<rparr>,
       if rest = 0
       then Upd \<lparr>mu_type = MU_CANCEL, mu_order_id = o_market_order_id x, mu_instrument_id = i,
         mu_side = o_side x, mu_price = o_price x, mu_qty = o_qty x, mu_priority = o_priority x\<rparr>
       else Upd \<lparr>mu_type = MU_MODIFY, mu_order_id = o_market_order_id x, mu_instrument_id = i,
         mu_side = o_side x, mu_price = o_price x, mu_qty = rest, mu_priority = o_priority x\<rparr>])"

text \<open>A level's orders with an empty level left out of the ring.\<close>

definition keep_level :: "'p \<Rightarrow> 'x list \<Rightarrow> ('p \<times> 'x list) list" where
  "keep_level p xs = (if xs = [] then [] else [(p, xs)])"

lemma partial_match: "q \<noteq> min l q \<Longrightarrow> l = min l (q :: quantity_t)"
  by (simp add: min_def split: if_splits)

text \<open>The incoming order sweeps the opposite side from its first order on.\<close>

function a_sweep :: "instrument_id_t \<Rightarrow> client_id_t \<Rightarrow> order_id_t \<Rightarrow> order_id_t \<Rightarrow> side_t \<Rightarrow> price_t \<Rightarrow>
    quantity_t \<Rightarrow> level list \<Rightarrow> quantity_t \<times> level list \<times> out_msg list" where
  "a_sweep i cid coid moid sd price leaves_qty [] = (leaves_qty, [], [])"
| "a_sweep i cid coid moid sd price leaves_qty ((p, []) # L) = (leaves_qty, (p, []) # L, [])"
| "a_sweep i cid coid moid sd price leaves_qty ((p, x # xs) # L) =
     (if leaves_qty = 0 \<or> too_far sd (o_price x) price then (leaves_qty, (p, x # xs) # L, [])
      else let m = min leaves_qty (o_qty x);
               L' = (if o_qty x - m = 0 then keep_level p xs @ L
                     else (p, x\<lparr>o_qty := o_qty x - m\<rparr> # xs) # L);
               (left, L'', ms) = a_sweep i cid coid moid sd price (leaves_qty - m) L'
           in (left, L'', match_msgs i cid sd coid moid leaves_qty x @ ms))"
  by pat_completeness auto

termination
  by (relation "measure (\<lambda>(_, _, _, _, _, _, leaves_qty, L).
      length (level_orders L) + (if leaves_qty = 0 then 0 else 1))")
    (auto simp: keep_level_def dest: partial_match)

declare a_sweep.simps(3) [simp del]

section \<open>Resting\<close>

definition same_slot :: "price_t \<Rightarrow> price_t \<Rightarrow> bool" where
  "same_slot p q \<longleftrightarrow> price_to_index p = price_to_index q"

text \<open>
  The new order joins the level that holds its price's slot, behind the orders there, or
  starts a level of its own.
\<close>

definition a_place :: "side_t \<Rightarrow> order_info \<Rightarrow> level list \<Rightarrow> level list" where
  "a_place sd x L =
     (if \<exists>(p, xs) \<in> set L. same_slot p (o_price x)
      then map (\<lambda>(p, xs). if same_slot p (o_price x) then (p, xs @ [x]) else (p, xs)) L
      else slot_insert fst sd (o_price x, [x]) L)"

text \<open>The priority that the code computes: one more than that of the level's first order.\<close>

definition a_priority :: "price_t \<Rightarrow> level list \<Rightarrow> priority_t" where
  "a_priority price L = (case List.find (\<lambda>(p, xs). same_slot p price) L of None \<Rightarrow> 1
     | Some (p, xs) \<Rightarrow> o_priority (hd xs) + 1)"

section \<open>The operations\<close>

definition a_add :: "client_id_t \<Rightarrow> order_id_t \<Rightarrow> side_t \<Rightarrow> price_t \<Rightarrow> quantity_t \<Rightarrow> abook \<Rightarrow>
    abook \<times> out_msg list" where
  "a_add cid coid sd price qty A =
     (let i = a_instrument A; moid = a_next_id A; own = (sd = BUY);
          accepted = Resp \<lparr>rs_type = ACCEPTED, rs_client_id = cid, rs_instrument_id = i,
            rs_client_order_id = coid, rs_market_order_id = moid, rs_side = sd, rs_price = price,
            rs_exec_qty = 0, rs_leaves_qty = qty\<rparr>;
          (left, L, ms) = a_sweep i cid coid moid sd price qty (a_side (\<not> own) A);
          A = (set_a_side (\<not> own) L A)\<lparr>a_next_id := moid + 1\<rparr>
      in if 0 < left
         then let x = \<lparr>o_instrument_id = i, o_client_id = cid, o_client_order_id = coid,
                    o_market_order_id = moid, o_side = sd, o_price = price, o_qty = left,
                    o_priority = a_priority price (a_side own A)\<rparr>
              in (set_a_side own (a_place sd x (a_side own A)) A,
                  accepted # ms @ [Upd \<lparr>mu_type = MU_ADD, mu_order_id = moid, mu_instrument_id = i,
                    mu_side = sd, mu_price = price, mu_qty = left, mu_priority = o_priority x\<rparr>])
         else (A, accepted # ms))"

definition owned_by :: "client_id_t \<Rightarrow> order_id_t \<Rightarrow> order_info \<Rightarrow> bool" where
  "owned_by cid coid x \<longleftrightarrow> o_client_id x = cid \<and> o_client_order_id x = coid"

definition a_find :: "client_id_t \<Rightarrow> order_id_t \<Rightarrow> abook \<Rightarrow> order_info option" where
  "a_find cid coid A = List.find (owned_by cid coid) (a_orders A)"

definition a_delete :: "client_id_t \<Rightarrow> order_id_t \<Rightarrow> level list \<Rightarrow> level list" where
  "a_delete cid coid L = concat (map (\<lambda>(p, xs). keep_level p (filter (\<lambda>x. \<not> owned_by cid coid x) xs)) L)"

definition rejected :: "client_response_type \<Rightarrow> client_id_t \<Rightarrow> order_id_t \<Rightarrow> abook \<Rightarrow> out_msg" where
  "rejected t cid coid A = Resp \<lparr>rs_type = t, rs_client_id = cid, rs_instrument_id = a_instrument A,
     rs_client_order_id = coid, rs_market_order_id = INVALID_ORDER_ID, rs_side = SIDE_INVALID,
     rs_price = INVALID_PRICE, rs_exec_qty = INVALID_QUANTITY, rs_leaves_qty = INVALID_QUANTITY\<rparr>"

definition a_cancel :: "client_id_t \<Rightarrow> order_id_t \<Rightarrow> abook \<Rightarrow> abook \<times> out_msg list" where
  "a_cancel cid coid A = (case a_find cid coid A of
       None \<Rightarrow> (A, [rejected CANCEL_REJECTED cid coid A])
     | Some x \<Rightarrow>
         (A\<lparr>a_bids := a_delete cid coid (a_bids A), a_asks := a_delete cid coid (a_asks A)\<rparr>,
          [Resp \<lparr>rs_type = CANCELED, rs_client_id = cid, rs_instrument_id = a_instrument A,
             rs_client_order_id = coid, rs_market_order_id = o_market_order_id x,
             rs_side = o_side x, rs_price = o_price x, rs_exec_qty = INVALID_QUANTITY,
             rs_leaves_qty = o_qty x\<rparr>,
           Upd \<lparr>mu_type = MU_CANCEL, mu_order_id = o_market_order_id x,
             mu_instrument_id = a_instrument A, mu_side = o_side x, mu_price = o_price x,
             mu_qty = 0, mu_priority = o_priority x\<rparr>]))"

definition a_set_qty :: "client_id_t \<Rightarrow> order_id_t \<Rightarrow> quantity_t \<Rightarrow> level list \<Rightarrow> level list" where
  "a_set_qty cid coid q L =
     map (\<lambda>(p, xs). (p, map (\<lambda>x. if owned_by cid coid x then x\<lparr>o_qty := q\<rparr> else x) xs)) L"

definition a_modify :: "client_id_t \<Rightarrow> order_id_t \<Rightarrow> price_t \<Rightarrow> quantity_t \<Rightarrow> abook \<Rightarrow>
    abook \<times> out_msg list" where
  "a_modify cid coid price qty A = (case a_find cid coid A of
       None \<Rightarrow> (A, [rejected MODIFY_REJECTED cid coid A])
     | Some x \<Rightarrow>
         if o_price x \<noteq> price \<or> o_qty x < qty
         then let (A, ms) = a_cancel cid coid A; (A, ns) = a_add cid coid (o_side x) price qty A
              in (A, ms @ ns)
         else
           (A\<lparr>a_bids := a_set_qty cid coid qty (a_bids A), a_asks := a_set_qty cid coid qty (a_asks A)\<rparr>,
            [Resp \<lparr>rs_type = MODIFIED, rs_client_id = cid, rs_instrument_id = a_instrument A,
               rs_client_order_id = coid, rs_market_order_id = o_market_order_id x,
               rs_side = o_side x, rs_price = price, rs_exec_qty = 0, rs_leaves_qty = qty\<rparr>,
             Upd \<lparr>mu_type = MU_MODIFY, mu_order_id = o_market_order_id x,
               mu_instrument_id = a_instrument A, mu_side = o_side x, mu_price = price, mu_qty = qty,
               mu_priority = o_priority x\<rparr>]))"

section \<open>Where the implementation is proved to follow\<close>

text \<open>
  What an order must satisfy, after the opposite side has been swept, to be put into the book:
  a real side, identifiers inside the client arrays and not in use by a resting order, no level
  of the opposite side in its price's slot, and room in the order pool. Nothing is required of an
  order that is filled completely.
\<close>

definition may_rest :: "client_id_t \<Rightarrow> order_id_t \<Rightarrow> side_t \<Rightarrow> price_t \<Rightarrow> abook \<Rightarrow> bool" where
  "may_rest cid coid sd price A \<longleftrightarrow>
     sd \<in> {BUY, SELL} \<and> unat cid < MAX_NUM_CLIENTS \<and> unat coid < MAX_NUM_ORDERS \<and>
     list_all (\<lambda>x. \<not> owned_by cid coid x) (a_orders A) \<and>
     list_all (\<lambda>(p, xs). \<not> same_slot p price) (a_side (sd \<noteq> BUY) A) \<and>
     length (a_orders A) < MAX_NUM_ORDERS"

definition add_admissible :: "client_id_t \<Rightarrow> order_id_t \<Rightarrow> side_t \<Rightarrow> price_t \<Rightarrow> quantity_t \<Rightarrow> abook \<Rightarrow> bool" where
  "add_admissible cid coid sd price qty A \<longleftrightarrow>
     (case a_sweep (a_instrument A) cid coid (a_next_id A) sd price qty (a_side (sd \<noteq> BUY) A) of
        (left, L, ms) \<Rightarrow> left = 0 \<or> may_rest cid coid sd price (set_a_side (sd \<noteq> BUY) L A))"

definition lookup_admissible :: "client_id_t \<Rightarrow> order_id_t \<Rightarrow> bool" where
  "lookup_admissible cid coid \<longleftrightarrow> unat cid < MAX_NUM_CLIENTS \<longrightarrow> unat coid < MAX_NUM_ORDERS"

definition modify_admissible :: "client_id_t \<Rightarrow> order_id_t \<Rightarrow> price_t \<Rightarrow> quantity_t \<Rightarrow> abook \<Rightarrow> bool" where
  "modify_admissible cid coid price qty A \<longleftrightarrow> lookup_admissible cid coid \<and>
     (case a_find cid coid A of None \<Rightarrow> True
      | Some x \<Rightarrow> (o_price x \<noteq> price \<or> o_qty x < qty) \<longrightarrow>
          add_admissible cid coid (o_side x) price qty (fst (a_cancel cid coid A)))"

end
