(* ===== verification/OrderBookHeap.thy ===== *)
theory OrderBookHeap
  imports OrderBookSpec
begin

text \<open>
  The invariant of the order book's heap, and what each linking and unlinking operation of
  \<open>OrderBook\<close> does to it. A ghost value lists, for each side, the addresses of its levels in
  ring order, each with the addresses of its orders in ring order.
\<close>

section \<open>Reading a state after an assignment\<close>

lemma at_frames [simp]:
  "level_at (set_level a f s) = (level_at s)(a := f (level_at s a))"
  "level_at (set_order a g s) = level_at s"
  "level_at (set_best sd p s) = level_at s"
  "level_at (respond r s) = level_at s"
  "level_at (publish_update u s) = level_at s"
  "level_at (s\<lparr>price_levels := pl\<rparr>) = level_at s"
  "level_at (s\<lparr>client_orders := co\<rparr>) = level_at s"
  "level_at (s\<lparr>order_pool := op\<rparr>) = level_at s"
  "level_at (s\<lparr>next_market_order_id := n\<rparr>) = level_at s"
  "level_at (s\<lparr>message_handler := mh\<rparr>) = level_at s"
  "level_at (s\<lparr>price_level_pool := lp\<rparr>) = pool_get lp"
  "order_at (set_order a g s) = (order_at s)(a := g (order_at s a))"
  "order_at (set_level a f s) = order_at s"
  "order_at (set_best sd p s) = order_at s"
  "order_at (respond r s) = order_at s"
  "order_at (publish_update u s) = order_at s"
  "order_at (s\<lparr>price_levels := pl\<rparr>) = order_at s"
  "order_at (s\<lparr>client_orders := co\<rparr>) = order_at s"
  "order_at (s\<lparr>price_level_pool := lp\<rparr>) = order_at s"
  "order_at (s\<lparr>next_market_order_id := n\<rparr>) = order_at s"
  "order_at (s\<lparr>message_handler := mh\<rparr>) = order_at s"
  "order_at (s\<lparr>order_pool := op\<rparr>) = pool_get op"
  by (simp_all add: level_at_def order_at_def set_level_def set_order_def set_best_def respond_def
      publish_update_def)

lemma pool_get_level_at [simp]: "pool_get (price_level_pool s) = level_at s"
  and pool_get_order_at [simp]: "pool_get (order_pool s) = order_at s"
  by (simp_all add: level_at_def order_at_def)

lemma best_frames [simp]:
  "best sd (set_level a f s) = best sd s"
  "best sd (set_order a g s) = best sd s"
  "best sd (respond r s) = best sd s"
  "best sd (publish_update u s) = best sd s"
  "best sd (s\<lparr>price_levels := pl\<rparr>) = best sd s"
  "best sd (s\<lparr>client_orders := co\<rparr>) = best sd s"
  "best sd (s\<lparr>price_level_pool := lp\<rparr>) = best sd s"
  "best sd (s\<lparr>order_pool := op\<rparr>) = best sd s"
  "best sd (s\<lparr>next_market_order_id := n\<rparr>) = best sd s"
  "best sd (s\<lparr>message_handler := mh\<rparr>) = best sd s"
  "best sd (set_best sd' p s) = (if (sd = BUY) = (sd' = BUY) then p else best sd s)"
  by (simp_all add: best_def set_level_def set_order_def set_best_def respond_def publish_update_def)

lemma field_frames [simp]:
  "price_levels (set_level a f s) = price_levels s"
  "price_levels (set_order a g s) = price_levels s"
  "price_levels (set_best sd p s) = price_levels s"
  "price_levels (respond r s) = price_levels s"
  "price_levels (publish_update u s) = price_levels s"
  "client_orders (set_level a f s) = client_orders s"
  "client_orders (set_order a g s) = client_orders s"
  "client_orders (set_best sd p s) = client_orders s"
  "client_orders (respond r s) = client_orders s"
  "client_orders (publish_update u s) = client_orders s"
  "instrument_id (set_level a f s) = instrument_id s"
  "instrument_id (set_order a g s) = instrument_id s"
  "instrument_id (set_best sd p s) = instrument_id s"
  "instrument_id (respond r s) = instrument_id s"
  "instrument_id (publish_update u s) = instrument_id s"
  "next_market_order_id (set_level a f s) = next_market_order_id s"
  "next_market_order_id (set_order a g s) = next_market_order_id s"
  "next_market_order_id (set_best sd p s) = next_market_order_id s"
  "next_market_order_id (respond r s) = next_market_order_id s"
  "next_market_order_id (publish_update u s) = next_market_order_id s"
  "message_handler (set_level a f s) = message_handler s"
  "message_handler (set_order a g s) = message_handler s"
  "message_handler (set_best sd p s) = message_handler s"
  "message_handler (respond r s) = send (Resp r) (message_handler s)"
  "message_handler (publish_update u s) = send (Upd u) (message_handler s)"
  by (simp_all add: set_level_def set_order_def set_best_def respond_def publish_update_def)

lemma pool_frames [simp]:
  "order_pool (set_level a f s) = order_pool s"
  "order_pool (set_order a g s) = pool_set a g (order_pool s)"
  "order_pool (set_best sd p s) = order_pool s"
  "order_pool (respond r s) = order_pool s"
  "order_pool (publish_update u s) = order_pool s"
  "price_level_pool (set_level a f s) = pool_set a f (price_level_pool s)"
  "price_level_pool (set_order a g s) = price_level_pool s"
  "price_level_pool (set_best sd p s) = price_level_pool s"
  "price_level_pool (respond r s) = price_level_pool s"
  "price_level_pool (publish_update u s) = price_level_pool s"
  by (simp_all add: set_level_def set_order_def set_best_def respond_def publish_update_def)

definition oinfo :: "order_book \<Rightarrow> nat \<Rightarrow> order_info" where
  "oinfo s a = order_info.truncate (order_at s a)"

lemma truncate_simps [simp]:
  "o_instrument_id (order_info.truncate x) = o_instrument_id x"
  "o_client_id (order_info.truncate x) = o_client_id x"
  "o_client_order_id (order_info.truncate x) = o_client_order_id x"
  "o_market_order_id (order_info.truncate x) = o_market_order_id x"
  "o_side (order_info.truncate x) = o_side x"
  "o_price (order_info.truncate x) = o_price x"
  "o_qty (order_info.truncate x) = o_qty x"
  "o_priority (order_info.truncate x) = o_priority x"
  by (simp_all add: order_info.truncate_def)

lemma truncate_links [simp]:
  "order_info.truncate (y\<lparr>prev_order := p\<rparr>) = order_info.truncate y"
  "order_info.truncate (y\<lparr>next_order := p\<rparr>) = order_info.truncate y"
  "order_info.truncate (x\<lparr>o_qty := q\<rparr>) = (order_info.truncate x)\<lparr>o_qty := q\<rparr>"
  by (simp_all add: order_info.truncate_def)

section \<open>The invariant\<close>

type_synonym ghost = "bool \<Rightarrow> (nat \<times> nat list) list"

abbreviation key_side :: "bool \<Rightarrow> side_t" where
  "key_side b \<equiv> if b then BUY else SELL"

definition all_levels :: "ghost \<Rightarrow> nat list" where
  "all_levels G = map fst (G True) @ map fst (G False)"

definition all_orders :: "ghost \<Rightarrow> nat list" where
  "all_orders G = concat (map snd (G True)) @ concat (map snd (G False))"

fun level_ok :: "(nat \<Rightarrow> price_level) \<Rightarrow> (nat \<Rightarrow> order) \<Rightarrow> bool \<Rightarrow> nat \<times> nat list \<Rightarrow> bool" where
  "level_ok LV OV b (l, os) \<longleftrightarrow>
     os \<noteq> [] \<and> l_side (LV l) = key_side b \<and> first_order (LV l) = Some (hd os) \<and>
     ring (next_order \<circ> OV) (prev_order \<circ> OV) os \<and>
     (\<forall>a \<in> set os. o_side (OV a) = key_side b \<and> same_slot (o_price (OV a)) (l_price (LV l)))"

definition head_ptr :: "(nat \<times> nat list) list \<Rightarrow> ptr" where
  "head_ptr L = (case L of [] \<Rightarrow> None | x # _ \<Rightarrow> Some (fst x))"

definition rings_ok :: "order_book \<Rightarrow> ghost \<Rightarrow> bool" where
  "rings_ok s G \<longleftrightarrow> (\<forall>b. best (key_side b) s = head_ptr (G b) \<and>
     (G b \<noteq> [] \<longrightarrow> ring (next_entry \<circ> level_at s) (prev_entry \<circ> level_at s) (map fst (G b))))"

definition levels_ok :: "order_book \<Rightarrow> ghost \<Rightarrow> bool" where
  "levels_ok s G \<longleftrightarrow> (\<forall>b. \<forall>x \<in> set (G b). level_ok (level_at s) (order_at s) b x)"

definition index_ok :: "order_book \<Rightarrow> ghost \<Rightarrow> bool" where
  "index_ok s G \<longleftrightarrow> (\<forall>i l. price_levels s i = Some l \<longleftrightarrow>
     l \<in> set (all_levels G) \<and> price_to_index (l_price (level_at s l)) = i)"

definition clients_ok :: "order_book \<Rightarrow> nat set \<Rightarrow> bool" where
  "clients_ok s X \<longleftrightarrow> (\<forall>c i a. client_orders s c i = Some a \<longleftrightarrow>
     a \<in> X \<and> unat (o_client_id (order_at s a)) = c \<and> unat (o_client_order_id (order_at s a)) = i) \<and>
     (\<forall>a \<in> X. unat (o_client_id (order_at s a)) < MAX_NUM_CLIENTS \<and>
        unat (o_client_order_id (order_at s a)) < MAX_NUM_ORDERS)"

definition level_pool_ok :: "order_book \<Rightarrow> nat set \<Rightarrow> bool" where
  "level_pool_ok s X \<longleftrightarrow> pool_inv (price_level_pool s) \<and> pool_live (price_level_pool s) = X \<and>
     memory_blocks_size (price_level_pool s) = MAX_PRICE_LEVELS"

definition order_pool_ok :: "order_book \<Rightarrow> nat set \<Rightarrow> bool" where
  "order_pool_ok s X \<longleftrightarrow> pool_inv (order_pool s) \<and> pool_live (order_pool s) = X \<and>
     memory_blocks_size (order_pool s) = MAX_NUM_ORDERS"

text \<open>
  \<open>lists_ok\<close> is what linking and unlinking keep; \<open>book_ok\<close> adds the client map and the order
  pool, which an order enters and leaves around them.
\<close>

definition lists_ok :: "order_book \<Rightarrow> ghost \<Rightarrow> bool" where
  "lists_ok s G \<longleftrightarrow> distinct (all_levels G) \<and> distinct (all_orders G) \<and> rings_ok s G \<and>
     levels_ok s G \<and> index_ok s G \<and> level_pool_ok s (set (all_levels G))"

definition book_ok :: "order_book \<Rightarrow> ghost \<Rightarrow> bool" where
  "book_ok s G \<longleftrightarrow> lists_ok s G \<and> clients_ok s (set (all_orders G)) \<and>
     order_pool_ok s (set (all_orders G))"

definition abs_levels :: "order_book \<Rightarrow> (nat \<times> nat list) list \<Rightarrow> level list" where
  "abs_levels s L = map (\<lambda>(l, os). (l_price (level_at s l), map (oinfo s) os)) L"

definition book_rel :: "order_book \<Rightarrow> ghost \<Rightarrow> abook \<Rightarrow> bool" where
  "book_rel s G A \<longleftrightarrow> book_ok s G \<and> a_instrument A = instrument_id s \<and>
     a_next_id A = next_market_order_id s \<and> (\<forall>b. a_side b A = abs_levels s (G b))"


section \<open>Consequences\<close>

lemma all_levels_split:
  "set (all_levels G) = fst ` set (G b) \<union> fst ` set (G (\<not> b))"
  "distinct (all_levels G) \<longleftrightarrow> distinct (map fst (G b)) \<and> distinct (map fst (G (\<not> b))) \<and>
     fst ` set (G b) \<inter> fst ` set (G (\<not> b)) = {}"
  by (cases b; auto simp: all_levels_def)+

lemma all_orders_split:
  "set (all_orders G) = (\<Union>x \<in> set (G b). set (snd x)) \<union> (\<Union>x \<in> set (G (\<not> b)). set (snd x))"
  "distinct (all_orders G) \<longleftrightarrow> distinct (concat (map snd (G b))) \<and>
     distinct (concat (map snd (G (\<not> b)))) \<and>
     (\<Union>x \<in> set (G b). set (snd x)) \<inter> (\<Union>x \<in> set (G (\<not> b)). set (snd x)) = {}"
  by (cases b; auto simp: all_orders_def)+

lemma levels_okD:
  assumes "levels_ok s G" and "(l, os) \<in> set (G b)"
  shows "os \<noteq> []" and "l_side (level_at s l) = key_side b" and "first_order (level_at s l) = Some (hd os)"
    and "ring (next_order \<circ> order_at s) (prev_order \<circ> order_at s) os"
    and "a \<in> set os \<Longrightarrow> o_side (order_at s a) = key_side b"
    and "a \<in> set os \<Longrightarrow> same_slot (o_price (order_at s a)) (l_price (level_at s l))"
proof -
  have "level_ok (level_at s) (order_at s) b (l, os)" using assms by (simp only: levels_ok_def)
  then show "os \<noteq> []" and "l_side (level_at s l) = key_side b" and "first_order (level_at s l) = Some (hd os)"
    and "ring (next_order \<circ> order_at s) (prev_order \<circ> order_at s) os"
    and "a \<in> set os \<Longrightarrow> o_side (order_at s a) = key_side b"
    and "a \<in> set os \<Longrightarrow> same_slot (o_price (order_at s a)) (l_price (level_at s l))"
    by (auto simp only: level_ok.simps)
qed

lemma index_okD:
  assumes "index_ok s G" and "l \<in> set (all_levels G)"
  shows "price_levels s (price_to_index (l_price (level_at s l))) = Some l"
  by (rule assms(1) [unfolded index_ok_def, rule_format, THEN iffD2]) (simp add: assms(2))

lemma index_inj:
  assumes "index_ok s G" and "l \<in> set (all_levels G)" and "l' \<in> set (all_levels G)"
    and "same_slot (l_price (level_at s l)) (l_price (level_at s l'))"
  shows "l = l'"
  using index_okD [OF assms(1,2)] index_okD [OF assms(1,3)] assms(4) unfolding same_slot_def
  by (metis option.inject)

lemma mem_all_levels: "(l, os) \<in> set (G b) \<Longrightarrow> l \<in> set (all_levels G)"
  using all_levels_split(1) [of G b] by force

lemma mem_all_orders: "(l, os) \<in> set (G b) \<Longrightarrow> a \<in> set os \<Longrightarrow> a \<in> set (all_orders G)"
  using all_orders_split(1) [of G b] by force

lemma get_price_level_eq:
  assumes "index_ok s G" and "levels_ok s G" and "(l, os) \<in> set (G b)"
    and "same_slot p (l_price (level_at s l))"
  shows "get_price_level (key_side b) p s = Some l"
  using index_okD [OF assms(1) mem_all_levels [where G = G, OF assms(3)]] levels_okD(2) [OF assms(2,3)] assms(4)
  by (simp add: get_price_level_def same_slot_def)

lemma rings_okD:
  assumes "rings_ok s G"
  shows "best (key_side b) s = head_ptr (G b)"
    and "G b \<noteq> [] \<Longrightarrow> ring (next_entry \<circ> level_at s) (prev_entry \<circ> level_at s) (map fst (G b))"
  using assms unfolding rings_ok_def by blast+

lemma rings_okI:
  assumes "\<And>c. c = b \<or> c = (\<not> b) \<Longrightarrow> best (key_side c) s = head_ptr (G c)"
    and "\<And>c. c = b \<or> c = (\<not> b) \<Longrightarrow> G c \<noteq> [] \<Longrightarrow>
      ring (next_entry \<circ> level_at s) (prev_entry \<circ> level_at s) (map fst (G c))"
  shows "rings_ok s G"
  using assms unfolding rings_ok_def by blast

text \<open>The data of a book that its abstraction and its traffic depend on, beside the linkage.\<close>

definition same_data :: "order_book \<Rightarrow> order_book \<Rightarrow> bool" where
  "same_data s s' \<longleftrightarrow> oinfo s' = oinfo s \<and> l_price \<circ> level_at s' = l_price \<circ> level_at s \<and>
     instrument_id s' = instrument_id s \<and> message_handler s' = message_handler s \<and>
     next_market_order_id s' = next_market_order_id s"

lemma same_dataD:
  assumes "same_data s s'"
  shows "abs_levels s' L = abs_levels s L" and "oinfo s' a = oinfo s a"
    and "l_price (level_at s' l) = l_price (level_at s l)"
    and "instrument_id s' = instrument_id s" and "message_handler s' = message_handler s"
    and "next_market_order_id s' = next_market_order_id s"
  using assms by (auto simp: same_data_def abs_levels_def fun_eq_iff)

lemma same_data_order:
  assumes "same_data s s'"
  shows "o_side (order_at s' a) = o_side (order_at s a)"
    and "o_price (order_at s' a) = o_price (order_at s a)"
    and "o_client_id (order_at s' a) = o_client_id (order_at s a)"
    and "o_client_order_id (order_at s' a) = o_client_order_id (order_at s a)"
  using same_dataD(2) [OF assms, of a] unfolding oinfo_def by (metis truncate_simps)+

lemma level_ok_cong:
  assumes "l_side (LV' l) = l_side (LV l)" and "l_price (LV' l) = l_price (LV l)"
    and "first_order (LV' l) = first_order (LV l)" and "\<And>a. a \<in> set os \<Longrightarrow> OV' a = OV a"
  shows "level_ok LV' OV' b (l, os) = level_ok LV OV b (l, os)"
proof -
  have "ring (next_order \<circ> OV') (prev_order \<circ> OV') os = ring (next_order \<circ> OV) (prev_order \<circ> OV) os"
    by (rule ring_cong) (simp_all add: assms(4))
  then show ?thesis using assms by auto
qed

lemma levels_ok_links:
  assumes "l_side \<circ> level_at s' = l_side \<circ> level_at s" and "l_price \<circ> level_at s' = l_price \<circ> level_at s"
    and "first_order \<circ> level_at s' = first_order \<circ> level_at s" and "order_at s' = order_at s"
    and "levels_ok s G" and "\<And>b. set (G' b) \<subseteq> set (G b)"
  shows "levels_ok s' G'"
  unfolding levels_ok_def
proof (intro allI ballI)
  fix b x assume x: "x \<in> set (G' b)"
  obtain l os where xl: "x = (l, os)" by (cases x)
  have "level_ok (level_at s) (order_at s) b (l, os)"
    using assms(5,6) x xl unfolding levels_ok_def by blast
  then show "level_ok (level_at s') (order_at s') b x" unfolding xl
    by (rule level_ok_cong [THEN iffD2, rotated -1])
      (use assms(1-4) in \<open>simp_all add: fun_eq_iff\<close>)
qed

lemma ghost_remove_level:
  assumes "distinct (all_levels G)" and "distinct (all_orders G)" and "G b = L1 @ (l, os) # L2"
  shows "set (all_levels (G(b := L1 @ L2))) = set (all_levels G) - {l}"
    and "distinct (all_levels (G(b := L1 @ L2)))"
    and "set (all_orders (G(b := L1 @ L2))) = set (all_orders G) - set os"
    and "distinct (all_orders (G(b := L1 @ L2)))"
  using assms by (auto simp: all_levels_split [of _ b] all_orders_split [of _ b])

lemma index_ok_remove:
  assumes "index_ok s G" and "l \<in> set (all_levels G)" and "same_slot p (l_price (level_at s l))"
    and "set (all_levels G') = set (all_levels G) - {l}"
    and "l_price \<circ> level_at s' = l_price \<circ> level_at s"
    and "price_levels s' = (price_levels s)(price_to_index p := None)"
  shows "index_ok s' G'"
proof -
  have "l_price (level_at s' k) = l_price (level_at s k)" for k using assms(5) by (simp add: fun_eq_iff)
  then show ?thesis using assms(1,3,6) index_inj [OF assms(1) _ assms(2)] index_okD [OF assms(1,2)]
    unfolding index_ok_def assms(4) same_slot_def by auto
qed

section \<open>Removing a price level\<close>

lemma remove_price_level_ok:
  assumes ok: "lists_ok s G" and G: "G b = L1 @ (l, os) # L2"
    and p: "same_slot p (l_price (level_at s l))"
  shows "\<exists>s'. remove_price_level (key_side b) p s = Inr s' \<and> lists_ok s' (G(b := L1 @ L2)) \<and>
    same_data s s' \<and> order_at s' = order_at s \<and> order_pool s' = order_pool s \<and>
    client_orders s' = client_orders s"
proof -
  let ?nx = "next_entry \<circ> level_at s" and ?pv = "prev_entry \<circ> level_at s" and ?G = "G(b := L1 @ L2)"
  have dl: "distinct (all_levels G)" and dor: "distinct (all_orders G)" and ro: "rings_ok s G"
    and lo: "levels_ok s G" and io: "index_ok s G" and lp: "level_pool_ok s (set (all_levels G))"
    using ok by (simp_all add: lists_ok_def)
  have mem: "(l, os) \<in> set (G b)" and l: "l \<in> set (all_levels G)"
    using G mem_all_levels [of l os G b] by auto
  note gr = ghost_remove_level [OF dl dor G]
  have ring: "ring ?nx ?pv (map fst L1 @ l # map fst L2)" and bst: "best (key_side b) s = head_ptr (G b)"
    and ro': "best (key_side (\<not> b)) s = head_ptr (G (\<not> b))"
      "G (\<not> b) \<noteq> [] \<Longrightarrow> ring ?nx ?pv (map fst (G (\<not> b)))"
    using rings_okD [OF ro, of b] rings_okD [OF ro, of "\<not> b"] G by simp_all
  have get: "get_price_level (key_side b) p s = Some l"
    by (rule get_price_level_eq [OF io lo mem p])
  obtain q where q: "pool_free l (price_level_pool s) = Inr q" "pool_live q = set (all_levels G) - {l}"
    "pool_inv q" "pool_get q = level_at s" "memory_blocks_size q = MAX_PRICE_LEVELS"
    using pool_free_ok [of "price_level_pool s" l] lp l by (auto simp: level_pool_ok_def)
  show ?thesis
  proof (cases "L1 @ L2 = []")
    case True
    then have e: "L1 = []" "L2 = []" by simp_all
    define s' where "s' = (set_best (key_side b) None s)\<lparr>
      price_levels := (price_levels s)(price_to_index p := None), price_level_pool := q\<rparr>"
    have "remove_price_level (key_side b) p s = Inr s'"
      using ring e get q(1) by (simp add: remove_price_level_def s'_def)
    moreover have "lists_ok s' ?G" unfolding lists_ok_def
    proof (intro conjI)
      show "rings_ok s' ?G" unfolding rings_ok_def
        using ro' e by (auto simp: s'_def q head_ptr_def split: if_splits)
      show "levels_ok s' ?G"
        by (rule levels_ok_links [OF _ _ _ _ lo]) (auto simp: s'_def q e)
      show "index_ok s' ?G"
        by (rule index_ok_remove [OF io l p gr(1)]) (simp_all add: s'_def q)
    qed (use gr q in \<open>simp_all add: level_pool_ok_def s'_def\<close>)
    moreover have "same_data s s'" by (simp add: same_data_def s'_def q oinfo_def fun_eq_iff)
    ultimately show ?thesis by (auto simp: s'_def)
  next
    case False
    then have ne: "map fst L1 @ map fst L2 \<noteq> []" by auto
    define B C where "B = last (map fst L2 @ map fst L1)" and "C = hd (map fst L2 @ map fst L1)"
    note r = ring_remove [OF ring ne B_def C_def]
    have BC: "B \<noteq> l" "C \<noteq> l" using r(3,4,5) by auto
    define h where "h = fst (hd (G b))"
    have h: "best (key_side b) s = Some h" "h \<in> set (all_levels G)"
      using bst G by (cases L1; force simp: head_ptr_def h_def all_levels_split(1) [of G b])+
    have hl: "l_price (level_at s h) = l_price (level_at s l) \<longleftrightarrow> h = l"
      using index_inj [OF io h(2) l] by (auto simp: same_slot_def)
    define t where "t = set_level C (\<lambda>x. x\<lparr>prev_entry := Some B\<rparr>) (set_level B (\<lambda>x. x\<lparr>next_entry := Some C\<rparr>) s)"
    define u where "u = set_level l (\<lambda>x. x\<lparr>prev_entry := None, next_entry := None\<rparr>)
      (if h = l then set_best (key_side b) (Some C) t else t)"
    have u: "pool_inv (price_level_pool u)" "l \<in> pool_live (price_level_pool u)"
      "pool_live (price_level_pool u) = set (all_levels G)"
      "memory_blocks_size (price_level_pool u) = MAX_PRICE_LEVELS"
      using lp l by (simp_all add: u_def t_def level_pool_ok_def)
    obtain q where q: "pool_free l (price_level_pool u) = Inr q" "pool_live q = set (all_levels G) - {l}"
      "pool_inv q" "pool_get q = level_at u" "memory_blocks_size q = MAX_PRICE_LEVELS"
      using pool_free_ok [OF u(1,2)] u by auto
    define s' where "s' = u\<lparr>price_levels := (price_levels s)(price_to_index p := None), price_level_pool := q\<rparr>"
    have "remove_price_level (key_side b) p s = Inr s'"
      using get r(1,2) BC h(1) hl q(1) ring_next_self [OF ring, of l] ne
      by (auto simp: remove_price_level_def s'_def u_def t_def Let_def)
    moreover have "lists_ok s' ?G" unfolding lists_ok_def
    proof (intro conjI)
      have sub: "{B, C, l} \<subseteq> fst ` set (G b)" using r(3,4) G by auto
      then have other: "B \<notin> set (map fst (G (\<not> b)))" "C \<notin> set (map fst (G (\<not> b)))"
        "l \<notin> set (map fst (G (\<not> b)))"
        using dl unfolding all_levels_split(2) [of G b] by auto
      have "ring (next_entry \<circ> level_at s') (prev_entry \<circ> level_at s') (map fst (L1 @ L2))"
        using r(5,6) BC by (auto simp: s'_def q u_def t_def)
      moreover have "best (key_side b) s' = head_ptr (L1 @ L2)"
        using h(1) ne G r(5) C_def
        by (cases L1; cases L2) (auto simp: s'_def u_def t_def head_ptr_def h_def)
      moreover have "ring (next_entry \<circ> level_at s') (prev_entry \<circ> level_at s') (map fst (G (\<not> b)))"
        if "G (\<not> b) \<noteq> []"
        using ro'(2) [OF that] other by (simp add: s'_def q u_def t_def)
      moreover have "best (key_side (\<not> b)) s' = best (key_side (\<not> b)) s"
        by (simp add: s'_def u_def t_def)
      ultimately show "rings_ok s' ?G" using ro'(1) by (intro rings_okI [of b]) auto
      show "levels_ok s' ?G"
        by (rule levels_ok_links [OF _ _ _ _ lo]) (auto simp: s'_def q u_def t_def G)
      show "index_ok s' ?G"
        by (rule index_ok_remove [OF io l p gr(1)]) (simp_all add: s'_def q u_def t_def)
    qed (use gr q in \<open>simp_all add: level_pool_ok_def s'_def\<close>)
    moreover have "same_data s s'"
      by (simp add: same_data_def s'_def q u_def t_def oinfo_def fun_eq_iff)
    ultimately show ?thesis by (intro exI [of _ s']) (simp add: s'_def u_def t_def)
  qed
qed

section \<open>Unlinking an order\<close>

lemma ghost_other:
  assumes "distinct (all_levels G)" and "distinct (all_orders G)" and G: "G b = L1 @ (l, os) # L2"
    and "(k, xs) \<in> set ((G(b := L1 @ M @ L2)) c)"
  shows "(c = b \<and> (k, xs) \<in> set M) \<or> ((k, xs) \<in> set (G c) \<and> k \<noteq> l \<and> set xs \<inter> set os = {})"
proof -
  have l: "l \<notin> fst ` set (L1 @ L2)" "l \<notin> fst ` set (G (\<not> b))"
    using assms(1) unfolding all_levels_split(2) [of G b] G by auto
  have o1: "set os \<inter> (\<Union>x \<in> set (L1 @ L2). set (snd x)) = {}"
    and o2: "set os \<inter> (\<Union>x \<in> set (G (\<not> b)). set (snd x)) = {}"
    using assms(2) unfolding all_orders_split(2) [of G b] G by auto
  have sep: "k \<noteq> l" if "(k, xs) \<in> set X" "l \<notin> fst ` set X" for X using that by force
  have sep2: "set xs \<inter> set os = {}" if "(k, xs) \<in> set X" "set os \<inter> (\<Union>x \<in> set X. set (snd x)) = {}" for X
    using that by fastforce
  consider "c = b" "(k, xs) \<in> set M" | "c = b" "(k, xs) \<in> set (L1 @ L2)" | "c = (\<not> b)" "(k, xs) \<in> set (G (\<not> b))"
    using assms(4) by (cases "c = b") auto
  then show ?thesis
  proof cases
    case 2
    then have "(k, xs) \<in> set (G c)" using G by auto
    then show ?thesis using sep [OF 2(2) l(1)] sep2 [OF 2(2) o1] by blast
  next
    case 3
    then show ?thesis using sep [OF 3(2) l(2)] sep2 [OF 3(2) o2] by blast
  qed blast
qed

lemma levels_ok_replace:
  assumes d: "distinct (all_levels G)" "distinct (all_orders G)" and G: "G b = L1 @ (l, os) # L2"
    and lo: "levels_ok s G" and M: "\<And>x. x \<in> set M \<Longrightarrow> level_ok (level_at s') (order_at s') b x"
    and lv: "\<And>k. k \<in> set (all_levels G) \<Longrightarrow> k \<noteq> l \<Longrightarrow> level_at s' k = level_at s k"
    and ov: "\<And>a. a \<in> set (all_orders G) \<Longrightarrow> a \<notin> set os \<Longrightarrow> order_at s' a = order_at s a"
  shows "levels_ok s' (G(b := L1 @ M @ L2))"
  unfolding levels_ok_def
proof (intro allI ballI)
  fix c x assume x: "x \<in> set ((G(b := L1 @ M @ L2)) c)"
  obtain k xs where xk: "x = (k, xs)" by (cases x)
  consider "c = b" "(k, xs) \<in> set M" | "(k, xs) \<in> set (G c)" "k \<noteq> l" "set xs \<inter> set os = {}"
    using ghost_other [OF d G x [unfolded xk]] by blast
  then show "level_ok (level_at s') (order_at s') c x"
  proof cases
    case 2
    have "level_ok (level_at s) (order_at s) c (k, xs)" using lo 2(1) unfolding levels_ok_def by blast
    moreover have "level_ok (level_at s') (order_at s') c (k, xs) = level_ok (level_at s) (order_at s) c (k, xs)"
    proof (rule level_ok_cong)
      show "order_at s' a = order_at s a" if "a \<in> set xs" for a
        using ov [of a] mem_all_orders [of k xs G c a] that 2(1,3) by blast
    qed (use lv mem_all_levels [of k xs G c] 2(1,2) in auto)
    ultimately show ?thesis unfolding xk by blast
  qed (use M xk in blast)
qed

lemma all_orders_concat:
  "set (all_orders G) = set (concat (map snd (G b)) @ concat (map snd (G (\<not> b))))"
  "distinct (all_orders G) \<longleftrightarrow> distinct (concat (map snd (G b)) @ concat (map snd (G (\<not> b))))"
  by (cases b; auto simp: all_orders_def)+

lemma ghost_replace:
  assumes "distinct (all_levels G)" and "distinct (all_orders G)" and "G b = L1 @ (l, os) # L2"
    and "distinct os'" and "(set os' - set os) \<inter> set (all_orders G) = {}"
  shows "set (all_levels (G(b := L1 @ (l, os') # L2))) = set (all_levels G)"
    and "distinct (all_levels (G(b := L1 @ (l, os') # L2)))"
    and "set (all_orders (G(b := L1 @ (l, os') # L2))) = set (all_orders G) - set os \<union> set os'"
    and "distinct (all_orders (G(b := L1 @ (l, os') # L2)))"
proof -
  show "set (all_levels (G(b := L1 @ (l, os') # L2))) = set (all_levels G)"
    and "distinct (all_levels (G(b := L1 @ (l, os') # L2)))"
    using assms(1,3) by (auto simp: all_levels_split [of _ b])
  define O1 O2 O3 where "O1 = concat (map snd L1)" and "O2 = concat (map snd L2)"
    and "O3 = concat (map snd (G (\<not> b)))"
  have G1: "distinct (O1 @ os @ O2 @ O3)" "set (all_orders G) = set (O1 @ os @ O2 @ O3)"
    using assms(2) unfolding all_orders_concat [of G b] assms(3) O1_def O2_def O3_def by auto
  then show "set (all_orders (G(b := L1 @ (l, os') # L2))) = set (all_orders G) - set os \<union> set os'"
    and "distinct (all_orders (G(b := L1 @ (l, os') # L2)))"
    using assms(4,5) unfolding all_orders_concat [of _ b]
    by (simp_all del: set_concat add: O1_def [symmetric] O2_def [symmetric] O3_def [symmetric]) blast+
qed

lemma index_ok_same:
  assumes "index_ok s G" and "set (all_levels G') = set (all_levels G)"
    and "l_price \<circ> level_at s' = l_price \<circ> level_at s" and "price_levels s' = price_levels s"
  shows "index_ok s' G'"
proof -
  have "l_price (level_at s' k) = l_price (level_at s k)" for k using assms(3) by (simp add: fun_eq_iff)
  then show ?thesis using assms(1) by (simp add: index_ok_def assms(2,4))
qed

lemma rings_ok_same:
  assumes "rings_ok s G" and "\<And>b. map fst (G' b) = map fst (G b)"
    and "next_entry \<circ> level_at s' = next_entry \<circ> level_at s"
    and "prev_entry \<circ> level_at s' = prev_entry \<circ> level_at s"
    and "\<And>sd. best sd s' = best sd s"
  shows "rings_ok s' G'"
proof -
  have "head_ptr (G' b) = head_ptr (G b)" "G' b = [] \<longleftrightarrow> G b = []" for b
    using assms(2) [of b] by (cases "G b"; cases "G' b"; simp add: head_ptr_def)+
  then show ?thesis using assms(1) by (simp add: rings_ok_def assms(2-5))
qed

definition forget_order :: "nat \<Rightarrow> order_book \<Rightarrow> order_book result" where
  "forget_order a s =
     rbind (set_client_order (o_client_id (order_at s a)) (o_client_order_id (order_at s a)) None s) (\<lambda>s.
       rbind (pool_free a (order_pool s)) (\<lambda>op. Inr (s\<lparr>order_pool := op\<rparr>)))"

lemma unlink_single:
  assumes ok: "lists_ok s G" and G: "G b = L1 @ (l, [a]) # L2"
  shows "\<exists>t. remove_order a s = forget_order a t \<and> lists_ok t (G(b := L1 @ L2)) \<and>
    same_data s t \<and> order_pool t = order_pool s \<and> client_orders t = client_orders s"
proof -
  have lo: "levels_ok s G" using ok by (simp add: lists_ok_def)
  have m: "(l, [a]) \<in> set (G b)" using G by simp
  note d = levels_okD [OF lo m]
  obtain t where t: "remove_price_level (key_side b) (o_price (order_at s a)) s = Inr t"
    "lists_ok t (G(b := L1 @ L2))" "same_data s t" "order_at t = order_at s"
    "order_pool t = order_pool s" "client_orders t = client_orders s"
    using remove_price_level_ok [OF ok G d(6) [of a]] by auto
  have "remove_order a s = forget_order a t"
    using d(4,5) t(1,4) by (simp add: remove_order_def forget_order_def Let_def)
  then show ?thesis using t by blast
qed

lemma unlink_many:
  assumes ok: "lists_ok s G" and G: "G b = L1 @ (l, os1 @ a # os2) # L2" and ne: "os1 @ os2 \<noteq> []"
  shows "\<exists>t. remove_order a s = forget_order a t \<and> lists_ok t (G(b := L1 @ (l, os1 @ os2) # L2)) \<and>
    same_data s t \<and> pool_live (order_pool t) = pool_live (order_pool s) \<and>
    pool_inv (order_pool t) = pool_inv (order_pool s) \<and>
    memory_blocks_size (order_pool t) = memory_blocks_size (order_pool s) \<and>
    client_orders t = client_orders s"
proof -
  let ?G = "G(b := L1 @ (l, os1 @ os2) # L2)"
  have dl: "distinct (all_levels G)" and dor: "distinct (all_orders G)" and ro: "rings_ok s G"
    and lo: "levels_ok s G" and io: "index_ok s G" and lp: "level_pool_ok s (set (all_levels G))"
    using ok by (simp_all add: lists_ok_def)
  have m: "(l, os1 @ a # os2) \<in> set (G b)" using G by simp
  note d = levels_okD [OF lo m]
  define B C where "B = last (os2 @ os1)" and "C = hd (os2 @ os1)"
  note r = ring_remove [OF d(4) ne B_def C_def]
  have BC: "B \<noteq> a" "C \<noteq> a" using r(3,4,5) by auto
  have get: "get_price_level (key_side b) (o_price (order_at s a)) s = Some l"
    by (rule get_price_level_eq [OF io lo m d(6)]) simp
  have side: "o_side (order_at s a) = key_side b" by (rule d(5)) simp
  have gr: "set (all_levels ?G) = set (all_levels G)" "distinct (all_levels ?G)" "distinct (all_orders ?G)"
    using ghost_replace [OF dl dor G, of "os1 @ os2"] ring_distinct [OF d(4)] by auto
  define t where "t = set_order a (\<lambda>x. x\<lparr>prev_order := None, next_order := None\<rparr>)
    ((if hd (os1 @ a # os2) = a then set_level l (\<lambda>x. x\<lparr>first_order := Some C\<rparr>) else id)
      (set_order C (\<lambda>x. x\<lparr>prev_order := Some B\<rparr>) (set_order B (\<lambda>x. x\<lparr>next_order := Some C\<rparr>) s)))"
  have "remove_order a s = forget_order a t"
    using get side r(1,2) BC d(3)
    by (auto simp: remove_order_def forget_order_def Let_def t_def)
  moreover have sd: "same_data s t"
    by (auto simp: same_data_def t_def oinfo_def fun_eq_iff)
  moreover have "lists_ok t ?G" unfolding lists_ok_def
  proof (intro conjI)
    have f: "l_price \<circ> level_at t = l_price \<circ> level_at s" "l_side \<circ> level_at t = l_side \<circ> level_at s"
      "next_entry \<circ> level_at t = next_entry \<circ> level_at s" "prev_entry \<circ> level_at t = prev_entry \<circ> level_at s"
      "price_levels t = price_levels s" "best sd t = best sd s" for sd
      by (simp_all add: t_def)
    show "rings_ok t ?G" by (rule rings_ok_same [OF ro]) (simp_all add: f G)
    show "index_ok t ?G" by (rule index_ok_same [OF io gr(1)]) (simp_all add: f)
    have "first_order (level_at t l) = Some (hd (os1 @ os2))"
      using r(5) d(3) ne by (cases os1) (auto simp: t_def C_def)
    moreover have "ring (next_order \<circ> order_at t) (prev_order \<circ> order_at t) (os1 @ os2)"
      using r(5,6) BC by (auto simp: t_def)
    moreover have "o_side (order_at t x) = key_side b \<and> same_slot (o_price (order_at t x)) (l_price (level_at t l))"
      if "x \<in> set (os1 @ os2)" for x
      using d(5,6) [of x] that same_data_order [OF sd] same_dataD(3) [OF sd] by auto
    ultimately have lvl: "level_ok (level_at t) (order_at t) b (l, os1 @ os2)"
      using d(2) f(2) ne by (simp add: fun_eq_iff)
    show "levels_ok t ?G"
    proof (rule levels_ok_replace [OF dl dor G lo, where M = "[(l, os1 @ os2)]", simplified])
      show "level_at t k = level_at s k" if "k \<noteq> l" for k using that by (simp add: t_def)
      show "order_at t k = order_at s k" if "k \<noteq> a \<and> k \<notin> set os1 \<and> k \<notin> set os2" for k
        using that r(3,4) by (auto simp: t_def)
    qed (use lvl in simp_all)
  qed (use gr lp in \<open>simp_all add: level_pool_ok_def t_def\<close>)
  ultimately show ?thesis by (intro exI [of _ t]) (simp add: t_def)
qed


lemma clients_ok_same:
  assumes "same_data s t" and "client_orders t = client_orders s"
  shows "clients_ok t X = clients_ok s X"
  using same_data_order [OF assms(1)] assms(2) by (simp add: clients_ok_def)

lemma lists_ok_same:
  assumes "level_at t = level_at s" and "order_at t = order_at s" and "\<And>sd. best sd t = best sd s"
    and "price_levels t = price_levels s" and "price_level_pool t = price_level_pool s"
  shows "lists_ok t G = lists_ok s G"
  using assms by (simp add: lists_ok_def rings_ok_def levels_ok_def index_ok_def level_pool_ok_def)

lemma clients_ok_delete:
  assumes "clients_ok t X" and "a \<in> X" and "order_at t' = order_at t"
    and "client_orders t' = (client_orders t)(unat (o_client_id (order_at t a)) :=
      (client_orders t (unat (o_client_id (order_at t a))))(unat (o_client_order_id (order_at t a)) := None))"
  shows "clients_ok t' (X - {a})"
proof -
  let ?c = "\<lambda>x. unat (o_client_id (order_at t x))" and ?i = "\<lambda>x. unat (o_client_order_id (order_at t x))"
  have co: "client_orders t c i = Some x \<longleftrightarrow> x \<in> X \<and> ?c x = c \<and> ?i x = i" for c i x
    using assms(1) by (simp add: clients_ok_def)
  have inj: "x = a" if "x \<in> X" "?c x = ?c a" "?i x = ?i a" for x
    using co [of "?c a" "?i a" x] co [of "?c a" "?i a" a] that assms(2) by simp
  have "client_orders t' c i = Some x \<longleftrightarrow> x \<in> X - {a} \<and> ?c x = c \<and> ?i x = i" for c i x
    using co [of c i x] inj [of x] by (auto simp: assms(4))
  then show ?thesis using assms(1,3) by (simp add: clients_ok_def)
qed

lemma forget_order_ok:
  assumes c: "clients_ok t X" and p: "order_pool_ok t X" and a: "a \<in> X"
  shows "\<exists>s'. forget_order a t = Inr s' \<and> clients_ok s' (X - {a}) \<and> order_pool_ok s' (X - {a}) \<and>
    same_data t s' \<and> lists_ok s' G = lists_ok t G"
proof -
  let ?c = "unat (o_client_id (order_at t a))" and ?i = "unat (o_client_order_id (order_at t a))"
  define u where "u = t\<lparr>client_orders := (client_orders t)(?c := (client_orders t ?c)(?i := None))\<rparr>"
  obtain q where q: "pool_free a (order_pool t) = Inr q" "pool_live q = X - {a}" "pool_inv q"
    "pool_get q = order_at t" "memory_blocks_size q = MAX_NUM_ORDERS"
    using pool_free_ok [of "order_pool t" a] p a by (auto simp: order_pool_ok_def)
  define s' where "s' = u\<lparr>order_pool := q\<rparr>"
  have "?c < MAX_NUM_CLIENTS" "?i < MAX_NUM_ORDERS" using c a by (auto simp: clients_ok_def)
  then have "forget_order a t = Inr s'"
    using q(1) by (simp add: forget_order_def set_client_order_def s'_def u_def)
  moreover have "clients_ok s' (X - {a})"
    by (rule clients_ok_delete [OF c a]) (simp_all add: s'_def u_def q)
  moreover have "lists_ok s' G = lists_ok t G"
    by (rule lists_ok_same) (simp_all add: s'_def u_def q)
  ultimately show ?thesis using q
    by (intro exI [of _ s']) (simp add: order_pool_ok_def same_data_def oinfo_def s'_def u_def fun_eq_iff)
qed

lemma same_data_trans: "same_data r s \<Longrightarrow> same_data s t \<Longrightarrow> same_data r t"
  by (simp add: same_data_def)

lemma remove_order_ok:
  assumes ok: "book_ok s G" and G: "G b = L1 @ (l, os1 @ a # os2) # L2"
  shows "\<exists>s'. remove_order a s = Inr s' \<and> book_ok s' (G(b := L1 @ keep_level l (os1 @ os2) @ L2)) \<and>
    same_data s s'"
proof -
  let ?G = "G(b := L1 @ keep_level l (os1 @ os2) @ L2)" and ?X = "set (all_orders G)"
  have lists: "lists_ok s G" and cl: "clients_ok s ?X" and op: "order_pool_ok s ?X"
    using ok by (simp_all add: book_ok_def)
  then have d: "distinct (all_levels G)" "distinct (all_orders G)" by (simp_all add: lists_ok_def)
  have sub: "set (os1 @ a # os2) \<subseteq> ?X" using mem_all_orders [of l "os1 @ a # os2" G b] G by auto
  then have aX: "a \<in> ?X" by simp
  obtain t where t: "remove_order a s = forget_order a t" "lists_ok t ?G" "same_data s t"
    "order_pool_ok t ?X" "client_orders t = client_orders s"
  proof (cases "os1 @ os2 = []")
    case True
    then show ?thesis using unlink_single [OF lists, of b L1 l a L2] G op that
      by (auto simp: keep_level_def order_pool_ok_def)
  next
    case False
    then show ?thesis using unlink_many [OF lists G False] op that
      by (auto simp: keep_level_def order_pool_ok_def)
  qed
  have X: "set (all_orders ?G) = ?X - {a}"
  proof (cases "os1 @ os2 = []")
    case True
    then show ?thesis using ghost_remove_level(3) [OF d, of b L1 l "[a]" L2] G by (simp add: keep_level_def)
  next
    case False
    have "distinct (os1 @ a # os2)" using d(2) G unfolding all_orders_concat [of G b] by auto
    then show ?thesis using ghost_replace(3) [OF d G, of "os1 @ os2"] False sub by (auto simp: keep_level_def)
  qed
  have "clients_ok t ?X" using cl clients_ok_same [OF t(3,5)] by simp
  from forget_order_ok [OF this t(4) aX, of ?G] obtain s' where "forget_order a t = Inr s'"
    "clients_ok s' (?X - {a})" "order_pool_ok s' (?X - {a})" "same_data t s'" "lists_ok s' ?G = lists_ok t ?G"
    by blast
  then show ?thesis using t(1,2,3) X same_data_trans by (auto simp: book_ok_def)
qed


end
