(* ===== verification/OrderBookLink.thy ===== *)
theory OrderBookLink
  imports OrderBookHeap
begin

text \<open>
  What linking an order into the book's heap does: at the end of the ring of an existing
  level, or as the first order of a new level, which \<open>add_price_level\<close> links at the position
  that \<open>slot_insert\<close> describes.
\<close>

section \<open>Linking an order\<close>

definition register_order :: "nat \<Rightarrow> order_book \<Rightarrow> order_book result" where
  "register_order a s = set_client_order (o_client_id (order_at s a)) (o_client_order_id (order_at s a)) (Some a) s"

lemma link_existing:
  assumes ok: "lists_ok s G" and G: "G b = L1 @ (l, os) # L2" and a: "a \<notin> set (all_orders G)"
    and side: "o_side (order_at s a) = key_side b"
    and slot: "same_slot (o_price (order_at s a)) (l_price (level_at s l))"
  shows "\<exists>t. add_order a s = register_order a t \<and> lists_ok t (G(b := L1 @ (l, os @ [a]) # L2)) \<and>
    same_data s t \<and> pool_live (order_pool t) = pool_live (order_pool s) \<and>
    pool_inv (order_pool t) = pool_inv (order_pool s) \<and>
    memory_blocks_size (order_pool t) = memory_blocks_size (order_pool s) \<and>
    client_orders t = client_orders s"
proof -
  let ?G = "G(b := L1 @ (l, os @ [a]) # L2)"
  have dl: "distinct (all_levels G)" and dor: "distinct (all_orders G)" and ro: "rings_ok s G"
    and lo: "levels_ok s G" and io: "index_ok s G" and lp: "level_pool_ok s (set (all_levels G))"
    using ok by (simp_all add: lists_ok_def)
  have m: "(l, os) \<in> set (G b)" using G by simp
  note d = levels_okD [OF lo m]
  have aos: "a \<notin> set os" using mem_all_orders [of l os G b a] m a by blast
  have gr: "set (all_levels ?G) = set (all_levels G)" "distinct (all_levels ?G)" "distinct (all_orders ?G)"
    using ghost_replace [OF dl dor G, of "os @ [a]"] ring_distinct [OF d(4)] aos a by auto
  have get: "get_price_level (key_side b) (o_price (order_at s a)) s = Some l"
    by (rule get_price_level_eq [OF io lo m slot])
  define B C where "B = last os" and "C = hd os"
  have BC: "B \<in> set os" "C \<in> set os" "B \<noteq> a" "C \<noteq> a" using d(1) aos by (auto simp: B_def C_def)
  have prev: "prev_order (order_at s C) = Some B"
    using ring_hd_prev [OF d(4)] by (simp add: B_def C_def)
  define t where "t = set_order C (\<lambda>x. x\<lparr>prev_order := Some a\<rparr>) (set_order a (\<lambda>x. x\<lparr>next_order := Some C\<rparr>)
    (set_order a (\<lambda>x. x\<lparr>prev_order := Some B\<rparr>) (set_order B (\<lambda>x. x\<lparr>next_order := Some a\<rparr>) s)))"
  have "add_order a s = register_order a t"
    using get side prev d(2,3)
    by (simp add: add_order_def register_order_def Let_def t_def C_def [symmetric])
  moreover have sd: "same_data s t"
    by (auto simp: same_data_def t_def oinfo_def fun_eq_iff)
  moreover have "lists_ok t ?G" unfolding lists_ok_def
  proof (intro conjI)
    have lv: "level_at t = level_at s" by (simp add: t_def)
    show "rings_ok t ?G" by (rule rings_ok_same [OF ro]) (simp_all add: lv G, simp add: t_def)
    show "index_ok t ?G" by (rule index_ok_same [OF io gr(1)]) (simp_all add: t_def)
    have "ring (next_order \<circ> order_at t) (prev_order \<circ> order_at t) (os @ [a])"
    proof -
      have "next_order \<circ> order_at t = (next_order \<circ> order_at s)(B := Some a, a := Some C)"
        and "prev_order \<circ> order_at t = (prev_order \<circ> order_at s)(a := Some B, C := Some a)"
        using BC(3,4) by (auto simp: t_def fun_eq_iff)
      then show ?thesis using ring_snoc_insert [OF d(4) aos B_def C_def] by simp
    qed
    moreover have "o_side (order_at t x) = key_side b \<and> same_slot (o_price (order_at t x)) (l_price (level_at t l))"
      if "x \<in> set (os @ [a])" for x
      using d(5,6) [of x] side slot that same_data_order [OF sd] same_dataD(3) [OF sd] by auto
    ultimately have lvl: "level_ok (level_at t) (order_at t) b (l, os @ [a])"
      using d(1-3) by (simp add: lv)
    show "levels_ok t ?G"
    proof (rule levels_ok_replace [OF dl dor G lo, where M = "[(l, os @ [a])]", simplified])
      show "order_at t k = order_at s k" if "k \<in> set (all_orders G)" "k \<notin> set os" for k
        using that BC a by (auto simp: t_def)
    qed (use lvl in \<open>simp_all add: lv\<close>)
  qed (use gr lp in \<open>simp_all add: level_pool_ok_def t_def\<close>)
  ultimately show ?thesis by (intro exI [of _ t]) (simp add: t_def)
qed

text \<open>Every level has a slot of its own, so the level pool is never exhausted.\<close>

lemma free_slot_room:
  assumes "index_ok s G" and d: "distinct (all_levels G)" and free: "price_levels s i = None" and i: "i < MAX_PRICE_LEVELS"
  shows "card (set (all_levels G)) < MAX_PRICE_LEVELS"
proof -
  let ?f = "\<lambda>l. price_to_index (l_price (level_at s l))"
  have inj: "inj_on ?f (set (all_levels G))"
    using index_inj [OF assms(1)] by (auto simp: inj_on_def same_slot_def)
  have "?f ` set (all_levels G) \<subseteq> {..<MAX_PRICE_LEVELS} - {i}"
    using index_okD [OF assms(1)] free by (auto simp: price_to_index_def model_constants)
  then have "card (?f ` set (all_levels G)) \<le> card ({..<MAX_PRICE_LEVELS} - {i})"
    by (intro card_mono) auto
  also have "\<dots> = MAX_PRICE_LEVELS - 1" using i by simp
  finally show ?thesis using card_image [OF inj] i by simp
qed


text \<open>
  The search loop finds the position \<open>slot_insert\<close> describes: with the flag set, behind the
  last level; otherwise just before the level it stopped at.
\<close>

lemma next_is_head:
  assumes "ring nx pv (pre @ d # rest)" and "pre \<noteq> []"
  shows "nx d = Some (hd pre) \<longleftrightarrow> rest = []"
proof (cases rest)
  case Nil
  then show ?thesis using ring_last_next [OF assms(1)] assms(2) by simp
next
  case (Cons e rest')
  then have "nx d = Some e" using ring_next assms(1) by blast
  moreover have "e \<noteq> hd pre" using ring_distinct [OF assms(1)] Cons assms(2) by (cases pre) auto
  ultimately show ?thesis using Cons by simp
qed

lemma find_slot_flag [simp]: "find_slot fuel s bst sd p c True = Inr (c, True)"
  by (simp add: find_slot.simps)

definition stops_at :: "nat \<Rightarrow> bool \<Rightarrow> nat \<Rightarrow> nat list \<Rightarrow> nat list \<Rightarrow> bool" where
  "stops_at cur flag x L L' \<longleftrightarrow> (if flag then cur = last L \<and> L' = L @ [x]
     else \<exists>us vs. L = us @ cur # vs \<and> L' = us @ x # cur # vs)"

lemma stops_at_Cons: "stops_at cur flag x L L' \<Longrightarrow> L \<noteq> [] \<Longrightarrow> stops_at cur flag x (c # L) (c # L')"
  by (cases flag) (simp_all add: stops_at_def, metis append_Cons)

lemma stops_at_hd: "stops_at c False x (c # L) (x # c # L)"
  unfolding stops_at_def by (auto intro: exI [of _ "[]"])

lemma find_slot_tail:
  assumes "ring (next_entry \<circ> level_at s) (prev_entry \<circ> level_at s) (pre @ c # rest)" and "pre \<noteq> []"
    and "hd pre = b" and "length rest \<le> fuel" and "key x = p"
    and "\<And>y. y \<in> set (c # rest) \<Longrightarrow> key y = l_price (level_at s y)"
  shows "\<exists>cur flag. find_slot fuel s (Some b) sd p c (rest = []) = Inr (cur, flag) \<and>
    stops_at cur flag x (c # rest) (slot_tail key sd x (c # rest))"
  using assms
proof (induction rest arbitrary: pre c fuel)
  case Nil
  then show ?case by (intro exI [of _ c] exI [of _ True]) (simp add: stops_at_def)
next
  case (Cons d rest)
  let ?nx = "next_entry \<circ> level_at s"
  show ?case
  proof (cases "comparison_func p (l_price (level_at s c)) sd")
    case True
    then have "slot_tail key sd x (c # d # rest) = x # c # d # rest" using Cons.prems by simp
    then show ?thesis using True stops_at_hd
      by (intro exI [of _ c] exI [of _ False]) (simp add: find_slot.simps [of fuel s])
  next
    case False
    have nx: "next_entry (level_at s c) = Some d"
      using ring_next [OF Cons.prems(1)] unfolding comp_def .
    have r: "ring ?nx (prev_entry \<circ> level_at s) ((pre @ [c]) @ d # rest)"
      unfolding append_assoc append_Cons append_Nil by (rule Cons.prems(1))
    then have e: "next_entry (level_at s d) = Some b \<longleftrightarrow> rest = []"
      using next_is_head [OF r] Cons.prems(2,3) by simp
    have "find_slot fuel s (Some b) sd p c False = find_slot (fuel - 1) s (Some b) sd p d (rest = [])"
      using False nx Cons.prems(4) by (simp add: find_slot.simps [of fuel s] e)
    moreover have "\<exists>cur flag. find_slot (fuel - 1) s (Some b) sd p d (rest = []) = Inr (cur, flag) \<and>
        stops_at cur flag x (d # rest) (slot_tail key sd x (d # rest))"
      by (rule Cons.IH [OF r]) (use Cons.prems in auto)
    moreover have "slot_tail key sd x (c # d # rest) = c # slot_tail key sd x (d # rest)"
      using False Cons.prems(5,6) by simp
    ultimately show ?thesis using stops_at_Cons [of _ _ x "d # rest" _ c] by auto
  qed
qed

lemma find_slot_ok:
  assumes r: "ring (next_entry \<circ> level_at s) (prev_entry \<circ> level_at s) (b # ys)"
    and fuel: "length ys < fuel" and key: "key x = p" "\<And>y. y \<in> set (b # ys) \<Longrightarrow> key y = l_price (level_at s y)"
    and nb: "\<not> comparison_func p (l_price (level_at s b)) sd"
  shows "\<exists>c cur flag L'. next_entry (level_at s b) = Some c \<and>
    find_slot fuel s (Some b) sd p c False = Inr (cur, flag) \<and> slot_insert key sd x (b # ys) = b # L' \<and>
    (if ys = [] then flag \<and> cur = b \<and> L' = [x] else stops_at cur flag x ys L')"
proof (cases ys)
  case Nil
  then show ?thesis using r nb fuel key
    by (intro exI [of _ b] exI [of _ True]) (simp add: find_slot.simps [of fuel s])
next
  case (Cons y zs)
  have nxb: "next_entry (level_at s b) = Some y" using ring_next [of _ _ "[]" b y zs] r Cons by simp
  show ?thesis
  proof (cases "comparison_func p (l_price (level_at s y)) sd")
    case True
    have "slot_insert key sd x (b # ys) = b # x # y # zs" using True nb key Cons by simp
    then show ?thesis using nxb True Cons stops_at_hd
      by (intro exI [of _ y] exI [of _ False]) (simp add: find_slot.simps [of fuel s])
  next
    case False
    show ?thesis
    proof (cases zs)
      case Nil
      have "next_entry (level_at s y) = Some b" using ring_last_next [OF r] Cons Nil by simp
      then show ?thesis using nxb False nb Nil Cons fuel key
        by (intro exI [of _ y] exI [of _ True])
          (simp add: find_slot.simps [of fuel s] find_slot.simps [of "fuel - Suc 0" s] stops_at_def)
    next
      case (Cons z rest)
      note ys = \<open>ys = y # zs\<close> Cons
      have r': "ring (next_entry \<circ> level_at s) (prev_entry \<circ> level_at s) ([b, y] @ z # rest)"
        using r ys by simp
      then have nxy: "next_entry (level_at s y) = Some z" using ring_next [of _ _ "[b]" y z rest] by simp
      have e: "next_entry (level_at s z) = Some b \<longleftrightarrow> rest = []" using next_is_head [OF r'] by simp
      have "find_slot fuel s (Some b) sd p y False = find_slot (fuel - 1) s (Some b) sd p z (rest = [])"
        using False nxy fuel by (simp add: find_slot.simps [of fuel s] e)
      moreover have "\<exists>cur flag. find_slot (fuel - 1) s (Some b) sd p z (rest = []) = Inr (cur, flag) \<and>
          stops_at cur flag x (z # rest) (slot_tail key sd x (z # rest))"
        by (rule find_slot_tail [OF r']) (use key fuel ys in auto)
      moreover have "slot_insert key sd x (b # ys) = b # y # slot_tail key sd x (z # rest)"
        using nb False key ys by simp
      ultimately show ?thesis using nxb ys stops_at_Cons [of _ _ x "z # rest" _ y] by auto
    qed
  qed
qed


text \<open>Linking a level changes links, a best pointer and an index entry, nothing else.\<close>

definition level_links_only :: "order_book \<Rightarrow> order_book \<Rightarrow> bool" where
  "level_links_only s t \<longleftrightarrow> l_side \<circ> level_at t = l_side \<circ> level_at s \<and>
     l_price \<circ> level_at t = l_price \<circ> level_at s \<and> first_order \<circ> level_at t = first_order \<circ> level_at s \<and>
     order_at t = order_at s \<and> order_pool t = order_pool s \<and> client_orders t = client_orders s \<and>
     pool_inv (price_level_pool t) = pool_inv (price_level_pool s) \<and>
     pool_live (price_level_pool t) = pool_live (price_level_pool s) \<and>
     memory_blocks_size (price_level_pool t) = memory_blocks_size (price_level_pool s) \<and>
     instrument_id t = instrument_id s \<and> message_handler t = message_handler s \<and>
     next_market_order_id t = next_market_order_id s"

lemma level_links_onlyI [simp]:
  "level_links_only s s"
  "level_links_only s (set_level a (\<lambda>x. x\<lparr>next_entry := p\<rparr>) t) = level_links_only s t"
  "level_links_only s (set_level a (\<lambda>x. x\<lparr>prev_entry := p\<rparr>) t) = level_links_only s t"
  "level_links_only s (set_level a (\<lambda>x. x\<lparr>prev_entry := p, next_entry := p'\<rparr>) t) = level_links_only s t"
  "level_links_only s (set_best sd p t) = level_links_only s t"
  "level_links_only s (t\<lparr>price_levels := pl\<rparr>) = level_links_only s t"
  by (simp_all add: level_links_only_def)

lemma level_links_only_trans: "level_links_only r s \<Longrightarrow> level_links_only s t \<Longrightarrow> level_links_only r t"
  by (simp add: level_links_only_def)

lemma slot_insert_front:
  "comparison_func (key x) (key b) sd \<Longrightarrow> slot_insert key sd x (b # ys) = x # b # ys"
  by (cases ys) simp_all

lemma add_after_ok:
  assumes "next_entry (level_at s cur) = Some c" and "cur \<noteq> new" and "c \<noteq> new"
  shows "\<exists>t. add_after cur new s = Inr t \<and>
    next_entry \<circ> level_at t = (next_entry \<circ> level_at s)(cur := Some new, new := Some c) \<and>
    prev_entry \<circ> level_at t = (prev_entry \<circ> level_at s)(new := Some cur, c := Some new) \<and>
    level_links_only s t \<and> (\<forall>sd. best sd t = best sd s) \<and> price_levels t = price_levels s"
  using assms by (auto simp: add_after_def Let_def fun_eq_iff)

lemma add_before_ok:
  assumes "prev_entry (level_at s cur) = Some c" and "cur \<noteq> new" and "c \<noteq> new"
  shows "\<exists>t. add_before cur new s = Inr t \<and>
    next_entry \<circ> level_at t = (next_entry \<circ> level_at s)(c := Some new, new := Some cur) \<and>
    prev_entry \<circ> level_at t = (prev_entry \<circ> level_at s)(new := Some c, cur := Some new) \<and>
    level_links_only s t \<and> (\<forall>sd. best sd t = best sd s) \<and> price_levels t = price_levels s"
  using assms by (auto simp: add_before_def Let_def fun_eq_iff)

lemma add_price_level_ok:
  assumes new: "new \<notin> set xs" and ring: "xs \<noteq> [] \<Longrightarrow> ring (next_entry \<circ> level_at s) (prev_entry \<circ> level_at s) xs"
    and bst: "best sd s = (case xs of [] \<Rightarrow> None | b # _ \<Rightarrow> Some b)"
    and sd: "l_side (level_at s new) = sd" and len: "length xs \<le> MAX_PRICE_LEVELS"
    and ys: "ys = slot_insert (l_price \<circ> level_at s) sd new xs"
  shows "\<exists>t B C. add_price_level new s = Inr t \<and> level_links_only s t \<and>
    ring (next_entry \<circ> level_at t) (prev_entry \<circ> level_at t) ys \<and>
    next_entry \<circ> level_at t = (next_entry \<circ> level_at s)(B := Some new, new := Some C) \<and>
    prev_entry \<circ> level_at t = (prev_entry \<circ> level_at s)(new := Some B, C := Some new) \<and>
    {B, C} \<subseteq> set ys \<and> best sd t = Some (hd ys) \<and>
    (\<forall>sd'. (sd' = BUY) \<noteq> (sd = BUY) \<longrightarrow> best sd' t = best sd' s) \<and>
    price_levels t = (price_levels s)(price_to_index (l_price (level_at s new)) := Some new)"
proof -
  let ?p = "l_price (level_at s new)"
  define r where "r = s\<lparr>price_levels := (price_levels s)(price_to_index ?p := Some new)\<rparr>"
  have r: "level_at r = level_at s" "best sd' r = best sd' s" "level_links_only s r"
    "price_levels r = (price_levels s)(price_to_index ?p := Some new)" for sd'
    by (simp_all add: r_def)
  let ?nx = "next_entry \<circ> level_at r" and ?pv = "prev_entry \<circ> level_at r"
  show ?thesis
  proof (cases xs)
    case Nil
    define t where "t = set_best sd (Some new)
      (set_level new (\<lambda>l. l\<lparr>prev_entry := Some new, next_entry := Some new\<rparr>) r)"
    have "add_price_level new s = Inr t"
      using bst sd Nil by (simp add: add_price_level_def t_def r_def Let_def)
    then show ?thesis using Nil ys r by (intro exI [of _ t] exI [of _ new]) (simp add: t_def)
  next
    case (Cons b zs)
    have rg: "ring ?nx ?pv (b # zs)" using ring Cons by (simp add: r)
    have b: "b \<noteq> new" "best sd r = Some b" using new Cons bst by (auto simp: r)
    show ?thesis
    proof (cases "comparison_func ?p (l_price (level_at s b)) sd")
      case True
      have last: "last xs \<in> set xs" "last xs \<noteq> new" using Cons new last_in_set [of xs] by auto
      have "prev_entry (level_at r b) = Some (last xs)" using ring_hd_prev [OF rg] Cons by simp
      from add_before_ok [OF this b(1) last(2)] obtain t where t: "add_before b new r = Inr t"
        "next_entry \<circ> level_at t = ?nx(last xs := Some new, new := Some b)"
        "prev_entry \<circ> level_at t = ?pv(new := Some (last xs), b := Some new)" "level_links_only r t"
        "\<forall>sd. best sd t = best sd r" "price_levels t = price_levels r" by blast
      have "ring (next_entry \<circ> level_at t) (prev_entry \<circ> level_at t) (xs @ [new])"
        unfolding t(2,3) by (rule ring_snoc_insert) (use rg Cons new in auto)
      then have "ring (next_entry \<circ> level_at t) (prev_entry \<circ> level_at t) (new # xs)"
        using ring_rotate [of _ _ xs "[new]"] by simp
      moreover have "add_price_level new s = Inr (set_best sd (Some new) t)"
        using True t(1) b(2) sd by (simp add: add_price_level_def r_def Let_def)
      moreover have "ys = new # xs" using True ys Cons slot_insert_front by (metis comp_apply)
      ultimately show ?thesis using t Cons last level_links_only_trans [OF r(3) t(4)] r
        by (intro exI [of _ "set_best sd (Some new) t"] exI [of _ "last xs"] exI [of _ b]) simp
    next
      case False
      obtain c cur flag L' where f: "next_entry (level_at r b) = Some c"
        "find_slot (MAX_PRICE_LEVELS + 1) r (Some b) sd ?p c False = Inr (cur, flag)"
        "slot_insert (l_price \<circ> level_at s) sd new (b # zs) = b # L'"
        "if zs = [] then flag \<and> cur = b \<and> L' = [new] else stops_at cur flag new zs L'"
        using find_slot_ok [OF rg, of "MAX_PRICE_LEVELS + 1" "l_price \<circ> level_at s" new ?p sd] False len Cons
        by (auto simp: r)
      have ap: "add_price_level new s = (if flag then add_after cur new r else add_before cur new r)"
        using False b(2) sd f(1,2) by (simp add: add_price_level_def r_def Let_def)
      show ?thesis
      proof (cases flag)
        case True
        then have cur: "cur = last xs" and ys': "ys = xs @ [new]"
          using f(3,4) ys Cons by (auto simp: stops_at_def split: if_splits)
        have ne: "cur \<noteq> new" using cur new Cons last_in_set [of xs] by auto
        have "next_entry (level_at r cur) = Some b" using ring_last_next [OF rg] cur Cons by simp
        from add_after_ok [OF this ne b(1)] obtain t where t: "add_after cur new r = Inr t"
          "next_entry \<circ> level_at t = ?nx(cur := Some new, new := Some b)"
          "prev_entry \<circ> level_at t = ?pv(new := Some cur, b := Some new)" "level_links_only r t"
          "\<forall>sd. best sd t = best sd r" "price_levels t = price_levels r" by blast
        have "ring (next_entry \<circ> level_at t) (prev_entry \<circ> level_at t) ys"
          unfolding t(2,3) ys' by (rule ring_snoc_insert) (use rg Cons new cur in auto)
        then show ?thesis using t True ap ys' Cons cur b level_links_only_trans [OF r(3) t(4)] r
          by (intro exI [of _ t] exI [of _ cur] exI [of _ b]) simp
      next
        case False
        then obtain us vs where uv: "zs = us @ cur # vs" "L' = us @ new # cur # vs"
          using f(4) by (auto simp: stops_at_def split: if_splits)
        have ys': "ys = (b # us) @ new # cur # vs" using ys f(3) uv Cons by simp
        let ?B = "last (b # us)"
        have B: "?B \<in> set (b # us)" "?B \<noteq> new" "cur \<noteq> new"
          using new Cons uv last_in_set [of "b # us"] by auto
        have rg': "ring ?nx ?pv ((b # us) @ cur # vs)" using rg uv by simp
        have "b # us = butlast (b # us) @ [?B]" by (rule append_butlast_last_id [symmetric]) simp
        then have "prev_entry (level_at r cur) = Some ?B"
          using ring_prev [of ?nx ?pv "butlast (b # us)" ?B cur vs] rg'
          by (metis append.assoc append_Cons append_Nil comp_apply)
        from add_before_ok [OF this B(3,2)] obtain t where t: "add_before cur new r = Inr t"
          "next_entry \<circ> level_at t = ?nx(?B := Some new, new := Some cur)"
          "prev_entry \<circ> level_at t = ?pv(new := Some ?B, cur := Some new)" "level_links_only r t"
          "\<forall>sd. best sd t = best sd r" "price_levels t = price_levels r" by blast
        have "ring (next_entry \<circ> level_at t) (prev_entry \<circ> level_at t) ys"
          unfolding t(2,3) ys' by (rule ring_insert [OF rg']) (use new uv Cons in auto)
        then show ?thesis using t False ap ys' B b level_links_only_trans [OF r(3) t(4)] r
          by (intro exI [of _ t] exI [of _ ?B] exI [of _ cur]) simp
      qed
    qed
  qed
qed

section \<open>A new level\<close>

lemma ghost_add_level:
  assumes "distinct (all_levels G)" and "distinct (all_orders G)" and "inserted (l, [a]) (G b) M"
    and "l \<notin> set (all_levels G)" and "a \<notin> set (all_orders G)"
  shows "set (all_levels (G(b := M))) = insert l (set (all_levels G))"
    and "distinct (all_levels (G(b := M)))"
    and "set (all_orders (G(b := M))) = insert a (set (all_orders G))"
    and "distinct (all_orders (G(b := M)))"
proof -
  obtain L1 L2 where G: "G b = L1 @ L2" and M: "M = L1 @ (l, [a]) # L2"
    using assms(3) by (auto simp: inserted_def)
  show "set (all_levels (G(b := M))) = insert l (set (all_levels G))"
    and "distinct (all_levels (G(b := M)))"
    using assms(1,4) unfolding all_levels_split [of _ b] by (auto simp: G M)
  define O1 O2 O3 where "O1 = concat (map snd L1)" and "O2 = concat (map snd L2)"
    and "O3 = concat (map snd (G (\<not> b)))"
  have G1: "distinct (O1 @ O2 @ O3)" "set (all_orders G) = set (O1 @ O2 @ O3)"
    using assms(2) unfolding all_orders_concat [of G b] G O1_def O2_def O3_def by auto
  then show "set (all_orders (G(b := M))) = insert a (set (all_orders G))"
    and "distinct (all_orders (G(b := M)))"
    using assms(5) unfolding all_orders_concat [of _ b]
    by (simp_all del: set_concat add: M O1_def [symmetric] O2_def [symmetric] O3_def [symmetric]) blast?
qed

lemma level_links_onlyD:
  assumes "level_links_only s t"
  shows "l_side (level_at t k) = l_side (level_at s k)" and "l_price (level_at t k) = l_price (level_at s k)"
    and "first_order (level_at t k) = first_order (level_at s k)"
    and "order_at t = order_at s" and "order_pool t = order_pool s" and "client_orders t = client_orders s"
    and "pool_inv (price_level_pool t) = pool_inv (price_level_pool s)"
    and "pool_live (price_level_pool t) = pool_live (price_level_pool s)"
    and "memory_blocks_size (price_level_pool t) = memory_blocks_size (price_level_pool s)"
    and "instrument_id t = instrument_id s" and "message_handler t = message_handler s"
    and "next_market_order_id t = next_market_order_id s"
  using assms by (simp_all add: level_links_only_def fun_eq_iff)

lemma link_new:
  assumes ok: "lists_ok s G" and a: "a \<notin> set (all_orders G)"
    and side: "o_side (order_at s a) = key_side b"
    and slot: "price_levels s (price_to_index (o_price (order_at s a))) = None"
  shows "\<exists>t l. add_order a s = register_order a t \<and> l \<notin> set (all_levels G) \<and>
    lists_ok t (G(b := slot_insert (\<lambda>x. l_price (level_at t (fst x))) (key_side b) (l, [a]) (G b))) \<and>
    l_price (level_at t l) = o_price (order_at s a) \<and>
    (\<forall>k. k \<noteq> l \<longrightarrow> l_price (level_at t k) = l_price (level_at s k)) \<and> oinfo t = oinfo s \<and>
    pool_live (order_pool t) = pool_live (order_pool s) \<and>
    pool_inv (order_pool t) = pool_inv (order_pool s) \<and>
    memory_blocks_size (order_pool t) = memory_blocks_size (order_pool s) \<and>
    client_orders t = client_orders s \<and> instrument_id t = instrument_id s \<and>
    message_handler t = message_handler s \<and> next_market_order_id t = next_market_order_id s"
proof -
  let ?p = "o_price (order_at s a)" and ?X = "set (all_levels G)"
  have dl: "distinct (all_levels G)" and dor: "distinct (all_orders G)" and ro: "rings_ok s G"
    and lo: "levels_ok s G" and io: "index_ok s G" and lp: "level_pool_ok s ?X"
    using ok by (simp_all add: lists_ok_def)
  have get: "get_price_level (key_side b) ?p s = None" using slot by (simp add: get_price_level_def)
  have room: "card ?X < MAX_PRICE_LEVELS"
    by (rule free_slot_room [OF io dl slot]) (simp add: price_to_index_def model_constants)
  define v where "v = \<lparr>l_side = key_side b, l_price = ?p, first_order = Some a, prev_entry = None, next_entry = None\<rparr>"
  obtain l q where q: "pool_alloc v (price_level_pool s) = Inr (l, q)" "l \<notin> ?X" "pool_live q = insert l ?X"
    "pool_inv q" "pool_get q = (level_at s)(l := v)" "memory_blocks_size q = MAX_PRICE_LEVELS"
    using pool_alloc_ok [of "price_level_pool s" v] lp room unfolding level_pool_ok_def by auto
  define r where "r = (set_order a (\<lambda>x. x\<lparr>prev_order := Some a, next_order := Some a\<rparr>) s)\<lparr>price_level_pool := q\<rparr>"
  have r: "level_at r = (level_at s)(l := v)" "best sd r = best sd s" "price_levels r = price_levels s"
    "price_level_pool r = q" for sd
    by (simp_all add: r_def q)
  define xs where "xs = map fst (G b)"
  have lxs: "l \<notin> set xs" "l \<notin> fst ` set (G (\<not> b))"
    using q(2) all_levels_split(1) [of G b] by (auto simp: xs_def)
  define ys where "ys = slot_insert (l_price \<circ> level_at r) (key_side b) l xs"
  have ring0: "ring (next_entry \<circ> level_at r) (prev_entry \<circ> level_at r) xs" if "xs \<noteq> []"
    using rings_okD(2) [OF ro, of b] that lxs by (simp add: xs_def r)
  have best0: "best (key_side b) r = (case xs of [] \<Rightarrow> None | c # _ \<Rightarrow> Some c)"
    using rings_okD(1) [OF ro, of b] unfolding r(2) xs_def by (simp add: head_ptr_def split: list.split)
  have len0: "length xs \<le> MAX_PRICE_LEVELS"
    using room distinct_card [OF dl] by (cases b) (simp_all add: xs_def all_levels_def)
  obtain t B C where t: "add_price_level l r = Inr t" "level_links_only r t"
    "ring (next_entry \<circ> level_at t) (prev_entry \<circ> level_at t) ys"
    "next_entry \<circ> level_at t = (next_entry \<circ> level_at r)(B := Some l, l := Some C)"
    "prev_entry \<circ> level_at t = (prev_entry \<circ> level_at r)(l := Some B, C := Some l)"
    "{B, C} \<subseteq> set ys" "best (key_side b) t = Some (hd ys)"
    "\<forall>sd'. (sd' = BUY) \<noteq> (key_side b = BUY) \<longrightarrow> best sd' t = best sd' r"
    "price_levels t = (price_levels r)(price_to_index (l_price (level_at r l)) := Some l)"
    using add_price_level_ok [OF lxs(1) ring0 best0 _ len0 ys_def]
    by (auto simp: r v_def)
  note tD = level_links_onlyD [OF t(2)]
  define M where "M = slot_insert (\<lambda>x. l_price (level_at t (fst x))) (key_side b) (l, [a]) (G b)"
  let ?G = "G(b := M)"
  have "inserted (l, [a]) (G b) M" by (simp add: M_def)
  note gr = ghost_add_level [OF dl dor this q(2) a]
  have price: "l_price (level_at t l) = ?p" "k \<noteq> l \<Longrightarrow> l_price (level_at t k) = l_price (level_at s k)" for k
    unfolding tD(2) by (simp_all add: r v_def)
  have "lists_ok t ?G" unfolding lists_ok_def
  proof (intro conjI)
    have Mys: "map fst M = ys" unfolding ys_def xs_def M_def
      by (subst map_slot_insert [where key' = "l_price \<circ> level_at r"]) (simp_all add: tD(2))
    have "(l, [a]) \<in> set M" by (simp add: M_def)
    then have M0: "M \<noteq> []" "head_ptr M = Some (hd ys)"
      using Mys by (cases M; auto simp: head_ptr_def)+
    have "set ys = insert l (fst ` set (G b))" by (simp add: ys_def xs_def)
    then have other: "B \<notin> fst ` set (G (\<not> b))" "C \<notin> fst ` set (G (\<not> b))"
      using t(6) lxs(2) dl unfolding all_levels_split(2) [of G b] by auto
    have "best (key_side (\<not> b)) t = head_ptr (G (\<not> b))"
      using t(8) [rule_format, of "key_side (\<not> b)"] rings_okD(1) [OF ro, of "\<not> b"] by (simp add: r)
    moreover have "ring (next_entry \<circ> level_at t) (prev_entry \<circ> level_at t) (map fst (G (\<not> b)))"
      if "G (\<not> b) \<noteq> []"
      using rings_okD(2) [OF ro that] other lxs(2) unfolding t(4,5) r(1) by simp
    ultimately show "rings_ok t ?G" using t(3,7) Mys M0 by (intro rings_okI [of b]) auto
    show "index_ok t ?G" unfolding index_ok_def
    proof (intro allI)
      fix i k
      have pl: "price_levels t = (price_levels s)(price_to_index ?p := Some l)"
        using t(9) by (simp add: r v_def)
      have old: "price_levels s i = Some k \<longleftrightarrow> k \<in> ?X \<and> price_to_index (l_price (level_at s k)) = i" for k
        using io by (simp add: index_ok_def)
      show "price_levels t i = Some k \<longleftrightarrow> k \<in> set (all_levels ?G) \<and> price_to_index (l_price (level_at t k)) = i"
      proof (cases "k = l")
        case True
        then show ?thesis using pl price(1) gr(1) old [of l] q(2) by auto
      next
        case False
        then show ?thesis using pl price(2) gr(1) old [of k] slot by auto
      qed
    qed
    show "levels_ok t ?G" unfolding levels_ok_def
    proof (intro allI ballI)
      fix c x assume x: "x \<in> set (?G c)"
      obtain k os where xk: "x = (k, os)" by (cases x)
      consider "c = b" "x = (l, [a])" | "x \<in> set (G c)" using x by (cases "c = b") (auto simp: M_def)
      then show "level_ok (level_at t) (order_at t) c x"
      proof cases
        case 1
        then show ?thesis using side price(1) tD(1,3) [of l]
          by (simp add: tD(4) r v_def same_slot_def) (simp add: r_def)
      next
        case 2
        have k: "k \<noteq> l" "a \<notin> set os"
          using mem_all_levels [of k os G c] mem_all_orders [of k os G c a] 2 q(2) a xk by auto
        have "level_ok (level_at t) (order_at t) c (k, os) = level_ok (level_at s) (order_at s) c (k, os)"
          using k by (intro level_ok_cong) (auto simp: tD r, simp add: r_def, metis)
        then show ?thesis using lo 2 xk unfolding levels_ok_def by blast
      qed
    qed
  qed (use gr q tD r in \<open>simp_all add: level_pool_ok_def\<close>)
  moreover have "add_order a s = register_order a t"
    using get side q(1) t(1) by (simp add: add_order_def register_order_def Let_def v_def r_def)
  moreover have "oinfo t = oinfo s" by (simp add: oinfo_def fun_eq_iff tD r_def)
  ultimately show ?thesis using q(2) price unfolding M_def
    by (intro exI [of _ t] exI [of _ l]) (simp add: tD, simp add: r_def)
qed


section \<open>Adding an order\<close>

lemma clients_ok_insert:
  assumes "clients_ok t X" and "unat (o_client_id (order_at t a)) < MAX_NUM_CLIENTS"
    and "unat (o_client_order_id (order_at t a)) < MAX_NUM_ORDERS"
    and fresh: "\<And>x. x \<in> X \<Longrightarrow> \<not> owned_by (o_client_id (order_at t a)) (o_client_order_id (order_at t a)) (oinfo t x)"
    and "order_at t' = order_at t"
    and "client_orders t' = (client_orders t)(unat (o_client_id (order_at t a)) :=
      (client_orders t (unat (o_client_id (order_at t a))))(unat (o_client_order_id (order_at t a)) := Some a))"
  shows "clients_ok t' (insert a X)"
proof -
  let ?c = "\<lambda>x. unat (o_client_id (order_at t x))" and ?i = "\<lambda>x. unat (o_client_order_id (order_at t x))"
  have co: "client_orders t c i = Some x \<longleftrightarrow> x \<in> X \<and> ?c x = c \<and> ?i x = i" for c i x
    using assms(1) by (simp add: clients_ok_def)
  have new: "\<not> (?c x = ?c a \<and> ?i x = ?i a)" if "x \<in> X" for x
    using fresh [OF that] by (auto simp: owned_by_def oinfo_def word_unat_eq_iff)
  have "client_orders t' c i = Some x \<longleftrightarrow> x \<in> insert a X \<and> ?c x = c \<and> ?i x = i" for c i x
    using co [of c i x] new [of x] by (auto simp: assms(6))
  then show ?thesis using assms(1-3,5) by (simp add: clients_ok_def)
qed

lemma register_order_ok:
  assumes "clients_ok t X" and "unat (o_client_id (order_at t a)) < MAX_NUM_CLIENTS"
    and "unat (o_client_order_id (order_at t a)) < MAX_NUM_ORDERS"
    and "\<And>x. x \<in> X \<Longrightarrow> \<not> owned_by (o_client_id (order_at t a)) (o_client_order_id (order_at t a)) (oinfo t x)"
  shows "\<exists>s'. register_order a t = Inr s' \<and> clients_ok s' (insert a X) \<and> same_data t s' \<and>
    order_pool s' = order_pool t \<and> lists_ok s' G = lists_ok t G"
proof -
  let ?c = "unat (o_client_id (order_at t a))" and ?i = "unat (o_client_order_id (order_at t a))"
  define s' where "s' = t\<lparr>client_orders := (client_orders t)(?c := (client_orders t ?c)(?i := Some a))\<rparr>"
  have "register_order a t = Inr s'"
    using assms(2,3) by (simp add: register_order_def set_client_order_def s'_def)
  moreover have "clients_ok s' (insert a X)"
    by (rule clients_ok_insert [OF assms]) (simp_all add: s'_def)
  moreover have "lists_ok s' G = lists_ok t G"
    by (rule lists_ok_same) (simp_all add: s'_def)
  ultimately show ?thesis
    by (intro exI [of _ s']) (simp add: same_data_def oinfo_def s'_def fun_eq_iff)
qed

lemma not_slot_before_after:
  assumes "index_ok s G" and "distinct (all_levels G)" and "G b = L1 @ (l, os) # L2"
    and "same_slot (l_price (level_at s l)) q" and "(k, xs) \<in> set (L1 @ L2)"
  shows "\<not> same_slot (l_price (level_at s k)) q"
proof
  assume "same_slot (l_price (level_at s k)) q"
  then have "same_slot (l_price (level_at s k)) (l_price (level_at s l))"
    using assms(4) by (simp add: same_slot_def)
  then have "k = l" using index_inj [OF assms(1)] mem_all_levels [of k xs G b] mem_all_levels [of l os G b] assms(3,5)
    by auto
  moreover have "l \<notin> fst ` set (L1 @ L2)"
    using assms(2,3) unfolding all_levels_split(2) [of G b] by auto
  ultimately show False using assms(5) by (metis fst_conv image_eqI)
qed

lemma a_place_existing:
  assumes L: "L = map f L1 @ (p, xs) # map f L2"
    and f: "\<And>y. y \<in> set (L1 @ L2) \<Longrightarrow> \<not> same_slot (fst (f y)) (o_price x)"
    and p: "same_slot p (o_price x)"
  shows "a_place sd x L = map f L1 @ (p, xs @ [x]) # map f L2"
proof -
  have "map (\<lambda>(p, xs). if same_slot p (o_price x) then (p, xs @ [x]) else (p, xs)) (map f M) = map f M"
    if "set M \<subseteq> set (L1 @ L2)" for M
    using f that by (auto simp: map_idI case_prod_beta intro!: map_cong)
  then show ?thesis using p L by (auto simp: a_place_def)
qed


lemma abs_levels_simps [simp]:
  "abs_levels s [] = []"
  "abs_levels s ((l, os) # L) = (l_price (level_at s l), map (oinfo s) os) # abs_levels s L"
  "abs_levels s (L1 @ L2) = abs_levels s L1 @ abs_levels s L2"
  by (simp_all add: abs_levels_def)

lemma no_slot_on_either_side:
  assumes "index_ok s G" and "\<And>c k os. (k, os) \<in> set (G c) \<Longrightarrow> \<not> same_slot (l_price (level_at s k)) p"
  shows "price_levels s (price_to_index p) = None"
proof (rule ccontr)
  assume "price_levels s (price_to_index p) \<noteq> None"
  then obtain k where "price_levels s (price_to_index p) = Some k" by blast
  then have "k \<in> set (all_levels G)" "same_slot (l_price (level_at s k)) p"
    using assms(1) by (auto simp: index_ok_def same_slot_def)
  then show False using assms(2) unfolding all_levels_def by auto
qed

lemma abs_levels_slot:
  "(\<exists>(q, xs) \<in> set (abs_levels s L). same_slot q p) \<longleftrightarrow> (\<exists>(l, os) \<in> set L. same_slot (l_price (level_at s l)) p)"
  by (simp add: abs_levels_def case_prod_beta)

lemma add_order_ok:
  assumes lists: "lists_ok s G" and cl: "clients_ok s (set (all_orders G))"
    and op: "order_pool_ok s (insert a (set (all_orders G)))" and a: "a \<notin> set (all_orders G)"
    and side: "o_side (order_at s a) = key_side b"
    and cid: "unat (o_client_id (order_at s a)) < MAX_NUM_CLIENTS"
    and oid: "unat (o_client_order_id (order_at s a)) < MAX_NUM_ORDERS"
    and fresh: "\<And>x. x \<in> set (all_orders G) \<Longrightarrow>
      \<not> owned_by (o_client_id (order_at s a)) (o_client_order_id (order_at s a)) (oinfo s x)"
    and cross: "\<not> (\<exists>(q, xs) \<in> set (abs_levels s (G (\<not> b))). same_slot q (o_price (order_at s a)))"
  shows "\<exists>s' M. add_order a s = Inr s' \<and> book_ok s' (G(b := M)) \<and>
    abs_levels s' M = a_place (key_side b) (oinfo s a) (abs_levels s (G b)) \<and>
    abs_levels s' (G (\<not> b)) = abs_levels s (G (\<not> b)) \<and> instrument_id s' = instrument_id s \<and>
    message_handler s' = message_handler s \<and> next_market_order_id s' = next_market_order_id s"
proof -
  let ?p = "o_price (order_at s a)" and ?X = "set (all_orders G)"
  have d: "distinct (all_levels G)" "distinct (all_orders G)" and io: "index_ok s G"
    using lists by (simp_all add: lists_ok_def)
  show ?thesis
  proof (cases "\<exists>(l, os) \<in> set (G b). same_slot (l_price (level_at s l)) ?p")
    case True
    then obtain l os where "(l, os) \<in> set (G b)" and slot: "same_slot (l_price (level_at s l)) ?p" by blast
    then obtain L1 L2 where G: "G b = L1 @ (l, os) # L2" by (meson split_list)
    let ?M = "L1 @ (l, os @ [a]) # L2"
    from link_existing [OF lists G a side] slot obtain t where t: "add_order a s = register_order a t"
      "lists_ok t (G(b := ?M))" "same_data s t" "pool_live (order_pool t) = pool_live (order_pool s)"
      "pool_inv (order_pool t) = pool_inv (order_pool s)"
      "memory_blocks_size (order_pool t) = memory_blocks_size (order_pool s)"
      "client_orders t = client_orders s" by (auto simp: same_slot_def)
    have "clients_ok t ?X" using clients_ok_same [OF t(3,7)] cl by simp
    from register_order_ok [OF this, of a "G(b := ?M)"] obtain s' where s': "register_order a t = Inr s'"
      "clients_ok s' (insert a ?X)" "same_data t s'" "order_pool s' = order_pool t"
      "lists_ok s' (G(b := ?M))"
      using same_data_order [OF t(3), of a] same_dataD(2) [OF t(3)] cid oid fresh t(2) by auto
    have sd: "same_data s s'" using same_data_trans [OF t(3) s'(3)] .
    have "\<not> same_slot (fst (case y of (l, os) \<Rightarrow> (l_price (level_at s l), map (oinfo s) os))) ?p"
      if "y \<in> set (L1 @ L2)" for y
      using not_slot_before_after [OF io d(1) G slot, of "fst y" "snd y"] that by (cases y) simp
    then have "abs_levels s ?M = a_place (key_side b) (oinfo s a) (abs_levels s (G b))"
      using slot by (subst a_place_existing [where f = "\<lambda>(l, os). (l_price (level_at s l), map (oinfo s) os)"
        and ?L1.0 = L1 and ?L2.0 = L2 and p = "l_price (level_at s l)" and xs = "map (oinfo s) os"])
        (auto simp: G abs_levels_def oinfo_def)
    moreover have "set (all_orders (G(b := ?M))) = insert a ?X"
    proof -
      have "distinct os" using d(2) G unfolding all_orders_concat [of G b] by auto
      moreover have "set os \<subseteq> ?X" using mem_all_orders [of l os G b] G by auto
      ultimately show ?thesis using ghost_replace(3) [OF d G, of "os @ [a]"] a by auto
    qed
    ultimately show ?thesis using t(1) s' op t(4-6) same_dataD [OF sd] sd [unfolded same_data_def]
      by (intro exI [of _ s'] exI [of _ ?M]) (simp add: book_ok_def order_pool_ok_def split del: if_split)
  next
    case False
    have "\<not> same_slot (l_price (level_at s k)) ?p" if "(k, os) \<in> set (G c)" for k os c
      using cross False that unfolding abs_levels_slot by (cases "c = b") auto
    from no_slot_on_either_side [OF io this] link_new [OF lists a side] obtain t l
      where t: "add_order a s = register_order a t" "l \<notin> set (all_levels G)"
      "lists_ok t (G(b := slot_insert (\<lambda>x. l_price (level_at t (fst x))) (key_side b) (l, [a]) (G b)))"
      "l_price (level_at t l) = ?p" "\<forall>k. k \<noteq> l \<longrightarrow> l_price (level_at t k) = l_price (level_at s k)"
      "oinfo t = oinfo s" "pool_live (order_pool t) = pool_live (order_pool s)"
      "pool_inv (order_pool t) = pool_inv (order_pool s)"
      "memory_blocks_size (order_pool t) = memory_blocks_size (order_pool s)"
      "client_orders t = client_orders s" "instrument_id t = instrument_id s"
      "message_handler t = message_handler s" "next_market_order_id t = next_market_order_id s" by auto
    define M where "M = slot_insert (\<lambda>x. l_price (level_at t (fst x))) (key_side b) (l, [a]) (G b)"
    have same: "o_client_id (order_at t k) = o_client_id (order_at s k)"
      "o_client_order_id (order_at t k) = o_client_order_id (order_at s k)" for k
      using fun_cong [OF t(6), of k] unfolding oinfo_def by (metis truncate_simps)+
    have "clients_ok t ?X" using cl by (simp add: clients_ok_def same t(10))
    from register_order_ok [OF this, of a "G(b := M)"] obtain s' where s': "register_order a t = Inr s'"
      "clients_ok s' (insert a ?X)" "same_data t s'" "order_pool s' = order_pool t" "lists_ok s' (G(b := M))"
      using same cid oid fresh t(3,6) unfolding M_def by auto
    have abs: "abs_levels t (G c) = abs_levels s (G c)" for c
    proof -
      have "l_price (level_at t k) = l_price (level_at s k)" if "(k, os) \<in> set (G c)" for k os
        using mem_all_levels [of k os G c] that t(2,5) by metis
      then show ?thesis unfolding abs_levels_def t(6) by (auto intro!: map_cong)
    qed
    have "abs_levels t M = slot_insert fst (key_side b) (?p, [oinfo s a]) (abs_levels t (G b))"
      unfolding M_def abs_levels_def by (subst map_slot_insert [where key' = fst]) (auto simp: t(4,6))
    moreover have "\<not> (\<exists>(q, xs) \<in> set (abs_levels s (G b)). same_slot q ?p)"
      using False unfolding abs_levels_slot .
    ultimately have "abs_levels t M = a_place (key_side b) (oinfo s a) (abs_levels s (G b))"
      by (simp add: a_place_def abs oinfo_def)
    moreover have "set (all_orders (G(b := M))) = insert a ?X"
      using ghost_add_level(3) [OF d _ t(2) a, of b M] by (simp add: M_def)
    ultimately show ?thesis using t(1,7-13) s' op same_dataD [OF s'(3)] s'(3) [unfolded same_data_def] abs
      by (intro exI [of _ s'] exI [of _ M]) (simp add: book_ok_def order_pool_ok_def split del: if_split)
  qed
qed


end
