(* ===== verification/OrderBookRefine.thy ===== *)
theory OrderBookRefine
  imports OrderBookLink
begin

text \<open>
  The operations of the order book compute those of the abstract book: matching, adding,
  cancelling and modifying, each on its whole domain of admissible requests, with the messages
  in the order the code sends them.
\<close>

section \<open>Assignments that leave the lists alone\<close>

lemma book_ok_fields:
  assumes "level_at t = level_at s" and "\<And>sd. best sd t = best sd s" and "price_levels t = price_levels s"
    and "price_level_pool t = price_level_pool s" and "client_orders t = client_orders s"
    and "pool_inv (order_pool t) = pool_inv (order_pool s)"
    and "pool_live (order_pool t) = pool_live (order_pool s)"
    and "memory_blocks_size (order_pool t) = memory_blocks_size (order_pool s)"
    and "next_order \<circ> order_at t = next_order \<circ> order_at s"
    and "prev_order \<circ> order_at t = prev_order \<circ> order_at s"
    and "o_side \<circ> order_at t = o_side \<circ> order_at s" and "o_price \<circ> order_at t = o_price \<circ> order_at s"
    and "o_client_id \<circ> order_at t = o_client_id \<circ> order_at s"
    and "o_client_order_id \<circ> order_at t = o_client_order_id \<circ> order_at s"
  shows "book_ok t G = book_ok s G"
proof -
  have f: "o_side (order_at t a) = o_side (order_at s a)" "o_price (order_at t a) = o_price (order_at s a)"
    "o_client_id (order_at t a) = o_client_id (order_at s a)"
    "o_client_order_id (order_at t a) = o_client_order_id (order_at s a)" for a
    using assms(11-14) by (simp_all add: fun_eq_iff)
  have "level_ok (level_at t) (order_at t) b x = level_ok (level_at s) (order_at s) b x" for b x
    by (cases x) (simp add: assms(1,9,10) f)
  then show ?thesis
    by (simp add: book_ok_def lists_ok_def rings_ok_def levels_ok_def index_ok_def level_pool_ok_def
        clients_ok_def order_pool_ok_def assms(1-8) f)
qed

lemma book_ok_quiet [simp]:
  "book_ok (respond r s) G = book_ok s G"
  "book_ok (publish_update u s) G = book_ok s G"
  "book_ok (s\<lparr>next_market_order_id := n\<rparr>) G = book_ok s G"
  "book_ok (s\<lparr>message_handler := mh\<rparr>) G = book_ok s G"
  "book_ok (set_order a (\<lambda>x. x\<lparr>o_qty := q x\<rparr>) s) G = book_ok s G"
  by (rule book_ok_fields; simp)+

lemma oinfo_quiet [simp]:
  "oinfo (respond r s) = oinfo s"
  "oinfo (publish_update u s) = oinfo s"
  "oinfo (s\<lparr>next_market_order_id := n\<rparr>) = oinfo s"
  "oinfo (s\<lparr>message_handler := mh\<rparr>) = oinfo s"
  "oinfo (set_order a (\<lambda>x. x\<lparr>o_qty := q x\<rparr>) s) = (oinfo s)(a := (oinfo s a)\<lparr>o_qty := q (order_at s a)\<rparr>)"
  by (simp_all add: oinfo_def fun_eq_iff)

lemma abs_levels_quiet [simp]:
  "abs_levels (respond r s) L = abs_levels s L"
  "abs_levels (publish_update u s) L = abs_levels s L"
  "abs_levels (s\<lparr>next_market_order_id := n\<rparr>) L = abs_levels s L"
  "abs_levels (s\<lparr>message_handler := mh\<rparr>) L = abs_levels s L"
  by (simp_all add: abs_levels_def)

lemma oinfo_fields [simp]:
  "o_instrument_id (oinfo s a) = o_instrument_id (order_at s a)"
  "o_client_id (oinfo s a) = o_client_id (order_at s a)"
  "o_client_order_id (oinfo s a) = o_client_order_id (order_at s a)"
  "o_market_order_id (oinfo s a) = o_market_order_id (order_at s a)"
  "o_side (oinfo s a) = o_side (order_at s a)"
  "o_price (oinfo s a) = o_price (order_at s a)"
  "o_qty (oinfo s a) = o_qty (order_at s a)"
  "o_priority (oinfo s a) = o_priority (order_at s a)"
  by (simp_all add: oinfo_def)

lemma abs_levels_set_qty:
  assumes "\<And>l os. (l, os) \<in> set L \<Longrightarrow> a \<notin> set os"
  shows "abs_levels (set_order a (\<lambda>x. x\<lparr>o_qty := q x\<rparr>) s) L = abs_levels s L"
  using assms by (auto simp: abs_levels_def intro!: map_cong)

section \<open>Matching\<close>

lemma ghost_head_fresh:
  assumes "distinct (all_orders G)" and G: "G b = (l, a # os) # L"
  shows "a \<notin> set os" and "(k, xs) \<in> set L \<Longrightarrow> a \<notin> set xs"
    and "(k, xs) \<in> set (G (\<not> b)) \<Longrightarrow> a \<notin> set xs"
  using assms(1) unfolding all_orders_concat(2) [of G b] G by auto

lemma match_order_ok:
  assumes ok: "book_ok s G" and G: "G b = (l, a # os) # L"
    and p: "p = l_price (level_at s l)" and x: "x = oinfo s a" and m: "m = min leaves_qty (o_qty x)"
  shows "\<exists>s' M. match_order cid sd coid moid leaves_qty a s = Inr (leaves_qty - m, s') \<and>
    book_ok s' (G(b := M)) \<and>
    abs_levels s' M = (if o_qty x - m = 0 then keep_level p (map (oinfo s) os) @ abs_levels s L
      else (p, x\<lparr>o_qty := o_qty x - m\<rparr> # map (oinfo s) os) # abs_levels s L) \<and>
    abs_levels s' (G (\<not> b)) = abs_levels s (G (\<not> b)) \<and> instrument_id s' = instrument_id s \<and>
    next_market_order_id s' = next_market_order_id s \<and>
    message_handler s' = sends (match_msgs (instrument_id s) cid sd coid moid leaves_qty x) (message_handler s)"
proof -
  have d: "distinct (all_orders G)" using ok by (simp add: book_ok_def lists_ok_def)
  note fr = ghost_head_fresh [OF d G]
  define s1 where "s1 = set_order a (\<lambda>x. x\<lparr>o_qty := o_qty x - m\<rparr>) s"
  define u where "u = (if o_qty x - m = 0
    then publish_update \<lparr>mu_type = MU_CANCEL, mu_order_id = o_market_order_id x,
      mu_instrument_id = instrument_id s, mu_side = o_side x, mu_price = o_price x,
      mu_qty = o_qty x, mu_priority = o_priority x\<rparr>
    else publish_update \<lparr>mu_type = MU_MODIFY, mu_order_id = o_market_order_id x,
      mu_instrument_id = instrument_id s, mu_side = o_side x, mu_price = o_price x,
      mu_qty = o_qty x - m, mu_priority = o_priority x\<rparr>)"
  define s2 where "s2 = u (publish_update \<lparr>mu_type = MU_TRADE, mu_order_id = INVALID_ORDER_ID,
      mu_instrument_id = instrument_id s, mu_side = sd, mu_price = o_price x, mu_qty = m,
      mu_priority = INVALID_PRIORITY\<rparr>
    (respond \<lparr>rs_type = FILLED, rs_client_id = o_client_id x, rs_instrument_id = o_instrument_id x,
      rs_client_order_id = o_client_order_id x, rs_market_order_id = o_market_order_id x,
      rs_side = o_side x, rs_price = o_price x, rs_exec_qty = m, rs_leaves_qty = o_qty x - m\<rparr>
    (respond \<lparr>rs_type = FILLED, rs_client_id = cid, rs_instrument_id = instrument_id s,
      rs_client_order_id = coid, rs_market_order_id = moid, rs_side = sd, rs_price = o_price x,
      rs_exec_qty = m, rs_leaves_qty = leaves_qty - m\<rparr> s1)))"
  have run: "match_order cid sd coid moid leaves_qty a s =
      (if o_qty x - m = 0 then rbind (remove_order a s2) (\<lambda>s. Inr (leaves_qty - m, s))
       else Inr (leaves_qty - m, s2))"
    by (simp add: match_order_def Let_def x m s2_def s1_def u_def)
  have ok2: "book_ok s2 G" using ok by (simp add: s2_def s1_def u_def)
  have a1: "abs_levels s1 L = abs_levels s L" "abs_levels s1 (G (\<not> b)) = abs_levels s (G (\<not> b))"
    unfolding s1_def by (rule abs_levels_set_qty; use fr in blast)+
  have o1: "map (oinfo s1) os = map (oinfo s) os" "oinfo s1 a = x\<lparr>o_qty := o_qty x - m\<rparr>"
    using fr(1) by (auto simp: s1_def x)
  have s2: "abs_levels s2 M = abs_levels s1 M" "oinfo s2 = oinfo s1" "l_price (level_at s2 l) = p"
    "l_price (level_at s1 l) = p"
    "instrument_id s2 = instrument_id s" "next_market_order_id s2 = next_market_order_id s"
    "message_handler s2 = sends (match_msgs (instrument_id s) cid sd coid moid leaves_qty x) (message_handler s)" for M
    by (simp_all add: s2_def s1_def u_def p match_msgs_def m Let_def)
  show ?thesis
  proof (cases "o_qty x - m = 0")
    case True
    have G': "G b = [] @ (l, [] @ a # os) # L" using G by simp
    from remove_order_ok [OF ok2 G'] obtain s' where s': "remove_order a s2 = Inr s'"
      "book_ok s' (G(b := keep_level l os @ L))" "same_data s2 s'" by auto
    have "abs_levels s' (keep_level l os @ L) = keep_level p (map (oinfo s) os) @ abs_levels s L"
      using same_dataD(1) [OF s'(3)] s2 a1 o1 by (simp add: keep_level_def)
    then show ?thesis using True run s' same_dataD [OF s'(3)] s2 a1 by (intro exI [of _ s']) auto
  next
    case False
    have "abs_levels s2 (G b) = (p, x\<lparr>o_qty := o_qty x - m\<rparr> # map (oinfo s) os) # abs_levels s L"
      using s2 a1 o1 by (simp add: G)
    then show ?thesis using False run ok2 s2 a1 by (intro exI [of _ s2] exI [of _ "G b"]) simp
  qed
qed

lemma level_orders_abs: "length (level_orders (abs_levels s L)) = length (concat (map snd L))"
  by (induction L) (auto simp: abs_levels_def)

lemma opposite_best: "opposite sd s = best (key_side (sd \<noteq> BUY)) s"
  by (simp add: opposite_def best_def)

lemma a_sweep_zero: "a_sweep i cid coid moid sd price 0 L = (0, L, [])"
proof (cases L)
  case (Cons y L')
  then show ?thesis by (cases y; cases "snd y") (auto simp: a_sweep.simps)
qed simp

lemma match_loop_ok:
  assumes "book_ok s G" and "abs_levels s (G b) = L" and "instrument_id s = i"
    and "length (level_orders L) \<le> fuel"
    and "a_sweep i cid coid moid sd price leaves_qty L = (left, L', ms)"
    and "b \<longleftrightarrow> sd \<noteq> BUY"
  shows "\<exists>s' M. match_loop fuel cid coid moid sd price leaves_qty s = Inr (left, s') \<and>
    book_ok s' (G(b := M)) \<and> abs_levels s' M = L' \<and>
    abs_levels s' (G (\<not> b)) = abs_levels s (G (\<not> b)) \<and> instrument_id s' = i \<and>
    next_market_order_id s' = next_market_order_id s \<and>
    message_handler s' = sends ms (message_handler s)"
  using assms
proof (induction i cid coid moid sd price leaves_qty L arbitrary: s G fuel left L' ms rule: a_sweep.induct)
  case (1 i cid coid moid sd price leaves_qty)
  then have "G b = []" by (cases "G b") (auto simp: abs_levels_def)
  moreover from this have "opposite sd s = None"
    using "1.prems"(1) unfolding opposite_best "1.prems"(6) [symmetric] book_ok_def lists_ok_def rings_ok_def
    by (simp add: head_ptr_def split del: if_split)
  ultimately show ?case using "1.prems"
    by (intro exI [of _ s] exI [of _ "[]"]) (simp add: match_loop.simps fun_upd_idem)
next
  case (2 i cid coid moid sd price leaves_qty p L)
  then obtain l K where "G b = (l, []) # K" by (cases "G b") auto
  moreover have "levels_ok s G" using "2.prems"(1) by (simp add: book_ok_def lists_ok_def)
  ultimately show ?case using levels_okD(1) [of s G l "[]" b] by simp
next
  case (3 i cid coid moid sd price leaves_qty p x xs L)
  obtain l a os K where G: "G b = (l, a # os) # K" and abs: "p = l_price (level_at s l)" "x = oinfo s a"
    "xs = map (oinfo s) os" "L = abs_levels s K"
    using "3.prems"(2) by (cases "G b") auto
  have ok: "rings_ok s G" "levels_ok s G" using "3.prems"(1) by (simp_all add: book_ok_def lists_ok_def)
  have opp: "opposite sd s = Some l"
    using rings_okD(1) [OF ok(1), of b] unfolding opposite_best "3.prems"(6) [symmetric] G by (simp add: head_ptr_def split del: if_split)
  have first: "first_order (level_at s l) = Some a"
    using levels_okD(3) [OF ok(2), of l "a # os" b] G by simp
  have fuel: "0 < fuel" using "3.prems"(4) by (simp add: abs)
  show ?case
  proof (cases "leaves_qty = 0 \<or> too_far sd (o_price x) price")
    case True
    then have "match_loop fuel cid coid moid sd price leaves_qty s = Inr (leaves_qty, s)"
      using opp first fuel abs(2) by (auto simp: match_loop.simps)
    then show ?thesis using True "3.prems"
      by (intro exI [of _ s] exI [of _ "G b"]) (auto simp: a_sweep.simps(3))
  next
    case False
    define m where "m = min leaves_qty (o_qty x)"
    define L1 where "L1 = (if o_qty x - m = 0 then keep_level p xs @ L else (p, x\<lparr>o_qty := o_qty x - m\<rparr> # xs) # L)"
    obtain left' L'' ms' where sw: "a_sweep i cid coid moid sd price (leaves_qty - m) L1 = (left', L'', ms')"
      by (metis prod_cases3)
    then have res: "left = left'" "L' = L''" "ms = match_msgs i cid sd coid moid leaves_qty x @ ms'"
      using "3.prems"(5) False by (simp_all add: a_sweep.simps(3) m_def L1_def Let_def split: if_splits)
    from match_order_ok [OF "3.prems"(1) G abs(1,2) m_def, of cid sd coid moid] obtain t M
      where t: "match_order cid sd coid moid leaves_qty a s = Inr (leaves_qty - m, t)"
      "book_ok t (G(b := M))" "abs_levels t M = L1" "abs_levels t (G (\<not> b)) = abs_levels s (G (\<not> b))"
      "instrument_id t = i" "next_market_order_id t = next_market_order_id s"
      "message_handler t = sends (match_msgs i cid sd coid moid leaves_qty x) (message_handler s)"
      using "3.prems"(3) unfolding L1_def abs(3,4) by blast
    have step: "match_loop fuel cid coid moid sd price leaves_qty s =
        match_loop (fuel - 1) cid coid moid sd price (leaves_qty - m) t"
      using False fuel opp first t(1) abs(2) by (simp add: match_loop.simps [of fuel])
    show ?thesis
    proof (cases "leaves_qty - m = 0")
      case True
      then have "left' = 0" "L'' = L1" "ms' = []" using sw by (simp_all add: a_sweep_zero)
      moreover have "match_loop fuel cid coid moid sd price leaves_qty s = Inr (0, t)"
        unfolding step True by (simp add: match_loop.simps)
      ultimately show ?thesis using t res "3.prems"(3)
        by (intro exI [of _ t] exI [of _ M] conjI) (simp_all add: fun_upd_def)
    next
      case False2: False
      then have "m = o_qty x" by (auto simp: m_def min_def split: if_splits)
      then have "length (level_orders L1) \<le> fuel - 1"
        using "3.prems"(4) by (auto simp: L1_def keep_level_def)
      from "3.IH" [OF False m_def L1_def t(2) _ t(5) this sw "3.prems"(6)] t(3) obtain s' M' where
        "match_loop (fuel - 1) cid coid moid sd price (leaves_qty - m) t = Inr (left', s')"
        "book_ok s' ((G(b := M))(b := M'))" "abs_levels s' M' = L''"
        "abs_levels s' ((G(b := M)) (\<not> b)) = abs_levels t ((G(b := M)) (\<not> b))"
        "instrument_id s' = i" "next_market_order_id s' = next_market_order_id t"
        "message_handler s' = sends ms' (message_handler t)"
        by (auto simp: fun_upd_def)
      then show ?thesis using step t res
        by (intro exI [of _ s'] exI [of _ M'] conjI) (simp_all add: fun_upd_def if_distrib cong: if_cong)
    qed
  qed
qed

section \<open>Adding\<close>

lemma find_append_Cons:
  "P y \<Longrightarrow> (\<And>z. z \<in> set L1 \<Longrightarrow> \<not> P z) \<Longrightarrow> List.find P (L1 @ y # L2) = Some y"
  by (induction L1) auto

lemma priority_ok:
  assumes lists: "lists_ok s G" and cross: "\<not> (\<exists>(q, xs) \<in> set (abs_levels s (G (\<not> b))). same_slot q p)"
  shows "get_order_priority_at_price_level (key_side b) p s = Inr (a_priority p (abs_levels s (G b)))"
proof -
  have io: "index_ok s G" and lo: "levels_ok s G" and d: "distinct (all_levels G)"
    using lists by (simp_all add: lists_ok_def)
  show ?thesis
  proof (cases "\<exists>(l, os) \<in> set (G b). same_slot (l_price (level_at s l)) p")
    case True
    then obtain l os where m: "(l, os) \<in> set (G b)" and slot: "same_slot (l_price (level_at s l)) p" by blast
    then obtain L1 L2 where G: "G b = L1 @ (l, os) # L2" by (meson split_list)
    have os: "os \<noteq> []" and first: "first_order (level_at s l) = Some (hd os)" using levels_okD [OF lo m] by auto
    have "\<not> same_slot q p" if "(q, xs) \<in> set (abs_levels s L1)" for q xs
      using not_slot_before_after [OF io d G slot] that by (auto simp: abs_levels_def)
    then have "List.find (\<lambda>(q, xs). same_slot q p) (abs_levels s (G b)) =
        Some (l_price (level_at s l), map (oinfo s) os)"
      unfolding G using slot by (simp, intro find_append_Cons) auto
    moreover have "get_price_level (key_side b) p s = Some l"
      by (rule get_price_level_eq [OF io lo m]) (use slot in \<open>simp add: same_slot_def\<close>)
    ultimately show ?thesis using os first
      by (simp add: get_order_priority_at_price_level_def a_priority_def hd_map split del: if_split)
  next
    case False
    then have "List.find (\<lambda>(q, xs). same_slot q p) (abs_levels s (G b)) = None"
      unfolding find_None_iff abs_levels_slot [symmetric] by auto
    moreover have "\<not> same_slot (l_price (level_at s k)) p" if "(k, os) \<in> set (G c)" for k os c
      using cross False that unfolding abs_levels_slot by (cases "c = b") auto
    from no_slot_on_either_side [OF io this] have "get_price_level (key_side b) p s = None"
      by (simp add: get_price_level_def)
    ultimately show ?thesis
      by (simp add: get_order_priority_at_price_level_def a_priority_def)
  qed
qed

lemma lists_ok_alloc:
  assumes "lists_ok s G" and a: "a \<notin> set (all_orders G)" and "order_at t = (order_at s)(a := v)"
    and "level_at t = level_at s" and "\<And>sd. best sd t = best sd s"
    and "price_levels t = price_levels s" and "price_level_pool t = price_level_pool s"
  shows "lists_ok t G"
proof -
  have "level_ok (level_at t) (order_at t) b x" if "x \<in> set (G b)" for b x
  proof -
    obtain l os where x: "x = (l, os)" by (cases x)
    have "a \<notin> set os" using mem_all_orders [of l os G b a] that x a by auto
    then have "level_ok (level_at t) (order_at t) b (l, os) = level_ok (level_at s) (order_at s) b (l, os)"
      by (intro level_ok_cong) (auto simp: assms(3,4))
    moreover have "levels_ok s G" using assms(1) by (simp add: lists_ok_def)
    then have "level_ok (level_at s) (order_at s) b (l, os)" using that x unfolding levels_ok_def by blast
    ultimately show ?thesis using x by simp
  qed
  then show ?thesis using assms(1,4-7)
    by (simp add: lists_ok_def rings_ok_def levels_ok_def index_ok_def level_pool_ok_def)
qed

lemma a_orders_abs:
  "\<lbrakk>\<And>b. a_side b A = abs_levels s (G b)\<rbrakk> \<Longrightarrow> a_orders A = map (oinfo s) (all_orders G)"
proof -
  assume "\<And>b. a_side b A = abs_levels s (G b)"
  then have "a_bids A = abs_levels s (G True)" "a_asks A = abs_levels s (G False)"
    by (metis a_side_def)+
  moreover have "level_orders (abs_levels s L) = map (oinfo s) (concat (map snd L))" for L
    by (induction L) auto
  ultimately show ?thesis by (simp add: a_orders_def all_orders_def)
qed

lemma rest_ok:
  assumes ok: "book_ok s G" and rel: "\<And>b. a_side b A = abs_levels s (G b)"
    and adm: "may_rest cid coid sd price A" and b: "b \<longleftrightarrow> sd = BUY"
    and x: "x = \<lparr>o_instrument_id = i, o_client_id = cid, o_client_order_id = coid, o_market_order_id = moid,
      o_side = sd, o_price = price, o_qty = left, o_priority = prio\<rparr>"
  shows "\<exists>a q s' M. pool_alloc (order_info.extend x \<lparr>prev_order = None, next_order = None\<rparr>) (order_pool s) = Inr (a, q) \<and>
    add_order a (s\<lparr>order_pool := q\<rparr>) = Inr s' \<and> book_ok s' (G(b := M)) \<and>
    abs_levels s' M = a_place sd x (abs_levels s (G b)) \<and>
    abs_levels s' (G (\<not> b)) = abs_levels s (G (\<not> b)) \<and> instrument_id s' = instrument_id s \<and>
    message_handler s' = message_handler s \<and> next_market_order_id s' = next_market_order_id s"
proof -
  let ?X = "set (all_orders G)" and ?v = "order_info.extend x \<lparr>prev_order = None, next_order = None\<rparr>"
  have lists: "lists_ok s G" and cl: "clients_ok s ?X" and op: "order_pool_ok s ?X"
    using ok by (simp_all add: book_ok_def)
  have d: "distinct (all_orders G)" using lists by (simp add: lists_ok_def)
  note ao = a_orders_abs [of A s G, OF rel]
  have sd: "sd = key_side b" using adm b by (auto simp: may_rest_def)
  have "card ?X < MAX_NUM_ORDERS" using adm ao distinct_card [OF d] by (simp add: may_rest_def)
  then obtain a q where q: "pool_alloc ?v (order_pool s) = Inr (a, q)" "a \<notin> ?X" "pool_live q = insert a ?X"
    "pool_inv q" "pool_get q = (order_at s)(a := ?v)" "memory_blocks_size q = MAX_NUM_ORDERS"
    using pool_alloc_ok [of "order_pool s" ?v] op unfolding order_pool_ok_def by auto
  define r where "r = s\<lparr>order_pool := q\<rparr>"
  have r: "order_at r = (order_at s)(a := ?v)" by (simp add: r_def q)
  have info: "oinfo r a = x" by (simp add: oinfo_def r x order_info.defs)
  have old: "oinfo r k = oinfo s k" "order_at r k = order_at s k" if "k \<in> ?X" for k
    using that q(2) by (auto simp: oinfo_def r)
  have lists': "lists_ok r G" by (rule lists_ok_alloc [OF lists q(2) r]) (simp_all add: r_def)
  have cl': "clients_ok r ?X"
    using cl old(2) unfolding clients_ok_def r_def by (auto simp: r_def)
  have op': "order_pool_ok r (insert a ?X)" using q by (simp add: order_pool_ok_def r_def)
  have abs: "abs_levels r (G c) = abs_levels s (G c)" for c
  proof -
    have "map (oinfo r) os = map (oinfo s) os" if "(l, os) \<in> set (G c)" for l os
      using old(1) mem_all_orders [of l os G c] that by auto
    then show ?thesis by (auto simp: abs_levels_def r_def intro!: map_cong)
  qed
  have at: "o_side (order_at r a) = key_side b" "o_client_id (order_at r a) = cid"
    "o_client_order_id (order_at r a) = coid" "o_price (order_at r a) = price"
    using sd by (simp_all add: r x order_info.defs)
  have cross: "\<not> (\<exists>(q, xs) \<in> set (abs_levels r (G (\<not> b))). same_slot q (o_price (order_at r a)))"
    using adm b rel unfolding at abs may_rest_def by (auto simp: list_all_iff)
  have fresh: "\<not> owned_by (o_client_id (order_at r a)) (o_client_order_id (order_at r a)) (oinfo r k)"
    if "k \<in> ?X" for k
    using adm that ao old(1) unfolding at may_rest_def by (simp add: list_all_iff)
  from add_order_ok [OF lists' cl' op' q(2) at(1) _ _ fresh cross] adm at(2,3) obtain s' M where
    "add_order a r = Inr s'" "book_ok s' (G(b := M))"
    "abs_levels s' M = a_place (key_side b) (oinfo r a) (abs_levels r (G b))"
    "abs_levels s' (G (\<not> b)) = abs_levels r (G (\<not> b))" "instrument_id s' = instrument_id r"
    "message_handler s' = message_handler r" "next_market_order_id s' = next_market_order_id r"
    by (auto simp: may_rest_def)
  then show ?thesis using q(1) unfolding info abs sd [symmetric]
    by (intro exI [of _ a] exI [of _ q] exI [of _ s'] exI [of _ M]) (simp add: r_def)
qed


lemma a_next_id_simps [simp]:
  "a_side b (A\<lparr>a_next_id := n\<rparr>) = a_side b A"
  "a_orders (A\<lparr>a_next_id := n\<rparr>) = a_orders A"
  "may_rest cid coid sd price (A\<lparr>a_next_id := n\<rparr>) = may_rest cid coid sd price A"
  by (simp_all add: a_side_def a_orders_def may_rest_def)

lemma sweep_fuel:
  assumes "book_ok s G"
  shows "length (level_orders (abs_levels s (G b))) \<le> MAX_NUM_ORDERS"
proof -
  have "distinct (all_orders G)" and "pool_inv (order_pool s)" and "pool_live (order_pool s) = set (all_orders G)"
    and "memory_blocks_size (order_pool s) = MAX_NUM_ORDERS"
    using assms by (simp_all add: book_ok_def lists_ok_def order_pool_ok_def)
  then have "length (all_orders G) \<le> MAX_NUM_ORDERS"
    using card_pool_live [of "order_pool s"] distinct_card [of "all_orders G"] by simp
  then show ?thesis unfolding level_orders_abs by (cases b) (simp_all add: all_orders_def)
qed

lemma ob_add_ok:
  assumes rel: "book_rel s G A" and adm: "add_admissible cid coid sd price qty A"
    and A': "a_add cid coid sd price qty A = (A', ms)"
  shows "\<exists>s' G'. ob_add cid coid sd price qty s = Inr s' \<and> book_rel s' G' A' \<and>
    message_handler s' = sends ms (message_handler s)"
proof -
  have ok: "book_ok s G" and i: "a_instrument A = instrument_id s" and n: "a_next_id A = next_market_order_id s"
    and side: "a_side b A = abs_levels s (G b)" for b
    using rel by (simp_all add: book_rel_def)
  define moid where "moid = next_market_order_id s"
  define b where "b = (sd \<noteq> BUY)"
  let ?acc = "\<lparr>rs_type = ACCEPTED, rs_client_id = cid, rs_instrument_id = instrument_id s,
    rs_client_order_id = coid, rs_market_order_id = moid, rs_side = sd, rs_price = price,
    rs_exec_qty = 0, rs_leaves_qty = qty\<rparr>"
  define s1 where "s1 = respond ?acc (s\<lparr>next_market_order_id := moid + 1\<rparr>)"
  have s1: "book_ok s1 G" "abs_levels s1 M = abs_levels s M" "instrument_id s1 = instrument_id s"
    "next_market_order_id s1 = moid + 1" "message_handler s1 = send (Resp ?acc) (message_handler s)" for M
    using ok by (simp_all add: s1_def)
  obtain left L ns where sw: "a_sweep (instrument_id s) cid coid moid sd price qty (abs_levels s (G b)) = (left, L, ns)"
    by (metis prod_cases3)
  have "length (level_orders (abs_levels s (G b))) \<le> MAX_NUM_ORDERS + 1" using sweep_fuel [OF ok, of b] by simp
  from match_loop_ok [OF s1(1,2,3) this sw b_def] obtain t M where
    t: "check_for_match cid coid moid sd price qty s1 = Inr (left, t)" "book_ok t (G(b := M))"
    "abs_levels t M = L" "abs_levels t (G (\<not> b)) = abs_levels s (G (\<not> b))" "instrument_id t = instrument_id s"
    "next_market_order_id t = moid + 1" "message_handler t = sends (Resp ?acc # ns) (message_handler s)"
    unfolding s1(2,4,5) check_for_match_def by auto
  define A1 where "A1 = (set_a_side b L A)\<lparr>a_next_id := moid + 1\<rparr>"
  have side1: "a_side c A1 = abs_levels t ((G(b := M)) c)" for c
    using t(3,4) side [of c] by (cases "c = b") (auto simp: A1_def)
  have run: "ob_add cid coid sd price qty s =
      (if 0 < left then rbind (get_order_priority_at_price_level sd price t) (\<lambda>priority.
         rbind (pool_alloc \<lparr>o_instrument_id = instrument_id t, o_client_id = cid,
           o_client_order_id = coid, o_market_order_id = moid, o_side = sd, o_price = price,
           o_qty = left, o_priority = priority, prev_order = None, next_order = None\<rparr> (order_pool t)) (\<lambda>(a, op).
         rbind (add_order a (t\<lparr>order_pool := op\<rparr>)) (\<lambda>s. Inr (publish_update \<lparr>mu_type = MU_ADD, mu_order_id = moid,
           mu_instrument_id = instrument_id s, mu_side = sd, mu_price = price,
           mu_qty = left, mu_priority = priority\<rparr> s))))
       else Inr t)"
    using t(1) by (simp add: ob_add_def get_new_market_order_id_def Let_def s1_def moid_def)
  show ?thesis
  proof (cases "left = 0")
    case True
    have "A' = A1" "ms = Resp ?acc # ns"
      using A' sw side [of b] True by (simp_all add: a_add_def Let_def i n A1_def b_def moid_def)
    then show ?thesis using True run t side1
      by (intro exI [of _ t] exI [of _ "G(b := M)"]) (simp add: book_rel_def A1_def i)
  next
    case False
    then have adm1: "may_rest cid coid sd price A1"
      using adm sw side [of b] unfolding add_admissible_def by (simp add: i n b_def moid_def A1_def)
    define prio where "prio = a_priority price (abs_levels t (G (\<not> b)))"
    define x where "x = \<lparr>o_instrument_id = instrument_id s, o_client_id = cid, o_client_order_id = coid,
      o_market_order_id = moid, o_side = sd, o_price = price, o_qty = left, o_priority = prio\<rparr>"
    have sd: "sd = key_side (\<not> b)" using adm1 by (auto simp: may_rest_def b_def)
    have nb: "(G(b := M)) (\<not> b) = G (\<not> b)" "(G(b := M)) b = M" by simp_all
    have cross: "\<not> (\<exists>(q, xs) \<in> set (abs_levels t ((G(b := M)) (\<not> \<not> b))). same_slot q price)"
      using adm1 side1 [of b] unfolding may_rest_def b_def by (auto simp: list_all_iff)
    have "lists_ok t (G(b := M))" using t(2) by (simp add: book_ok_def)
    from priority_ok [OF this cross] have pr: "get_order_priority_at_price_level sd price t = Inr prio"
      unfolding nb sd [symmetric] prio_def .
    obtain a q s' M' where s': "pool_alloc (order_info.extend x \<lparr>prev_order = None, next_order = None\<rparr>) (order_pool t) = Inr (a, q)"
      "add_order a (t\<lparr>order_pool := q\<rparr>) = Inr s'" "book_ok s' (G(b := M, \<not> b := M'))"
      "abs_levels s' M' = a_place sd x (abs_levels t (G (\<not> b)))" "abs_levels s' M = abs_levels t M"
      "instrument_id s' = instrument_id t" "message_handler s' = message_handler t"
      "next_market_order_id s' = next_market_order_id t"
      using rest_ok [OF t(2) side1 adm1, of "\<not> b", OF _ x_def] by (auto simp: b_def fun_upd_def)
    let ?u = "\<lparr>mu_type = MU_ADD, mu_order_id = moid, mu_instrument_id = instrument_id s, mu_side = sd,
      mu_price = price, mu_qty = left, mu_priority = prio\<rparr>"
    have "ob_add cid coid sd price qty s = Inr (publish_update ?u s')"
      using run False pr s'(1,2,6) t(5) by (simp add: x_def order_info.defs word_neq_0_conv)
    moreover have "A' = set_a_side (\<not> b) (a_place sd x (abs_levels t (G (\<not> b)))) A1"
      "ms = Resp ?acc # ns @ [Upd ?u]"
      using A' sw side [of b] False t(4) side [of "\<not> b"]
      by (auto simp: a_add_def Let_def i n A1_def b_def moid_def x_def prio_def word_neq_0_conv)
    moreover have "book_rel (publish_update ?u s') (G(b := M, \<not> b := M'))
        (set_a_side (\<not> b) (a_place sd x (abs_levels t (G (\<not> b)))) A1)"
      using s' t side1 unfolding book_rel_def by (auto simp: A1_def i)
    ultimately show ?thesis using s'(7) t(7) by auto
  qed
qed


section \<open>Cancelling\<close>

lemma find_client_order_ok:
  assumes ok: "book_ok s G" and rel: "\<And>b. a_side b A = abs_levels s (G b)" and adm: "lookup_admissible cid coid"
  shows "(find_client_order cid coid s = Inr None \<and> a_find cid coid A = None) \<or>
    (\<exists>a. find_client_order cid coid s = Inr (Some a) \<and> a_find cid coid A = Some (oinfo s a) \<and>
       a \<in> set (all_orders G) \<and> (\<forall>k \<in> set (all_orders G). owned_by cid coid (oinfo s k) \<longleftrightarrow> k = a))"
proof -
  let ?X = "set (all_orders G)"
  have cl: "clients_ok s ?X" using ok by (simp add: book_ok_def)
  have own: "client_orders s (unat cid) (unat coid) = Some k \<longleftrightarrow> k \<in> ?X \<and> owned_by cid coid (oinfo s k)" for k
    using cl by (auto simp: clients_ok_def owned_by_def word_unat_eq_iff)
  have ao: "a_orders A = map (oinfo s) (all_orders G)" by (rule a_orders_abs [OF rel])
  show ?thesis
  proof (cases "\<exists>k \<in> ?X. owned_by cid coid (oinfo s k)")
    case True
    then obtain a where a: "a \<in> ?X" "owned_by cid coid (oinfo s a)" by blast
    then have "unat cid < MAX_NUM_CLIENTS" using cl by (auto simp: clients_ok_def owned_by_def)
    then have "find_client_order cid coid s = Inr (Some a)"
      using own [of a] a adm by (simp add: find_client_order_def lookup_admissible_def)
    moreover have uniq: "k = a" if "k \<in> ?X" "owned_by cid coid (oinfo s k)" for k
      using own [of a] own [of k] a that by simp
    moreover have "a_find cid coid A = Some (oinfo s a)"
    proof -
      obtain xs ys where sp: "all_orders G = xs @ a # ys" using a(1) by (meson split_list)
      have "distinct (all_orders G)" using ok by (simp add: book_ok_def lists_ok_def)
      then have "\<not> owned_by cid coid (oinfo s k)" if "k \<in> set xs" for k
        using uniq [of k] that sp by auto
      then show ?thesis unfolding a_find_def ao sp using a(2) by (simp, intro find_append_Cons) auto
    qed
    ultimately show ?thesis using a by blast
  next
    case False
    then have "client_orders s (unat cid) (unat coid) = None"
      using own by (metis option.exhaust)
    then have "find_client_order cid coid s = Inr None"
      using adm by (simp add: find_client_order_def lookup_admissible_def)
    moreover have "a_find cid coid A = None"
      using False unfolding a_find_def ao find_None_iff by auto
    ultimately show ?thesis by blast
  qed
qed

lemma a_delete_simps [simp]:
  "a_delete cid coid (L1 @ L2) = a_delete cid coid L1 @ a_delete cid coid L2"
  "a_delete cid coid ((p, xs) # L) = keep_level p (filter (\<lambda>x. \<not> owned_by cid coid x) xs) @ a_delete cid coid L"
  "a_delete cid coid [] = []"
  by (simp_all add: a_delete_def)

lemma a_delete_none:
  "(\<And>p xs x. (p, xs) \<in> set L \<Longrightarrow> xs \<noteq> [] \<and> (x \<in> set xs \<longrightarrow> \<not> owned_by cid coid x)) \<Longrightarrow>
    a_delete cid coid L = L"
proof (induction L)
  case (Cons y L)
  obtain p xs where y: "y = (p, xs)" by (cases y)
  have "filter (\<lambda>x. \<not> owned_by cid coid x) xs = xs" "xs \<noteq> []"
    using Cons.prems [of p xs] y by (auto intro!: filter_True)
  then show ?case using Cons y by (auto simp: keep_level_def)
qed simp

lemma abs_delete_none:
  assumes lo: "levels_ok s G" and L: "set L \<subseteq> set (G b)"
    and "\<And>l os k. (l, os) \<in> set L \<Longrightarrow> k \<in> set os \<Longrightarrow> \<not> owned_by cid coid (oinfo s k)"
  shows "a_delete cid coid (abs_levels s L) = abs_levels s L"
proof (rule a_delete_none)
  fix p xs x assume "(p, xs) \<in> set (abs_levels s L)"
  then obtain l os where "(l, os) \<in> set L" "xs = map (oinfo s) os" by (auto simp: abs_levels_def)
  then show "xs \<noteq> [] \<and> (x \<in> set xs \<longrightarrow> \<not> owned_by cid coid x)"
    using levels_okD(1) [OF lo, of l os b] L assms(3) by auto
qed

lemma a_side_both:
  "a_side c (A\<lparr>a_bids := f (a_bids A), a_asks := f (a_asks A)\<rparr>) = f (a_side c A)"
  by (simp add: a_side_def)

lemma ob_cancel_ok:
  assumes rel: "book_rel s G A" and adm: "lookup_admissible cid coid" and A': "a_cancel cid coid A = (A', ms)"
  shows "\<exists>s' G'. ob_cancel cid coid s = Inr s' \<and> book_rel s' G' A' \<and> oinfo s' = oinfo s \<and>
    message_handler s' = sends ms (message_handler s)"
proof -
  have ok: "book_ok s G" and i: "a_instrument A = instrument_id s" and n: "a_next_id A = next_market_order_id s"
    and side: "a_side b A = abs_levels s (G b)" for b
    using rel by (simp_all add: book_rel_def)
  have lo: "levels_ok s G" and d: "distinct (all_levels G)" "distinct (all_orders G)"
    using ok by (simp_all add: book_ok_def lists_ok_def)
  from find_client_order_ok [OF ok side adm] show ?thesis
  proof (elim disjE exE conjE)
    assume "find_client_order cid coid s = Inr None" "a_find cid coid A = None"
    then show ?thesis using A' rel
      by (auto simp: a_cancel_def ob_cancel_def rejected_def book_rel_def i)
  next
    fix a assume fc: "find_client_order cid coid s = Inr (Some a)" and af: "a_find cid coid A = Some (oinfo s a)"
      and a: "a \<in> set (all_orders G)" and own: "\<forall>k\<in>set (all_orders G). owned_by cid coid (oinfo s k) \<longleftrightarrow> k = a"
    obtain b l os where m: "(l, os) \<in> set (G b)" "a \<in> set os"
      using a unfolding all_orders_def by auto
    obtain L1 L2 where L: "G b = L1 @ (l, os) # L2" using m(1) by (meson split_list)
    obtain os1 os2 where os: "os = os1 @ a # os2" using m(2) by (meson split_list)
    have G: "G b = L1 @ (l, os1 @ a # os2) # L2" using L os by simp
    from remove_order_ok [OF ok G] obtain t where t: "remove_order a s = Inr t"
      "book_ok t (G(b := L1 @ keep_level l (os1 @ os2) @ L2))" "same_data s t" by blast
    let ?M = "L1 @ keep_level l (os1 @ os2) @ L2"
    have own1: "\<not> owned_by cid coid (oinfo s k)" if "(j, xs) \<in> set (L1 @ L2)" "k \<in> set xs" for j xs k
    proof -
      have "a \<notin> set xs" using d(2) that(1) unfolding all_orders_concat [of G b] G by auto
      then show ?thesis using own that mem_all_orders [of j xs G b k] G by auto
    qed
    have own2: "\<not> owned_by cid coid (oinfo s k)" if "(j, xs) \<in> set (G (\<not> b))" "k \<in> set xs" for j xs k
    proof -
      have "k \<noteq> a" using d(2) that unfolding all_orders_concat [of G b] G by auto
      then show ?thesis using own that mem_all_orders [of j xs G "\<not> b" k] by auto
    qed
    have own3: "\<not> owned_by cid coid (oinfo s k)" if "k \<in> set (os1 @ os2)" for k
    proof -
      have "k \<noteq> a" using d(2) that unfolding all_orders_concat [of G b] G by auto
      then show ?thesis using own that mem_all_orders [of l os G b k] m(1) os by auto
    qed
    have ownx: "owned_by cid coid (oinfo s a)" using own a by blast
    have sub: "set L1 \<subseteq> set (G b)" "set L2 \<subseteq> set (G b)" using G by auto
    have "a_delete cid coid (abs_levels s L1) = abs_levels s L1" "a_delete cid coid (abs_levels s L2) = abs_levels s L2"
      by (rule abs_delete_none [OF lo sub(1)] abs_delete_none [OF lo sub(2)]; use own1 in auto)+
    moreover have "filter (\<lambda>x. \<not> owned_by cid coid x) (map (oinfo s) (os1 @ a # os2)) = map (oinfo s) (os1 @ os2)"
      using own3 ownx by (auto simp: filter_map comp_def intro!: filter_True)
    ultimately have db: "a_delete cid coid (abs_levels s (G b)) = abs_levels s ?M"
      unfolding G by (simp add: keep_level_def)
    have dn: "a_delete cid coid (abs_levels s (G (\<not> b))) = abs_levels s (G (\<not> b))"
      by (rule abs_delete_none [OF lo subset_refl]) (use own2 in auto)
    define A1 where "A1 = A\<lparr>a_bids := a_delete cid coid (a_bids A), a_asks := a_delete cid coid (a_asks A)\<rparr>"
    have "a_side c A1 = abs_levels t ((G(b := ?M)) c)" for c
      using db dn same_dataD(1) [OF t(3)] unfolding A1_def a_side_both side by (cases "c = b") auto
    then have "book_rel t (G(b := ?M)) A1"
      using t same_dataD [OF t(3)] by (simp add: book_rel_def A1_def i n)
    moreover have "oinfo t = oinfo s" using t(3) by (simp add: same_data_def)
    ultimately show ?thesis using A' fc af t(1) same_dataD [OF t(3)]
      by (auto simp: a_cancel_def ob_cancel_def Let_def i A1_def book_rel_def)
  qed
qed


section \<open>Modifying\<close>

lemma abs_set_qty:
  assumes "\<And>l os k. (l, os) \<in> set L \<Longrightarrow> k \<in> set os \<Longrightarrow> owned_by cid coid (oinfo s k) \<longleftrightarrow> k = a"
  shows "abs_levels (set_order a (\<lambda>x. x\<lparr>o_qty := q\<rparr>) s) L = a_set_qty cid coid q (abs_levels s L)"
  using assms by (auto simp: abs_levels_def a_set_qty_def)

lemma ob_modify_ok:
  assumes rel: "book_rel s G A" and adm: "modify_admissible cid coid price qty A"
    and A': "a_modify cid coid price qty A = (A', ms)"
  shows "\<exists>s' G'. ob_modify cid coid price qty s = Inr s' \<and> book_rel s' G' A' \<and>
    message_handler s' = sends ms (message_handler s)"
proof -
  have ok: "book_ok s G" and i: "a_instrument A = instrument_id s" and n: "a_next_id A = next_market_order_id s"
    and side: "a_side b A = abs_levels s (G b)" for b
    using rel by (simp_all add: book_rel_def)
  have la: "lookup_admissible cid coid" using adm by (simp add: modify_admissible_def)
  from find_client_order_ok [OF ok side la] show ?thesis
  proof (elim disjE exE conjE)
    assume "find_client_order cid coid s = Inr None" "a_find cid coid A = None"
    then show ?thesis using A' rel
      by (auto simp: a_modify_def ob_modify_def rejected_def book_rel_def i)
  next
    fix a assume fc: "find_client_order cid coid s = Inr (Some a)" and af: "a_find cid coid A = Some (oinfo s a)"
      and a: "a \<in> set (all_orders G)" and own: "\<forall>k\<in>set (all_orders G). owned_by cid coid (oinfo s k) \<longleftrightarrow> k = a"
    show ?thesis
    proof (cases "o_price (order_at s a) \<noteq> price \<or> o_qty (order_at s a) < qty")
      case True
      obtain A1 ms1 where c: "a_cancel cid coid A = (A1, ms1)" by (cases "a_cancel cid coid A")
      obtain A2 ms2 where d: "a_add cid coid (o_side (order_at s a)) price qty A1 = (A2, ms2)"
        by (cases "a_add cid coid (o_side (order_at s a)) price qty A1")
      from ob_cancel_ok [OF rel la c] obtain t G1 where t: "ob_cancel cid coid s = Inr t" "book_rel t G1 A1"
        "oinfo t = oinfo s" "message_handler t = sends ms1 (message_handler s)" by blast
      have "o_side (order_at t a) = o_side (order_at s a)"
        using fun_cong [OF t(3), of a] unfolding oinfo_def by (metis truncate_simps(5))
      moreover have "add_admissible cid coid (o_side (order_at s a)) price qty A1"
        using adm af True c by (simp add: modify_admissible_def)
      from ob_add_ok [OF t(2) this d] obtain s' G' where
        "ob_add cid coid (o_side (order_at s a)) price qty t = Inr s'" "book_rel s' G' A2"
        "message_handler s' = sends ms2 (message_handler t)" by blast
      moreover have "A' = A2" "ms = ms1 @ ms2" using A' af True c d by (auto simp: a_modify_def)
      ultimately show ?thesis using fc True t by (auto simp: ob_modify_def)
    next
      case False
      define t where "t = set_order a (\<lambda>x. x\<lparr>o_qty := qty\<rparr>) s"
      define A1 where "A1 = A\<lparr>a_bids := a_set_qty cid coid qty (a_bids A), a_asks := a_set_qty cid coid qty (a_asks A)\<rparr>"
      have "a_side c A1 = abs_levels t (G c)" for c
        unfolding A1_def a_side_both side t_def
        by (rule abs_set_qty [symmetric]) (use own mem_all_orders [where G = G and b = c] in blast)
      then have "book_rel t G A1" using ok by (simp add: book_rel_def A1_def i n t_def)
      then show ?thesis using A' fc af False
        by (intro exI [of _ "publish_update _ (respond _ t)"] exI [of _ G])
          (auto simp: a_modify_def ob_modify_def Let_def i A1_def book_rel_def t_def)
    qed
  qed
qed

section \<open>The empty book\<close>

lemma order_book_init_ok:
  "\<exists>s. order_book_init i mh = Inr s \<and> book_rel s (\<lambda>_. []) (a_init i) \<and> message_handler s = mh"
proof -
  have z: "0 < MAX_PRICE_LEVELS" "0 < MAX_NUM_ORDERS" by (simp_all add: model_constants)
  define s where "s = \<lparr>instrument_id = i, message_handler = mh, client_orders = (\<lambda>_ _. None),
    price_level_pool = fresh_pool MAX_PRICE_LEVELS default_price_level, bid = None, ask = None,
    price_levels = (\<lambda>_. None), order_pool = fresh_pool MAX_NUM_ORDERS default_order,
    client_response = default_client_response, market_update = default_market_update,
    next_market_order_id = 1\<rparr>"
  have "order_book_init i mh = Inr s"
    by (simp add: order_book_init_def memory_pool_init_eq z s_def)
  moreover have "book_rel s (\<lambda>_. []) (a_init i)"
    by (simp add: fresh_pool_inv z book_rel_def book_ok_def lists_ok_def all_levels_def all_orders_def rings_ok_def
        levels_ok_def index_ok_def level_pool_ok_def clients_ok_def order_pool_ok_def abs_levels_def
        a_init_def a_side_def s_def head_ptr_def best_def)
  ultimately show ?thesis by (simp add: s_def)
qed


end
