(* ===== verification/Printing.thy ===== *)
theory Printing
  imports Types
begin

text \<open>
  The \<open>to_string\<close> functions of \<open>src/models\<close>, which the log lines and the assertion messages
  are made of. \<open>std::to_string\<close> and the stream insertion of an integer give its decimal
  numeral.
\<close>

section \<open>Decimal numerals\<close>

definition digit :: "nat \<Rightarrow> char" where
  "digit n = char_of (48 + n)"

fun decimal :: "nat \<Rightarrow> string" where
  "decimal n = (if n < 10 then [digit n] else decimal (n div 10) @ [digit (n mod 10)])"

declare decimal.simps [simp del]

definition signed_decimal :: "int \<Rightarrow> string" where
  "signed_decimal z = (if z < 0 then ''-'' @ decimal (nat (- z)) else decimal (nat z))"

text \<open>Reading a numeral back.\<close>

definition digit_value :: "char \<Rightarrow> nat" where
  "digit_value c = of_char c - 48"

definition decimal_value :: "string \<Rightarrow> nat" where
  "decimal_value s = foldl (\<lambda>v c. 10 * v + digit_value c) 0 s"

lemma digit_value_digit: "n < 10 \<Longrightarrow> digit_value (digit n) = n"
  by (simp add: digit_value_def digit_def)

lemma decimal_value_decimal [simp]: "decimal_value (decimal n) = n"
proof (induction n rule: decimal.induct)
  case (1 n)
  then show ?case
    by (subst decimal.simps) (auto simp: decimal_value_def digit_value_digit)
qed

lemma decimal_inj: "decimal m = decimal n \<longleftrightarrow> m = n"
  by (metis decimal_value_decimal)

lemma digits_decimal: "c \<in> set (decimal n) \<Longrightarrow> 48 \<le> (of_char c :: nat) \<and> (of_char c :: nat) < 58"
proof (induction n rule: decimal.induct)
  case (1 n)
  show ?case
  proof (cases "n < 10")
    case True
    then show ?thesis using "1.prems" by (auto simp: decimal.simps [of n] digit_def)
  next
    case False
    then have "c \<in> set (decimal (n div 10)) \<or> c = digit (n mod 10)"
      using "1.prems" by (auto simp: decimal.simps [of n])
    then show ?thesis using "1.IH" [OF False] by (auto simp: digit_def)
  qed
qed

section \<open>Basic types (basic\_types.hpp)\<close>

definition order_id_to_string :: "order_id_t \<Rightarrow> string" where
  "order_id_to_string i = (if i = INVALID_ORDER_ID then ''INVALID'' else decimal (unat i))"

definition instrument_id_to_string :: "instrument_id_t \<Rightarrow> string" where
  "instrument_id_to_string i = (if i = INVALID_INSTRUMENT_ID then ''INVALID'' else decimal (unat i))"

definition client_id_to_string :: "client_id_t \<Rightarrow> string" where
  "client_id_to_string i = (if i = INVALID_CLIENT_ID then ''INVALID'' else decimal (unat i))"

definition price_to_string :: "price_t \<Rightarrow> string" where
  "price_to_string p = (if p = INVALID_PRICE then ''INVALID'' else signed_decimal (sint p))"

definition quantity_to_string :: "quantity_t \<Rightarrow> string" where
  "quantity_to_string q = (if q = INVALID_QUANTITY then ''INVALID'' else decimal (unat q))"

definition priority_to_string :: "priority_t \<Rightarrow> string" where
  "priority_to_string p = (if p = INVALID_PRIORITY then ''INVALID'' else decimal (unat p))"

fun side_to_string :: "side_t \<Rightarrow> string" where
  "side_to_string BUY = ''BUY''"
| "side_to_string SELL = ''SELL''"
| "side_to_string SIDE_INVALID = ''INVALID''"
| "side_to_string (SIDE_UNKNOWN b) = ''UNKNOWN''"

section \<open>Messages\<close>

fun client_request_type_to_string :: "client_request_type \<Rightarrow> string" where
  "client_request_type_to_string REQ_NEW = ''NEW''"
| "client_request_type_to_string REQ_CANCEL = ''CANCEL''"
| "client_request_type_to_string REQ_MODIFY = ''MODIFY''"
| "client_request_type_to_string REQ_INVALID = ''INVALID''"
| "client_request_type_to_string (REQ_UNKNOWN b) = ''UNKNOWN''"

definition client_request_internal_to_string :: "client_request_internal \<Rightarrow> string" where
  "client_request_internal_to_string r = concat
     [''client_request_internal'', '' ['',
      ''type:'', client_request_type_to_string (rq_type r),
      '' client:'', client_id_to_string (rq_client_id r),
      '' instrument:'', instrument_id_to_string (rq_instrument_id r),
      '' oid:'', order_id_to_string (rq_order_id r),
      '' side:'', side_to_string (rq_side r),
      '' qty:'', quantity_to_string (rq_qty r),
      '' price:'', price_to_string (rq_price r), '']'']"

definition client_request_external_to_string :: "client_request_external \<Rightarrow> string" where
  "client_request_external_to_string r = concat
     [''client_request_external'', '' ['',
      ''sequence number:'', decimal (unat (rqx_sequence_number r)),
      ''request:'', client_request_internal_to_string (rqx_request r), '']'']"

fun client_response_type_to_string :: "client_response_type \<Rightarrow> string" where
  "client_response_type_to_string ACCEPTED = ''ACCEPTED''"
| "client_response_type_to_string CANCELED = ''CANCELED''"
| "client_response_type_to_string FILLED = ''FILLED''"
| "client_response_type_to_string CANCEL_REJECTED = ''CANCEL_REJECTED''"
| "client_response_type_to_string MODIFIED = ''MODIFIED''"
| "client_response_type_to_string MODIFY_REJECTED = ''MODIFY_REJECTED''"
| "client_response_type_to_string INVALID_REQUEST = ''INVALID_REQUEST''"
| "client_response_type_to_string RESP_INVALID = ''INVALID''"
| "client_response_type_to_string (RESP_UNKNOWN b) = ''UNKNOWN''"

definition client_response_internal_to_string :: "client_response_internal \<Rightarrow> string" where
  "client_response_internal_to_string r = concat
     [''client_response_internal'', '' ['',
      ''type:'', client_response_type_to_string (rs_type r),
      '' client:'', client_id_to_string (rs_client_id r),
      '' instrument:'', instrument_id_to_string (rs_instrument_id r),
      '' coid:'', order_id_to_string (rs_client_order_id r),
      '' moid:'', order_id_to_string (rs_market_order_id r),
      '' side:'', side_to_string (rs_side r),
      '' exec qty:'', quantity_to_string (rs_exec_qty r),
      '' leaves qty:'', quantity_to_string (rs_leaves_qty r),
      '' price:'', price_to_string (rs_price r), '']'']"

text \<open>The external response names itself a request.\<close>

definition client_response_external_to_string :: "client_response_external \<Rightarrow> string" where
  "client_response_external_to_string r = concat
     [''client_request_external'', '' ['',
      ''sequence number:'', decimal (unat (rsx_sequence_number r)),
      ''request:'', client_response_internal_to_string (rsx_response r), '']'']"

fun market_update_type_to_string :: "market_update_type \<Rightarrow> string" where
  "market_update_type_to_string MU_CLEAR = ''CLEAR''"
| "market_update_type_to_string MU_ADD = ''ADD''"
| "market_update_type_to_string MU_MODIFY = ''MODIFY''"
| "market_update_type_to_string MU_CANCEL = ''CANCEL''"
| "market_update_type_to_string MU_TRADE = ''TRADE''"
| "market_update_type_to_string MU_SNAPSHOT_START = ''SNAPSHOT_START''"
| "market_update_type_to_string MU_SNAPSHOT_END = ''SNAPSHOT_END''"
| "market_update_type_to_string MU_INVALID = ''INVALID''"
| "market_update_type_to_string (MU_UNKNOWN b) = ''UNKNOWN''"

definition market_update_to_string :: "market_update \<Rightarrow> string" where
  "market_update_to_string u = concat
     [''market_update'', '' ['',
      '' type:'', market_update_type_to_string (mu_type u),
      '' instrument:'', instrument_id_to_string (mu_instrument_id u),
      '' oid:'', order_id_to_string (mu_order_id u),
      '' side:'', side_to_string (mu_side u),
      '' qty:'', quantity_to_string (mu_qty u),
      '' price:'', price_to_string (mu_price u),
      '' priority:'', priority_to_string (mu_priority u), '']'']"

definition client_market_update_to_string :: "client_market_update \<Rightarrow> string" where
  "client_market_update_to_string u = concat
     [''client_market_update'', '' ['',
      '' sequence number:'', decimal (unat (cmu_sequence_number u)),
      '' update:'', market_update_to_string (cmu_update u), '']'']"

section \<open>Orders and price levels (order.hpp)\<close>

definition order_to_string :: "('a order_scheme) \<Rightarrow> string" where
  "order_to_string x = concat
     [''order['',
      ''instrument_id:'', instrument_id_to_string (o_instrument_id x), '' '',
      ''market_order_id:'', order_id_to_string (o_market_order_id x), '' '',
      ''client_id:'', client_id_to_string (o_client_id x), '' '',
      ''client_order_id:'', order_id_to_string (o_client_order_id x), '' '',
      ''side:'', side_to_string (o_side x), '' '',
      ''price:'', price_to_string (o_price x), '' '',
      ''qty:'', quantity_to_string (o_qty x), '' '',
      ''priority:'', priority_to_string (o_priority x), '']'']"

text \<open>A level prints through its pointers: \<open>ord\<close> and \<open>lvl\<close> are the objects they lead to.\<close>

definition price_level_to_string :: "(nat \<Rightarrow> order) \<Rightarrow> (nat \<Rightarrow> price_level) \<Rightarrow> price_level \<Rightarrow> string" where
  "price_level_to_string ord lvl l = concat
     [''price_level['',
      ''side:'', side_to_string (l_side l), '' '',
      ''price:'', price_to_string (l_price l), '' '',
      ''first_me_order:'', (case first_order l of None \<Rightarrow> ''null'' | Some a \<Rightarrow> order_to_string (ord a)), '' '',
      ''prev:'', price_to_string (case prev_entry l of None \<Rightarrow> INVALID_PRICE | Some a \<Rightarrow> l_price (lvl a)), '' '',
      ''next:'', price_to_string (case next_entry l of None \<Rightarrow> INVALID_PRICE | Some a \<Rightarrow> l_price (lvl a)), '']'']"

section \<open>Identifiers are told apart\<close>

lemma decimal_not_word: "decimal n \<noteq> ''INVALID''"
  using digits_decimal [of "CHR ''I''" n] by auto

lemma signed_decimal_value:
  "z = (if hd (signed_decimal z) = CHR ''-'' then - int (decimal_value (tl (signed_decimal z)))
     else int (decimal_value (signed_decimal z)))"
proof (cases "z < 0")
  case False
  have "hd (decimal (nat z)) \<noteq> CHR ''-''"
  proof
    assume h: "hd (decimal (nat z)) = CHR ''-''"
    have "decimal (nat z) \<noteq> []" by (simp add: decimal.simps [of "nat z"])
    then have "CHR ''-'' \<in> set (decimal (nat z))" using h hd_in_set by metis
    from digits_decimal [OF this] show False by simp
  qed
  then show ?thesis using False by (simp add: signed_decimal_def)
qed (simp add: signed_decimal_def)

lemma signed_decimal_inj: "signed_decimal y = signed_decimal z \<longleftrightarrow> y = z"
  using signed_decimal_value [of y] signed_decimal_value [of z] by metis

lemma signed_decimal_not_word: "signed_decimal z \<noteq> ''INVALID''"
  using decimal_not_word by (simp add: signed_decimal_def)

lemma order_id_to_string_inj: "order_id_to_string i = order_id_to_string j \<longleftrightarrow> i = j"
  using decimal_not_word [of "unat i"] decimal_not_word [of "unat j"]
  by (auto simp: order_id_to_string_def decimal_inj word_unat_eq_iff)

lemma price_to_string_inj: "price_to_string p = price_to_string q \<longleftrightarrow> p = q"
  using signed_decimal_not_word [of "sint p"] signed_decimal_not_word [of "sint q"]
  by (auto simp: price_to_string_def signed_decimal_inj dest: signed_word_eqI)

end
