(* ===== verification/MatchingEngine.thy ===== *)
theory MatchingEngine
  imports OrderBookRefine Printing
begin

text \<open>
  \<open>src/engine/matching_engine.hpp\<close> and \<open>matching_engine.cpp\<close>: one order book per
  instrument, the dispatch of a client request, the engine's loop over the incoming queue, and
  the proof that the engine refines an array of abstract books while it is given admissible
  requests, so that none of its failure branches is taken.
\<close>

section \<open>The engine\<close>

text \<open>
  The books share the engine's \<open>message_handler_\<close> through a pointer: here the handler is the
  engine's, and a book works on the current one while it processes a request.
\<close>

record matching_engine =
  instrument_order_books :: "order_book list"
  incoming_requests :: "client_request_internal lock_free_queue"
  running :: bool
  me_handler :: message_handler

fun make_books :: "nat \<Rightarrow> message_handler \<Rightarrow> order_book list result" where
  "make_books 0 mh = Inr []"
| "make_books (Suc n) mh = rbind (make_books n mh) (\<lambda>bs.
     rbind (order_book_init (word_of_nat n) mh) (\<lambda>b. Inr (bs @ [b])))"

definition matching_engine_init :: "client_request_internal lock_free_queue \<Rightarrow>
    client_response_internal lock_free_queue \<Rightarrow> market_update lock_free_queue \<Rightarrow> matching_engine result" where
  "matching_engine_init requests responses updates =
     (let mh = \<lparr>outgoing_responses = responses, outgoing_market_updates = updates\<rparr>
      in rbind (make_books MAX_NUM_INSTRUMENTS mh) (\<lambda>bs.
           Inr \<lparr>instrument_order_books = bs, incoming_requests = requests, running = True,
                me_handler = mh\<rparr>))"

definition start_engine :: "matching_engine \<Rightarrow> matching_engine" where
  "start_engine me = me\<lparr>running := True\<rparr>"

definition stop_engine :: "matching_engine \<Rightarrow> matching_engine" where
  "stop_engine me = me\<lparr>running := False\<rparr>"

text \<open>The switch of \<open>process_client_request\<close> on the request's book, and the whole handler.\<close>

definition dispatch_request :: "client_request_internal \<Rightarrow> order_book \<Rightarrow> order_book result" where
  "dispatch_request r book = (case rq_type r of
       REQ_NEW \<Rightarrow> ob_add (rq_client_id r) (rq_order_id r) (rq_side r) (rq_price r) (rq_qty r) book
     | REQ_CANCEL \<Rightarrow> ob_cancel (rq_client_id r) (rq_order_id r) book
     | REQ_MODIFY \<Rightarrow> ob_modify (rq_client_id r) (rq_order_id r) (rq_price r) (rq_qty r) book
     | t \<Rightarrow> Inl (Fatal (''Received invalid client-request-type:'' @ client_request_type_to_string t)))"

definition process_client_request :: "client_request_internal \<Rightarrow> matching_engine \<Rightarrow> matching_engine result" where
  "process_client_request r me =
     (let i = unat (rq_instrument_id r) in
      if \<not> i < length (instrument_order_books me) then Inl OutOfRange
      else let book = (instrument_order_books me ! i)\<lparr>message_handler := me_handler me\<rparr>
           in rbind (dispatch_request r book) (\<lambda>book.
             Inr (me\<lparr>instrument_order_books := (instrument_order_books me)[i := book],
                      me_handler := message_handler book\<rparr>)))"

text \<open>One iteration of \<open>run\<close>'s loop, and \<open>n\<close> iterations.\<close>

definition run_step :: "matching_engine \<Rightarrow> matching_engine result" where
  "run_step me = (if running me
     then case get_next_read_element (incoming_requests me) of None \<Rightarrow> Inr me
          | Some r \<Rightarrow> rbind (process_client_request r me) (\<lambda>me.
              Inr (me\<lparr>incoming_requests := next_read_index (incoming_requests me)\<rparr>))
     else Inr me)"

fun run_steps :: "nat \<Rightarrow> matching_engine \<Rightarrow> matching_engine result" where
  "run_steps 0 me = Inr me"
| "run_steps (Suc n) me = rbind (run_step me) (run_steps n)"

lemma stopped_engine_idles: "run_steps n (stop_engine me) = Inr (stop_engine me)"
  by (induction n) (simp_all add: run_step_def stop_engine_def)

section \<open>Abstract engine\<close>

definition a_process :: "client_request_internal \<Rightarrow> abook \<Rightarrow> abook \<times> out_msg list" where
  "a_process r A = (case rq_type r of
       REQ_NEW \<Rightarrow> a_add (rq_client_id r) (rq_order_id r) (rq_side r) (rq_price r) (rq_qty r) A
     | REQ_CANCEL \<Rightarrow> a_cancel (rq_client_id r) (rq_order_id r) A
     | REQ_MODIFY \<Rightarrow> a_modify (rq_client_id r) (rq_order_id r) (rq_price r) (rq_qty r) A
     | _ \<Rightarrow> (A, []))"

definition a_step :: "client_request_internal \<Rightarrow> abook list \<Rightarrow> abook list \<times> out_msg list" where
  "a_step r As = (let i = unat (rq_instrument_id r); (A, ms) = a_process r (As ! i) in (As[i := A], ms))"

fun a_run :: "client_request_internal list \<Rightarrow> abook list \<Rightarrow> abook list \<times> out_msg list" where
  "a_run [] As = (As, [])"
| "a_run (r # rs) As = (let (As, ms) = a_step r As; (As, ns) = a_run rs As in (As, ms @ ns))"

definition admissible :: "client_request_internal \<Rightarrow> abook list \<Rightarrow> bool" where
  "admissible r As \<longleftrightarrow> unat (rq_instrument_id r) < MAX_NUM_INSTRUMENTS \<and>
     (let A = As ! unat (rq_instrument_id r) in case rq_type r of
        REQ_NEW \<Rightarrow> add_admissible (rq_client_id r) (rq_order_id r) (rq_side r) (rq_price r) (rq_qty r) A
      | REQ_CANCEL \<Rightarrow> lookup_admissible (rq_client_id r) (rq_order_id r)
      | REQ_MODIFY \<Rightarrow> modify_admissible (rq_client_id r) (rq_order_id r) (rq_price r) (rq_qty r) A
      | _ \<Rightarrow> False)"

fun all_admissible :: "client_request_internal list \<Rightarrow> abook list \<Rightarrow> bool" where
  "all_admissible [] As \<longleftrightarrow> True"
| "all_admissible (r # rs) As \<longleftrightarrow> admissible r As \<and> all_admissible rs (fst (a_step r As))"

section \<open>Refinement\<close>

text \<open>The handler inside an idle book is not looked at: the engine's is put there first.\<close>

lemma handler_quiet [simp]:
  "book_rel (s\<lparr>message_handler := mh\<rparr>) G A = book_rel s G A"
  by (simp add: book_rel_def)

definition engine_rel :: "matching_engine \<Rightarrow> abook list \<Rightarrow> bool" where
  "engine_rel me As \<longleftrightarrow> length (instrument_order_books me) = MAX_NUM_INSTRUMENTS \<and>
     length As = MAX_NUM_INSTRUMENTS \<and> running me \<and>
     (\<forall>i < MAX_NUM_INSTRUMENTS. \<exists>G. book_rel (instrument_order_books me ! i) G (As ! i))"

lemma engine_rel_book:
  "engine_rel me As \<Longrightarrow> i < MAX_NUM_INSTRUMENTS \<Longrightarrow> \<exists>G. book_rel (instrument_order_books me ! i) G (As ! i)"
  unfolding engine_rel_def by blast

lemma dispatch_request_ok:
  assumes rel: "book_rel s G (As ! unat (rq_instrument_id r))" and adm: "admissible r As"
    and a: "a_process r (As ! unat (rq_instrument_id r)) = (A', ms)"
  shows "\<exists>s' G'. dispatch_request r s = Inr s' \<and> book_rel s' G' A' \<and>
    message_handler s' = sends ms (message_handler s)"
proof (cases "rq_type r")
  case REQ_NEW
  with adm a have "add_admissible (rq_client_id r) (rq_order_id r) (rq_side r) (rq_price r) (rq_qty r)
      (As ! unat (rq_instrument_id r))"
    and "a_add (rq_client_id r) (rq_order_id r) (rq_side r) (rq_price r) (rq_qty r)
      (As ! unat (rq_instrument_id r)) = (A', ms)"
    by (simp_all add: admissible_def a_process_def Let_def)
  from ob_add_ok [OF rel this] REQ_NEW show ?thesis by (simp add: dispatch_request_def)
next
  case REQ_CANCEL
  with adm a have "lookup_admissible (rq_client_id r) (rq_order_id r)"
    and "a_cancel (rq_client_id r) (rq_order_id r) (As ! unat (rq_instrument_id r)) = (A', ms)"
    by (simp_all add: admissible_def a_process_def Let_def)
  from ob_cancel_ok [OF rel this] REQ_CANCEL show ?thesis by (auto simp: dispatch_request_def)
next
  case REQ_MODIFY
  with adm a have "modify_admissible (rq_client_id r) (rq_order_id r) (rq_price r) (rq_qty r)
      (As ! unat (rq_instrument_id r))"
    and "a_modify (rq_client_id r) (rq_order_id r) (rq_price r) (rq_qty r)
      (As ! unat (rq_instrument_id r)) = (A', ms)"
    by (simp_all add: admissible_def a_process_def Let_def)
  from ob_modify_ok [OF rel this] REQ_MODIFY show ?thesis by (simp add: dispatch_request_def)
qed (use adm in \<open>simp_all add: admissible_def Let_def\<close>)

lemma process_client_request_ok:
  assumes rel: "engine_rel me As" and adm: "admissible r As" and st: "a_step r As = (As', ms)"
  shows "\<exists>me'. process_client_request r me = Inr me' \<and> engine_rel me' As' \<and>
    me_handler me' = sends ms (me_handler me) \<and> incoming_requests me' = incoming_requests me"
proof -
  define i where "i = unat (rq_instrument_id r)"
  have i: "i < MAX_NUM_INSTRUMENTS" using adm by (simp add: admissible_def i_def)
  obtain A' where A': "a_process r (As ! i) = (A', ms)" "As' = As[i := A']"
    using st by (auto simp: a_step_def Let_def i_def split: prod.splits)
  let ?b = "(instrument_order_books me ! i)\<lparr>message_handler := me_handler me\<rparr>"
  obtain G where "book_rel ?b G (As ! i)" using rel i by (auto simp: engine_rel_def)
  from dispatch_request_ok [OF this [unfolded i_def] adm A'(1) [unfolded i_def]] obtain s' G' where
    s': "dispatch_request r ?b = Inr s'" "book_rel s' G' A'" "message_handler s' = sends ms (me_handler me)"
    unfolding i_def by auto
  define me' where "me' = me\<lparr>instrument_order_books := (instrument_order_books me)[i := s'],
    me_handler := message_handler s'\<rparr>"
  have "process_client_request r me = Inr me'"
    using rel i s'(1) by (simp add: process_client_request_def engine_rel_def Let_def i_def me'_def)
  moreover have "engine_rel me' As'"
    using rel i s'(2) A'(2) unfolding engine_rel_def me'_def by (auto simp: nth_list_update)
  ultimately show ?thesis using s'(3) by (auto simp: me'_def)
qed

lemma run_steps_ok:
  assumes "engine_rel me As" and "queue_inv (incoming_requests me)"
    and "all_admissible (queue_items (incoming_requests me)) As"
    and "a_run (queue_items (incoming_requests me)) As = (As', ms)"
  shows "\<exists>me'. run_steps (length (queue_items (incoming_requests me))) me = Inr me' \<and> engine_rel me' As' \<and>
    queue_items (incoming_requests me') = [] \<and> me_handler me' = sends ms (me_handler me)"
  using assms
proof (induction "queue_items (incoming_requests me)" arbitrary: me As ms)
  case Nil
  then show ?case by (metis Pair_inject a_run.simps(1) list.size(3) run_steps.simps(1) sends_Nil)
next
  case (Cons r rs)
  note items = Cons.hyps(2) [symmetric]
  obtain As1 ms1 where st: "a_step r As = (As1, ms1)" by (cases "a_step r As")
  obtain ms2 where run: "a_run rs As1 = (As', ms2)" "ms = ms1 @ ms2"
    using Cons.prems(4) st by (auto simp: items split: prod.splits)
  have adm: "admissible r As" "all_admissible rs As1" using Cons.prems(3) st by (simp_all add: items)
  from process_client_request_ok [OF Cons.prems(1) adm(1) st] obtain t where
    t: "process_client_request r me = Inr t" "engine_rel t As1" "me_handler t = sends ms1 (me_handler me)"
    "incoming_requests t = incoming_requests me" by blast
  define u where "u = t\<lparr>incoming_requests := next_read_index (incoming_requests t)\<rparr>"
  have u: "engine_rel u As1" "queue_inv (incoming_requests u)" "queue_items (incoming_requests u) = rs"
    using t(2,4) Cons.prems(2) items
    by (simp_all add: u_def engine_rel_def queue_inv_next_read_index queue_items_next_read_index)
  have "run_step me = Inr u"
    using Cons.prems(1,2) items t(1) by (simp add: run_step_def engine_rel_def get_next_read_element_items u_def)
  moreover obtain me' where "run_steps (length rs) u = Inr me'" "engine_rel me' As'"
    "queue_items (incoming_requests me') = []" "me_handler me' = sends ms2 (me_handler u)"
    using Cons.hyps(1) [OF u(3) [symmetric] u(1,2)] u(3) adm(2) run(1) by auto
  moreover have "length (queue_items (incoming_requests me)) = Suc (length rs)"
    unfolding items by simp
  ultimately show ?case using t(3) run(2)
    by (intro exI [of _ me']) (simp add: u_def)
qed

section \<open>Start\<close>

lemma make_books_ok:
  "n \<le> MAX_NUM_INSTRUMENTS \<Longrightarrow> \<exists>bs. make_books n mh = Inr bs \<and> length bs = n \<and>
    (\<forall>i < n. book_rel (bs ! i) (\<lambda>_. []) (a_init (word_of_nat i)))"
proof (induction n)
  case (Suc n)
  then obtain bs where bs: "make_books n mh = Inr bs" "length bs = n"
    "\<forall>i < n. book_rel (bs ! i) (\<lambda>_. []) (a_init (word_of_nat i))" by auto
  obtain b where b: "order_book_init (word_of_nat n) mh = Inr b" "book_rel b (\<lambda>_. []) (a_init (word_of_nat n))"
    using order_book_init_ok by blast
  then show ?case using bs by (intro exI [of _ "bs @ [b]"]) (auto simp: nth_append less_Suc_eq)
qed simp

definition a_engine_init :: "abook list" where
  "a_engine_init = map (\<lambda>i. a_init (word_of_nat i)) [0..<MAX_NUM_INSTRUMENTS]"

lemma matching_engine_init_ok:
  "\<exists>me. matching_engine_init requests responses updates = Inr me \<and> engine_rel me a_engine_init \<and>
    incoming_requests me = requests \<and>
    me_handler me = \<lparr>outgoing_responses = responses, outgoing_market_updates = updates\<rparr>"
proof -
  let ?mh = "\<lparr>outgoing_responses = responses, outgoing_market_updates = updates\<rparr>"
  obtain bs where bs: "make_books MAX_NUM_INSTRUMENTS ?mh = Inr bs" "length bs = MAX_NUM_INSTRUMENTS"
    "\<forall>i < MAX_NUM_INSTRUMENTS. book_rel (bs ! i) (\<lambda>_. []) (a_init (word_of_nat i))"
    using make_books_ok by blast
  then show ?thesis
    by (auto simp: matching_engine_init_def Let_def engine_rel_def a_engine_init_def)
qed

end
