(* ===== verification/TradingRules.thy ===== *)
theory TradingRules
  imports MatchingEngine
begin

text \<open>
  What a trader may rely on: no quantity is lost or created by matching, resting orders are
  consumed in book order, a level queues first in first out, a side stays sorted and the book
  uncrossed; the fills themselves are in PriceTimePriority. The lemmas are about the abstract
  book; BookProperties states them of the code's operations through the refinement.
\<close>

section \<open>Induction over a sweep\<close>

text \<open>Why a sweep ends: nothing left to fill, nothing left to fill from, or the limit.\<close>

fun sweep_done :: "side_t \<Rightarrow> price_t \<Rightarrow> quantity_t \<Rightarrow> level list \<Rightarrow> bool" where
  "sweep_done sd price left ((p, x # xs) # L) \<longleftrightarrow> left = 0 \<or> too_far sd (o_price x) price"
| "sweep_done sd price left _ \<longleftrightarrow> True"

text \<open>The side after the match of quantity \<open>m\<close> against its first order.\<close>

definition after_match :: "quantity_t \<Rightarrow> price_t \<Rightarrow> order_info \<Rightarrow> order_info list \<Rightarrow> level list \<Rightarrow> level list" where
  "after_match m p x xs L = (if o_qty x - m = 0 then keep_level p xs @ L
     else (p, x\<lparr>o_qty := o_qty x - m\<rparr> # xs) # L)"

lemma sweep_induct [consumes 1, case_names stop step]:
  assumes "a_sweep i cid coid moid sd price qty L = (left, L', ms)"
    and "\<And>qty L. sweep_done sd price qty L \<Longrightarrow> P qty L qty L []"
    and "\<And>qty p x xs L left L' ms m. \<lbrakk>qty \<noteq> 0; \<not> too_far sd (o_price x) price; m = min qty (o_qty x);
      P (qty - m) (after_match m p x xs L) left L' ms\<rbrakk> \<Longrightarrow>
      P qty ((p, x # xs) # L) left L' (match_msgs i cid sd coid moid qty x @ ms)"
  shows "P qty L left L' ms"
  using assms
proof (induction i cid coid moid sd price qty L arbitrary: left L' ms rule: a_sweep.induct)
  case (3 i cid coid moid sd price qty p x xs L)
  show ?case
  proof (cases "qty = 0 \<or> too_far sd (o_price x) price")
    case True
    then show ?thesis using "3.prems"(1,2) by (auto simp: a_sweep.simps(3))
  next
    case False
    define m where "m = min qty (o_qty x)"
    obtain l2 L2 ms2 where sw: "a_sweep i cid coid moid sd price (qty - m) (after_match m p x xs L) = (l2, L2, ms2)"
      by (metis prod_cases3)
    have res: "left = l2" "L' = L2" "ms = match_msgs i cid sd coid moid qty x @ ms2"
      using "3.prems"(1) False sw
      by (simp_all add: a_sweep.simps(3) m_def after_match_def Let_def split: if_splits)
    have "P (qty - m) (after_match m p x xs L) l2 L2 ms2"
      by (rule "3.IH" [OF False m_def after_match_def sw "3.prems"(2,3)])
    then show ?thesis unfolding res using False "3.prems"(3) [of qty x m p xs L] m_def by blast
  qed
qed auto

section \<open>Quantities\<close>

text \<open>Quantity traded according to the messages, and quantity resting on a side.\<close>

fun traded :: "out_msg list \<Rightarrow> nat" where
  "traded [] = 0"
| "traded (Upd u # ms) = (if mu_type u = MU_TRADE then unat (mu_qty u) else 0) + traded ms"
| "traded (Resp r # ms) = traded ms"

definition resting :: "level list \<Rightarrow> nat" where
  "resting L = sum_list (map (unat \<circ> o_qty) (level_orders L))"

lemma resting_simps [simp]:
  "resting [] = 0"
  "resting ((p, xs) # L) = sum_list (map (unat \<circ> o_qty) xs) + resting L"
  "resting (keep_level p xs @ L) = sum_list (map (unat \<circ> o_qty) xs) + resting L"
  by (simp_all add: resting_def keep_level_def)

lemma traded_append [simp]: "traded (ms @ ns) = traded ms + traded ns"
  by (induction ms rule: traded.induct) simp_all

lemma traded_match_msgs: "traded (match_msgs i cid sd coid moid l x) = unat (min l (o_qty x))"
  by (simp add: match_msgs_def Let_def)

lemma unat_min_diff: "unat (a - min a b) = unat a - unat (min a b)" "unat (b - min a b) = unat b - unat (min a b)"
  "unat (min a b) \<le> unat a" "unat (min a b) \<le> unat b" for a b :: quantity_t
  by (auto simp: min_def word_le_nat_alt unat_sub_if')

lemma resting_after_match:
  "resting (after_match m p x xs L) + unat m = resting ((p, x # xs) # L)" if "m = min qty (o_qty x)"
  using that unat_min_diff(2) [of "o_qty x" qty] unat_min_diff(4) [of qty "o_qty x"]
  by (auto simp: after_match_def)

lemma sweep_conserves:
  "a_sweep i cid coid moid sd price qty L = (left, L', ms) \<Longrightarrow>
    unat qty = unat left + traded ms \<and> resting L = resting L' + traded ms"
proof (induction rule: sweep_induct)
  case (step qty p x xs L left L' ms m)
  then show ?case using resting_after_match [OF step.hyps(3), of p xs L] unat_min_diff(1,3) [of qty "o_qty x"]
    by (auto simp: traded_match_msgs)
qed simp

section \<open>Price limit\<close>

text \<open>
  What a limit means, apart from the test of the code: a buyer does not pay more than the limit,
  a seller does not get less.
\<close>

definition acceptable :: "side_t \<Rightarrow> price_t \<Rightarrow> price_t \<Rightarrow> bool" where
  "acceptable sd p limit = (if sd = BUY then sint p \<le> sint limit else sint limit \<le> sint p)"

lemma too_far_acceptable: "too_far sd p limit \<longleftrightarrow> \<not> acceptable sd p limit"
  by (auto simp: too_far_def acceptable_def)

lemma sweep_stops:
  "a_sweep i cid coid moid sd price qty L = (left, L', ms) \<Longrightarrow> sweep_done sd price left L'"
  by (induction rule: sweep_induct) auto

lemma level_orders_keep [simp]: "level_orders (keep_level p xs) = xs"
  by (simp add: keep_level_def)

section \<open>What is left of a side\<close>

text \<open>
  The remainder of a side after a sweep: some orders filled from the front, and the next one
  possibly reduced.
\<close>

definition reduced_suffix :: "order_info list \<Rightarrow> order_info list \<Rightarrow> bool" where
  "reduced_suffix xs ys \<longleftrightarrow> (\<exists>k \<le> length xs. ys = drop k xs \<or>
     (k < length xs \<and> (\<exists>q. ys = (xs ! k)\<lparr>o_qty := q\<rparr> # drop (Suc k) xs)))"

lemma reduced_suffix_refl [simp]: "reduced_suffix xs xs"
  unfolding reduced_suffix_def by (intro exI [of _ 0]) simp

lemma reduced_suffix_Cons: "reduced_suffix xs ys \<Longrightarrow> reduced_suffix (x # xs) ys"
  unfolding reduced_suffix_def by (elim exE conjE, rule_tac x = "Suc k" in exI) auto

lemma reduced_suffix_again: "reduced_suffix (x\<lparr>o_qty := q\<rparr> # xs) ys \<Longrightarrow> reduced_suffix (x # xs) ys"
  unfolding reduced_suffix_def
  by (elim exE conjE, rule_tac x = k in exI) (auto simp: nth_Cons drop_Cons split: nat.splits)

lemma sweep_front_first:
  "a_sweep i cid coid moid sd price qty L = (left, L', ms) \<Longrightarrow>
    reduced_suffix (level_orders L) (level_orders L')"
proof (induction rule: sweep_induct)
  case (step qty p x xs L left L' ms m)
  then show ?case
    by (auto simp: after_match_def split: if_splits intro: reduced_suffix_Cons reduced_suffix_again)
qed simp

section \<open>Sorted sides\<close>

text \<open>\<open>comparison_func\<close> is a strict linear order on prices, whatever the side.\<close>

lemma comparison_irrefl [simp]: "\<not> comparison_func p p sd"
  by (simp add: comparison_func_def)

lemma comparison_trans: "comparison_func p q sd \<Longrightarrow> comparison_func q r sd \<Longrightarrow> comparison_func p r sd"
  by (auto simp: comparison_func_def split: if_splits)

lemma comparison_total: "p \<noteq> q \<Longrightarrow> comparison_func p q sd \<or> comparison_func q p sd"
  by (metis comparison_func_def linorder_neqE signed_word_eqI)

lemma comparison_asym: "comparison_func p q sd \<Longrightarrow> \<not> comparison_func q p sd"
  using comparison_trans comparison_irrefl by blast

text \<open>
  The order of a side, stated apart from the code's test: the price \<open>p\<close> has precedence over \<open>q\<close>
  when it is the higher bid or the lower ask.
\<close>

definition better :: "side_t \<Rightarrow> price_t \<Rightarrow> price_t \<Rightarrow> bool" where
  "better sd p q = (if sd = BUY then sint q < sint p else sint p < sint q)"

lemma better_comparison [simp]: "better sd p q \<longleftrightarrow> comparison_func p q sd"
  by (simp add: better_def comparison_func_def)

definition sorted_by :: "('x \<Rightarrow> price_t) \<Rightarrow> side_t \<Rightarrow> 'x list \<Rightarrow> bool" where
  "sorted_by key sd = sorted_wrt (\<lambda>x y. better sd (key x) (key y))"

lemma sorted_by_simps [simp]:
  "sorted_by key sd []"
  "sorted_by key sd (x # xs) \<longleftrightarrow> (\<forall>y \<in> set xs. comparison_func (key x) (key y) sd) \<and> sorted_by key sd xs"
  by (simp_all add: sorted_by_def)

lemma sorted_by_append:
  "sorted_by key sd (xs @ ys) \<longleftrightarrow> sorted_by key sd xs \<and> sorted_by key sd ys \<and>
    (\<forall>x \<in> set xs. \<forall>y \<in> set ys. comparison_func (key x) (key y) sd)"
  by (auto simp: sorted_by_def sorted_wrt_append)

text \<open>A new price in the gap before the last of at least three levels is put behind the last.\<close>

definition tail_gap :: "('x \<Rightarrow> price_t) \<Rightarrow> side_t \<Rightarrow> 'x \<Rightarrow> 'x list \<Rightarrow> bool" where
  "tail_gap key sd x L \<longleftrightarrow> 3 \<le> length L \<and> better sd (key x) (key (last L)) \<and>
     \<not> better sd (key x) (key (last (butlast L)))"

lemma sorted_slot_tail:
  assumes "sorted_by key sd L" and "L \<noteq> []" and "key x \<notin> key ` set L"
  shows "sorted_by key sd (slot_tail key sd x L) \<longleftrightarrow>
    \<not> comparison_func (key x) (key (last L)) sd \<or>
    (2 \<le> length L \<and> comparison_func (key x) (key (last (butlast L))) sd)"
  using assms
proof (induction key sd x L rule: slot_tail.induct)
  case (2 key sd x y)
  then show ?case using comparison_total [of "key x" "key y" sd] comparison_asym by auto
next
  case (3 key sd x y z zs)
  show ?case
  proof (cases "comparison_func (key x) (key y) sd")
    case True
    then have "comparison_func (key x) (key w) sd" if "w \<in> set (y # z # zs)" for w
      using that "3.prems"(1) comparison_trans [of "key x" "key y" sd] by auto
    moreover have "last (butlast (y # z # zs)) \<in> set (y # z # zs)"
      by (metis in_set_butlastD last_in_set butlast.simps(2) list.distinct(1))
    ultimately show ?thesis using True "3.prems"(1) by auto
  next
    case False
    then have yx: "comparison_func (key y) (key x) sd"
      using "3.prems"(3) comparison_total [of "key x" "key y" sd] by auto
    have "sorted_by key sd (slot_tail key sd x (y # z # zs)) \<longleftrightarrow>
        sorted_by key sd (slot_tail key sd x (z # zs))"
      using False yx "3.prems"(1) by auto
    also have "\<dots> \<longleftrightarrow> \<not> comparison_func (key x) (key (last (z # zs))) sd \<or>
        (2 \<le> length (z # zs) \<and> comparison_func (key x) (key (last (butlast (z # zs)))) sd)"
      using "3.IH" False "3.prems" by auto
    finally show ?thesis using False by (cases zs) auto
  qed
qed simp

lemma sorted_slot_insert:
  assumes "sorted_by key sd L" and "key x \<notin> key ` set L"
  shows "sorted_by key sd (slot_insert key sd x L) \<longleftrightarrow> \<not> tail_gap key sd x L"
proof (cases "(key, sd, x, L)" rule: slot_insert.cases)
  case (3 key' sd' x' b y ys)
  then have eq: "key' = key" "sd' = sd" "x' = x" and L: "L = b # y # ys" by auto
  show ?thesis
  proof (cases "comparison_func (key x) (key b) sd \<or> comparison_func (key x) (key y) sd")
    case True
    then have y: "comparison_func (key x) (key y) sd"
      using assms(1) comparison_trans [of "key x" "key b" sd "key y"] by (auto simp: L)
    then have tl: "comparison_func (key x) (key w) sd" if "w \<in> set (y # ys)" for w
      using that assms(1) comparison_trans [of "key x" "key y" sd "key w"] by (auto simp: L)
    have "\<not> tail_gap key sd x L"
    proof
      assume g: "tail_gap key sd x L"
      then have "ys \<noteq> []" by (auto simp: tail_gap_def L)
      then have "last (butlast L) \<in> set (y # ys)"
        by (cases ys rule: rev_cases) (auto simp: L butlast_append intro: last_in_set)
      then show False using tl g by (auto simp: tail_gap_def)
    qed
    moreover have "comparison_func (key b) (key x) sd" if "\<not> comparison_func (key x) (key b) sd"
      using that comparison_total [of "key x" "key b" sd] assms(2) by (auto simp: L)
    ultimately show ?thesis using True assms(1) tl y by (auto simp: L)
  next
    case False
    then have "comparison_func (key b) (key x) sd" "comparison_func (key y) (key x) sd"
      using comparison_total [of "key x" "key b" sd] comparison_total [of "key x" "key y" sd] assms(2)
      by (auto simp: L)
    then have red: "sorted_by key sd (slot_insert key sd x L) \<longleftrightarrow> sorted_by key sd (slot_tail key sd x ys)"
      using False assms(1) by (auto simp: L)
    show ?thesis
    proof (cases "ys = []")
      case True
      then show ?thesis using red by (simp add: tail_gap_def L)
    next
      case ne: False
      then have lb: "last (butlast L) = (if length ys = 1 then y else last (butlast ys))"
        by (cases ys rule: rev_cases) (auto simp: L butlast_append)
      obtain n where "length ys = Suc n" using ne by (cases ys) auto
      then have len: "3 \<le> length L" "2 \<le> length ys \<longleftrightarrow> length ys \<noteq> 1" by (auto simp: L)
      have "sorted_by key sd (slot_tail key sd x ys) \<longleftrightarrow>
          \<not> comparison_func (key x) (key (last ys)) sd \<or>
          (2 \<le> length ys \<and> comparison_func (key x) (key (last (butlast ys))) sd)"
        by (rule sorted_slot_tail) (use assms ne in \<open>auto simp: L\<close>)
      then show ?thesis unfolding red tail_gap_def lb using False len ne by (auto simp: L)
    qed
  qed
qed (use assms comparison_total [of "key x" _ sd] comparison_asym in \<open>auto simp: tail_gap_def\<close>)


section \<open>The uncrossed book\<close>

text \<open>
  \<open>tidy\<close>: a side's levels are in price order and hold orders of their own price only. An
  uncrossed book has every bid below every ask.
\<close>

definition tidy :: "side_t \<Rightarrow> level list \<Rightarrow> bool" where
  "tidy sd L \<longleftrightarrow> sorted_by fst sd L \<and> list_all (\<lambda>(p, xs). xs \<noteq> [] \<and> list_all (\<lambda>x. o_price x = p) xs) L"

definition uncrossed :: "abook \<Rightarrow> bool" where
  "uncrossed A \<longleftrightarrow> list_all (\<lambda>(p, xs). list_all (\<lambda>(q, ys). sint p < sint q) (a_asks A)) (a_bids A)"

lemma uncrossed_side:
  "uncrossed A \<longleftrightarrow> (\<forall>p \<in> fst ` set (a_side b A). \<forall>q \<in> fst ` set (a_side (\<not> b) A).
     if b then sint p < sint q else sint q < sint p)"
  by (cases b) (auto simp: uncrossed_def a_side_def list_all_iff case_prod_beta)

lemma tidy_after_match:
  "tidy sd' ((p, x # xs) # L) \<Longrightarrow> tidy sd' (after_match m p x xs L)"
  by (auto simp: tidy_def after_match_def keep_level_def)

lemma levels_after_match: "fst ` set (after_match m p x xs L) \<subseteq> fst ` set ((p, x # xs) # L)"
  by (auto simp: after_match_def keep_level_def)

lemma sweep_tidy:
  "a_sweep i cid coid moid sd price qty L = (left, L', ms) \<Longrightarrow>
    (tidy sd' L \<longrightarrow> tidy sd' L') \<and> fst ` set L' \<subseteq> fst ` set L"
proof (induction rule: sweep_induct)
  case (step qty p x xs L left L' ms m)
  then show ?case using levels_after_match [of m p x xs L] tidy_after_match [of sd' p x xs L m]
    by (meson order_trans)
qed simp

text \<open>What is left of the opposite side after an order was not filled completely is out of its reach.\<close>

lemma sweep_out_of_reach:
  assumes "a_sweep i cid coid moid sd price qty L = (left, L', ms)" and "left \<noteq> 0"
    and "tidy (key_side (sd \<noteq> BUY)) L" and "q \<in> fst ` set L'"
  shows "too_far sd q price"
proof -
  have t: "tidy (key_side (sd \<noteq> BUY)) L'" using sweep_tidy [OF assms(1)] assms(3) by blast
  have d: "sweep_done sd price left L'" using sweep_stops [OF assms(1)] .
  obtain p xs K where L': "L' = (p, xs) # K" using assms(4) by (cases L') auto
  then obtain x ys where xs: "xs = x # ys" "o_price x = p" using t by (cases xs) (auto simp: tidy_def)
  have "too_far sd p price" using d assms(2) L' xs by simp
  moreover have "q = p \<or> comparison_func p q (key_side (sd \<noteq> BUY))"
    using t assms(4) L' by (auto simp: tidy_def)
  ultimately show ?thesis by (auto simp: too_far_def comparison_func_def split: if_splits)
qed

text \<open>Distinct prices of a side that share a slot of the price index collide.\<close>

definition collides :: "price_t \<Rightarrow> level list \<Rightarrow> bool" where
  "collides price L \<longleftrightarrow> list_ex (\<lambda>(q, xs). q \<noteq> price \<and> same_slot q price) L"

lemma a_place_levels:
  assumes "\<not> collides (o_price x) L"
  shows "fst ` set (a_place sd x L) = insert (o_price x) (fst ` set L)"
proof (cases "\<exists>(p, xs) \<in> set L. same_slot p (o_price x)")
  case True
  then have "o_price x \<in> fst ` set L" using assms by (force simp: collides_def list_ex_iff)
  moreover have "fst ` set (a_place sd x L) = fst ` set L"
    using True by (force simp: a_place_def image_image)
  ultimately show ?thesis by auto
qed (simp add: a_place_def)

lemma a_add_uncrossed:
  assumes un: "uncrossed A" and t: "tidy (key_side (sd \<noteq> BUY)) (a_side (sd \<noteq> BUY) A)"
    and c: "\<not> collides price (a_side (sd = BUY) A)"
    and A': "a_add cid coid sd price qty A = (A', ms)"
  shows "uncrossed A'"
proof -
  let ?b = "sd = BUY" and ?o = "sd \<noteq> BUY"
  obtain left L ns where sw: "a_sweep (a_instrument A) cid coid (a_next_id A) sd price qty (a_side ?o A) = (left, L, ns)"
    by (metis prod_cases3)
  have sub: "fst ` set L \<subseteq> fst ` set (a_side ?o A)" using sweep_tidy [OF sw] by blast
  have e: "A' = fst (a_add cid coid sd price qty A)" using A' by simp
  have opp: "a_side ?o A' = L" by (simp add: e a_add_def Let_def sw)
  have own: "fst ` set (a_side ?b A') = (if left = 0 then fst ` set (a_side ?b A)
      else insert price (fst ` set (a_side ?b A)))"
    using c by (simp add: e a_add_def Let_def sw a_place_levels word_neq_0_conv)
  have "if ?b then sint p < sint q else sint q < sint p"
    if p: "p \<in> fst ` set (a_side ?b A')" and q: "q \<in> fst ` set L" for p q
  proof (cases "p \<in> fst ` set (a_side ?b A)")
    case True
    then show ?thesis using un q sub unfolding uncrossed_side [of A ?b] by blast
  next
    case False
    then have "p = price" "left \<noteq> 0" using p own by (auto split: if_splits)
    then show ?thesis using sweep_out_of_reach [OF sw _ t q] by (simp add: too_far_def split: if_splits)
  qed
  then show ?thesis unfolding uncrossed_side [of A' ?b] opp by blast
qed

section \<open>Queueing at a level\<close>

text \<open>The orders of the levels in a price's slot, in ring order.\<close>

definition queue_at :: "price_t \<Rightarrow> level list \<Rightarrow> order_info list" where
  "queue_at price L = level_orders (filter (\<lambda>(p, xs). same_slot p price) L)"

lemma queue_at_slot_insert:
  assumes "inserted (o_price x, [x]) L M" and "\<not> (\<exists>(p, xs) \<in> set L. same_slot p (o_price x))"
  shows "queue_at price M = queue_at price L @ (if same_slot (o_price x) price then [x] else [])"
proof -
  obtain L1 L2 where "L = L1 @ L2" "M = L1 @ (o_price x, [x]) # L2" using assms(1) by (auto simp: inserted_def)
  moreover have "filter (\<lambda>(p, xs). same_slot p price) L = []" if "same_slot (o_price x) price"
    using assms(2) that by (auto simp: filter_empty_conv same_slot_def)
  ultimately show ?thesis by (auto simp: queue_at_def)
qed

lemma place_last:
  assumes "distinct (map (price_to_index \<circ> fst) L)"
  shows "queue_at price (a_place sd x L) =
    queue_at price L @ (if same_slot (o_price x) price then [x] else [])"
proof (cases "\<exists>(p, xs) \<in> set L. same_slot p (o_price x)")
  case False
  then show ?thesis by (simp add: a_place_def queue_at_slot_insert)
next
  case True
  then obtain p xs L1 L2 where L: "L = L1 @ (p, xs) # L2" and p: "same_slot p (o_price x)"
    by (metis (no_types, lifting) case_prodE split_list)
  have no: "\<not> same_slot (fst y) (o_price x)" if "y \<in> set (L1 @ L2)" for y
    using assms p that by (force simp: L same_slot_def)
  have "a_place sd x L = L1 @ (p, xs @ [x]) # L2"
    using a_place_existing [of L id L1 p xs L2 x sd] no p by (simp add: L)
  moreover have "filter (\<lambda>(p, xs). same_slot p price) L2 = []" if "same_slot (o_price x) price"
    using no that by (force simp: filter_empty_conv same_slot_def)
  ultimately show ?thesis using p by (auto simp: queue_at_def L same_slot_def)
qed


section \<open>From the abstract sweep to the code's loop\<close>

lemma check_for_match_ok:
  assumes rel: "book_rel s G A"
    and sw: "a_sweep (a_instrument A) cid coid moid sd price qty (a_side (sd \<noteq> BUY) A) = (left, L', ms)"
  shows "\<exists>s' G'. check_for_match cid coid moid sd price qty s = Inr (left, s') \<and>
    book_rel s' G' (set_a_side (sd \<noteq> BUY) L' A) \<and>
    message_handler s' = sends ms (message_handler s)"
proof -
  have ok: "book_ok s G" and i: "a_instrument A = instrument_id s" and n: "a_next_id A = next_market_order_id s"
    and side: "a_side b A = abs_levels s (G b)" for b
    using rel by (simp_all add: book_rel_def)
  define b where "b = (sd \<noteq> BUY)"
  have "length (level_orders (a_side b A)) \<le> MAX_NUM_ORDERS + 1" using sweep_fuel [OF ok, of b] by (simp add: side)
  from match_loop_ok [OF ok side [symmetric] i [symmetric] this sw [folded b_def] b_def] obtain t M where
    t: "check_for_match cid coid moid sd price qty s = Inr (left, t)" "book_ok t (G(b := M))"
    "abs_levels t M = L'" "abs_levels t (G (\<not> b)) = abs_levels s (G (\<not> b))"
    "instrument_id t = a_instrument A" "next_market_order_id t = next_market_order_id s"
    "message_handler t = sends ms (message_handler s)"
    unfolding check_for_match_def by auto
  have "a_side c (set_a_side b L' A) = abs_levels t ((G(b := M)) c)" for c
    using t(3,4) side [of c] by (cases "c = b") auto
  then show ?thesis using t n unfolding b_def [symmetric]
    by (intro exI [of _ t] exI [of _ "G(b := M)"]) (simp add: book_rel_def)
qed

lemma check_for_match_obtain:
  assumes "book_rel s G A"
  obtains left L ms s' G' where
    "a_sweep (a_instrument A) cid coid moid sd price qty (a_side (sd \<noteq> BUY) A) = (left, L, ms)"
    and "check_for_match cid coid moid sd price qty s = Inr (left, s')"
    and "book_rel s' G' (set_a_side (sd \<noteq> BUY) L A)"
    and "message_handler s' = sends ms (message_handler s)"
  using check_for_match_ok [OF assms] that by (metis prod_cases3)

lemma slots_distinct:
  assumes "book_rel s G A"
  shows "distinct (map (price_to_index \<circ> fst) (a_side b A))"
proof -
  have io: "index_ok s G" and d: "distinct (all_levels G)" and side: "a_side b A = abs_levels s (G b)"
    using assms by (simp_all add: book_rel_def book_ok_def lists_ok_def)
  have "inj_on (\<lambda>l. price_to_index (l_price (level_at s l))) (fst ` set (G b))"
  proof (rule inj_onI)
    fix k l assume "k \<in> fst ` set (G b)" "l \<in> fst ` set (G b)"
      and "price_to_index (l_price (level_at s k)) = price_to_index (l_price (level_at s l))"
    then show "k = l" using index_inj [OF io, of k l] all_levels_split(1) [of G b]
      unfolding same_slot_def by blast
  qed
  moreover have "distinct (map fst (G b))" using d unfolding all_levels_split(2) [of G b] by blast
  ultimately have "distinct (map (\<lambda>l. price_to_index (l_price (level_at s l))) (map fst (G b)))"
    unfolding distinct_map set_map by blast
  then show ?thesis unfolding side abs_levels_def by (simp add: comp_def case_prod_beta)
qed

section \<open>Orders that cannot be registered\<close>

lemma add_order_registers:
  assumes lists: "lists_ok s G" and a: "a \<notin> set (all_orders G)" and side: "o_side (order_at s a) = key_side b"
    and cross: "\<not> (\<exists>(q, xs) \<in> set (abs_levels s (G (\<not> b))). same_slot q (o_price (order_at s a)))"
  shows "\<exists>t. add_order a s = register_order a t \<and> oinfo t = oinfo s"
proof (cases "\<exists>(l, os) \<in> set (G b). same_slot (l_price (level_at s l)) (o_price (order_at s a))")
  case True
  then obtain l os where "(l, os) \<in> set (G b)" and slot: "same_slot (l_price (level_at s l)) (o_price (order_at s a))"
    by blast
  then obtain L1 L2 where "G b = L1 @ (l, os) # L2" by (meson split_list)
  from link_existing [OF lists this a side] slot show ?thesis by (auto simp: same_slot_def same_data_def)
next
  case False
  have "\<not> same_slot (l_price (level_at s k)) (o_price (order_at s a))" if "(k, os) \<in> set (G c)" for k os c
    using cross False that unfolding abs_levels_slot by (cases "c = b") auto
  moreover have "index_ok s G" using lists by (simp add: lists_ok_def)
  ultimately show ?thesis using no_slot_on_either_side link_new [OF lists a side] by metis
qed

lemma add_order_unregistrable:
  assumes ok: "book_ok s G" and side: "\<And>b. a_side b A = abs_levels s (G b)" and sd: "sd = key_side b"
    and cross: "list_all (\<lambda>(p, xs). \<not> same_slot p price) (a_side (\<not> b) A)"
    and room: "length (a_orders A) < MAX_NUM_ORDERS"
    and ids: "\<not> (unat cid < MAX_NUM_CLIENTS \<and> unat coid < MAX_NUM_ORDERS)"
    and v: "v = \<lparr>o_instrument_id = i, o_client_id = cid, o_client_order_id = coid, o_market_order_id = moid,
      o_side = sd, o_price = price, o_qty = left, o_priority = prio, prev_order = None, next_order = None\<rparr>"
  shows "\<exists>a q. pool_alloc v (order_pool s) = Inr (a, q) \<and> add_order a (s\<lparr>order_pool := q\<rparr>) = Inl OutOfRange"
proof -
  let ?X = "set (all_orders G)"
  have lists: "lists_ok s G" and op: "order_pool_ok s ?X" and d: "distinct (all_orders G)"
    using ok by (simp_all add: book_ok_def lists_ok_def)
  have "card ?X < MAX_NUM_ORDERS" using room a_orders_abs [of A s G, OF side] distinct_card [OF d] by simp
  then obtain a q where q: "pool_alloc v (order_pool s) = Inr (a, q)" "a \<notin> ?X" "pool_get q = (order_at s)(a := v)"
    using pool_alloc_ok [of "order_pool s" v] op unfolding order_pool_ok_def by auto
  define r where "r = s\<lparr>order_pool := q\<rparr>"
  have r: "order_at r = (order_at s)(a := v)" by (simp add: r_def q)
  have "lists_ok r G" by (rule lists_ok_alloc [OF lists q(2) r]) (simp_all add: r_def)
  moreover have "o_side (order_at r a) = key_side b" using sd by (simp add: r v)
  moreover have "\<not> (\<exists>(p, xs) \<in> set (abs_levels s (G (\<not> b))). same_slot p price)"
    using cross unfolding side list_all_iff by blast
  then have "\<not> (\<exists>(p, xs) \<in> set (abs_levels r (G (\<not> b))). same_slot p (o_price (order_at r a)))"
    unfolding abs_levels_slot by (simp add: r v) (simp add: r_def)
  ultimately obtain t where t: "add_order a r = register_order a t" "oinfo t = oinfo r"
    using add_order_registers q(2) by blast
  have "o_client_id (order_at t a) = cid" "o_client_order_id (order_at t a) = coid"
    using fun_cong [OF t(2), of a] unfolding oinfo_def r v by (metis fun_upd_same order_info.select_convs truncate_simps)+
  then show ?thesis using q(1) t(1) ids
    by (intro exI [of _ a] exI [of _ q]) (simp add: register_order_def set_client_order_def r_def)
qed

section \<open>Concrete books\<close>

lemma engine_from_requests:
  "all_admissible rs As \<Longrightarrow> engine_rel me As \<Longrightarrow> \<exists>me'. engine_rel me' (fst (a_run rs As))"
proof (induction rs arbitrary: As me)
  case (Cons r rs)
  obtain As1 ms where st: "a_step r As = (As1, ms)" by (cases "a_step r As")
  then obtain me1 where "engine_rel me1 As1"
    using process_client_request_ok [OF Cons.prems(2) _ st] Cons.prems(1) by auto
  then show ?case using Cons.IH [of As1 me1] Cons.prems(1) st by (auto split: prod.splits)
qed auto

lemma book_from_requests:
  assumes "all_admissible rs a_engine_init" and "fst (a_run rs a_engine_init) = As" and "i < MAX_NUM_INSTRUMENTS"
  shows "\<exists>s G. book_rel s G (As ! i)"
proof -
  obtain me where "engine_rel me a_engine_init"
    using matching_engine_init_ok [of undefined undefined undefined] by blast
  then obtain me' where "engine_rel me' As" using engine_from_requests [OF assms(1)] assms(2) by blast
  then show ?thesis using assms(3) unfolding engine_rel_def by blast
qed

end
