(* ===== verification/PriceTimePriority.thy ===== *)
theory PriceTimePriority
  imports TradingRules
begin

text \<open>
  Price-time priority as a relation between the resting orders before a match, the fills and the
  orders that remain, stated without the code's tests and loop, and the proof that the abstract
  sweep satisfies it. At the end, how an order in the gap of \<open>add_price_level\<close> crosses the book.
\<close>

section \<open>Fills\<close>

text \<open>
  Fills \<open>fs\<close> pair a resting order, as it was before the match, with the quantity taken from it.
  The orders \<open>xs\<close> are filled in turn: some orders from the front completely, so that they are
  gone, and then either nothing more, or one order in part, which stays in front of the others
  with the rest of its quantity; then nothing is left of the incoming order.
\<close>

definition full_fill :: "order_info \<Rightarrow> order_info \<times> quantity_t" where
  "full_fill x = (x, o_qty x)"

definition filled_in_turn :: "order_info list \<Rightarrow> (order_info \<times> quantity_t) list \<Rightarrow> quantity_t \<Rightarrow> order_info list \<Rightarrow> bool" where
  "filled_in_turn xs fs left ys \<longleftrightarrow>
     (\<exists>pre. xs = pre @ ys \<and> fs = map full_fill pre) \<or>
     (left = 0 \<and> (\<exists>pre x m rest. xs = pre @ x # rest \<and> 0 < m \<and> m < o_qty x \<and>
        fs = map full_fill pre @ [(x, m)] \<and> ys = x\<lparr>o_qty := o_qty x - m\<rparr> # rest))"

definition filled_quantity :: "(order_info \<times> quantity_t) list \<Rightarrow> nat" where
  "filled_quantity fs = sum_list (map (unat \<circ> snd) fs)"

lemma filled_quantity_simps [simp]:
  "filled_quantity [] = 0" "filled_quantity ((x, m) # fs) = unat m + filled_quantity fs"
  by (simp_all add: filled_quantity_def)

text \<open>
  The messages about fills: a trade at the resting order's price for each, and to both clients a
  response with that price and quantity.
\<close>

definition announces :: "client_id_t \<Rightarrow> order_id_t \<Rightarrow> (order_info \<times> quantity_t) list \<Rightarrow> out_msg list \<Rightarrow> bool" where
  "announces cid coid fs ms \<longleftrightarrow>
     map (\<lambda>u. (mu_price u, mu_qty u)) (filter (\<lambda>u. mu_type u = MU_TRADE) (updates_of ms)) =
       map (\<lambda>(x, m). (o_price x, m)) fs \<and>
     map (\<lambda>r. (rs_type r, rs_client_id r, rs_client_order_id r, rs_price r, rs_exec_qty r)) (responses_of ms) =
       concat (map (\<lambda>(x, m). [(FILLED, cid, coid, o_price x, m),
         (FILLED, o_client_id x, o_client_order_id x, o_price x, m)]) fs)"

lemma announces_Nil [simp]: "announces cid coid [] []"
  by (simp add: announces_def)

lemma announces_match:
  "announces cid coid fs ms \<Longrightarrow> announces cid coid ((x, min l (o_qty x)) # fs) (match_msgs i cid sd coid moid l x @ ms)"
  by (simp add: announces_def match_msgs_def Let_def)

text \<open>The incoming order stops when it is filled, or before an order whose price it does not accept.\<close>

definition stops_rightly :: "side_t \<Rightarrow> price_t \<Rightarrow> quantity_t \<Rightarrow> order_info list \<Rightarrow> bool" where
  "stops_rightly sd price left ys \<longleftrightarrow> left = 0 \<or> (case ys of [] \<Rightarrow> True | y # _ \<Rightarrow> \<not> acceptable sd (o_price y) price)"

definition fills_acceptable :: "side_t \<Rightarrow> price_t \<Rightarrow> (order_info \<times> quantity_t) list \<Rightarrow> bool" where
  "fills_acceptable sd price fs \<longleftrightarrow> list_all (\<lambda>(x, m). acceptable sd (o_price x) price) fs"

section \<open>The sweep fills in turn\<close>

definition no_empty_level :: "level list \<Rightarrow> bool" where
  "no_empty_level L \<longleftrightarrow> list_all (\<lambda>(p, xs). xs \<noteq> []) L"

lemma no_empty_level_simps [simp]:
  "no_empty_level ((p, xs) # L) \<longleftrightarrow> xs \<noteq> [] \<and> no_empty_level L"
  "no_empty_level (keep_level p xs @ L) \<longleftrightarrow> no_empty_level L"
  by (auto simp: no_empty_level_def keep_level_def)

lemma filled_in_turn_fullI: "xs = pre @ ys \<Longrightarrow> fs = map full_fill pre \<Longrightarrow> filled_in_turn xs fs left ys"
  unfolding filled_in_turn_def by (rule disjI1) (rule exI [of _ pre], rule conjI)

lemma filled_in_turn_partI:
  "xs = pre @ x # rest \<Longrightarrow> 0 < m \<Longrightarrow> m < o_qty x \<Longrightarrow> fs = map full_fill pre @ [(x, m)] \<Longrightarrow>
    ys = x\<lparr>o_qty := o_qty x - m\<rparr> # rest \<Longrightarrow> filled_in_turn xs fs 0 ys"
  unfolding filled_in_turn_def
  by (intro disjI2 conjI refl exI [of _ pre] exI [of _ x] exI [of _ m] exI [of _ rest])

lemma filled_in_turn_full:
  assumes "filled_in_turn xs fs left ys"
  shows "filled_in_turn (x # xs) (full_fill x # fs) left ys"
  using assms unfolding filled_in_turn_def [of xs]
proof (elim disjE exE conjE)
  fix pre assume "xs = pre @ ys" "fs = map full_fill pre"
  then show "filled_in_turn (x # xs) (full_fill x # fs) left ys"
    by (intro filled_in_turn_fullI [of _ "x # pre"]) simp_all
next
  fix pre y m rest
  assume a: "left = 0" "xs = pre @ y # rest" "0 < m" "m < o_qty y" "fs = map full_fill pre @ [(y, m)]"
    "ys = y\<lparr>o_qty := o_qty y - m\<rparr> # rest"
  show "filled_in_turn (x # xs) (full_fill x # fs) left ys"
    unfolding a(1) by (rule filled_in_turn_partI [of _ "x # pre", OF _ a(3,4)]) (simp_all add: a(2,5,6))
qed

lemma filled_in_turn_part:
  "0 < m \<Longrightarrow> m < o_qty x \<Longrightarrow> filled_in_turn (x # xs) [(x, m)] 0 (x\<lparr>o_qty := o_qty x - m\<rparr> # xs)"
  by (rule filled_in_turn_partI [of _ "[]"]) simp_all

lemma stop_rightly:
  assumes "sweep_done sd price left L" and "no_empty_level L"
  shows "stops_rightly sd price left (level_orders L)"
proof (cases L)
  case (Cons l K)
  then obtain p x xs where "l = (p, x # xs)" using assms(2) by (cases l; cases "snd l") auto
  then show ?thesis using assms(1) Cons by (auto simp: stops_rightly_def too_far_acceptable)
qed (simp add: stops_rightly_def)

lemma sweep_in_turn:
  "a_sweep i cid coid moid sd price qty L = (left, L', ms) \<Longrightarrow> no_empty_level L \<longrightarrow>
    (qty = 0 \<longrightarrow> left = 0 \<and> L' = L \<and> ms = []) \<and> no_empty_level L' \<and>
    (\<exists>fs. filled_in_turn (level_orders L) fs left (level_orders L') \<and> unat qty = unat left + filled_quantity fs \<and>
      fills_acceptable sd price fs \<and> stops_rightly sd price left (level_orders L') \<and> announces cid coid fs ms)"
proof (induction rule: sweep_induct)
  case (stop qty L)
  show ?case
  proof (intro impI conjI refl exI [of _ "[]"])
    assume ne: "no_empty_level L"
    show "filled_in_turn (level_orders L) [] qty (level_orders L)" by (simp add: filled_in_turn_def)
    show "stops_rightly sd price qty (level_orders L)" by (rule stop_rightly [OF stop ne])
  qed (simp_all add: fills_acceptable_def)
next
  case (step qty p x xs L left L' ms m)
  have acc: "acceptable sd (o_price x) price" using step.hyps(2) by (simp add: too_far_acceptable)
  show ?case
  proof (rule impI)
    assume "no_empty_level ((p, x # xs) # L)"
    then have "no_empty_level (after_match m p x xs L)" by (auto simp: after_match_def)
    then obtain fs where ih: "qty - m = 0 \<Longrightarrow> left = 0 \<and> L' = after_match m p x xs L \<and> ms = []" "no_empty_level L'"
      "filled_in_turn (level_orders (after_match m p x xs L)) fs left (level_orders L')"
      "unat (qty - m) = unat left + filled_quantity fs" "fills_acceptable sd price fs"
      "stops_rightly sd price left (level_orders L')" "announces cid coid fs ms"
      using step.IH by blast
    have q: "unat qty = unat m + unat (qty - m)" using step.hyps(3) unat_min_diff(1,3) [of qty "o_qty x"] by simp
    have "\<exists>fs. filled_in_turn (x # level_orders ((p, xs) # L)) fs left (level_orders L') \<and>
        unat qty = unat left + filled_quantity fs \<and> fills_acceptable sd price fs \<and>
        announces cid coid fs (match_msgs i cid sd coid moid qty x @ ms)"
    proof (cases "o_qty x = m")
      case True
      then have "filled_in_turn (x # level_orders ((p, xs) # L)) (full_fill x # fs) left (level_orders L')"
        using filled_in_turn_full [OF ih(3)] by (simp add: after_match_def)
      moreover have "announces cid coid (full_fill x # fs) (match_msgs i cid sd coid moid qty x @ ms)"
        using announces_match [OF ih(7), of x qty i sd moid, folded step.hyps(3)] by (simp only: full_fill_def True)
      moreover have "unat qty = unat left + filled_quantity (full_fill x # fs)"
        using q ih(4) by (simp add: full_fill_def True)
      moreover have "fills_acceptable sd price (full_fill x # fs)"
        using ih(5) acc by (simp add: full_fill_def fills_acceptable_def)
      ultimately show ?thesis by blast
    next
      case False
      then have "m = qty" using partial_match [of "o_qty x" qty] step.hyps(3) by simp
      moreover have "m \<le> o_qty x" by (simp add: step.hyps(3))
      then have "qty < o_qty x" using False \<open>m = qty\<close> by (simp add: order_less_le)
      moreover have "0 < qty" using step.hyps(1) by (simp add: word_neq_0_conv)
      ultimately have m: "qty - m = 0" "m < o_qty x" "0 < m" "m = qty" by simp_all
      have r: "left = 0" "L' = (p, x\<lparr>o_qty := o_qty x - m\<rparr> # xs) # L" "ms = []"
        using ih(1) [OF m(1)] False by (simp_all add: after_match_def)
      have "filled_in_turn (x # level_orders ((p, xs) # L)) [(x, m)] 0 (level_orders L')"
        using filled_in_turn_part [OF m(3,2)] by (simp add: r(2))
      moreover have "announces cid coid [(x, m)] (match_msgs i cid sd coid moid qty x @ ms)"
        using announces_match [OF announces_Nil, of cid coid x qty i sd moid, folded step.hyps(3)] by (simp only: r(3))
      moreover have "unat qty = unat left + filled_quantity [(x, m)]" by (simp add: r(1) m(4))
      moreover have "fills_acceptable sd price [(x, m)]" using acc by (simp add: fills_acceptable_def)
      ultimately show ?thesis unfolding r(1) by blast
    qed
    then show "(qty = 0 \<longrightarrow> left = 0 \<and> L' = (p, x # xs) # L \<and> match_msgs i cid sd coid moid qty x @ ms = []) \<and>
        no_empty_level L' \<and> (\<exists>fs. filled_in_turn (level_orders ((p, x # xs) # L)) fs left (level_orders L') \<and>
          unat qty = unat left + filled_quantity fs \<and> fills_acceptable sd price fs \<and>
          stops_rightly sd price left (level_orders L') \<and>
          announces cid coid fs (match_msgs i cid sd coid moid qty x @ ms))"
      using step.hyps(1) ih(2,6) by auto
  qed
qed

lemma book_rel_levels: "book_rel s G A \<Longrightarrow> no_empty_level (a_side b A)"
  unfolding book_rel_def book_ok_def lists_ok_def levels_ok_def no_empty_level_def
  by (fastforce simp: abs_levels_def list_all_iff)

lemma check_for_match_in_turn:
  assumes "book_rel s G A"
  obtains left s' G' A' ms fs where "check_for_match cid coid moid sd price qty s = Inr (left, s')"
    and "book_rel s' G' A'" and "message_handler s' = sends ms (message_handler s)"
    and "a_side (sd = BUY) A' = a_side (sd = BUY) A"
    and "filled_in_turn (level_orders (a_side (sd \<noteq> BUY) A)) fs left (level_orders (a_side (sd \<noteq> BUY) A'))"
    and "unat qty = unat left + filled_quantity fs" and "fills_acceptable sd price fs"
    and "stops_rightly sd price left (level_orders (a_side (sd \<noteq> BUY) A'))" and "announces cid coid fs ms"
proof -
  obtain left L ms s' G' where m: "a_sweep (a_instrument A) cid coid moid sd price qty (a_side (sd \<noteq> BUY) A) = (left, L, ms)"
    "check_for_match cid coid moid sd price qty s = Inr (left, s')"
    "book_rel s' G' (set_a_side (sd \<noteq> BUY) L A)" "message_handler s' = sends ms (message_handler s)"
    using check_for_match_obtain [OF assms] .
  then show thesis using that [OF m(2,3,4)] sweep_in_turn [OF m(1)] book_rel_levels [OF assms] by auto
qed

text \<open>The orders that fills name are those at the front, each at most once.\<close>

lemma filled_front: "filled_in_turn xs fs left ys \<Longrightarrow> map fst fs = take (length fs) xs"
  by (auto simp: filled_in_turn_def full_fill_def comp_def)

section \<open>An order that rests keeps its side in order\<close>

lemma comparison_key_side [simp]: "comparison_func p q (key_side (sd = BUY)) \<longleftrightarrow> comparison_func p q sd"
  by (simp add: comparison_func_def)

lemma sorted_by_levels: "sorted_by fst sd L = sorted_wrt (better sd) (map fst L)"
  by (simp add: sorted_by_def sorted_wrt_map)

lemma tidy_place:
  assumes t: "tidy (key_side (sd = BUY)) L" and c: "\<not> collides (o_price x) L"
    and gap: "o_price x \<in> fst ` set L \<or> \<not> tail_gap fst sd (o_price x, []) L"
  shows "tidy (key_side (sd = BUY)) (a_place sd x L)"
proof (cases "\<exists>(p, xs) \<in> set L. same_slot p (o_price x)")
  case True
  have own: "p = o_price x" if "(p, xs) \<in> set L" "same_slot p (o_price x)" for p xs
    using c that by (force simp: collides_def list_ex_iff)
  let ?f = "\<lambda>(p, xs). if same_slot p (o_price x) then (p, xs @ [x]) else (p, xs)"
  have "map fst (map ?f L) = map fst L" by (auto simp: case_prod_beta)
  then have "sorted_by fst (key_side (sd = BUY)) (map ?f L) = sorted_by fst (key_side (sd = BUY)) L"
    unfolding sorted_by_levels by (rule arg_cong)
  moreover have "list_all (\<lambda>(p, xs). xs \<noteq> [] \<and> list_all (\<lambda>x. o_price x = p) xs) (map ?f L)"
    unfolding list_all_iff set_map
  proof (intro ballI, elim imageE)
    fix k l assume l: "l \<in> set L" "k = ?f l"
    then have "snd l \<noteq> []" "\<forall>y \<in> set (snd l). o_price y = fst l"
      using t by (auto simp: tidy_def list_all_iff)
    then show "case k of (p, xs) \<Rightarrow> xs \<noteq> [] \<and> (\<forall>x \<in> set xs. o_price x = p)"
      using own [of "fst l" "snd l"] l by (auto simp: case_prod_beta)
  qed
  moreover have "a_place sd x L = map ?f L" using True by (simp only: a_place_def if_True)
  ultimately show ?thesis using t by (simp add: tidy_def)
next
  case False
  have none: "o_price x \<notin> fst ` set L" using False by (auto simp: same_slot_def)
  have s: "sorted_by fst sd = sorted_by fst (key_side (sd = BUY))" by (simp add: sorted_by_def fun_eq_iff)
  have "sorted_by fst sd (slot_insert fst sd (o_price x, [x]) L) \<longleftrightarrow> \<not> tail_gap fst sd (o_price x, []) L"
    using sorted_slot_insert [of fst sd L "(o_price x, [x])"] t none by (simp add: tidy_def s tail_gap_def)
  moreover have "a_place sd x L = slot_insert fst sd (o_price x, [x]) L" using False by (simp add: a_place_def)
  ultimately show ?thesis using t gap none by (auto simp: tidy_def s list_all_iff)
qed

text \<open>The order that rests for the quantity \<open>left\<close>, and the two sides after \<open>add\<close>.\<close>

definition resting_order :: "client_id_t \<Rightarrow> order_id_t \<Rightarrow> side_t \<Rightarrow> price_t \<Rightarrow> quantity_t \<Rightarrow> abook \<Rightarrow> order_info" where
  "resting_order cid coid sd price left A = \<lparr>o_instrument_id = a_instrument A, o_client_id = cid, o_client_order_id = coid,
     o_market_order_id = a_next_id A, o_side = sd, o_price = price, o_qty = left,
     o_priority = a_priority price (a_side (sd = BUY) A)\<rparr>"

lemma resting_order_price [simp]: "o_price (resting_order cid coid sd price left A) = price"
  by (simp add: resting_order_def)

lemma a_add_sides:
  assumes "a_sweep (a_instrument A) cid coid (a_next_id A) sd price qty (a_side (sd \<noteq> BUY) A) = (left, L, ns)"
    and "a_add cid coid sd price qty A = (A', ms)"
  shows "a_side (sd \<noteq> BUY) A' = L"
    and "a_side (sd = BUY) A' = (if left = 0 then a_side (sd = BUY) A
      else a_place sd (resting_order cid coid sd price left A) (a_side (sd = BUY) A))"
proof -
  have e: "A' = fst (a_add cid coid sd price qty A)" using assms(2) by simp
  show "a_side (sd \<noteq> BUY) A' = L" by (simp add: e a_add_def Let_def assms(1))
  show "a_side (sd = BUY) A' = (if left = 0 then a_side (sd = BUY) A
      else a_place sd (resting_order cid coid sd price left A) (a_side (sd = BUY) A))"
    by (simp add: e a_add_def Let_def assms(1) resting_order_def word_neq_0_conv)
qed

lemma a_add_tidy:
  assumes t: "tidy (key_side (sd = BUY)) (a_side (sd = BUY) A)" "tidy (key_side (sd \<noteq> BUY)) (a_side (sd \<noteq> BUY) A)"
    and c: "\<not> collides price (a_side (sd = BUY) A)" and A': "a_add cid coid sd price qty A = (A', ms)"
  shows "tidy (key_side (sd \<noteq> BUY)) (a_side (sd \<noteq> BUY) A')"
    and "price \<in> fst ` set (a_side (sd = BUY) A) \<or> \<not> tail_gap fst sd (price, []) (a_side (sd = BUY) A) \<Longrightarrow>
      tidy (key_side (sd = BUY)) (a_side (sd = BUY) A')"
proof -
  obtain left L ns where sw: "a_sweep (a_instrument A) cid coid (a_next_id A) sd price qty (a_side (sd \<noteq> BUY) A) = (left, L, ns)"
    by (metis prod_cases3)
  note sides = a_add_sides [OF sw A']
  show "tidy (key_side (sd \<noteq> BUY)) (a_side (sd \<noteq> BUY) A')"
    unfolding sides(1) by (rule sweep_tidy [OF sw, THEN conjunct1, THEN mp, OF t(2)])
  assume "price \<in> fst ` set (a_side (sd = BUY) A) \<or> \<not> tail_gap fst sd (price, []) (a_side (sd = BUY) A)"
  then show "tidy (key_side (sd = BUY)) (a_side (sd = BUY) A')"
    unfolding sides(2) using t(1) c tidy_place [OF t(1), of "resting_order cid coid sd price left A"]
    by (cases "left = 0") (simp_all only: resting_order_price if_True if_False simp_thms)
qed

section \<open>The gap crosses the book\<close>

lemma slot_tail_last:
  "\<forall>y \<in> set (butlast L). \<not> comparison_func (key x) (key y) sd \<Longrightarrow> slot_tail key sd x L = L @ [x]"
  by (induction key sd x L rule: slot_tail.induct) auto

lemma slot_insert_gap:
  assumes "sorted_by key sd L" and "tail_gap key sd x L"
  shows "slot_insert key sd x L = L @ [x]"
proof -
  obtain K z where L: "L = K @ [z]" "2 \<le> length K" using assms(2)
    by (cases L rule: rev_cases) (auto simp: tail_gap_def)
  then obtain b y ys where K: "K = b # y # ys" by (metis Suc_le_length_iff numeral_2_eq_2)
  have "\<not> comparison_func (key x) (key w) sd" if w: "w \<in> set K" for w
  proof
    assume c: "comparison_func (key x) (key w) sd"
    obtain M l where M: "K = M @ [l]" using K rev_exhaust [of K] by blast
    have "\<not> comparison_func (key x) (key l) sd" using assms(2) by (simp add: tail_gap_def L M butlast_append)
    moreover have "w = l \<or> comparison_func (key w) (key l) sd" using w assms(1) by (auto simp: L M sorted_by_append)
    ultimately show False using c comparison_trans [OF c] by blast
  qed
  then show ?thesis using slot_tail_last [of "ys @ [z]" key x sd] unfolding L K by simp
qed

lemma sweep_until:
  assumes "list_all (\<lambda>x. acceptable sd (o_price x) price) (level_orders K)" and "no_empty_level K"
    and "resting K < unat qty" and "\<not> acceptable sd (o_price y) price"
  shows "\<exists>left ms. a_sweep i cid coid moid sd price qty (K @ (q, y # ys) # M) = (left, (q, y # ys) # M, ms) \<and> left \<noteq> 0"
  using assms
proof (induction "length (level_orders K)" arbitrary: K qty)
  case 0
  then have "K = []" by (cases K) auto
  then show ?case using "0.prems"(3,4) by (auto simp: a_sweep.simps(3) too_far_acceptable)
next
  case (Suc n)
  then obtain p x xs K' where K: "K = (p, x # xs) # K'"
    by (cases K; cases "snd (hd K)") auto
  have le: "unat (o_qty x) < unat qty" "qty \<noteq> 0" using Suc.prems(3) by (auto simp: K)
  then have m: "min qty (o_qty x) = o_qty x" by (simp add: min_def word_le_nat_alt)
  have "unat (qty - o_qty x) = unat qty - unat (o_qty x)" using unat_min_diff(1) [of qty "o_qty x"] m by simp
  then have "\<exists>left ms. a_sweep i cid coid moid sd price (qty - o_qty x) ((keep_level p xs @ K') @ (q, y # ys) # M) =
      (left, (q, y # ys) # M, ms) \<and> left \<noteq> 0"
    by (intro Suc.hyps(1)) (use Suc.hyps(2) Suc.prems in \<open>simp_all add: K\<close>)
  moreover have "acceptable sd (o_price x) price" using Suc.prems(1) by (simp add: K)
  ultimately show ?case using le(2) m by (auto simp: K a_sweep.simps(3) too_far_acceptable Let_def)
qed

lemma sweep_untouched:
  assumes "tidy (key_side b) L" and "\<forall>q \<in> fst ` set L. \<not> acceptable sd q price"
  shows "a_sweep i cid coid moid sd price qty L = (qty, L, [])"
proof (cases L)
  case (Cons l K)
  then obtain p x xs where l: "l = (p, x # xs)" "o_price x = p"
    using assms(1) by (cases l; cases "snd l") (auto simp: tidy_def)
  then show ?thesis using assms(2) by (simp add: Cons a_sweep.simps(3) too_far_acceptable)
qed simp

text \<open>
  An order \<open>x\<close> that rests in the gap stands behind the last level of its side. An order of the
  other side at a price that accepts \<open>x\<close> but not the last level, for more than the levels before
  it hold, stops at that level and rests: bid and ask have crossed.
\<close>

lemma a_gap_crosses:
  assumes sd: "sd \<in> {BUY, SELL}" and sd': "sd' = key_side (sd \<noteq> BUY)" and un: "uncrossed A"
    and t: "tidy (key_side (sd = BUY)) (a_side (sd = BUY) A)" "tidy (key_side (sd \<noteq> BUY)) (a_side (sd \<noteq> BUY) A)"
    and gap: "tail_gap fst sd (price, []) (a_side (sd = BUY) A)"
    and new: "list_all (\<lambda>(p, xs). \<not> same_slot p price) (a_side (sd = BUY) A)"
    and qty: "qty \<noteq> 0" and rests: "\<forall>q \<in> fst ` set (a_side (sd \<noteq> BUY) A). \<not> acceptable sd q price"
    and price': "acceptable sd' price price'" "\<not> acceptable sd' (fst (last (a_side (sd = BUY) A))) price'"
    and new': "\<not> collides price' (a_side (sd \<noteq> BUY) A)"
    and qty': "resting (butlast (a_side (sd = BUY) A)) < unat qty'"
    and A1: "a_add cid coid sd price qty A = (A1, ms)" and A2: "a_add cid' coid' sd' price' qty' A1 = (A2, ms')"
  shows "\<exists>xs. a_side (sd = BUY) A1 = a_side (sd = BUY) A @ [(price, xs)]" and "uncrossed A1"
    and "price \<in> fst ` set (a_side (sd = BUY) A2)" and "price' \<in> fst ` set (a_side (sd \<noteq> BUY) A2)" and "\<not> uncrossed A2"
proof -
  let ?L = "a_side (sd = BUY) A" and ?O = "a_side (sd \<noteq> BUY) A" and ?x = "resting_order cid coid sd price qty A"
  have e: "key_side (sd = BUY) = sd" "sd' = BUY \<longleftrightarrow> sd \<noteq> BUY" using sd sd' by auto
  note side1 = a_add_sides [OF sweep_untouched [OF t(2) rests] A1]
  have none: "\<not> (\<exists>(p, xs) \<in> set ?L. same_slot p (o_price ?x))" using new by (auto simp: list_all_iff)
  have "slot_insert fst sd (price, [?x]) ?L = ?L @ [(price, [?x])]"
    using t(1) gap unfolding e(1) tidy_def by (intro slot_insert_gap) (auto simp: tail_gap_def)
  then have own: "a_side (sd = BUY) A1 = ?L @ [(price, [?x])]"
    using side1(2) qty none by (simp add: a_place_def)
  show "\<exists>xs. a_side (sd = BUY) A1 = ?L @ [(price, xs)]" using own by blast
  have levels: "fst ` set (a_side (sd = BUY) A1) = insert price (fst ` set ?L)" by (auto simp: own)
  show "uncrossed A1" unfolding uncrossed_side [of A1 "sd = BUY"] levels side1(1)
  proof (intro ballI)
    fix p q assume p: "p \<in> insert price (fst ` set ?L)" and q: "q \<in> fst ` set ?O"
    show "if sd = BUY then sint p < sint q else sint q < sint p"
    proof (cases "p = price")
      case True
      then show ?thesis using bspec [OF rests q] by (simp add: acceptable_def split: if_splits)
    next
      case False
      then show ?thesis using un [unfolded uncrossed_side [of A "sd = BUY"]] p q by blast
    qed
  qed
  obtain K q ys where L: "?L = K @ [(q, ys)]" using gap
    by (cases ?L rule: rev_exhaust) (auto simp: tail_gap_def)
  obtain y zs where ys: "ys = y # zs" "o_price y = q" using t(1) by (cases ys) (auto simp: tidy_def L)
  have acc: "acceptable sd' p price'" if "p \<in> fst ` set K" for p
  proof -
    have "K \<noteq> []" using gap by (auto simp: tail_gap_def L)
    then obtain M l where M: "K = M @ [l]" using rev_exhaust [of K] by blast
    have "p = fst l \<or> better sd p (fst l)" using that t(1) unfolding e(1) by (auto simp: tidy_def L M sorted_by_append)
    moreover have "fst l \<noteq> price" using new by (auto simp: L M same_slot_def)
    then have "better sd (fst l) price"
      using gap comparison_total [of "fst l" price sd] by (auto simp: tail_gap_def L M butlast_append)
    ultimately have "better sd p price" using comparison_trans by auto
    then show ?thesis using price'(1) sd sd' by (auto simp: better_def acceptable_def simp del: better_comparison)
  qed
  have "list_all (\<lambda>x. acceptable sd' (o_price x) price') (level_orders K)"
    unfolding list_all_iff
  proof
    fix x assume "x \<in> set (level_orders K)"
    then obtain l where l: "l \<in> set K" "x \<in> set (snd l)" by auto
    then have "o_price x = fst l" using t(1) by (auto simp: tidy_def L list_all_iff)
    then show "acceptable sd' (o_price x) price'" using acc l(1) by simp
  qed
  moreover have "no_empty_level K" using t(1) by (auto simp: tidy_def L no_empty_level_def list_all_iff)
  ultimately obtain left ns where sw: "a_sweep (a_instrument A1) cid' coid' (a_next_id A1) sd' price' qty' (a_side (sd' \<noteq> BUY) A1) =
      (left, [(q, y # zs), (price, [?x])], ns)" and left: "left \<noteq> 0"
    using sweep_until [of sd' price' K qty' y "a_instrument A1" cid' coid' "a_next_id A1" q zs "[(price, [?x])]"]
      qty' price'(2) own by (auto simp: L ys e(2))
  note side2 = a_add_sides [OF sw A2]
  show p: "price \<in> fst ` set (a_side (sd = BUY) A2)" using side2(1) e(2) by simp
  show p': "price' \<in> fst ` set (a_side (sd \<noteq> BUY) A2)"
    using side2(2) left e(2) side1(1) new' a_place_levels [of "resting_order cid' coid' sd' price' left A1" ?O sd'] by simp
  show "\<not> uncrossed A2"
  proof
    assume "uncrossed A2"
    then have "if sd = BUY then sint price < sint price' else sint price' < sint price"
      unfolding uncrossed_side [of A2 "sd = BUY"] using p p' by blast
    then show False using price'(1) sd sd' by (auto simp: acceptable_def)
  qed
qed

end
