(* ===== verification/BookProperties.thy ===== *)
theory BookProperties
  imports PriceTimePriority
begin

text \<open>
  The properties of the order book and of the matching engine, stated of the code's operations
  on any heap state \<open>s\<close> that represents an abstract book \<open>A\<close> (\<open>book_rel\<close>), with the
  instances that show their hypotheses can hold.
\<close>

section \<open>Requests of the instances\<close>

definition new_request :: "side_t \<Rightarrow> order_id_t \<Rightarrow> price_t \<Rightarrow> quantity_t \<Rightarrow> client_request_internal" where
  "new_request sd oid p q = \<lparr>rq_type = REQ_NEW, rq_client_id = 1, rq_instrument_id = 0,
     rq_order_id = oid, rq_side = sd, rq_price = p, rq_qty = q\<rparr>"

text \<open>Asks of five at 10, 20 and 30 and a bid of five at 5.\<close>

definition four_orders :: "client_request_internal list" where
  "four_orders = [new_request SELL 0 10 5, new_request SELL 1 20 5, new_request SELL 2 30 5,
     new_request BUY 3 5 5]"

definition four_order_book :: abook where
  "four_order_book = fst (a_run four_orders a_engine_init) ! 0"

lemma four_order_book_rel: "\<exists>s G. book_rel s G four_order_book"
  unfolding four_order_book_def by (rule book_from_requests [OF _ refl]) code_simp+

section \<open>Refinement\<close>

text \<open>
  C1: \<open>add\<close> refines the abstract book: an admissible order is accepted, matched and, with what is
  left, put into the book, without any failure, and the messages sent are the abstract ones in
  their order.
\<close>

theorem add_refines:
  assumes "book_rel s G A" and "add_admissible cid coid sd price qty A"
  shows "\<exists>s' G'. ob_add cid coid sd price qty s = Inr s' \<and>
    book_rel s' G' (fst (a_add cid coid sd price qty A)) \<and>
    message_handler s' = sends (snd (a_add cid coid sd price qty A)) (message_handler s)"
  using ob_add_ok [OF assms surjective_pairing] .

theorem add_refines_witness:
  "\<exists>s s' G'. ob_add 2 7 BUY 25 12 s = Inr s' \<and> book_rel s' G' (fst (a_add 2 7 BUY 25 12 four_order_book)) \<and>
    message_handler s' = sends (snd (a_add 2 7 BUY 25 12 four_order_book)) (message_handler s)"
proof -
  obtain s G where r: "book_rel s G four_order_book" using four_order_book_rel by blast
  have "add_admissible 2 7 BUY 25 12 four_order_book" by code_simp
  from add_refines [OF r this] show ?thesis by blast
qed

text \<open>
  C2: \<open>cancel\<close> refines the abstract book, for every client, as long as the order identifier of a
  known client is inside its vector.
\<close>

theorem cancel_refines:
  assumes "book_rel s G A" and "lookup_admissible cid coid"
  shows "\<exists>s' G'. ob_cancel cid coid s = Inr s' \<and> book_rel s' G' (fst (a_cancel cid coid A)) \<and>
    message_handler s' = sends (snd (a_cancel cid coid A)) (message_handler s)"
  using ob_cancel_ok [OF assms surjective_pairing] by blast

theorem cancel_refines_witness:
  "\<exists>s s' G'. ob_cancel 1 1 s = Inr s' \<and> book_rel s' G' (fst (a_cancel 1 1 four_order_book)) \<and>
    message_handler s' = sends (snd (a_cancel 1 1 four_order_book)) (message_handler s)"
proof -
  obtain s G where r: "book_rel s G four_order_book" using four_order_book_rel by blast
  have "lookup_admissible 1 1" by code_simp
  from cancel_refines [OF r this] show ?thesis by blast
qed

text \<open>
  C3: \<open>modify\<close> refines the abstract book, in place or by cancelling and adding, for every client, as
  long as the order identifier of a known client is inside its vector and an order that has to be
  cancelled and added again is admissible for \<open>add\<close> at its new price and quantity.
\<close>

theorem modify_refines:
  assumes "book_rel s G A" and "modify_admissible cid coid price qty A"
  shows "\<exists>s' G'. ob_modify cid coid price qty s = Inr s' \<and>
    book_rel s' G' (fst (a_modify cid coid price qty A)) \<and>
    message_handler s' = sends (snd (a_modify cid coid price qty A)) (message_handler s)"
  using ob_modify_ok [OF assms surjective_pairing] .

theorem modify_refines_witness:
  "\<exists>s s' G'. ob_modify 1 0 15 9 s = Inr s' \<and> book_rel s' G' (fst (a_modify 1 0 15 9 four_order_book)) \<and>
    message_handler s' = sends (snd (a_modify 1 0 15 9 four_order_book)) (message_handler s)"
proof -
  obtain s G where r: "book_rel s G four_order_book" using four_order_book_rel by blast
  have "modify_admissible 1 0 15 9 four_order_book" by code_simp
  from modify_refines [OF r this] show ?thesis by blast
qed

section \<open>Matching\<close>

text \<open>
  C4: matching conserves quantity: the incoming quantity is what is left of it and what the trade
  messages report, and the opposite side loses exactly what is reported.
\<close>

theorem match_conserves_quantity:
  assumes "book_rel s G A"
  shows "\<exists>left s' G' A' ms. check_for_match cid coid moid sd price qty s = Inr (left, s') \<and>
    book_rel s' G' A' \<and> message_handler s' = sends ms (message_handler s) \<and>
    unat qty = unat left + traded ms \<and>
    resting (a_side (sd \<noteq> BUY) A) = resting (a_side (sd \<noteq> BUY) A') + traded ms \<and>
    a_side (sd = BUY) A' = a_side (sd = BUY) A"
proof -
  obtain left L ms s' G' where m: "a_sweep (a_instrument A) cid coid moid sd price qty (a_side (sd \<noteq> BUY) A) = (left, L, ms)"
    "check_for_match cid coid moid sd price qty s = Inr (left, s')"
    "book_rel s' G' (set_a_side (sd \<noteq> BUY) L A)" "message_handler s' = sends ms (message_handler s)"
    using check_for_match_obtain [OF assms] .
  with sweep_conserves [OF m(1)] show ?thesis
    by (intro exI [of _ left] exI [of _ s'] exI [of _ G'] exI [of _ "set_a_side (sd \<noteq> BUY) L A"] exI [of _ ms]) simp
qed

theorem match_conserves_quantity_witness:
  "\<exists>s left s' G' A' ms. check_for_match 2 7 9 BUY 25 12 s = Inr (left, s') \<and>
    book_rel s' G' A' \<and> message_handler s' = sends ms (message_handler s) \<and>
    unat (12 :: quantity_t) = unat left + traded ms \<and>
    resting (a_side (BUY \<noteq> BUY) four_order_book) = resting (a_side (BUY \<noteq> BUY) A') + traded ms \<and>
    a_side (BUY = BUY) A' = a_side (BUY = BUY) four_order_book"
proof -
  obtain s G where r: "book_rel s G four_order_book" using four_order_book_rel by blast
  from match_conserves_quantity [OF r, of 2 7 9 BUY 25 12] show ?thesis by blast
qed

text \<open>
  C5: no fill is at a price worse than the incoming order's limit. The fills are of the orders at
  the front of the opposite side, each at that order's own price, as reported in the trades and to
  both clients; each of these prices is at most the limit of a buyer and at least that of a
  seller; and matching stops only when the order is filled, the opposite side is empty, or its
  first order's price is not acceptable.
\<close>

theorem match_respects_limit:
  assumes "book_rel s G A"
  shows "\<exists>left s' G' A' ms fs. check_for_match cid coid moid sd price qty s = Inr (left, s') \<and>
    book_rel s' G' A' \<and> message_handler s' = sends ms (message_handler s) \<and> announces cid coid fs ms \<and>
    map fst fs = take (length fs) (level_orders (a_side (sd \<noteq> BUY) A)) \<and>
    fills_acceptable sd price fs \<and> stops_rightly sd price left (level_orders (a_side (sd \<noteq> BUY) A'))"
proof -
  obtain left s' G' A' ms fs where m: "check_for_match cid coid moid sd price qty s = Inr (left, s')" "book_rel s' G' A'"
    "message_handler s' = sends ms (message_handler s)"
    "filled_in_turn (level_orders (a_side (sd \<noteq> BUY) A)) fs left (level_orders (a_side (sd \<noteq> BUY) A'))"
    "fills_acceptable sd price fs" "stops_rightly sd price left (level_orders (a_side (sd \<noteq> BUY) A'))" "announces cid coid fs ms"
    using check_for_match_in_turn [OF assms] .
  with filled_front [OF m(4)] show ?thesis by blast
qed

theorem match_respects_limit_witness:
  "\<exists>s left s' G' A' ms fs. check_for_match 2 7 9 BUY 25 12 s = Inr (left, s') \<and>
    book_rel s' G' A' \<and> message_handler s' = sends ms (message_handler s) \<and> announces 2 7 fs ms \<and>
    map fst fs = take (length fs) (level_orders (a_asks four_order_book)) \<and>
    fills_acceptable BUY 25 fs \<and> stops_rightly BUY 25 left (level_orders (a_asks A'))"
proof -
  obtain s G where r: "book_rel s G four_order_book" using four_order_book_rel by blast
  from match_respects_limit [OF r, of 2 7 9 BUY 25 12] show ?thesis by (simp add: a_side_def) blast
qed

text \<open>
  C6: resting orders are filled strictly in turn: some from the front completely, with exactly
  their quantity, after which they are gone; then at most one in part, which stays with its
  quantity reduced by exactly what it gave, and only if nothing is left of the incoming order;
  the rest of the opposite side and the whole own side are as before. The quantities given add up
  to what the incoming order lost, and each fill is announced to both clients and the market.
\<close>

theorem match_front_first:
  assumes "book_rel s G A"
  shows "\<exists>left s' G' A' ms fs. check_for_match cid coid moid sd price qty s = Inr (left, s') \<and>
    book_rel s' G' A' \<and> message_handler s' = sends ms (message_handler s) \<and> announces cid coid fs ms \<and>
    filled_in_turn (level_orders (a_side (sd \<noteq> BUY) A)) fs left (level_orders (a_side (sd \<noteq> BUY) A')) \<and>
    unat qty = unat left + filled_quantity fs \<and> a_side (sd = BUY) A' = a_side (sd = BUY) A"
proof -
  obtain left s' G' A' ms fs where m: "check_for_match cid coid moid sd price qty s = Inr (left, s')" "book_rel s' G' A'"
    "message_handler s' = sends ms (message_handler s)" "a_side (sd = BUY) A' = a_side (sd = BUY) A"
    "filled_in_turn (level_orders (a_side (sd \<noteq> BUY) A)) fs left (level_orders (a_side (sd \<noteq> BUY) A'))"
    "unat qty = unat left + filled_quantity fs" "announces cid coid fs ms"
    using check_for_match_in_turn [OF assms] .
  then show ?thesis by blast
qed

theorem match_front_first_witness:
  "\<exists>s left s' G' A' ms fs. check_for_match 2 7 9 BUY 25 7 s = Inr (left, s') \<and> book_rel s' G' A' \<and>
    message_handler s' = sends ms (message_handler s) \<and> announces 2 7 fs ms \<and>
    filled_in_turn (level_orders (a_asks four_order_book)) fs left (level_orders (a_asks A')) \<and>
    7 = unat left + filled_quantity fs \<and> a_bids A' = a_bids four_order_book"
proof -
  obtain s G where r: "book_rel s G four_order_book" using four_order_book_rel by blast
  from match_front_first [OF r, of 2 7 9 BUY 25 7] show ?thesis by (simp add: a_side_def) blast
qed

section \<open>Order of the book\<close>

text \<open>
  C7: a sorted, uncrossed book stays so. Let every bid be below every ask, both sides be in price
  order with orders of their level's price, and no other price of the own side share the new
  price's index slot. Then after an admissible order the book is uncrossed and the opposite side
  still in order; and so is the own side, if the new price already has a level or does not lie in
  the gap before the last of three or more levels.
\<close>

theorem add_keeps_sorted_uncrossed:
  assumes "book_rel s G A" and "add_admissible cid coid sd price qty A" and "uncrossed A"
    and "tidy (if sd = BUY then BUY else SELL) (a_side (sd = BUY) A)"
    and "tidy (if sd \<noteq> BUY then BUY else SELL) (a_side (sd \<noteq> BUY) A)"
    and "\<not> collides price (a_side (sd = BUY) A)"
  shows "\<exists>s' G' A'. ob_add cid coid sd price qty s = Inr s' \<and> book_rel s' G' A' \<and> uncrossed A' \<and>
    tidy (if sd \<noteq> BUY then BUY else SELL) (a_side (sd \<noteq> BUY) A') \<and>
    (price \<in> fst ` set (a_side (sd = BUY) A) \<or> \<not> tail_gap fst sd (price, []) (a_side (sd = BUY) A) \<longrightarrow>
      tidy (if sd = BUY then BUY else SELL) (a_side (sd = BUY) A'))"
proof -
  obtain A' ms where a: "a_add cid coid sd price qty A = (A', ms)" by fastforce
  from ob_add_ok [OF assms(1,2) a] a_add_uncrossed [OF assms(3,5,6) a] a_add_tidy [OF assms(4-6) a] show ?thesis by blast
qed

theorem add_keeps_sorted_uncrossed_witness:
  "\<exists>s s' G' A'. ob_add 2 7 BUY 25 12 s = Inr s' \<and> book_rel s' G' A' \<and> uncrossed A' \<and>
    tidy BUY (a_bids A') \<and> tidy SELL (a_asks A')"
proof -
  obtain s G where r: "book_rel s G four_order_book" using four_order_book_rel by blast
  have h: "add_admissible 2 7 BUY 25 12 four_order_book" "uncrossed four_order_book"
    "tidy (if BUY = BUY then BUY else SELL) (a_side (BUY = BUY) four_order_book)"
    "tidy (if BUY \<noteq> BUY then BUY else SELL) (a_side (BUY \<noteq> BUY) four_order_book)"
    "\<not> collides 25 (a_side (BUY = BUY) four_order_book)"
    unfolding tidy_def sorted_by_def by code_simp+
  have "\<not> tail_gap fst BUY (25, []) (a_side (BUY = BUY) four_order_book)" by code_simp
  with add_keeps_sorted_uncrossed [OF r h] show ?thesis by (simp add: a_side_def) blast
qed

text \<open>
  C8: where \<open>add_price_level\<close> puts a new level: a sorted side stays sorted exactly when the new
  price does not lie in the gap before the last of three or more levels.
\<close>

theorem new_level_sorted_iff:
  assumes "book_rel s G A" and "add_admissible cid coid sd price qty A"
    and "fst (a_sweep (a_instrument A) cid coid (a_next_id A) sd price qty (a_side (sd \<noteq> BUY) A)) \<noteq> 0"
    and "sorted_by fst sd (a_side (sd = BUY) A)"
    and "list_all (\<lambda>(p, xs). \<not> same_slot p price) (a_side (sd = BUY) A)"
  shows "\<exists>s' G' A'. ob_add cid coid sd price qty s = Inr s' \<and> book_rel s' G' A' \<and>
    (sorted_by fst sd (a_side (sd = BUY) A') \<longleftrightarrow> \<not> tail_gap fst sd (price, []) (a_side (sd = BUY) A))"
proof -
  obtain A' ms where a: "a_add cid coid sd price qty A = (A', ms)" by fastforce
  obtain left L ns where sw: "a_sweep (a_instrument A) cid coid (a_next_id A) sd price qty (a_side (sd \<noteq> BUY) A) = (left, L, ns)"
    by (metis prod_cases3)
  have e: "A' = fst (a_add cid coid sd price qty A)" using a by simp
  have none: "\<not> (\<exists>(p, xs) \<in> set (a_side (sd = BUY) A). same_slot p price)"
    using assms(5) by (auto simp: list_all_iff)
  have left: "0 < left" using assms(3) sw by (simp add: word_neq_0_conv)
  obtain xs where "a_side (sd = BUY) A' = slot_insert fst sd (price, xs) (a_side (sd = BUY) A)"
    using none left by (simp add: e a_add_def Let_def sw a_place_def)
  moreover have "fst (price, xs) \<notin> fst ` set (a_side (sd = BUY) A)"
    using none by (auto simp: same_slot_def)
  from sorted_slot_insert [OF assms(4) this]
  have "sorted_by fst sd (slot_insert fst sd (price, xs) (a_side (sd = BUY) A)) \<longleftrightarrow>
      \<not> tail_gap fst sd (price, []) (a_side (sd = BUY) A)" by (simp add: tail_gap_def)
  ultimately show ?thesis using ob_add_ok [OF assms(1,2) a] by metis
qed

theorem new_level_sorted_iff_witness:
  "\<exists>s s' G' A'. ob_add 2 7 SELL 25 5 s = Inr s' \<and> book_rel s' G' A' \<and> \<not> sorted_by fst SELL (a_side False A')"
proof -
  obtain s G where r: "book_rel s G four_order_book" using four_order_book_rel by blast
  have h: "add_admissible 2 7 SELL 25 5 four_order_book"
    "fst (a_sweep (a_instrument four_order_book) 2 7 (a_next_id four_order_book) SELL 25 5
       (a_side (SELL \<noteq> BUY) four_order_book)) \<noteq> 0"
    "sorted_by fst SELL (a_side (SELL = BUY) four_order_book)"
    "list_all (\<lambda>(p, xs). \<not> same_slot p 25) (a_side (SELL = BUY) four_order_book)"
    by (code_simp, code_simp, unfold sorted_by_def, code_simp+)
  have "tail_gap fst SELL (25, []) (a_side (SELL = BUY) four_order_book)" by code_simp
  with new_level_sorted_iff [OF r h] show ?thesis by auto
qed

text \<open>
  C9: price levels are queues. After an admissible order, what the opposite side lost are fills in
  turn at acceptable prices, and matching did not stop early; if anything is left of the order, it
  rests for exactly what is left at the end of the queue of its price's index slot; every other
  queue of its side, and every queue of its side if nothing is left, is as before.
\<close>

theorem add_joins_queue:
  assumes "book_rel s G A" and "add_admissible cid coid sd price qty A"
  shows "\<exists>s' G' A' left fs. ob_add cid coid sd price qty s = Inr s' \<and> book_rel s' G' A' \<and>
    filled_in_turn (level_orders (a_side (sd \<noteq> BUY) A)) fs left (level_orders (a_side (sd \<noteq> BUY) A')) \<and>
    unat qty = unat left + filled_quantity fs \<and> fills_acceptable sd price fs \<and>
    stops_rightly sd price left (level_orders (a_side (sd \<noteq> BUY) A')) \<and>
    (\<forall>p. queue_at p (a_side (sd = BUY) A') = queue_at p (a_side (sd = BUY) A) @
       (if left \<noteq> 0 \<and> same_slot price p then [resting_order cid coid sd price left A] else []))"
proof -
  obtain A' ms where a: "a_add cid coid sd price qty A = (A', ms)" by fastforce
  obtain left L ns where sw: "a_sweep (a_instrument A) cid coid (a_next_id A) sd price qty (a_side (sd \<noteq> BUY) A) = (left, L, ns)"
    by (metis prod_cases3)
  note sides = a_add_sides [OF sw a]
  have d: "distinct (map (price_to_index \<circ> fst) (a_side (sd = BUY) A))" by (rule slots_distinct [OF assms(1)])
  have "queue_at p (a_side (sd = BUY) A') = queue_at p (a_side (sd = BUY) A) @
      (if left \<noteq> 0 \<and> same_slot price p then [resting_order cid coid sd price left A] else [])" for p
    using place_last [OF d, of p sd "resting_order cid coid sd price left A"] by (simp add: sides(2))
  then show ?thesis using ob_add_ok [OF assms a] sweep_in_turn [OF sw] book_rel_levels [OF assms(1)]
    unfolding sides(1) [symmetric] by blast
qed

theorem add_joins_queue_witness:
  "\<exists>s s' G' A' left. ob_add 2 7 SELL 20 4 s = Inr s' \<and> book_rel s' G' A' \<and>
    queue_at 20 (a_asks A') = queue_at 20 (a_asks four_order_book) @
      (if left \<noteq> 0 then [resting_order 2 7 SELL 20 left four_order_book] else [])"
proof -
  obtain s G where r: "book_rel s G four_order_book" using four_order_book_rel by blast
  have "add_admissible 2 7 SELL 20 4 four_order_book" by code_simp
  from add_joins_queue [OF r this] obtain s' G' A' left where
    m: "ob_add 2 7 SELL 20 4 s = Inr s'" "book_rel s' G' A'"
    "\<forall>p. queue_at p (a_side (SELL = BUY) A') = queue_at p (a_side (SELL = BUY) four_order_book) @
       (if left \<noteq> 0 \<and> same_slot 20 p then [resting_order 2 7 SELL 20 left four_order_book] else [])" by blast
  from m(3) [rule_format, of 20] have "queue_at 20 (a_asks A') = queue_at 20 (a_asks four_order_book) @
      (if left \<noteq> 0 then [resting_order 2 7 SELL 20 left four_order_book] else [])"
    by (simp add: a_side_def same_slot_def)
  with m(1,2) show ?thesis by blast
qed

section \<open>Modifying in place and rejecting\<close>

text \<open>
  Modifying an order to its own price and at most its own quantity changes that order's
  quantity and nothing else: every order keeps its place on its side.
\<close>

theorem modify_in_place:
  assumes "book_rel s G A" and "lookup_admissible cid coid" and "a_find cid coid A = Some x"
    and "o_price x = price" and "qty \<le> o_qty x"
  shows "\<exists>s' G' A'. ob_modify cid coid price qty s = Inr s' \<and> book_rel s' G' A' \<and>
    (\<forall>b. map fst (a_side b A') = map fst (a_side b A) \<and>
      map snd (a_side b A') =
        map (\<lambda>(p, ys). map (\<lambda>y. if owned_by cid coid y then y\<lparr>o_qty := qty\<rparr> else y) ys) (a_side b A))"
proof -
  have q: "\<not> o_qty x < qty" using assms(5) by (simp add: leD)
  then have adm: "modify_admissible cid coid price qty A"
    using assms(2-4) by (simp add: modify_admissible_def)
  obtain A' ms where a: "a_modify cid coid price qty A = (A', ms)" by fastforce
  then have "A' = A\<lparr>a_bids := a_set_qty cid coid qty (a_bids A), a_asks := a_set_qty cid coid qty (a_asks A)\<rparr>"
    using assms(3,4) q by (simp add: a_modify_def)
  then have "a_side b A' = a_set_qty cid coid qty (a_side b A)" for b by (simp add: a_side_both)
  then have "map fst (a_side b A') = map fst (a_side b A) \<and> map snd (a_side b A') =
      map (\<lambda>(p, ys). map (\<lambda>y. if owned_by cid coid y then y\<lparr>o_qty := qty\<rparr> else y) ys) (a_side b A)" for b
    by (auto simp: a_set_qty_def)
  then show ?thesis using ob_modify_ok [OF assms(1) adm a] by blast
qed

theorem modify_in_place_witness:
  "\<exists>s s' G' A'. ob_modify 1 1 20 3 s = Inr s' \<and> book_rel s' G' A' \<and>
    map fst (a_side False A') = [10, 20, 30] \<and> map (map o_qty) (map snd (a_side False A')) = [[5], [3], [5]]"
proof -
  obtain s G where r: "book_rel s G four_order_book" using four_order_book_rel by blast
  have h: "lookup_admissible 1 1" "a_find 1 1 four_order_book = Some (hd (snd (a_asks four_order_book ! 1)))"
    "o_price (hd (snd (a_asks four_order_book ! 1))) = 20" "3 \<le> o_qty (hd (snd (a_asks four_order_book ! 1)))"
    by code_simp+
  have f: "map fst (a_side False four_order_book) = [10, 20, 30]"
    "map (map o_qty) (map (\<lambda>(p, ys). map (\<lambda>y. if owned_by 1 1 y then y\<lparr>o_qty := 3\<rparr> else y) ys)
       (a_side False four_order_book)) = [[5], [3], [5]]"
    by code_simp+
  from modify_in_place [OF r h] obtain s' G' A' where m: "ob_modify 1 1 20 3 s = Inr s'" "book_rel s' G' A'"
    and all: "\<forall>b. map fst (a_side b A') = map fst (a_side b four_order_book) \<and> map snd (a_side b A') =
      map (\<lambda>(p, ys). map (\<lambda>y. if owned_by 1 1 y then y\<lparr>o_qty := 3\<rparr> else y) ys) (a_side b four_order_book)"
    by blast
  have "map fst (a_side False A') = [10, 20, 30]" "map (map o_qty) (map snd (a_side False A')) = [[5], [3], [5]]"
    using all [rule_format, of False] f by presburger+
  with m show ?thesis
    by (intro exI [of _ s] exI [of _ s'] exI [of _ G'] exI [of _ A'] conjI)
qed

text \<open>
  Cancelling or modifying an order that does not rest only sends the rejection, whatever the
  client identifier.
\<close>

theorem unknown_order_rejected:
  assumes "book_rel s G A" and "lookup_admissible cid coid" and "a_find cid coid A = None"
  shows "ob_cancel cid coid s = Inr (respond \<lparr>rs_type = CANCEL_REJECTED, rs_client_id = cid,
      rs_instrument_id = instrument_id s, rs_client_order_id = coid, rs_market_order_id = INVALID_ORDER_ID,
      rs_side = SIDE_INVALID, rs_price = INVALID_PRICE, rs_exec_qty = INVALID_QUANTITY,
      rs_leaves_qty = INVALID_QUANTITY\<rparr> s) \<and>
    ob_modify cid coid price qty s = Inr (respond \<lparr>rs_type = MODIFY_REJECTED, rs_client_id = cid,
      rs_instrument_id = instrument_id s, rs_client_order_id = coid, rs_market_order_id = INVALID_ORDER_ID,
      rs_side = SIDE_INVALID, rs_price = INVALID_PRICE, rs_exec_qty = INVALID_QUANTITY,
      rs_leaves_qty = INVALID_QUANTITY\<rparr> s)"
proof -
  have "book_ok s G" "\<And>b. a_side b A = abs_levels s (G b)" using assms(1) by (simp_all add: book_rel_def)
  from find_client_order_ok [OF this assms(2)] assms(3) have "find_client_order cid coid s = Inr None" by auto
  then show ?thesis by (simp add: ob_cancel_def ob_modify_def)
qed

theorem unknown_order_rejected_witness:
  "\<exists>s r. ob_cancel 5 1 s = Inr (respond r s) \<and> rs_type r = CANCEL_REJECTED"
proof -
  obtain s G where r: "book_rel s G four_order_book" using four_order_book_rel by blast
  have "lookup_admissible 5 1" "a_find 5 1 four_order_book = None" by code_simp+
  from unknown_order_rejected [OF r this, of 0 0] show ?thesis
    by (metis client_response_internal.select_convs(1))
qed

text \<open>
  C40: identifiers outside the client arrays end in an exception. An order that must rest but whose
  client or order identifier is outside the arrays is acknowledged and matched, and then
  \<open>add\<close> throws \<open>std::out_of_range\<close>; for a known client and an order identifier outside its vector,
  \<open>cancel\<close> and \<open>modify\<close> throw as well, whatever the price and quantity.
\<close>

theorem unregistrable_order_throws:
  assumes "book_rel s G A" and "sd \<in> {BUY, SELL}"
    and "a_sweep (a_instrument A) cid coid (a_next_id A) sd price qty (a_side (sd \<noteq> BUY) A) = (left, L, ms)"
    and "left \<noteq> 0" and "list_all (\<lambda>(p, xs). \<not> same_slot p price) L"
    and "length (a_orders (set_a_side (sd \<noteq> BUY) L A)) < MAX_NUM_ORDERS"
    and "MAX_NUM_CLIENTS \<le> unat cid \<or> MAX_NUM_ORDERS \<le> unat coid"
  shows "ob_add cid coid sd price qty s = Inl OutOfRange \<and>
    (unat cid < MAX_NUM_CLIENTS \<longrightarrow>
      ob_cancel cid coid s = Inl OutOfRange \<and> ob_modify cid coid price' qty' s = Inl OutOfRange)"
proof -
  have n: "a_next_id A = next_market_order_id s" and i: "a_instrument A = instrument_id s"
    using assms(1) by (simp_all add: book_rel_def)
  define s1 where "s1 = respond \<lparr>rs_type = ACCEPTED, rs_client_id = cid, rs_instrument_id = instrument_id s,
    rs_client_order_id = coid, rs_market_order_id = next_market_order_id s, rs_side = sd, rs_price = price,
    rs_exec_qty = 0, rs_leaves_qty = qty\<rparr> (s\<lparr>next_market_order_id := next_market_order_id s + 1\<rparr>)"
  have r1: "book_rel s1 G (A\<lparr>a_next_id := a_next_id A + 1\<rparr>)"
    using assms(1) by (simp add: book_rel_def s1_def)
  from check_for_match_ok [OF r1, of cid coid "next_market_order_id s" sd price qty left L ms] assms(3)
  obtain t G' where t: "check_for_match cid coid (next_market_order_id s) sd price qty s1 = Inr (left, t)"
    "book_rel t G' (set_a_side (sd \<noteq> BUY) L (A\<lparr>a_next_id := a_next_id A + 1\<rparr>))"
    by (auto simp: n)
  define b where "b = (sd = BUY)"
  have sd: "sd = key_side b" using assms(2) by (auto simp: b_def)
  let ?A = "set_a_side (sd \<noteq> BUY) L (A\<lparr>a_next_id := a_next_id A + 1\<rparr>)"
  have t2: "book_ok t G'" "\<And>c. a_side c ?A = abs_levels t (G' c)"
    using t(2) unfolding book_rel_def by blast+
  have cr: "list_all (\<lambda>(p, xs). \<not> same_slot p price) (a_side (\<not> b) ?A)" using assms(5) by (simp add: b_def)
  have "a_orders ?A = a_orders (set_a_side (sd \<noteq> BUY) L A)" by (simp add: a_orders_def set_a_side_def)
  then have room: "length (a_orders ?A) < MAX_NUM_ORDERS" using assms(6) by simp
  have ids: "\<not> (unat cid < MAX_NUM_CLIENTS \<and> unat coid < MAX_NUM_ORDERS)" using assms(7) by auto
  have "\<not> (\<exists>(q, xs) \<in> set (abs_levels t (G' (\<not> b))). same_slot q price)"
    using cr unfolding t2(2) list_all_iff by blast
  then obtain prio where pr: "get_order_priority_at_price_level sd price t = Inr prio"
    using priority_ok [of t G' b price] t2(1) sd by (auto simp: book_ok_def)
  from add_order_unregistrable [OF t2 sd cr room ids refl, of "instrument_id t" "next_market_order_id s" left prio]
  have "ob_add cid coid sd price qty s = Inl OutOfRange" using t(1) pr assms(4)
    by (auto simp: ob_add_def get_new_market_order_id_def Let_def s1_def word_neq_0_conv)
  moreover have "find_client_order cid coid s = Inl OutOfRange" if "unat cid < MAX_NUM_CLIENTS"
    using that assms(7) by (auto simp: find_client_order_def)
  ultimately show ?thesis by (simp add: ob_cancel_def ob_modify_def)
qed

theorem unregistrable_order_throws_witness:
  "\<exists>s G. book_rel s G four_order_book \<and> ob_add 1 5000 BUY 7 5 s = Inl OutOfRange \<and>
    ob_cancel 1 5000 s = Inl OutOfRange \<and> ob_modify 1 5000 8 3 s = Inl OutOfRange"
proof -
  obtain s G where r: "book_rel s G four_order_book" using four_order_book_rel by blast
  let ?sw = "a_sweep (a_instrument four_order_book) 1 5000 (a_next_id four_order_book) BUY 7 5
      (a_side (BUY \<noteq> BUY) four_order_book)"
  have "?sw = (5, a_asks four_order_book, [])" "(5 :: quantity_t) \<noteq> 0"
    "list_all (\<lambda>(p, xs). \<not> same_slot p 7) (a_asks four_order_book)"
    "length (a_orders (set_a_side (BUY \<noteq> BUY) (a_asks four_order_book) four_order_book)) < MAX_NUM_ORDERS"
    "MAX_NUM_CLIENTS \<le> unat (1 :: client_id_t) \<or> MAX_NUM_ORDERS \<le> unat (5000 :: order_id_t)"
    by code_simp+
  moreover have "unat (1 :: client_id_t) < MAX_NUM_CLIENTS" by (simp add: model_constants)
  ultimately show ?thesis using unregistrable_order_throws [OF r, of BUY 1 5000 7 5 5 _ _ 8 3] r by blast
qed

section \<open>The matching engine\<close>

text \<open>
  C10: the engine, started on a queue of admissible requests, processes all of them without taking
  any failure branch, ends with an empty queue and with its eight books in the abstract state,
  and has appended the abstract messages, in order, to its two outgoing queues, as long as they
  fit.
\<close>

theorem engine_run_refines:
  assumes "0 < n" and "length rs \<le> n" and "all_admissible rs a_engine_init"
    and "a_run rs a_engine_init = (As, ms)" and "queue_inv responses" and "queue_inv updates"
    and "length (queue_items responses) + length (responses_of ms) \<le> q_size responses"
    and "length (queue_items updates) + length (updates_of ms) \<le> q_size updates"
  shows "\<exists>me me'.
    matching_engine_init (fold enqueue rs (lock_free_queue_init n default_client_request)) responses updates = Inr me \<and>
    run_steps (length rs) me = Inr me' \<and> engine_rel me' As \<and>
    queue_items (incoming_requests me') = [] \<and>
    queue_items (outgoing_responses (me_handler me')) = queue_items responses @ responses_of ms \<and>
    queue_items (outgoing_market_updates (me_handler me')) = queue_items updates @ updates_of ms"
proof -
  define q where "q = fold enqueue rs (lock_free_queue_init n default_client_request)"
  have q: "queue_inv q" "queue_items q = rs"
    using filled_queue [OF assms(1,2)] by (simp_all add: q_def)
  obtain me where me: "matching_engine_init q responses updates = Inr me" "engine_rel me a_engine_init"
    "incoming_requests me = q" "me_handler me = \<lparr>outgoing_responses = responses, outgoing_market_updates = updates\<rparr>"
    using matching_engine_init_ok by blast
  then obtain me' where me': "run_steps (length rs) me = Inr me'" "engine_rel me' As"
    "queue_items (incoming_requests me') = []" "me_handler me' = sends ms (me_handler me)"
    using run_steps_ok [OF me(2)] q assms(3,4) by auto
  show ?thesis using me(1,4) me' lfq.fold_put [OF assms(5), of "responses_of ms"]
      lfq.fold_put [OF assms(6), of "updates_of ms"] assms(7,8)
    unfolding q_def by (auto simp: sends_queues)
qed

definition crossing_requests :: "client_request_internal list" where
  "crossing_requests = [new_request SELL 0 10 5, new_request SELL 1 20 5, new_request SELL 2 30 5,
     new_request SELL 3 25 5, new_request BUY 4 27 12]"

theorem engine_run_refines_witness:
  "\<exists>me me'.
    matching_engine_init (fold enqueue crossing_requests (lock_free_queue_init 8 default_client_request))
      (lock_free_queue_init 64 default_client_response) (lock_free_queue_init 64 default_market_update) = Inr me \<and>
    run_steps (length crossing_requests) me = Inr me' \<and>
    engine_rel me' (fst (a_run crossing_requests a_engine_init))"
proof -
  define As ms where "As = fst (a_run crossing_requests a_engine_init)"
    and "ms = snd (a_run crossing_requests a_engine_init)"
  let ?r = "lock_free_queue_init 64 default_client_response" and ?u = "lock_free_queue_init 64 default_market_update"
  have run: "a_run crossing_requests a_engine_init = (As, ms)" by (simp add: As_def ms_def)
  have f: "length crossing_requests \<le> 8" "all_admissible crossing_requests a_engine_init"
    "length (responses_of ms) \<le> 64" "length (updates_of ms) \<le> 64"
    unfolding ms_def by code_simp+
  have q: "queue_inv ?r" "queue_inv ?u" by (simp_all add: queue_init_inv)
  have c: "length (queue_items ?r) + length (responses_of ms) \<le> q_size ?r"
    "length (queue_items ?u) + length (updates_of ms) \<le> q_size ?u"
    using f(3,4) by simp_all
  from engine_run_refines [OF _ f(1,2) run q c] show ?thesis unfolding As_def by auto
qed



end
