(* ===== verification/MarketDataBuffer.thy ===== *)
theory MarketDataBuffer
  imports Serializer LockFreeQueue
begin

text \<open>
  The send buffer that \<open>market_data_publisher\<close> and \<open>snapshot_synthesizer\<close> have in common
  (\<open>src/market_data/*.cpp\<close>): \<open>add_to_buffer\<close> appends an encoded update, \<open>send_data\<close> hands
  the filled part to the UDP socket. Both classes extend this record. What \<open>uv_udp_send\<close> is
  given is recorded in \<open>sent\<close>: the bytes the buffer held at the call.
\<close>

definition BUFFER_SIZE :: nat where "BUFFER_SIZE = 64 * 1024 * 1024"

record udp_sender =
  send_buffer :: buffer
  next_send_valid_index :: nat
  sent :: "u8 list list"

text \<open>The encoder writes through a raw pointer: past the end of the vector it is undefined.\<close>

definition add_to_buffer :: "bool \<Rightarrow> client_market_update \<Rightarrow> 'a udp_sender_scheme \<Rightarrow> 'a udp_sender_scheme result" where
  "add_to_buffer be u s =
     (if BUFFER_SIZE < next_send_valid_index s + sizeof_client_market_update then Inl OutOfBounds
      else let s = s\<lparr>send_buffer := serialize_client_market_update be u (next_send_valid_index s) (send_buffer s)\<rparr>;
               s = s\<lparr>next_send_valid_index := next_send_valid_index s + sizeof_client_market_update\<rparr>
           in rbind (DEBUG_ASSERT (next_send_valid_index s < BUFFER_SIZE) ''buffer filled up'') (\<lambda>_. Inr s))"

definition send_data :: "'a udp_sender_scheme \<Rightarrow> 'a udp_sender_scheme" where
  "send_data s = s\<lparr>sent := sent s @ [read_bytes 0 (next_send_valid_index s) (send_buffer s)]\<rparr>"

section \<open>What the buffer holds\<close>

definition datagram :: "client_market_update list \<Rightarrow> u8 list" where
  "datagram us = concat (map market_update_bytes us)"

lemma datagram_simps [simp]:
  "datagram [] = []" "datagram (u # us) = market_update_bytes u @ datagram us"
  "datagram (us @ vs) = datagram us @ datagram vs"
  by (simp_all add: datagram_def)

lemma length_datagram [simp]: "length (datagram us) = length us * sizeof_client_market_update"
  by (induction us) simp_all

definition buffered :: "client_market_update list \<Rightarrow> 'a udp_sender_scheme \<Rightarrow> bool" where
  "buffered us s \<longleftrightarrow> next_send_valid_index s = length us * sizeof_client_market_update \<and>
     read_bytes 0 (length us * sizeof_client_market_update) (send_buffer s) = datagram us"

lemma buffered_Nil [simp]: "buffered [] s \<longleftrightarrow> next_send_valid_index s = 0"
  by (auto simp: buffered_def read_bytes_def)

text \<open>Adding the buffer's next message, which fits: the rest of the record is untouched.\<close>

lemma add_to_buffer_ok:
  assumes "buffered us s" and "Suc (length us) * sizeof_client_market_update < BUFFER_SIZE"
  shows "\<exists>b n. add_to_buffer be u s = Inr (s\<lparr>send_buffer := b, next_send_valid_index := n\<rparr>) \<and>
    buffered (us @ [u]) (s\<lparr>send_buffer := b, next_send_valid_index := n\<rparr>)"
proof -
  let ?n = "next_send_valid_index s"
  let ?b = "write_bytes ?n (market_update_bytes u) (send_buffer s)"
  have n: "?n = length us * sizeof_client_market_update" "read_bytes 0 ?n (send_buffer s) = datagram us"
    using assms(1) by (simp_all add: buffered_def)
  have "read_bytes 0 (?n + sizeof_client_market_update) ?b = datagram (us @ [u])"
    using n(2) by (simp add: read_bytes_append read_write_other)
  then have "buffered (us @ [u]) (s\<lparr>send_buffer := ?b, next_send_valid_index := ?n + sizeof_client_market_update\<rparr>)"
    using n(1) by (simp add: buffered_def add.commute)
  moreover have "add_to_buffer be u s =
      Inr (s\<lparr>send_buffer := ?b, next_send_valid_index := ?n + sizeof_client_market_update\<rparr>)"
    using n(1) assms(2) by (simp add: add_to_buffer_def serialize_client_market_update_eq)
  ultimately show ?thesis by blast
qed

lemma buffered_send_data [simp]: "buffered us (send_data s) = buffered us s"
  by (simp add: buffered_def send_data_def)

lemma sent_send_data: "buffered us s \<Longrightarrow> sent (send_data s) = sent s @ [datagram us]"
  by (simp add: buffered_def send_data_def)

section \<open>Numbering\<close>

text \<open>\<open>numbered n us\<close>: the updates with consecutive sequence numbers from \<open>n\<close>.\<close>

fun numbered :: "u64 \<Rightarrow> market_update list \<Rightarrow> client_market_update list" where
  "numbered n [] = []"
| "numbered n (u # us) = \<lparr>cmu_sequence_number = n, cmu_update = u\<rparr> # numbered (n + 1) us"

lemma length_numbered [simp]: "length (numbered n us) = length us"
  by (induction us arbitrary: n) simp_all

lemma numbered_append: "numbered n (us @ vs) = numbered n us @ numbered (n + word_of_nat (length us)) vs"
  by (induction us arbitrary: n) (simp_all add: add.assoc)

lemma map_update_numbered [simp]: "map cmu_update (numbered n us) = us"
  by (induction us arbitrary: n) simp_all

text \<open>A receiver reads the updates back from the datagram, one every 39 bytes.\<close>

definition decode_datagram :: "bool \<Rightarrow> u8 list \<Rightarrow> client_market_update list" where
  "decode_datagram be bs =
     map (\<lambda>k. deserialize_market_update be (k * sizeof_client_market_update) (write_bytes 0 bs (\<lambda>_. 0)))
       [0..<length bs div sizeof_client_market_update]"

lemma datagram_nth:
  "k < length us \<Longrightarrow>
    take sizeof_client_market_update (drop (k * sizeof_client_market_update) (datagram us)) = market_update_bytes (us ! k)"
proof (induction us arbitrary: k)
  case (Cons u us)
  then show ?case by (cases k) simp_all
qed simp

lemma decode_datagram:
  assumes "list_all wire_market_update us"
  shows "decode_datagram be (datagram us) = us"
proof (rule nth_equalityI)
  show len: "length (decode_datagram be (datagram us)) = length us"
    by (simp add: decode_datagram_def sizeof_defs)
  fix k assume "k < length (decode_datagram be (datagram us))"
  then have k: "k < length us" using len by simp
  let ?b = "write_bytes 0 (datagram us) (\<lambda>_. 0)"
  have "Suc k * sizeof_client_market_update \<le> length us * sizeof_client_market_update"
    using k by (intro mult_le_mono1) simp
  then have "read_bytes (k * sizeof_client_market_update) sizeof_client_market_update ?b = market_update_bytes (us ! k)"
    using read_bytes_take [of 0 "datagram us" ?b "k * sizeof_client_market_update" sizeof_client_market_update]
      datagram_nth [OF k] by simp
  moreover have "wire_market_update (us ! k)" using assms k by (simp add: list_all_length)
  ultimately show "decode_datagram be (datagram us) ! k = us ! k"
    using k by (simp add: decode_datagram_def sizeof_defs deserialize_market_update_image)
qed

end
