(* ===== verification/MarketDataPublisher.thy ===== *)
theory MarketDataPublisher
  imports MarketDataBuffer
begin

text \<open>
  \<open>src/market_data/market_data_publisher.hpp\<close> and \<open>.cpp\<close>: the thread that takes the engine's
  updates, numbers them, sends each batch as one datagram and passes the numbered updates on to
  the snapshot synthesizer.
\<close>

record market_data_publisher = udp_sender +
  next_inc_seq_num :: u64
  snapshot_market_update_queue :: "client_market_update lock_free_queue"

definition market_data_publisher_init :: market_data_publisher where
  "market_data_publisher_init = \<lparr>send_buffer = (\<lambda>_. 0), next_send_valid_index = 0, sent = [],
     next_inc_seq_num = 1, snapshot_market_update_queue = lock_free_queue_init MAX_MARKET_UPDATES
       \<lparr>cmu_sequence_number = 0, cmu_update = default_market_update\<rparr>\<rparr>"

text \<open>
  The second half of an iteration: the update is read once more through the pointer
  \<open>market_update\<close>, whose slot has been given back to the engine just before.
\<close>

definition copy_to_snapshot :: "nat \<Rightarrow> market_update lock_free_queue \<Rightarrow> market_data_publisher \<Rightarrow>
    market_data_publisher" where
  "copy_to_snapshot slot q p =
     (let p = p\<lparr>snapshot_market_update_queue := enqueue
          \<lparr>cmu_sequence_number = next_inc_seq_num p, cmu_update = q_data q slot\<rparr>
          (snapshot_market_update_queue p)\<rparr>
      in p\<lparr>next_inc_seq_num := next_inc_seq_num p + 1\<rparr>)"

function publish_updates :: "bool \<Rightarrow> market_update lock_free_queue \<Rightarrow> market_data_publisher \<Rightarrow>
    (market_update lock_free_queue \<times> market_data_publisher) result" where
  "publish_updates be q p = (case get_next_read_element q of
       None \<Rightarrow> Inr (q, p)
     | Some u \<Rightarrow>
         rbind (add_to_buffer be \<lparr>cmu_sequence_number = next_inc_seq_num p, cmu_update = u\<rparr> p) (\<lambda>p.
         publish_updates be (next_read_index q) (copy_to_snapshot (q_next_read_index q) (next_read_index q) p)))"
  by auto

termination
  by (relation "measure (\<lambda>(be, q, p). q_num_elements q)")
    (auto simp: queue_defs split: if_splits)

declare publish_updates.simps [simp del]

definition process_and_publish :: "bool \<Rightarrow> market_update lock_free_queue \<Rightarrow> market_data_publisher \<Rightarrow>
    (market_update lock_free_queue \<times> market_data_publisher) result" where
  "process_and_publish be q p =
     (if queue_size q = 0 then Inr (q, p)
      else rbind (publish_updates be q p) (\<lambda>(q, p).
        Inr (q, (send_data p)\<lparr>next_send_valid_index := 0\<rparr>)))"

section \<open>The loop and the engine's thread\<close>

text \<open>
  The iterations of the loop once more, cut at the accesses to the queue that is shared with the
  engine: the update is read through the pointer to its \<open>slot\<close> and put into the buffer, the slot
  is given back, and the slot is read for the synthesizer. Between these steps the engine may
  write. \<open>publisher_alone\<close> shows that the steps without the engine are \<open>publish_updates\<close>.
\<close>

datatype publisher_point = At_Head | At_Release nat | At_Copy nat | At_Send

fun publish_step :: "bool \<Rightarrow> publisher_point \<times> market_update lock_free_queue \<times> market_data_publisher \<Rightarrow>
    (publisher_point \<times> market_update lock_free_queue \<times> market_data_publisher) result" where
  "publish_step be (At_Head, q, p) = (case get_next_read_element q of
       None \<Rightarrow> Inr (At_Send, q, p)
     | Some u \<Rightarrow>
         rbind (add_to_buffer be \<lparr>cmu_sequence_number = next_inc_seq_num p, cmu_update = u\<rparr> p) (\<lambda>p.
         Inr (At_Release (q_next_read_index q), q, p)))"
| "publish_step be (At_Release slot, q, p) = Inr (At_Copy slot, next_read_index q, p)"
| "publish_step be (At_Copy slot, q, p) = Inr (At_Head, q, copy_to_snapshot slot q p)"
| "publish_step be (At_Send, q, p) = Inr (At_Send, q, p)"

datatype publisher_event = Publisher | Engine_Writes market_update

fun interleaved :: "bool \<Rightarrow> publisher_event list \<Rightarrow> publisher_point \<times> market_update lock_free_queue \<times> market_data_publisher \<Rightarrow>
    (publisher_point \<times> market_update lock_free_queue \<times> market_data_publisher) result" where
  "interleaved be [] c = Inr c"
| "interleaved be (Publisher # es) c = rbind (publish_step be c) (interleaved be es)"
| "interleaved be (Engine_Writes u # es) (k, q, p) = interleaved be es (k, enqueue u q, p)"

lemma interleaved_engine:
  "interleaved be (map Engine_Writes us @ es) (k, q, p) = interleaved be es (k, fold enqueue us q, p)"
  by (induction us arbitrary: q) simp_all

lemma publisher_alone:
  "\<exists>n. interleaved be (replicate n Publisher) (At_Head, q, p) =
    rbind (publish_updates be q p) (\<lambda>qp. Inr (At_Send, qp))"
proof (induction be q p rule: publish_updates.induct)
  case (1 be q p)
  show ?case
  proof (cases "get_next_read_element q")
    case None
    then show ?thesis by (intro exI [of _ 1]) (simp add: publish_updates.simps [of be q])
  next
    case (Some u)
    show ?thesis
    proof (cases "add_to_buffer be \<lparr>cmu_sequence_number = next_inc_seq_num p, cmu_update = u\<rparr> p")
      case (Inl e)
      then show ?thesis using Some by (intro exI [of _ 1]) (simp add: publish_updates.simps [of be q])
    next
      case (Inr p1)
      from "1.IH" [OF Some Inr] obtain n where
        "interleaved be (replicate n Publisher) (At_Head, next_read_index q,
          copy_to_snapshot (q_next_read_index q) (next_read_index q) p1) =
          rbind (publish_updates be (next_read_index q) (copy_to_snapshot (q_next_read_index q) (next_read_index q) p1))
            (\<lambda>qp. Inr (At_Send, qp))" by blast
      then show ?thesis using Some Inr
        by (intro exI [of _ "Suc (Suc (Suc n))"]) (simp add: publish_updates.simps [of be q])
    qed
  qed
qed

section \<open>A batch\<close>

text \<open>Popping an element leaves the slots as they were.\<close>

lemma q_data_next_read_index [simp]: "q_data (next_read_index q) = q_data q"
  by (simp add: queue_defs)

lemma read_slot: "get_next_read_element q = Some u \<Longrightarrow> q_data q (q_next_read_index q) = u"
  by (simp add: queue_defs split: if_splits)

lemma publish_updates_ok:
  assumes "queue_inv q" and "queue_items q = us" and "buffered vs p"
    and "(length vs + length us) * sizeof_client_market_update < BUFFER_SIZE"
    and "queue_inv (snapshot_market_update_queue p)"
    and "length (queue_items (snapshot_market_update_queue p)) + length us \<le> q_size (snapshot_market_update_queue p)"
  shows "\<exists>q' p'. publish_updates be q p = Inr (q', p') \<and> queue_inv q' \<and> queue_items q' = [] \<and> q_size q' = q_size q \<and>
    buffered (vs @ numbered (next_inc_seq_num p) us) p' \<and> sent p' = sent p \<and>
    next_inc_seq_num p' = next_inc_seq_num p + word_of_nat (length us) \<and>
    snapshot_market_update_queue p' =
      fold enqueue (numbered (next_inc_seq_num p) us) (snapshot_market_update_queue p)"
  using assms
proof (induction us arbitrary: q p vs)
  case Nil
  then have "get_next_read_element q = None" by (simp add: get_next_read_element_items)
  then show ?case using Nil by (simp add: publish_updates.simps [of be q])
next
  case (Cons u us)
  let ?cu = "\<lparr>cmu_sequence_number = next_inc_seq_num p, cmu_update = u\<rparr>" and ?q = "next_read_index q"
  have hd: "get_next_read_element q = Some u"
    using Cons.prems(1,2) by (simp add: get_next_read_element_items)
  have "Suc (length vs) * sizeof_client_market_update \<le> (length vs + length (u # us)) * sizeof_client_market_update"
    by (intro mult_le_mono1) simp
  then have "Suc (length vs) * sizeof_client_market_update < BUFFER_SIZE" using Cons.prems(4) by linarith
  from add_to_buffer_ok [OF Cons.prems(3) this, of be ?cu] obtain b n where
    a: "add_to_buffer be ?cu p = Inr (p\<lparr>send_buffer := b, next_send_valid_index := n\<rparr>)"
    "buffered (vs @ [?cu]) (p\<lparr>send_buffer := b, next_send_valid_index := n\<rparr>)" by blast
  define t where "t = copy_to_snapshot (q_next_read_index q) ?q (p\<lparr>send_buffer := b, next_send_valid_index := n\<rparr>)"
  have t: "t = p\<lparr>send_buffer := b, next_send_valid_index := n,
      snapshot_market_update_queue := enqueue ?cu (snapshot_market_update_queue p),
      next_inc_seq_num := next_inc_seq_num p + 1\<rparr>"
    using read_slot [OF hd] by (simp add: t_def copy_to_snapshot_def Let_def)
  have "buffered (vs @ [?cu]) t" using a(2) by (simp add: t buffered_def)
  moreover have "queue_inv ?q" "queue_items ?q = us"
    using Cons.prems(1,2) by (simp_all add: queue_inv_next_read_index queue_items_next_read_index)
  moreover have "queue_inv (snapshot_market_update_queue t)"
    using Cons.prems(5,6) by (simp add: t queue_inv_enqueue)
  moreover have "length (queue_items (snapshot_market_update_queue t)) + length us \<le> q_size (snapshot_market_update_queue t)"
    using Cons.prems(5,6) by (simp add: t)
  ultimately obtain q' p' where r: "publish_updates be ?q t = Inr (q', p')" "queue_inv q'" "queue_items q' = []"
    "q_size q' = q_size q" "buffered ((vs @ [?cu]) @ numbered (next_inc_seq_num t) us) p'" "sent p' = sent t"
    "next_inc_seq_num p' = next_inc_seq_num t + word_of_nat (length us)"
    "snapshot_market_update_queue p' = fold enqueue (numbered (next_inc_seq_num t) us) (snapshot_market_update_queue t)"
    using Cons.IH [of ?q "vs @ [?cu]" t] Cons.prems(4) by auto
  have "publish_updates be q p = Inr (q', p')"
    using hd a(1) r(1) by (simp add: publish_updates.simps [of be q] t_def)
  then show ?case using r by (simp add: t add.assoc)
qed

lemma process_and_publish_ok:
  assumes "queue_inv q" and "queue_items q \<noteq> []" and "next_send_valid_index p = 0"
    and "q_size q \<le> MAX_MARKET_UPDATES" and "queue_inv (snapshot_market_update_queue p)"
    and "length (queue_items (snapshot_market_update_queue p)) + length (queue_items q)
      \<le> q_size (snapshot_market_update_queue p)"
  shows "\<exists>q' p'. process_and_publish be q p = Inr (q', p') \<and> queue_inv q' \<and> queue_items q' = [] \<and> q_size q' = q_size q \<and>
    next_send_valid_index p' = 0 \<and>
    sent p' = sent p @ [datagram (numbered (next_inc_seq_num p) (queue_items q))] \<and>
    next_inc_seq_num p' = next_inc_seq_num p + word_of_nat (length (queue_items q)) \<and>
    queue_inv (snapshot_market_update_queue p') \<and>
    q_size (snapshot_market_update_queue p') = q_size (snapshot_market_update_queue p) \<and>
    queue_items (snapshot_market_update_queue p') =
      queue_items (snapshot_market_update_queue p) @ numbered (next_inc_seq_num p) (queue_items q)"
proof -
  let ?us = "queue_items q"
  have "length ?us \<le> 262144" using assms(1,4) by (simp add: queue_inv_def model_constants)
  then have "(length ([] :: client_market_update list) + length ?us) * sizeof_client_market_update < BUFFER_SIZE"
    by (simp add: sizeof_defs BUFFER_SIZE_def)
  from publish_updates_ok [where be = be, OF assms(1) refl _ this assms(5,6)] assms(3) obtain q' p' where
    r: "publish_updates be q p = Inr (q', p')" "queue_inv q'" "queue_items q' = []" "q_size q' = q_size q"
    "buffered (numbered (next_inc_seq_num p) ?us) p'" "sent p' = sent p"
    "next_inc_seq_num p' = next_inc_seq_num p + word_of_nat (length ?us)"
    "snapshot_market_update_queue p' = fold enqueue (numbered (next_inc_seq_num p) ?us) (snapshot_market_update_queue p)"
    by auto
  have "queue_size q \<noteq> 0" using assms(2) by (simp add: queue_size_def flip: length_queue_items)
  then have "process_and_publish be q p = Inr (q', (send_data p')\<lparr>next_send_valid_index := 0\<rparr>)"
    using r(1) by (simp add: process_and_publish_def)
  moreover have "sent (send_data p') = sent p @ [datagram (numbered (next_inc_seq_num p) ?us)]"
    using sent_send_data [OF r(5)] r(6) by simp
  moreover have "snapshot_market_update_queue (send_data p') = snapshot_market_update_queue p'"
    "next_inc_seq_num (send_data p') = next_inc_seq_num p'" by (simp_all add: send_data_def)
  ultimately show ?thesis using r lfq.fold_put [OF assms(5), of "numbered (next_inc_seq_num p) ?us"] assms(6)
    by (intro exI conjI) (assumption | simp)+
qed

section \<open>The slot is given back too early\<close>

text \<open>
  What the slot of the update just released holds after the engine has written \<open>ws\<close>, if they fit:
  still the update, unless they fill the queue, because then the last one has taken the slot.
\<close>

lemma read_index_enqueue [simp]: "q_next_read_index (enqueue x q) = q_next_read_index q"
  by (simp add: queue_defs)

lemma read_index_fold_enqueue [simp]: "q_next_read_index (fold enqueue xs q) = q_next_read_index q"
  by (induction xs arbitrary: q) simp_all

lemma enqueue_other_slot:
  "queue_inv q \<Longrightarrow> slot \<noteq> (q_next_read_index q + q_num_elements q) mod q_size q \<Longrightarrow> q_data (enqueue x q) slot = q_data q slot"
  by (simp add: queue_defs queue_inv_def)

lemma released_slot_kept:
  assumes "queue_inv q" and "queue_items q = u # us" and "Suc (length us) + length ws \<le> q_size q"
  shows "q_data (fold enqueue ws (next_read_index q)) (q_next_read_index q) = u"
  using assms(3)
proof (induction ws rule: rev_induct)
  case Nil
  then show ?case using read_slot get_next_read_element_items [OF assms(1)] assms(2) by fastforce
next
  case (snoc w ws)
  let ?r = "fold enqueue ws (next_read_index q)"
  have i: "queue_inv (next_read_index q)" "queue_items (next_read_index q) = us"
    using assms(1,2) by (simp_all add: queue_inv_next_read_index queue_items_next_read_index)
  have "length (queue_items (next_read_index q)) + length ws \<le> q_size (next_read_index q)"
    using snoc.prems i(2) by simp
  from lfq.fold_put [OF i(1) this] i(2) have r: "queue_inv ?r" "queue_items ?r = us @ ws" "q_size ?r = q_size q" by simp_all
  have n: "q_num_elements ?r = length us + length ws" using r(2) by (simp flip: length_queue_items)
  have q: "q_next_read_index q < q_size q" "0 < q_num_elements q"
    using assms(1,2) by (auto simp: queue_inv_def simp flip: length_queue_items)
  then have "q_next_read_index (next_read_index q) = Suc (q_next_read_index q) mod q_size q" by (simp add: queue_defs)
  then have "(q_next_read_index ?r + q_num_elements ?r) mod q_size ?r =
      (q_next_read_index q + Suc (length us + length ws)) mod q_size q"
    by (simp add: n r(3) mod_simps)
  moreover have "\<dots> \<noteq> (q_next_read_index q + 0) mod q_size q"
    using mod_add_inj [of "q_next_read_index q" "Suc (length us + length ws)" "q_size q" 0] snoc.prems by fastforce
  ultimately show ?case using enqueue_other_slot [OF r(1), of "q_next_read_index q" w] snoc q(1) by simp
qed

lemma released_slot_taken:
  assumes "queue_inv q" and "queue_items q = u # us" and "length us + length ws = q_size q" and "ws \<noteq> []"
  shows "q_data (fold enqueue ws (next_read_index q)) (q_next_read_index q) = last ws"
proof -
  let ?r = "fold enqueue ws (next_read_index q)" and ?c = "q_size q"
  have i: "queue_inv (next_read_index q)" "queue_items (next_read_index q) = us"
    using assms(1,2) by (simp_all add: queue_inv_next_read_index queue_items_next_read_index)
  have "length (queue_items (next_read_index q)) + length ws \<le> q_size (next_read_index q)"
    using assms(3) i(2) by simp
  from lfq.fold_put [OF i(1) this] i(2) have r: "queue_inv ?r" "queue_items ?r = us @ ws" "q_size ?r = ?c" by simp_all
  have n: "q_num_elements ?r = ?c" using r(2) assms(3) by (simp flip: length_queue_items)
  have q: "q_next_read_index q < ?c" "0 < q_num_elements q"
    using assms(1,2) by (auto simp: queue_inv_def simp flip: length_queue_items)
  then have x: "q_next_read_index (next_read_index q) = Suc (q_next_read_index q) mod ?c" by (simp add: queue_defs)
  have "last (queue_items ?r) = q_data ?r ((q_next_read_index ?r + (?c - 1)) mod ?c)"
    using q(1) by (simp add: queue_items_def n r(3) last_map)
  also have "(q_next_read_index ?r + (?c - 1)) mod ?c = q_next_read_index q"
    using q(1) by (cases "Suc (q_next_read_index q) = ?c") (auto simp: x)
  finally show ?thesis using r(2) assms(4) by simp
qed

end
