(* ===== verification/SnapshotSynthesizer.thy ===== *)
theory SnapshotSynthesizer
  imports MarketDataBuffer MemoryPool Printing
begin

text \<open>
  \<open>src/market_data/snapshot_synthesizer.hpp\<close> and \<open>.cpp\<close>: the thread that replays the
  incremental updates into a table of live orders per instrument and periodically publishes the
  table. Proved here: the table is exactly the fold of the updates over an abstract map while
  they are consistent, no assertion fails on them, and a published snapshot is one datagram
  sequence whose last datagram holds the whole table.
\<close>

section \<open>State and operations\<close>

record snapshot_synthesizer = udp_sender +
  updates_by_instrument :: "nat \<Rightarrow> nat \<Rightarrow> ptr"
  last_inc_seq_num :: u64
  market_update_pool :: "market_update memory_pool"

definition snapshot_synthesizer_init :: "snapshot_synthesizer result" where
  "snapshot_synthesizer_init =
     rbind (memory_pool_init MAX_NUM_ORDERS default_market_update) (\<lambda>p.
     Inr \<lparr>send_buffer = (\<lambda>_. 0), next_send_valid_index = 0, sent = [],
          updates_by_instrument = (\<lambda>_ _. None), last_inc_seq_num = 0, market_update_pool = p\<rparr>)"

text \<open>\<open>instrument_updates.at(order_id)\<close>, read and assigned.\<close>

definition update_slot :: "nat \<Rightarrow> order_id_t \<Rightarrow> snapshot_synthesizer \<Rightarrow> ptr result" where
  "update_slot i oid s =
     (if unat oid < MAX_NUM_ORDERS then Inr (updates_by_instrument s i (unat oid)) else Inl OutOfRange)"

definition set_update_slot :: "nat \<Rightarrow> order_id_t \<Rightarrow> ptr \<Rightarrow> snapshot_synthesizer \<Rightarrow> snapshot_synthesizer result" where
  "set_update_slot i oid p s =
     (if unat oid < MAX_NUM_ORDERS
      then Inr (s\<lparr>updates_by_instrument := (updates_by_instrument s)(i := (updates_by_instrument s i)(unat oid := p))\<rparr>)
      else Inl OutOfRange)"

definition stored :: "snapshot_synthesizer \<Rightarrow> nat \<Rightarrow> market_update" where
  "stored s = pool_get (market_update_pool s)"

text \<open>
  The three assertions on the stored update that \<open>MODIFY\<close> and \<open>CANCEL\<close> share; the last
  two repeat the null test before they dereference.
\<close>

definition expect_stored :: "market_update \<Rightarrow> ptr \<Rightarrow> snapshot_synthesizer \<Rightarrow> nat result" where
  "expect_stored u p s =
     rbind (DEBUG_ASSERT (p \<noteq> None)
       (''Received:'' @ market_update_to_string u @ '' but update does not exist.'')) (\<lambda>_.
     rbind (DEBUG_ASSERT (case p of None \<Rightarrow> False | Some a \<Rightarrow> mu_order_id (stored s a) = mu_order_id u)
       ''Expecting existing update to match new one.'') (\<lambda>_.
     rbind (DEBUG_ASSERT (case p of None \<Rightarrow> False | Some a \<Rightarrow> mu_side (stored s a) = mu_side u)
       ''Expecting existing update to match new one.'') (\<lambda>_.
     deref p)))"

definition add_to_snapshot :: "client_market_update \<Rightarrow> snapshot_synthesizer \<Rightarrow> snapshot_synthesizer result" where
  "add_to_snapshot cu s =
     (let u = cmu_update cu; i = unat (mu_instrument_id u) in
      if \<not> i < MAX_NUM_INSTRUMENTS then Inl OutOfRange
      else rbind
        (case mu_type u of
           MU_ADD \<Rightarrow>
             rbind (update_slot i (mu_order_id u) s) (\<lambda>new_update.
             rbind (DEBUG_ASSERT (new_update = None) (''Received:'' @ market_update_to_string u @
               '' but market update already exists:'' @
               (case new_update of None \<Rightarrow> '''' | Some a \<Rightarrow> market_update_to_string (stored s a)))) (\<lambda>_.
             rbind (pool_alloc u (market_update_pool s)) (\<lambda>(a, mp).
             set_update_slot i (mu_order_id u) (Some a) (s\<lparr>market_update_pool := mp\<rparr>))))
         | MU_MODIFY \<Rightarrow>
             rbind (update_slot i (mu_order_id u) s) (\<lambda>stored_update.
             rbind (expect_stored u stored_update s) (\<lambda>a.
             let mp = pool_set a (\<lambda>x. x\<lparr>mu_qty := mu_qty u\<rparr>) (market_update_pool s);
                 mp = pool_set a (\<lambda>x. x\<lparr>mu_price := mu_price u\<rparr>) mp
             in Inr (s\<lparr>market_update_pool := mp\<rparr>)))
         | MU_CANCEL \<Rightarrow>
             rbind (update_slot i (mu_order_id u) s) (\<lambda>stored_update.
             rbind (expect_stored u stored_update s) (\<lambda>a.
             rbind (pool_free a (market_update_pool s)) (\<lambda>mp.
             set_update_slot i (mu_order_id u) None (s\<lparr>market_update_pool := mp\<rparr>))))
         | _ \<Rightarrow> Inr s)
        (\<lambda>s. rbind (DEBUG_ASSERT (cmu_sequence_number cu = last_inc_seq_num s + 1)
            ''Expected incremental seq_nums to increase.'') (\<lambda>_.
          Inr (s\<lparr>last_inc_seq_num := cmu_sequence_number cu\<rparr>))))"

text \<open>
  The loop of \<open>process_client_market_update\<close> ends when the queue is empty; the queue belongs
  to the publisher and is passed in and out.
\<close>

function process_client_market_update :: "client_market_update lock_free_queue \<Rightarrow> snapshot_synthesizer \<Rightarrow>
    (client_market_update lock_free_queue \<times> snapshot_synthesizer) result" where
  "process_client_market_update q s = (case get_next_read_element q of
       None \<Rightarrow> Inr (q, s)
     | Some cu \<Rightarrow> rbind (add_to_snapshot cu s) (process_client_market_update (next_read_index q)))"
  by auto

termination
  by (relation "measure (\<lambda>(q, s). q_num_elements q)")
    (auto simp: queue_defs split: if_splits)

declare process_client_market_update.simps [simp del]

section \<open>Publishing\<close>

text \<open>The updates of one instrument in the order of their slots, empty slots skipped.\<close>

definition instrument_updates :: "nat \<Rightarrow> snapshot_synthesizer \<Rightarrow> market_update list" where
  "instrument_updates i s = map (stored s) (List.map_filter (updates_by_instrument s i) [0..<MAX_NUM_ORDERS])"

fun publish_orders :: "bool \<Rightarrow> market_update list \<Rightarrow> u64 \<Rightarrow> snapshot_synthesizer \<Rightarrow>
    (u64 \<times> snapshot_synthesizer) result" where
  "publish_orders be [] n s = Inr (n, s)"
| "publish_orders be (u # us) n s =
     rbind (add_to_buffer be \<lparr>cmu_sequence_number = n, cmu_update = u\<rparr> s) (\<lambda>s.
     publish_orders be us (n + 1) (send_data s))"

fun publish_instruments :: "bool \<Rightarrow> nat list \<Rightarrow> u64 \<Rightarrow> snapshot_synthesizer \<Rightarrow>
    (u64 \<times> snapshot_synthesizer) result" where
  "publish_instruments be [] n s = Inr (n, s)"
| "publish_instruments be (i # is) n s =
     rbind (add_to_buffer be \<lparr>cmu_sequence_number = n, cmu_update = default_market_update
       \<lparr>mu_type := MU_CLEAR, mu_instrument_id := word_of_nat i\<rparr>\<rparr> s) (\<lambda>s.
     rbind (publish_orders be (instrument_updates i s) (n + 1) s) (\<lambda>(n, s).
     publish_instruments be is n s))"

definition publish_snapshot :: "bool \<Rightarrow> snapshot_synthesizer \<Rightarrow> snapshot_synthesizer result" where
  "publish_snapshot be s =
     rbind (add_to_buffer be \<lparr>cmu_sequence_number = 0, cmu_update = default_market_update
       \<lparr>mu_type := MU_SNAPSHOT_START, mu_order_id := last_inc_seq_num s\<rparr>\<rparr> s) (\<lambda>s.
     rbind (publish_instruments be [0..<MAX_NUM_INSTRUMENTS] 1 s) (\<lambda>(n, s).
     rbind (add_to_buffer be \<lparr>cmu_sequence_number = n, cmu_update = default_market_update
       \<lparr>mu_type := MU_SNAPSHOT_END, mu_order_id := last_inc_seq_num s\<rparr>\<rparr> s) (\<lambda>s.
     Inr ((send_data s)\<lparr>next_send_valid_index := 0\<rparr>))))"

section \<open>The table as a map\<close>

text \<open>
  The abstract table: what is stored for an instrument and an order identifier. \<open>apply_update\<close>
  is the effect of one update, \<open>consistent\<close> when the synthesizer accepts it with \<open>k\<close> of its
  blocks in use.
\<close>

type_synonym table = "nat \<Rightarrow> nat \<Rightarrow> market_update option"

definition table_of :: "snapshot_synthesizer \<Rightarrow> table" where
  "table_of s i j = map_option (stored s) (updates_by_instrument s i j)"

definition apply_update :: "market_update \<Rightarrow> table \<Rightarrow> table" where
  "apply_update u T = (let i = unat (mu_instrument_id u); j = unat (mu_order_id u) in
     case mu_type u of
       MU_ADD \<Rightarrow> T(i := (T i)(j := Some u))
     | MU_MODIFY \<Rightarrow> T(i := (T i)(j := map_option (\<lambda>x. x\<lparr>mu_qty := mu_qty u, mu_price := mu_price u\<rparr>) (T i j)))
     | MU_CANCEL \<Rightarrow> T(i := (T i)(j := None))
     | _ \<Rightarrow> T)"

definition consistent :: "nat \<Rightarrow> market_update \<Rightarrow> table \<Rightarrow> bool" where
  "consistent k u T \<longleftrightarrow> (let i = unat (mu_instrument_id u); j = unat (mu_order_id u) in
     i < MAX_NUM_INSTRUMENTS \<and> (case mu_type u of
       MU_ADD \<Rightarrow> j < MAX_NUM_ORDERS \<and> T i j = None \<and> k < MAX_NUM_ORDERS
     | MU_MODIFY \<Rightarrow> j < MAX_NUM_ORDERS \<and> (case T i j of None \<Rightarrow> False | Some x \<Rightarrow> mu_side x = mu_side u)
     | MU_CANCEL \<Rightarrow> j < MAX_NUM_ORDERS \<and> (case T i j of None \<Rightarrow> False | Some x \<Rightarrow> mu_side x = mu_side u)
     | _ \<Rightarrow> True))"

definition live_after :: "nat \<Rightarrow> market_update \<Rightarrow> nat" where
  "live_after k u = (case mu_type u of MU_ADD \<Rightarrow> k + 1 | MU_CANCEL \<Rightarrow> k - 1 | _ \<Rightarrow> k)"

fun all_consistent :: "nat \<Rightarrow> market_update list \<Rightarrow> table \<Rightarrow> bool" where
  "all_consistent k [] T \<longleftrightarrow> True"
| "all_consistent k (u # us) T \<longleftrightarrow> consistent k u T \<and> all_consistent (live_after k u) us (apply_update u T)"

lemma all_consistent_append [simp]:
  "all_consistent k (us @ vs) T \<longleftrightarrow>
    all_consistent k us T \<and> all_consistent (foldl live_after k us) vs (fold apply_update us T)"
  by (induction us arbitrary: k T) simp_all

text \<open>
  The concrete table: distinct live blocks in the slots, each holding an update with the order
  identifier of its slot.
\<close>

definition slots_ok :: "(nat \<Rightarrow> nat \<Rightarrow> ptr) \<Rightarrow> market_update memory_pool \<Rightarrow> bool" where
  "slots_ok U p \<longleftrightarrow>
     (\<forall>i j a. U i j = Some a \<longrightarrow> a \<in> pool_live p \<and> mu_order_id (pool_get p a) = word_of_nat j) \<and>
     (\<forall>i j k l a. U i j = Some a \<longrightarrow> U k l = Some a \<longrightarrow> i = k \<and> j = l)"

definition synth_ok :: "snapshot_synthesizer \<Rightarrow> bool" where
  "synth_ok s \<longleftrightarrow> pool_inv (market_update_pool s) \<and> memory_blocks_size (market_update_pool s) = MAX_NUM_ORDERS \<and>
     slots_ok (updates_by_instrument s) (market_update_pool s)"

definition blocks_in_use :: "snapshot_synthesizer \<Rightarrow> nat" where
  "blocks_in_use s = card (pool_live (market_update_pool s))"

lemma slots_ok_live: "slots_ok U p \<Longrightarrow> U i j = Some a \<Longrightarrow> a \<in> pool_live p"
  and slots_ok_id: "slots_ok U p \<Longrightarrow> U i j = Some a \<Longrightarrow> mu_order_id (pool_get p a) = word_of_nat j"
  and slots_ok_inj: "slots_ok U p \<Longrightarrow> U i j = Some a \<Longrightarrow> U k l = Some a \<Longrightarrow> i = k \<and> j = l"
  unfolding slots_ok_def by blast+

lemma slots_ok_add:
  assumes "slots_ok U p" and "a \<notin> pool_live p" and "pool_live p' = insert a (pool_live p)"
    and "pool_get p' = (pool_get p)(a := u)" and "mu_order_id u = word_of_nat j"
  shows "slots_ok (U(i := (U i)(j := Some a))) p'"
  using assms unfolding slots_ok_def by (simp split: if_splits) blast

lemma slots_ok_remove:
  assumes "slots_ok U p" and "U i j = Some a" and "pool_live p' = pool_live p - {a}"
    and "pool_get p' = pool_get p"
  shows "slots_ok (U(i := (U i)(j := None))) p'"
proof -
  have "b \<noteq> a" if "U k l = Some b" "(k, l) \<noteq> (i, j)" for k l b
    using slots_ok_inj [OF assms(1) _ assms(2), of k l] that by auto
  then show ?thesis using assms unfolding slots_ok_def by (simp split: if_splits) blast
qed

lemma slots_ok_set:
  "slots_ok U p \<Longrightarrow> mu_order_id (f (pool_get p a)) = mu_order_id (pool_get p a) \<Longrightarrow> slots_ok U (pool_set a f p)"
  unfolding slots_ok_def by simp

section \<open>Accepting consistent updates\<close>

text \<open>What every branch of the switch leaves alone.\<close>

definition quiet :: "snapshot_synthesizer \<Rightarrow> snapshot_synthesizer \<Rightarrow> bool" where
  "quiet s t \<longleftrightarrow> send_buffer t = send_buffer s \<and> next_send_valid_index t = next_send_valid_index s \<and>
     sent t = sent s"

lemma table_of_Some:
  "table_of s i j = Some x \<Longrightarrow> \<exists>a. updates_by_instrument s i j = Some a \<and> x = pool_get (market_update_pool s) a"
  by (auto simp: table_of_def stored_def)

lemma table_of_None: "table_of s i j = None \<longleftrightarrow> updates_by_instrument s i j = None"
  by (simp add: table_of_def)

lemma expect_stored_ok:
  "mu_order_id (stored s a) = mu_order_id u \<Longrightarrow> mu_side (stored s a) = mu_side u \<Longrightarrow>
    expect_stored u (Some a) s = Inr a"
  by (simp add: expect_stored_def)

lemma snapshot_add:
  assumes ok: "synth_ok s" and t: "mu_type u = MU_ADD" and c: "consistent (blocks_in_use s) u (table_of s)"
    and q: "cmu_sequence_number cu = last_inc_seq_num s + 1" and u: "u = cmu_update cu"
  shows "\<exists>s'. add_to_snapshot cu s = Inr s' \<and> synth_ok s' \<and> table_of s' = apply_update u (table_of s) \<and>
    blocks_in_use s' = Suc (blocks_in_use s) \<and> last_inc_seq_num s' = cmu_sequence_number cu \<and> quiet s s'"
proof -
  define i where "i = unat (mu_instrument_id u)"
  define j where "j = unat (mu_order_id u)"
  have c': "i < MAX_NUM_INSTRUMENTS" "j < MAX_NUM_ORDERS" "updates_by_instrument s i j = None"
    "card (pool_live (market_update_pool s)) < MAX_NUM_ORDERS"
    using c t by (simp_all add: consistent_def Let_def i_def j_def blocks_in_use_def table_of_None)
  have p: "pool_inv (market_update_pool s)" "memory_blocks_size (market_update_pool s) = MAX_NUM_ORDERS"
    "slots_ok (updates_by_instrument s) (market_update_pool s)"
    using ok by (simp_all add: synth_ok_def)
  obtain a mp where a: "pool_alloc u (market_update_pool s) = Inr (a, mp)" "a \<notin> pool_live (market_update_pool s)"
    "pool_live mp = insert a (pool_live (market_update_pool s))" "pool_inv mp"
    "pool_get mp = (pool_get (market_update_pool s))(a := u)" "memory_blocks_size mp = MAX_NUM_ORDERS"
    using pool.alloc_ok [OF p(1), of u] c'(4) p(2) by auto
  define s' where "s' = s\<lparr>market_update_pool := mp,
    updates_by_instrument := (updates_by_instrument s)(i := (updates_by_instrument s i)(j := Some a)),
    last_inc_seq_num := cmu_sequence_number cu\<rparr>"
  have "add_to_snapshot cu s = Inr s'"
    using t c' a(1) q by (simp add: add_to_snapshot_def Let_def u update_slot_def set_update_slot_def
        i_def j_def s'_def)
  moreover have "slots_ok (updates_by_instrument s') mp"
    unfolding s'_def by (simp, rule slots_ok_add [OF p(3) a(2,3,5)]) (simp add: j_def)
  moreover have "table_of s' = apply_update u (table_of s)"
  proof -
    have "b \<noteq> a" if "updates_by_instrument s k l = Some b" for k l b
      using slots_ok_live [OF p(3) that] a(2) by auto
    then have "table_of s' k l = apply_update u (table_of s) k l" for k l
      using t a(5) by (auto simp: apply_update_def Let_def table_of_def stored_def s'_def i_def j_def
          split: option.splits intro!: option.map_cong0)
    then show ?thesis by (simp add: fun_eq_iff)
  qed
  moreover have "blocks_in_use s' = Suc (blocks_in_use s)"
    using a(2,3) pool.finite_live [OF p(1)] by (simp add: blocks_in_use_def s'_def)
  ultimately show ?thesis using a(4,6) by (intro exI [of _ s']) (simp add: synth_ok_def s'_def quiet_def)
qed

lemma snapshot_modify:
  assumes ok: "synth_ok s" and t: "mu_type u = MU_MODIFY" and c: "consistent (blocks_in_use s) u (table_of s)"
    and q: "cmu_sequence_number cu = last_inc_seq_num s + 1" and u: "u = cmu_update cu"
  shows "\<exists>s'. add_to_snapshot cu s = Inr s' \<and> synth_ok s' \<and> table_of s' = apply_update u (table_of s) \<and>
    blocks_in_use s' = blocks_in_use s \<and> last_inc_seq_num s' = cmu_sequence_number cu \<and> quiet s s'"
proof -
  define i where "i = unat (mu_instrument_id u)"
  define j where "j = unat (mu_order_id u)"
  have p: "pool_inv (market_update_pool s)" "memory_blocks_size (market_update_pool s) = MAX_NUM_ORDERS"
    "slots_ok (updates_by_instrument s) (market_update_pool s)"
    using ok by (simp_all add: synth_ok_def)
  obtain x where x: "i < MAX_NUM_INSTRUMENTS" "j < MAX_NUM_ORDERS" "table_of s i j = Some x" "mu_side x = mu_side u"
    using c t by (auto simp: consistent_def Let_def i_def j_def split: option.splits)
  then obtain a where a: "updates_by_instrument s i j = Some a" "x = stored s a"
    by (auto simp: stored_def dest: table_of_Some)
  have id: "mu_order_id (stored s a) = mu_order_id u"
    using slots_ok_id [OF p(3) a(1)] by (simp add: stored_def j_def)
  define mp where "mp = pool_set a (\<lambda>x. x\<lparr>mu_price := mu_price u\<rparr>)
    (pool_set a (\<lambda>x. x\<lparr>mu_qty := mu_qty u\<rparr>) (market_update_pool s))"
  define s' where "s' = s\<lparr>market_update_pool := mp, last_inc_seq_num := cmu_sequence_number cu\<rparr>"
  have "expect_stored u (Some a) s = Inr a" using id x(4) a(2) by (simp add: expect_stored_ok)
  then have "add_to_snapshot cu s = Inr s'"
    using t x(1,2) a q by (simp add: add_to_snapshot_def Let_def u update_slot_def i_def j_def s'_def mp_def)
  moreover have "slots_ok (updates_by_instrument s') mp"
    unfolding s'_def mp_def by (simp, intro slots_ok_set p(3)) simp_all
  moreover have "table_of s' = apply_update u (table_of s)"
  proof -
    have "b \<noteq> a" if "updates_by_instrument s k l = Some b" "(k, l) \<noteq> (i, j)" for k l b
      using slots_ok_inj [OF p(3) _ a(1), of k l] that by auto
    then have "table_of s' k l = apply_update u (table_of s) k l" for k l
      using t a(1) by (cases "(k, l) = (i, j)"; cases "updates_by_instrument s k l")
        (auto simp: apply_update_def Let_def table_of_def stored_def s'_def mp_def i_def j_def)
    then show ?thesis by (simp add: fun_eq_iff)
  qed
  ultimately show ?thesis using p
    by (intro exI [of _ s']) (simp add: synth_ok_def s'_def quiet_def blocks_in_use_def mp_def)
qed

lemma snapshot_cancel:
  assumes ok: "synth_ok s" and t: "mu_type u = MU_CANCEL" and c: "consistent (blocks_in_use s) u (table_of s)"
    and q: "cmu_sequence_number cu = last_inc_seq_num s + 1" and u: "u = cmu_update cu"
  shows "\<exists>s'. add_to_snapshot cu s = Inr s' \<and> synth_ok s' \<and> table_of s' = apply_update u (table_of s) \<and>
    blocks_in_use s' = blocks_in_use s - 1 \<and> last_inc_seq_num s' = cmu_sequence_number cu \<and> quiet s s'"
proof -
  define i where "i = unat (mu_instrument_id u)"
  define j where "j = unat (mu_order_id u)"
  have p: "pool_inv (market_update_pool s)" "memory_blocks_size (market_update_pool s) = MAX_NUM_ORDERS"
    "slots_ok (updates_by_instrument s) (market_update_pool s)"
    using ok by (simp_all add: synth_ok_def)
  obtain x where x: "i < MAX_NUM_INSTRUMENTS" "j < MAX_NUM_ORDERS" "table_of s i j = Some x" "mu_side x = mu_side u"
    using c t by (auto simp: consistent_def Let_def i_def j_def split: option.splits)
  then obtain a where a: "updates_by_instrument s i j = Some a" "x = stored s a"
    by (auto simp: stored_def dest: table_of_Some)
  have id: "mu_order_id (stored s a) = mu_order_id u"
    using slots_ok_id [OF p(3) a(1)] by (simp add: stored_def j_def)
  have live: "a \<in> pool_live (market_update_pool s)" by (rule slots_ok_live [OF p(3) a(1)])
  obtain mp where mp: "pool_free a (market_update_pool s) = Inr mp" "pool_live mp = pool_live (market_update_pool s) - {a}"
    "pool_inv mp" "pool_get mp = pool_get (market_update_pool s)" "memory_blocks_size mp = MAX_NUM_ORDERS"
    using pool.free_ok [OF p(1) live] p(2) by auto
  define s' where "s' = s\<lparr>market_update_pool := mp,
    updates_by_instrument := (updates_by_instrument s)(i := (updates_by_instrument s i)(j := None)),
    last_inc_seq_num := cmu_sequence_number cu\<rparr>"
  have "expect_stored u (Some a) s = Inr a" using id x(4) a(2) by (simp add: expect_stored_ok)
  then have "add_to_snapshot cu s = Inr s'"
    using t x(1,2) a mp(1) q by (simp add: add_to_snapshot_def Let_def u update_slot_def set_update_slot_def
        i_def j_def s'_def)
  moreover have "slots_ok (updates_by_instrument s') mp"
    unfolding s'_def by (simp, rule slots_ok_remove [OF p(3) a(1) mp(2,4)])
  moreover have "table_of s' = apply_update u (table_of s)"
    using t by (intro ext) (simp add: mp(4) apply_update_def Let_def table_of_def stored_def s'_def i_def j_def)
  moreover have "blocks_in_use s' = blocks_in_use s - 1"
    using mp(2) live by (simp add: blocks_in_use_def s'_def)
  ultimately show ?thesis using mp(3,5) by (intro exI [of _ s']) (simp add: synth_ok_def s'_def quiet_def)
qed

lemma snapshot_other:
  assumes ok: "synth_ok s" and t: "mu_type u \<notin> {MU_ADD, MU_MODIFY, MU_CANCEL}"
    and c: "consistent (blocks_in_use s) u (table_of s)"
    and q: "cmu_sequence_number cu = last_inc_seq_num s + 1" and u: "u = cmu_update cu"
  shows "\<exists>s'. add_to_snapshot cu s = Inr s' \<and> synth_ok s' \<and> table_of s' = apply_update u (table_of s) \<and>
    blocks_in_use s' = blocks_in_use s \<and> last_inc_seq_num s' = cmu_sequence_number cu \<and> quiet s s'"
proof -
  have i: "unat (mu_instrument_id u) < MAX_NUM_INSTRUMENTS" using c by (simp add: consistent_def Let_def)
  let ?s = "s\<lparr>last_inc_seq_num := cmu_sequence_number cu\<rparr>"
  have "add_to_snapshot cu s = Inr ?s"
    using i q t u by (cases "mu_type u") (simp_all add: add_to_snapshot_def Let_def)
  moreover have "apply_update u (table_of s) = table_of s"
    using t by (cases "mu_type u") (simp_all add: apply_update_def Let_def)
  moreover have "table_of ?s = table_of s" by (simp add: table_of_def stored_def fun_eq_iff)
  ultimately show ?thesis using ok by (intro exI [of _ ?s]) (simp add: synth_ok_def blocks_in_use_def quiet_def)
qed

lemma add_to_snapshot_ok:
  assumes "synth_ok s" and "consistent (blocks_in_use s) (cmu_update cu) (table_of s)"
    and "cmu_sequence_number cu = last_inc_seq_num s + 1"
  shows "\<exists>s'. add_to_snapshot cu s = Inr s' \<and> synth_ok s' \<and>
    table_of s' = apply_update (cmu_update cu) (table_of s) \<and>
    blocks_in_use s' = live_after (blocks_in_use s) (cmu_update cu) \<and>
    last_inc_seq_num s' = cmu_sequence_number cu \<and> quiet s s'"
proof -
  consider "mu_type (cmu_update cu) = MU_ADD" | "mu_type (cmu_update cu) = MU_MODIFY"
    | "mu_type (cmu_update cu) = MU_CANCEL" | "mu_type (cmu_update cu) \<notin> {MU_ADD, MU_MODIFY, MU_CANCEL}"
    by blast
  then show ?thesis
  proof cases
    case 1
    then show ?thesis using snapshot_add [OF assms(1) 1 assms(2,3) refl] by (simp add: live_after_def)
  next
    case 2
    then show ?thesis using snapshot_modify [OF assms(1) 2 assms(2,3) refl] by (simp add: live_after_def)
  next
    case 3
    then show ?thesis using snapshot_cancel [OF assms(1) 3 assms(2,3) refl] by (simp add: live_after_def)
  next
    case 4
    then have "live_after (blocks_in_use s) (cmu_update cu) = blocks_in_use s"
      by (cases "mu_type (cmu_update cu)") (simp_all add: live_after_def)
    then show ?thesis using snapshot_other [OF assms(1) 4 assms(2,3) refl] by simp
  qed
qed

section \<open>Draining the queue\<close>

lemma process_client_market_update_ok:
  assumes "queue_inv q" and "queue_items q = numbered (last_inc_seq_num s + 1) us" and "synth_ok s"
    and "all_consistent (blocks_in_use s) us (table_of s)"
  shows "\<exists>q' s'. process_client_market_update q s = Inr (q', s') \<and> queue_inv q' \<and> queue_items q' = [] \<and>
    q_size q' = q_size q \<and> synth_ok s' \<and> table_of s' = fold apply_update us (table_of s) \<and>
    blocks_in_use s' = foldl live_after (blocks_in_use s) us \<and>
    last_inc_seq_num s' = last_inc_seq_num s + word_of_nat (length us) \<and> quiet s s'"
  using assms
proof (induction us arbitrary: q s)
  case Nil
  then have "get_next_read_element q = None" by (simp add: get_next_read_element_items)
  then show ?case using Nil by (simp add: process_client_market_update.simps [of q] quiet_def)
next
  case (Cons u us)
  let ?cu = "\<lparr>cmu_sequence_number = last_inc_seq_num s + 1, cmu_update = u\<rparr>"
  have hd: "get_next_read_element q = Some ?cu"
    using Cons.prems(1,2) by (simp add: get_next_read_element_items)
  obtain t where t: "add_to_snapshot ?cu s = Inr t" "synth_ok t" "table_of t = apply_update u (table_of s)"
    "blocks_in_use t = live_after (blocks_in_use s) u" "last_inc_seq_num t = last_inc_seq_num s + 1" "quiet s t"
    using add_to_snapshot_ok [OF Cons.prems(3), of ?cu] Cons.prems(4) by auto
  let ?q = "next_read_index q"
  have q: "queue_inv ?q" "queue_items ?q = numbered (last_inc_seq_num t + 1) us"
    using Cons.prems(1,2) t(5) by (simp_all add: queue_inv_next_read_index queue_items_next_read_index)
  have "all_consistent (blocks_in_use t) us (table_of t)" using Cons.prems(4) t(3,4) by simp
  from Cons.IH [OF q t(2) this] obtain q' s' where s': "process_client_market_update ?q t = Inr (q', s')"
    "queue_inv q'" "queue_items q' = []" "q_size q' = q_size q" "synth_ok s'"
    "table_of s' = fold apply_update us (table_of t)" "blocks_in_use s' = foldl live_after (blocks_in_use t) us"
    "last_inc_seq_num s' = last_inc_seq_num t + word_of_nat (length us)" "quiet t s'" by auto
  have "process_client_market_update q s = Inr (q', s')"
    using hd t(1) s'(1) by (simp add: process_client_market_update.simps [of q])
  then show ?case using s' t(3-6) by (simp add: quiet_def add.assoc)
qed

section \<open>The published snapshot\<close>

definition start_message :: "snapshot_synthesizer \<Rightarrow> market_update" where
  "start_message s = default_market_update\<lparr>mu_type := MU_SNAPSHOT_START, mu_order_id := last_inc_seq_num s\<rparr>"

definition end_message :: "snapshot_synthesizer \<Rightarrow> market_update" where
  "end_message s = default_market_update\<lparr>mu_type := MU_SNAPSHOT_END, mu_order_id := last_inc_seq_num s\<rparr>"

definition clear_message :: "nat \<Rightarrow> market_update" where
  "clear_message i = default_market_update\<lparr>mu_type := MU_CLEAR, mu_instrument_id := word_of_nat i\<rparr>"

definition table_messages :: "snapshot_synthesizer \<Rightarrow> nat list \<Rightarrow> market_update list" where
  "table_messages s is = concat (map (\<lambda>i. clear_message i # instrument_updates i s) is)"

lemma instrument_updates_table:
  "instrument_updates i s = List.map_filter (table_of s i) [0..<MAX_NUM_ORDERS]"
  by (auto simp: instrument_updates_def table_of_def map_filter_def)

definition snapshot_messages :: "snapshot_synthesizer \<Rightarrow> market_update list" where
  "snapshot_messages s = start_message s # table_messages s [0..<MAX_NUM_INSTRUMENTS] @ [end_message s]"

text \<open>
  \<open>publishing ms k s t\<close>: from \<open>s\<close> with the first \<open>k\<close> of the messages \<open>ms\<close> in the buffer, the
  code has reached \<open>t\<close>; what it has sent on the way are prefixes of the messages.
\<close>

definition publishing :: "market_update list \<Rightarrow> nat \<Rightarrow> snapshot_synthesizer \<Rightarrow> snapshot_synthesizer \<Rightarrow> bool" where
  "publishing ms k s t \<longleftrightarrow> k \<le> length ms \<and> buffered (numbered 0 (take k ms)) t \<and>
     (\<exists>b n ds. t = s\<lparr>send_buffer := b, next_send_valid_index := n, sent := sent s @ ds\<rparr> \<and>
        (\<forall>d \<in> set ds. \<exists>j < length ms. d = datagram (numbered 0 (take j ms))))"

lemma publishing_obtain:
  assumes "publishing ms k s t"
  obtains b n ds where "k \<le> length ms" and "buffered (numbered 0 (take k ms)) t"
    and "t = s\<lparr>send_buffer := b, next_send_valid_index := n, sent := sent s @ ds\<rparr>"
    and "\<forall>d \<in> set ds. \<exists>j < length ms. d = datagram (numbered 0 (take j ms))"
  using assms unfolding publishing_def by blast

lemma publishing_table:
  assumes "publishing ms k s t"
  shows "instrument_updates i t = instrument_updates i s" and "last_inc_seq_num t = last_inc_seq_num s"
proof -
  from assms obtain b n e where t: "t = s\<lparr>send_buffer := b, next_send_valid_index := n, sent := e\<rparr>"
    unfolding publishing_def by blast
  show "instrument_updates i t = instrument_updates i s" "last_inc_seq_num t = last_inc_seq_num s"
    unfolding t by (simp_all add: instrument_updates_def stored_def cong: map_cong)
qed

lemma publishing_send:
  assumes "publishing ms k s t" and "k < length ms"
  shows "publishing ms k s (send_data t)"
  using assms(1)
proof (rule publishing_obtain)
  fix b n ds
  assume t: "k \<le> length ms" "buffered (numbered 0 (take k ms)) t"
    "t = s\<lparr>send_buffer := b, next_send_valid_index := n, sent := sent s @ ds\<rparr>"
    "\<forall>d \<in> set ds. \<exists>j < length ms. d = datagram (numbered 0 (take j ms))"
  let ?d = "datagram (numbered 0 (take k ms))"
  have "read_bytes 0 (next_send_valid_index t) (send_buffer t) = ?d" using t(2) by (simp add: buffered_def)
  then have "send_data t = s\<lparr>send_buffer := b, next_send_valid_index := n, sent := sent s @ ds @ [?d]\<rparr>"
    unfolding send_data_def t(3) by simp
  moreover have "\<forall>d \<in> set (ds @ [?d]). \<exists>j < length ms. d = datagram (numbered 0 (take j ms))"
    using t(4) assms(2) by auto
  moreover have "buffered (numbered 0 (take k ms)) (send_data t)" using t(2) by simp
  ultimately show ?thesis unfolding publishing_def using t(1) by blast
qed

lemma publishing_add:
  assumes p: "publishing ms k s t" and k: "k < length ms" and u: "u = ms ! k" and n: "n = word_of_nat k"
    and fits: "length ms * sizeof_client_market_update < BUFFER_SIZE"
  shows "\<exists>t'. add_to_buffer be \<lparr>cmu_sequence_number = n, cmu_update = u\<rparr> t = Inr t' \<and> publishing ms (Suc k) s t'"
proof -
  let ?u = "\<lparr>cmu_sequence_number = n, cmu_update = u\<rparr>"
  from p obtain b0 n0 ds where t: "buffered (numbered 0 (take k ms)) t"
    "t = s\<lparr>send_buffer := b0, next_send_valid_index := n0, sent := sent s @ ds\<rparr>"
    "\<forall>d \<in> set ds. \<exists>j < length ms. d = datagram (numbered 0 (take j ms))"
    by (rule publishing_obtain)
  have "Suc k * sizeof_client_market_update \<le> length ms * sizeof_client_market_update"
    using k by (intro mult_le_mono1) simp
  then have "Suc (length (numbered 0 (take k ms))) * sizeof_client_market_update < BUFFER_SIZE"
    using fits k by simp
  from add_to_buffer_ok [OF t(1) this, of be ?u] obtain b m where
    a: "add_to_buffer be ?u t = Inr (t\<lparr>send_buffer := b, next_send_valid_index := m\<rparr>)"
    "buffered (numbered 0 (take k ms) @ [?u]) (t\<lparr>send_buffer := b, next_send_valid_index := m\<rparr>)" by blast
  have num: "numbered 0 (take (Suc k) ms) = numbered 0 (take k ms) @ [?u]"
    using k u n by (simp add: take_Suc_conv_app_nth numbered_append)
  have eq: "t\<lparr>send_buffer := b, next_send_valid_index := m\<rparr> =
      s\<lparr>send_buffer := b, next_send_valid_index := m, sent := sent s @ ds\<rparr>"
    by (simp add: t(2))
  have "publishing ms (Suc k) s (t\<lparr>send_buffer := b, next_send_valid_index := m\<rparr>)"
    unfolding publishing_def num using a(2) k t(3) eq
    by (intro conjI exI [of _ b] exI [of _ m] exI [of _ ds]) simp_all
  then show ?thesis using a(1) by blast
qed

text \<open>The two loops, when what they publish is the next part of the messages.\<close>

lemma publish_orders_ok:
  "publishing ms k s t \<Longrightarrow> ms = pre @ us @ post \<Longrightarrow> post \<noteq> [] \<Longrightarrow> length pre = k \<Longrightarrow>
    length ms * sizeof_client_market_update < BUFFER_SIZE \<Longrightarrow> n = word_of_nat k \<Longrightarrow>
    \<exists>t'. publish_orders be us n t = Inr (word_of_nat (k + length us), t') \<and> publishing ms (k + length us) s t'"
proof (induction us arbitrary: k t pre n)
  case (Cons u us)
  have "k < length ms" "u = ms ! k" "Suc k < length ms" using Cons.prems(2-4) by auto
  note k = this
  from publishing_add [OF Cons.prems(1) k(1,2) Cons.prems(6,5)] obtain t1 where
    t1: "add_to_buffer be \<lparr>cmu_sequence_number = n, cmu_update = u\<rparr> t = Inr t1" "publishing ms (Suc k) s t1"
    by blast
  from Cons.IH [OF publishing_send [OF t1(2) k(3)], of "pre @ [u]" "n + 1"] Cons.prems(2-6)
  show ?case using t1(1) by (auto simp: add.commute)
qed simp

lemma publish_instruments_ok:
  "publishing ms k s t \<Longrightarrow> ms = pre @ table_messages s is @ post \<Longrightarrow> post \<noteq> [] \<Longrightarrow> length pre = k \<Longrightarrow>
    length ms * sizeof_client_market_update < BUFFER_SIZE \<Longrightarrow> n = word_of_nat k \<Longrightarrow>
    \<exists>t'. publish_instruments be is n t = Inr (word_of_nat (k + length (table_messages s is)), t') \<and>
      publishing ms (k + length (table_messages s is)) s t'"
proof (induction "is" arbitrary: k t pre n)
  case (Cons i "is")
  let ?us = "instrument_updates i s"
  have split: "table_messages s (i # is) = clear_message i # ?us @ table_messages s is"
    by (simp add: table_messages_def)
  have "k < length ms" "clear_message i = ms ! k" using Cons.prems(2,4) split by auto
  from publishing_add [OF Cons.prems(1) this Cons.prems(6,5)] obtain t1 where
    t1: "add_to_buffer be \<lparr>cmu_sequence_number = n, cmu_update = clear_message i\<rparr> t = Inr t1"
    "publishing ms (Suc k) s t1" by blast
  from publish_orders_ok [OF t1(2), of "pre @ [clear_message i]" ?us "table_messages s is @ post" "n + 1"]
  obtain t2 where t2: "publish_orders be ?us (n + 1) t1 = Inr (word_of_nat (Suc k + length ?us), t2)"
    "publishing ms (Suc k + length ?us) s t2"
    using Cons.prems(2-6) split by (auto simp: add.commute)
  from Cons.IH [OF t2(2), of "pre @ clear_message i # ?us" "word_of_nat (Suc k + length ?us)"]
  obtain t3 where t3: "publish_instruments be is (word_of_nat (Suc k + length ?us)) t2 =
      Inr (word_of_nat (Suc k + length ?us + length (table_messages s is)), t3)"
    "publishing ms (Suc k + length ?us + length (table_messages s is)) s t3"
    using Cons.prems(2-6) split by auto
  have len: "k + length (table_messages s (i # is)) = Suc k + length ?us + length (table_messages s is)"
    by (simp add: split)
  have "publish_instruments be (i # is) n t =
      Inr (word_of_nat (Suc k + length ?us + length (table_messages s is)), t3)"
    using t1(1) t2(1) t3(1) publishing_table(1) [OF t1(2)] by (simp add: clear_message_def)
  then show ?case unfolding len using t3(2) by blast
qed (simp add: table_messages_def)

lemma table_messages_bound:
  assumes "synth_ok s"
  shows "length (table_messages s [0..<MAX_NUM_INSTRUMENTS]) \<le> MAX_NUM_INSTRUMENTS + blocks_in_use s"
proof -
  let ?U = "updates_by_instrument s" and ?p = "market_update_pool s"
  have ok: "slots_ok ?U ?p" "pool_inv ?p" using assms by (simp_all add: synth_ok_def)
  have one: "length (table_messages s [0..<n]) \<le> n + card {a. \<exists>i < n. \<exists>j. ?U i j = Some a}" for n
  proof (induction n)
    case (Suc n)
    let ?as = "List.map_filter (?U n) [0..<MAX_NUM_ORDERS]"
    let ?old = "{a. \<exists>i < n. \<exists>j. ?U i j = Some a}" and ?new = "{a. \<exists>i < Suc n. \<exists>j. ?U i j = Some a}"
    have fin: "finite ?new"
      by (rule finite_subset [OF _ pool.finite_live [OF ok(2)]]) (auto dest: slots_ok_live [OF ok(1)])
    have "distinct ?as" unfolding map_filter_def distinct_map
      by (auto simp: inj_on_def dest: slots_ok_inj [OF ok(1)])
    then have "length ?as = card (set ?as)" by (simp add: distinct_card)
    moreover have "set ?as \<inter> ?old = {}" by (auto simp: map_filter_def dest: slots_ok_inj [OF ok(1)])
    moreover have "set ?as \<subseteq> ?new" by (force simp: map_filter_def)
    moreover have "?old \<subseteq> ?new" by (force simp: less_Suc_eq)
    ultimately have "length ?as + card ?old \<le> card ?new"
      using fin card_mono [OF fin, of "set ?as \<union> ?old"] finite_subset [OF _ fin, of ?old]
      by (simp add: card_Un_disjoint Un_least)
    then show ?case using Suc by (simp add: table_messages_def instrument_updates_def)
  qed (simp add: table_messages_def)
  have "card {a. \<exists>i < MAX_NUM_INSTRUMENTS. \<exists>j. ?U i j = Some a} \<le> blocks_in_use s"
    unfolding blocks_in_use_def
    by (rule card_mono [OF pool.finite_live [OF ok(2)]]) (auto dest: slots_ok_live [OF ok(1)])
  then show ?thesis using one [of MAX_NUM_INSTRUMENTS] by simp
qed

lemma synth_blocks_bound: "synth_ok s \<Longrightarrow> blocks_in_use s \<le> MAX_NUM_ORDERS"
  using card_pool_live [of "market_update_pool s"] by (simp add: synth_ok_def blocks_in_use_def)

text \<open>
  Publishing: the buffer always has room, the last datagram is the complete snapshot, the
  earlier ones are its prefixes, and the state is otherwise unchanged.
\<close>

lemma publish_snapshot_ok:
  assumes "synth_ok s" and "next_send_valid_index s = 0"
  shows "\<exists>b ds. publish_snapshot be s = Inr (s\<lparr>send_buffer := b,
      sent := sent s @ ds @ [datagram (numbered 0 (snapshot_messages s))]\<rparr>) \<and>
    (\<forall>d \<in> set ds. \<exists>j < length (snapshot_messages s). d = datagram (numbered 0 (take j (snapshot_messages s))))"
proof -
  let ?ms = "snapshot_messages s" and ?tm = "table_messages s [0..<MAX_NUM_INSTRUMENTS]"
  have len: "length ?ms = length ?tm + 2" by (simp add: snapshot_messages_def)
  have "length ?tm \<le> 2056" using table_messages_bound [OF assms(1)] synth_blocks_bound [OF assms(1)]
    by (simp add: model_constants)
  then have fits: "length ?ms * sizeof_client_market_update < BUFFER_SIZE"
    using len by (simp add: sizeof_defs BUFFER_SIZE_def)
  have "s = s\<lparr>send_buffer := send_buffer s, next_send_valid_index := next_send_valid_index s, sent := sent s @ []\<rparr>"
    by simp
  then have p0: "publishing ?ms 0 s s" unfolding publishing_def using assms(2)
    by (intro conjI exI [of _ "send_buffer s"] exI [of _ "next_send_valid_index s"] exI [of _ "[]"]) simp_all
  have "0 < length ?ms" "start_message s = ?ms ! 0" by (simp_all add: snapshot_messages_def)
  note first = this
  have zero: "(0 :: u64) = word_of_nat 0" and one: "(1 :: u64) = word_of_nat (Suc 0)" by simp_all
  from publishing_add [OF p0 first zero fits, of be] obtain t1 where
    t1: "add_to_buffer be \<lparr>cmu_sequence_number = 0, cmu_update = start_message s\<rparr> s = Inr t1"
    "publishing ?ms (Suc 0) s t1" by blast
  have parts: "?ms = [start_message s] @ ?tm @ [end_message s]" by (simp add: snapshot_messages_def)
  have "[end_message s] \<noteq> []" "length [start_message s] = Suc 0" by simp_all
  from publish_instruments_ok [OF t1(2) parts this fits one, of be] obtain t2 where
    t2: "publish_instruments be [0..<MAX_NUM_INSTRUMENTS] 1 t1 = Inr (word_of_nat (Suc 0 + length ?tm), t2)"
    "publishing ?ms (Suc 0 + length ?tm) s t2" by blast
  have last: "end_message s = ?ms ! (Suc 0 + length ?tm)" "Suc 0 + length ?tm < length ?ms"
    "Suc (Suc 0 + length ?tm) = length ?ms"
    by (simp_all add: snapshot_messages_def nth_append)
  from publishing_add [OF t2(2) last(2,1) refl fits, of be, unfolded last(3)] obtain t3 where
    t3: "add_to_buffer be \<lparr>cmu_sequence_number = word_of_nat (Suc 0 + length ?tm),
      cmu_update = end_message s\<rparr> t2 = Inr t3" "publishing ?ms (length ?ms) s t3" by blast
  from publishing_obtain [OF t3(2)] obtain b n ds where t: "buffered (numbered 0 ?ms) t3"
    "t3 = s\<lparr>send_buffer := b, next_send_valid_index := n, sent := sent s @ ds\<rparr>"
    "\<forall>d \<in> set ds. \<exists>j < length ?ms. d = datagram (numbered 0 (take j ?ms))"
    by (metis take_all_iff order_refl)
  have "read_bytes 0 (next_send_valid_index t3) (send_buffer t3) = datagram (numbered 0 ?ms)"
    using t(1) by (simp add: buffered_def)
  then have "(send_data t3)\<lparr>next_send_valid_index := 0\<rparr> =
      s\<lparr>send_buffer := b, sent := sent s @ ds @ [datagram (numbered 0 ?ms)]\<rparr>"
    using assms(2) unfolding send_data_def t(2) by simp
  moreover have "publish_snapshot be s = Inr ((send_data t3)\<lparr>next_send_valid_index := 0\<rparr>)"
    using t1(1) t2(1) t3(1) publishing_table(2) [OF t2(2)]
    unfolding publish_snapshot_def start_message_def end_message_def by simp
  ultimately show ?thesis using t(3) by (metis (no_types, lifting))
qed

end
