(* ===== verification/MarketDataFlow.thy ===== *)
theory MarketDataFlow
  imports MarketDataPublisher SnapshotSynthesizer
begin

text \<open>
  The market data side as a whole: the engine, the publisher thread and the synthesizer thread
  with its timer, connected by the two queues, as a step relation. Each of the threads' handlers
  is one step, so the theory is about every interleaving of the handlers (not of the instructions
  inside them; \<open>MarketDataPublisher\<close> has the one case where that matters).
\<close>

record md_system =
  market_updates :: "market_update lock_free_queue"
  publisher :: market_data_publisher
  synthesizer :: snapshot_synthesizer

definition md_init :: "md_system result" where
  "md_init = rbind snapshot_synthesizer_init (\<lambda>s.
     Inr \<lparr>market_updates = lock_free_queue_init MAX_MARKET_UPDATES default_market_update,
          publisher = market_data_publisher_init, synthesizer = s\<rparr>)"

section \<open>The handlers as steps\<close>

definition run_publisher :: "bool \<Rightarrow> md_system \<Rightarrow> md_system result" where
  "run_publisher be s = rbind (process_and_publish be (market_updates s) (publisher s)) (\<lambda>(q, p).
     Inr (s\<lparr>market_updates := q, publisher := p\<rparr>))"

definition run_synthesizer :: "md_system \<Rightarrow> md_system result" where
  "run_synthesizer s =
     rbind (process_client_market_update (snapshot_market_update_queue (publisher s)) (synthesizer s)) (\<lambda>(q, t).
     Inr (s\<lparr>publisher := (publisher s)\<lparr>snapshot_market_update_queue := q\<rparr>, synthesizer := t\<rparr>))"

definition run_timer :: "bool \<Rightarrow> md_system \<Rightarrow> md_system result" where
  "run_timer be s = rbind (publish_snapshot be (synthesizer s)) (\<lambda>t. Inr (s\<lparr>synthesizer := t\<rparr>))"

text \<open>
  A step is labelled with the updates the engine sends in it. The queues do not refuse a write,
  so that they are not overrun is a condition of the steps that write.
\<close>

inductive md_step :: "bool \<Rightarrow> md_system \<Rightarrow> market_update list \<Rightarrow> md_system \<Rightarrow> bool" for be where
  engine: "q_num_elements (market_updates s) < q_size (market_updates s) \<Longrightarrow>
    md_step be s [u] (s\<lparr>market_updates := enqueue u (market_updates s)\<rparr>)"
| publisher: "q_num_elements (snapshot_market_update_queue (publisher s)) + q_num_elements (market_updates s)
      \<le> q_size (snapshot_market_update_queue (publisher s)) \<Longrightarrow>
    run_publisher be s = Inr s' \<Longrightarrow> md_step be s [] s'"
| synthesizer: "run_synthesizer s = Inr s' \<Longrightarrow> md_step be s [] s'"
| timer: "run_timer be s = Inr s' \<Longrightarrow> md_step be s [] s'"

inductive_cases md_stepE [consumes 1, case_names engine publisher synthesizer timer]: "md_step be s us s'"

inductive md_run :: "bool \<Rightarrow> market_update list \<Rightarrow> md_system \<Rightarrow> bool" for be where
  start: "md_init = Inr s \<Longrightarrow> md_run be [] s"
| step: "md_run be us s \<Longrightarrow> md_step be s vs s' \<Longrightarrow> md_run be (us @ vs) s'"

section \<open>The invariant\<close>

abbreviation no_updates :: table where
  "no_updates \<equiv> (\<lambda>_ _. None)"

text \<open>
  Of the updates \<open>us\<close> the engine has sent, the publisher has published the first, and of those
  the synthesizer has processed the first.
\<close>

definition md_split :: "market_update list \<Rightarrow> market_update list \<Rightarrow> market_update list \<Rightarrow> md_system \<Rightarrow> bool" where
  "md_split seen waiting unsent s \<longleftrightarrow>
     queue_items (market_updates s) = unsent \<and>
     queue_items (snapshot_market_update_queue (publisher s)) = numbered (1 + word_of_nat (length seen)) waiting \<and>
     next_inc_seq_num (publisher s) = 1 + word_of_nat (length seen) + word_of_nat (length waiting) \<and>
     last_inc_seq_num (synthesizer s) = word_of_nat (length seen) \<and>
     table_of (synthesizer s) = fold apply_update seen no_updates \<and>
     blocks_in_use (synthesizer s) = foldl live_after 0 seen"

definition md_wf :: "md_system \<Rightarrow> bool" where
  "md_wf s \<longleftrightarrow> queue_inv (market_updates s) \<and> q_size (market_updates s) = MAX_MARKET_UPDATES \<and>
     queue_inv (snapshot_market_update_queue (publisher s)) \<and>
     q_size (snapshot_market_update_queue (publisher s)) = MAX_MARKET_UPDATES \<and>
     next_send_valid_index (publisher s) = 0 \<and> synth_ok (synthesizer s) \<and>
     next_send_valid_index (synthesizer s) = 0"

definition md_inv :: "market_update list \<Rightarrow> md_system \<Rightarrow> bool" where
  "md_inv us s \<longleftrightarrow> md_wf s \<and>
     (\<exists>seen waiting unsent. us = seen @ waiting @ unsent \<and> md_split seen waiting unsent s)"

lemma md_inv_obtain:
  assumes "md_inv us s"
  obtains seen waiting unsent where "md_wf s" and "us = seen @ waiting @ unsent" and "md_split seen waiting unsent s"
  using assms unfolding md_inv_def by blast

lemma snapshot_synthesizer_init_ok:
  "\<exists>t. snapshot_synthesizer_init = Inr t \<and> synth_ok t \<and> table_of t = no_updates \<and> blocks_in_use t = 0 \<and>
    last_inc_seq_num t = 0 \<and> next_send_valid_index t = 0 \<and> sent t = []"
proof -
  have pos: "0 < MAX_NUM_ORDERS" by (simp add: model_constants)
  then show ?thesis using fresh_pool_inv [OF pos, of default_market_update]
    by (simp add: snapshot_synthesizer_init_def memory_pool_init_eq synth_ok_def slots_ok_def table_of_def
        blocks_in_use_def fun_eq_iff)
qed

lemma md_init_ok:
  assumes "md_init = Inr s"
  shows "md_inv [] s"
proof -
  obtain t where t: "snapshot_synthesizer_init = Inr t" "synth_ok t" "table_of t = no_updates" "blocks_in_use t = 0"
    "last_inc_seq_num t = 0" "next_send_valid_index t = 0" "sent t = []"
    using snapshot_synthesizer_init_ok by blast
  have pos: "0 < MAX_MARKET_UPDATES" by (simp add: model_constants)
  have s: "s = \<lparr>market_updates = lock_free_queue_init MAX_MARKET_UPDATES default_market_update,
      publisher = market_data_publisher_init, synthesizer = t\<rparr>"
    using assms unfolding md_init_def t(1) by simp
  have "md_wf s" using t(2,6) pos
    by (simp add: s md_wf_def market_data_publisher_init_def queue_init_inv)
  moreover have "md_split [] [] [] s" using t(3-5)
    by (simp add: s md_split_def market_data_publisher_init_def)
  ultimately show ?thesis unfolding md_inv_def by auto
qed

lemma md_inv_engine:
  assumes "md_inv us s" and "q_num_elements (market_updates s) < q_size (market_updates s)"
  shows "md_inv (us @ [u]) (s\<lparr>market_updates := enqueue u (market_updates s)\<rparr>)"
  using assms(1)
proof (rule md_inv_obtain)
  fix seen waiting unsent
  assume wf: "md_wf s" and us: "us = seen @ waiting @ unsent" and split: "md_split seen waiting unsent s"
  let ?s = "s\<lparr>market_updates := enqueue u (market_updates s)\<rparr>"
  have "md_split seen waiting (unsent @ [u]) ?s"
    using split wf assms(2) by (simp add: md_split_def md_wf_def queue_items_enqueue)
  moreover have "md_wf ?s" using wf assms(2) by (simp add: md_wf_def queue_inv_enqueue)
  ultimately show ?thesis unfolding md_inv_def us by auto
qed

lemma md_inv_publisher:
  assumes "md_inv us s" and "q_num_elements (snapshot_market_update_queue (publisher s)) +
      q_num_elements (market_updates s) \<le> q_size (snapshot_market_update_queue (publisher s))"
  shows "\<exists>s'. run_publisher be s = Inr s' \<and> md_inv us s' \<and> queue_items (market_updates s') = [] \<and>
    sent (publisher s') = sent (publisher s) @ (if queue_items (market_updates s) = [] then []
      else [datagram (numbered (next_inc_seq_num (publisher s)) (queue_items (market_updates s)))])"
  using assms(1)
proof (rule md_inv_obtain)
  fix seen waiting unsent
  assume wf: "md_wf s" and us: "us = seen @ waiting @ unsent" and split: "md_split seen waiting unsent s"
  show ?thesis
  proof (cases "unsent = []")
    case True
    then have "queue_size (market_updates s) = 0" using split by (simp add: queue_size_def md_split_def flip: length_queue_items)
    then show ?thesis using assms(1) split True
      by (intro exI [of _ s]) (simp add: run_publisher_def process_and_publish_def md_split_def)
  next
    case False
    from process_and_publish_ok [of "market_updates s" "publisher s" be] wf split False assms(2)
    obtain q p where r: "process_and_publish be (market_updates s) (publisher s) = Inr (q, p)" "queue_inv q"
      "queue_items q = []" "q_size q = q_size (market_updates s)" "next_send_valid_index p = 0"
      "sent p = sent (publisher s) @ [datagram (numbered (next_inc_seq_num (publisher s)) unsent)]"
      "next_inc_seq_num p = next_inc_seq_num (publisher s) + word_of_nat (length unsent)"
      "queue_inv (snapshot_market_update_queue p)"
      "q_size (snapshot_market_update_queue p) = q_size (snapshot_market_update_queue (publisher s))"
      "queue_items (snapshot_market_update_queue p) = queue_items (snapshot_market_update_queue (publisher s)) @
        numbered (next_inc_seq_num (publisher s)) unsent"
      by (auto simp: md_wf_def md_split_def)
    let ?s = "s\<lparr>market_updates := q, publisher := p\<rparr>"
    have "md_split seen (waiting @ unsent) [] ?s"
      using split r(3,7,10) by (simp add: md_split_def numbered_append add.assoc)
    moreover have "md_wf ?s" using wf r(2,4,5,8,9) by (simp add: md_wf_def)
    ultimately have "md_inv us ?s" unfolding md_inv_def us by (metis append_Nil2)
    moreover have "queue_items (market_updates s) = unsent" using split by (simp add: md_split_def)
    ultimately show ?thesis using r(1,3,6) False by (simp add: run_publisher_def)
  qed
qed

lemma md_inv_synthesizer:
  assumes "md_inv us s" and "all_consistent 0 us no_updates"
  shows "\<exists>s'. run_synthesizer s = Inr s' \<and> md_inv us s' \<and> queue_items (snapshot_market_update_queue (publisher s')) = [] \<and>
    market_updates s' = market_updates s \<and>
    next_inc_seq_num (publisher s') = next_inc_seq_num (publisher s)"
  using assms(1)
proof (rule md_inv_obtain)
  fix seen waiting unsent
  assume wf: "md_wf s" and us: "us = seen @ waiting @ unsent" and split: "md_split seen waiting unsent s"
  have "all_consistent (blocks_in_use (synthesizer s)) waiting (table_of (synthesizer s))"
    using assms(2) split unfolding us by (simp add: md_split_def)
  moreover have "queue_inv (snapshot_market_update_queue (publisher s))" "synth_ok (synthesizer s)"
    "queue_items (snapshot_market_update_queue (publisher s)) = numbered (last_inc_seq_num (synthesizer s) + 1) waiting"
    using wf split by (simp_all add: md_wf_def md_split_def add.commute)
  ultimately obtain q t where r: "process_client_market_update (snapshot_market_update_queue (publisher s)) (synthesizer s) = Inr (q, t)"
    "queue_inv q" "queue_items q = []" "q_size q = q_size (snapshot_market_update_queue (publisher s))"
    "synth_ok t" "table_of t = fold apply_update waiting (table_of (synthesizer s))"
    "blocks_in_use t = foldl live_after (blocks_in_use (synthesizer s)) waiting"
    "last_inc_seq_num t = last_inc_seq_num (synthesizer s) + word_of_nat (length waiting)" "quiet (synthesizer s) t"
    using process_client_market_update_ok by blast
  let ?s = "s\<lparr>publisher := (publisher s)\<lparr>snapshot_market_update_queue := q\<rparr>, synthesizer := t\<rparr>"
  have "md_split (seen @ waiting) [] unsent ?s"
    using split r(3,6-8) by (simp add: md_split_def add.assoc)
  moreover have "md_wf ?s" using wf r(2,4,5,9) by (simp add: md_wf_def quiet_def)
  ultimately have "md_inv us ?s" unfolding md_inv_def us by (metis append.assoc append_Nil)
  then show ?thesis using r(1,3) by (simp add: run_synthesizer_def)
qed

lemma md_inv_timer:
  assumes "md_inv us s"
  shows "\<exists>s'. run_timer be s = Inr s' \<and> md_inv us s' \<and>
    last (sent (synthesizer s')) = datagram (numbered 0 (snapshot_messages (synthesizer s)))"
  using assms
proof (rule md_inv_obtain)
  fix seen waiting unsent
  assume wf: "md_wf s" and us: "us = seen @ waiting @ unsent" and split: "md_split seen waiting unsent s"
  let ?t = "synthesizer s"
  obtain b ds where r: "publish_snapshot be ?t = Inr (?t\<lparr>send_buffer := b,
      sent := sent ?t @ ds @ [datagram (numbered 0 (snapshot_messages ?t))]\<rparr>)"
    using publish_snapshot_ok [of ?t be] wf by (auto simp: md_wf_def)
  let ?t' = "?t\<lparr>send_buffer := b, sent := sent ?t @ ds @ [datagram (numbered 0 (snapshot_messages ?t))]\<rparr>"
  have "table_of ?t' = table_of ?t" "blocks_in_use ?t' = blocks_in_use ?t" "synth_ok ?t' = synth_ok ?t"
    by (simp_all add: table_of_def stored_def blocks_in_use_def synth_ok_def fun_eq_iff)
  then have "md_split seen waiting unsent (s\<lparr>synthesizer := ?t'\<rparr>)" "md_wf (s\<lparr>synthesizer := ?t'\<rparr>)"
    using split wf by (simp_all add: md_split_def md_wf_def)
  then have "md_inv us (s\<lparr>synthesizer := ?t'\<rparr>)" unfolding md_inv_def us by blast
  then show ?thesis using r by (simp add: run_timer_def)
qed

lemma md_inv_step:
  assumes "md_inv us s" and "md_step be s vs s'" and "all_consistent 0 us no_updates"
  shows "md_inv (us @ vs) s'"
  using assms(2)
proof (cases rule: md_stepE)
  case (engine u)
  then show ?thesis using md_inv_engine [OF assms(1)] by simp
next
  case publisher
  then show ?thesis using md_inv_publisher [OF assms(1), of be] by auto
next
  case synthesizer
  then show ?thesis using md_inv_synthesizer [OF assms(1,3)] by auto
next
  case timer
  then show ?thesis using md_inv_timer [OF assms(1), of be] by auto
qed

lemma md_run_inv: "md_run be us s \<Longrightarrow> all_consistent 0 us no_updates \<Longrightarrow> md_inv us s"
proof (induction rule: md_run.induct)
  case (start s)
  then show ?case using md_init_ok by auto
next
  case (step us s vs s')
  then show ?case using md_inv_step by simp
qed

section \<open>Sending and draining\<close>

text \<open>The engine can send any updates that fit its queue.\<close>

lemma md_run_send:
  assumes "length us \<le> MAX_MARKET_UPDATES"
  shows "\<exists>s. md_run be us s \<and> q_num_elements (market_updates s) = length us \<and>
    q_size (market_updates s) = MAX_MARKET_UPDATES"
  using assms
proof (induction us rule: rev_induct)
  case Nil
  obtain t where t: "snapshot_synthesizer_init = Inr t" using snapshot_synthesizer_init_ok by blast
  let ?s = "\<lparr>market_updates = lock_free_queue_init MAX_MARKET_UPDATES default_market_update,
      publisher = market_data_publisher_init, synthesizer = t\<rparr>"
  have "md_init = Inr ?s" unfolding md_init_def t by simp
  from md_run.start [OF this] show ?case
    by (intro exI [of _ ?s]) (simp add: lock_free_queue_init_def)
next
  case (snoc u us)
  then obtain s where s: "md_run be us s" "q_num_elements (market_updates s) = length us"
    "q_size (market_updates s) = MAX_MARKET_UPDATES" by auto
  then have "md_step be s [u] (s\<lparr>market_updates := enqueue u (market_updates s)\<rparr>)"
    using snoc.prems by (intro md_step.engine) simp
  from md_run.step [OF s(1) this] s show ?case
    by (intro exI [of _ "s\<lparr>market_updates := enqueue u (market_updates s)\<rparr>"]) simp
qed

text \<open>With no more updates than the queues hold, the publisher's copies fit.\<close>

lemma md_inv_room:
  assumes "md_inv us s" and "length us \<le> MAX_MARKET_UPDATES"
  shows "q_num_elements (snapshot_market_update_queue (publisher s)) + q_num_elements (market_updates s)
    \<le> q_size (snapshot_market_update_queue (publisher s))"
  using assms(1)
proof (rule md_inv_obtain)
  fix seen waiting unsent
  assume "md_wf s" "us = seen @ waiting @ unsent" "md_split seen waiting unsent s"
  then show ?thesis using assms(2) by (simp add: md_wf_def md_split_def flip: length_queue_items)
qed

text \<open>
  From any point of a run, one turn of the publisher and one of the synthesizer bring the table
  up to date.
\<close>

lemma md_run_drain:
  assumes run: "md_run be us s" and c: "all_consistent 0 us no_updates" and len: "length us \<le> MAX_MARKET_UPDATES"
  shows "\<exists>s1 s2. run_publisher be s = Inr s1 \<and> run_synthesizer s1 = Inr s2 \<and> md_run be us s2 \<and>
    queue_items (market_updates s2) = [] \<and> queue_items (snapshot_market_update_queue (publisher s2)) = [] \<and>
    table_of (synthesizer s2) = fold apply_update us no_updates \<and>
    last_inc_seq_num (synthesizer s2) = word_of_nat (length us)"
proof -
  have inv: "md_inv us s" by (rule md_run_inv [OF run c])
  note room = md_inv_room [OF inv len]
  obtain s1 where s1: "run_publisher be s = Inr s1" "md_inv us s1" "queue_items (market_updates s1) = []"
    using md_inv_publisher [OF inv room, of be] by blast
  have run1: "md_run be us s1" using md_run.step [OF run md_step.publisher [OF room s1(1)]] by simp
  obtain s2 where s2: "run_synthesizer s1 = Inr s2" "md_inv us s2" "market_updates s2 = market_updates s1"
    "queue_items (snapshot_market_update_queue (publisher s2)) = []"
    using md_inv_synthesizer [OF s1(2) c] by blast
  have run2: "md_run be us s2" using md_run.step [OF run1 md_step.synthesizer [OF s2(1)]] by simp
  from s2(2) have "table_of (synthesizer s2) = fold apply_update us no_updates \<and>
    last_inc_seq_num (synthesizer s2) = word_of_nat (length us)"
  proof (rule md_inv_obtain)
    fix seen waiting unsent
    assume us: "us = seen @ waiting @ unsent" and split: "md_split seen waiting unsent s2"
    have "unsent = []" "numbered (1 + word_of_nat (length seen)) waiting = []"
      using split s2(3,4) s1(3) by (simp_all add: md_split_def)
    then have "unsent = []" "waiting = []" using length_numbered by (metis length_0_conv)+
    then show ?thesis using split us by (simp add: md_split_def)
  qed
  then show ?thesis using s1(1,3) s2(1,3,4) run2 by auto
qed

end
