(* ===== verification/SnapshotMirror.thy ===== *)
theory SnapshotMirror
  imports MarketDataFlow TradingRules "HOL-Library.Multiset"
begin

text \<open>
  The market data stream says what the books are: replaying the engine's updates into the
  synthesizer's table gives, for every instrument, exactly the resting orders of its book, each
  as the addition a client would need. The updates are always consistent, so the synthesizer's
  assertions cannot fail, as long as the day has fewer requests than \<open>MAX_NUM_ORDERS\<close>.
\<close>

section \<open>A book as a table\<close>

definition order_update :: "order_info \<Rightarrow> instrument_id_t \<Rightarrow> market_update" where
  "order_update x i = \<lparr>mu_type = MU_ADD, mu_order_id = o_market_order_id x, mu_instrument_id = i,
     mu_side = o_side x, mu_price = o_price x, mu_qty = o_qty x, mu_priority = o_priority x\<rparr>"

definition market_id :: "order_info \<Rightarrow> nat" where
  "market_id x = unat (o_market_order_id x)"

definition live_orders :: "instrument_id_t \<Rightarrow> order_info list \<Rightarrow> nat \<Rightarrow> market_update option" where
  "live_orders i xs = map_of (map (\<lambda>x. (market_id x, order_update x i)) xs)"

lemma live_orders_simps [simp]:
  "live_orders i [] = (\<lambda>_. None)"
  "live_orders i (x # xs) = (live_orders i xs)(market_id x := Some (order_update x i))"
  by (simp_all add: live_orders_def fun_eq_iff)

lemma live_orders_None: "j \<notin> market_id ` set xs \<Longrightarrow> live_orders i xs j = None"
  by (induction xs) auto

lemma live_orders_remove:
  "market_id x \<notin> market_id ` set xs \<Longrightarrow> (live_orders i xs)(market_id x := None) = live_orders i xs"
  using live_orders_None [of "market_id x" xs i] by (auto simp: fun_eq_iff)

text \<open>The identifiers of the orders are distinct: then only the multiset of orders matters.\<close>

definition distinct_ids :: "order_info list \<Rightarrow> bool" where
  "distinct_ids xs \<longleftrightarrow> distinct (map market_id xs)"

lemma distinct_ids_Cons [simp]:
  "distinct_ids (x # xs) \<longleftrightarrow> market_id x \<notin> market_id ` set xs \<and> distinct_ids xs"
  by (simp add: distinct_ids_def)

lemma distinct_ids_perm: "mset xs = mset ys \<Longrightarrow> distinct_ids xs \<Longrightarrow> distinct_ids ys"
  unfolding distinct_ids_def by (metis mset_eq_imp_distinct_iff mset_map)

lemma live_orders_perm: "mset xs = mset ys \<Longrightarrow> distinct_ids xs \<Longrightarrow> live_orders i xs = live_orders i ys"
  unfolding live_orders_def
  using map_of_inject_set [of "map (\<lambda>x. (market_id x, order_update x i)) xs" "map (\<lambda>x. (market_id x, order_update x i)) ys"]
    distinct_ids_perm [of xs ys] mset_eq_setD [of xs ys]
  by (simp add: distinct_ids_def comp_def)

section \<open>Updates that follow a book\<close>

text \<open>
  \<open>holds\<close>: the table has the orders \<open>xs\<close> for instrument \<open>i\<close>, with \<open>k\<close> blocks in use overall.
  \<open>follows\<close>: from there the updates \<open>us\<close> are consistent and lead to the orders \<open>ys\<close>, leaving
  the other instruments alone.
\<close>

definition holds :: "instrument_id_t \<Rightarrow> table \<Rightarrow> nat \<Rightarrow> order_info list \<Rightarrow> bool" where
  "holds i T k xs \<longleftrightarrow> unat i < MAX_NUM_INSTRUMENTS \<and> T (unat i) = live_orders i xs \<and> distinct_ids xs \<and>
     list_all (\<lambda>x. market_id x < MAX_NUM_ORDERS) xs \<and> length xs \<le> k"

definition follows :: "instrument_id_t \<Rightarrow> table \<Rightarrow> nat \<Rightarrow> market_update list \<Rightarrow> order_info list \<Rightarrow>
    order_info list \<Rightarrow> bool" where
  "follows i T k us xs ys \<longleftrightarrow> all_consistent k us T \<and>
     fold apply_update us T = T(unat i := live_orders i ys) \<and>
     foldl live_after k us + length xs = k + length ys \<and>
     holds i (T(unat i := live_orders i ys)) (foldl live_after k us) ys"

lemma holds_perm:
  assumes "holds i T k xs" and "mset xs = mset ys"
  shows "holds i T k ys"
  using assms live_orders_perm [OF assms(2)] distinct_ids_perm [OF assms(2)] mset_eq_length [OF assms(2)]
    mset_eq_setD [OF assms(2)]
  by (auto simp: holds_def list_all_iff)

lemma holds_upd [simp]: "holds i T k xs \<Longrightarrow> T(unat i := live_orders i xs) = T"
  by (auto simp: holds_def)

lemma follows_Nil: "holds i T k xs \<Longrightarrow> mset xs = mset ys \<Longrightarrow> follows i T k [] xs ys"
  using holds_perm [of i T k xs ys] mset_eq_length [of xs ys] by (simp add: follows_def)

lemma follows_append:
  assumes "follows i T k us xs ys" and "follows i (T(unat i := live_orders i ys)) (foldl live_after k us) vs ys zs"
  shows "follows i T k (us @ vs) xs zs"
  using assms by (auto simp: follows_def)

lemma follows_perm_left: "follows i T k us xs ys \<Longrightarrow> mset xs = mset xs' \<Longrightarrow> follows i T k us xs' ys"
  using mset_eq_length [of xs xs'] by (simp add: follows_def)

lemma follows_perm_right:
  assumes "follows i T k us xs ys" and "mset ys = mset zs"
  shows "follows i T k us xs zs"
proof -
  have h: "holds i (T(unat i := live_orders i ys)) (foldl live_after k us) ys" using assms(1) by (simp add: follows_def)
  then have "live_orders i ys = live_orders i zs" using assms(2) live_orders_perm by (simp add: holds_def)
  then show ?thesis using assms holds_perm [OF h assms(2)] mset_eq_length [OF assms(2)] by (simp add: follows_def)
qed

lemma follows_holds: "follows i T k us xs ys \<Longrightarrow> holds i (T(unat i := live_orders i ys)) (foldl live_after k us) ys"
  by (simp add: follows_def)

text \<open>One update at a time.\<close>

lemma follows_trade:
  assumes "holds i T k xs" and "mu_type u = MU_TRADE" and "mu_instrument_id u = i"
  shows "follows i T k [u] xs xs"
proof -
  have "unat i < MAX_NUM_INSTRUMENTS" using assms(1) by (simp add: holds_def)
  then show ?thesis using assms
    by (simp add: follows_def consistent_def apply_update_def live_after_def Let_def)
qed

lemma follows_cancel:
  assumes h: "holds i T k (x # ys)" and "mu_type u = MU_CANCEL"
    and "mu_instrument_id u = i" and "mu_order_id u = o_market_order_id x" and "mu_side u = o_side x"
  shows "follows i T k [u] (x # ys) ys"
proof -
  note hs = h [unfolded holds_def]
  have "T(unat i := (T (unat i))(market_id x := None)) = T(unat i := live_orders i ys)"
    using hs live_orders_remove [of x ys i] by simp
  then show ?thesis using assms(2-5) hs
    by (simp add: follows_def holds_def consistent_def apply_update_def live_after_def Let_def market_id_def order_update_def)
      linarith
qed

lemma follows_modify:
  assumes h: "holds i T k (x # ys)" and "mu_type u = MU_MODIFY"
    and "mu_instrument_id u = i" and "mu_order_id u = o_market_order_id x" and "mu_side u = o_side x"
    and "mu_price u = o_price x" and "mu_qty u = q"
  shows "follows i T k [u] (x # ys) (x\<lparr>o_qty := q\<rparr> # ys)"
  using assms(2-7) h [unfolded holds_def]
  by (simp add: follows_def holds_def consistent_def apply_update_def live_after_def Let_def market_id_def order_update_def)

lemma follows_add:
  assumes h: "holds i T k xs" and "u = order_update x i"
    and "market_id x \<notin> market_id ` set xs" and "market_id x < MAX_NUM_ORDERS" and "k < MAX_NUM_ORDERS"
  shows "follows i T k [u] xs (x # xs)"
proof -
  have "live_orders i xs (market_id x) = None" using assms(3) by (rule live_orders_None)
  then show ?thesis using assms(2-5) h [unfolded holds_def]
    by (simp add: follows_def holds_def consistent_def apply_update_def live_after_def Let_def market_id_def order_update_def)
qed

section \<open>Matching\<close>

lemma updates_match_msgs:
  "updates_of (match_msgs i cid sd coid moid l x) =
    [\<lparr>mu_type = MU_TRADE, mu_order_id = INVALID_ORDER_ID, mu_instrument_id = i, mu_side = sd,
       mu_price = o_price x, mu_qty = min l (o_qty x), mu_priority = INVALID_PRIORITY\<rparr>,
     if o_qty x - min l (o_qty x) = 0
     then \<lparr>mu_type = MU_CANCEL, mu_order_id = o_market_order_id x, mu_instrument_id = i,
       mu_side = o_side x, mu_price = o_price x, mu_qty = o_qty x, mu_priority = o_priority x\<rparr>
     else \<lparr>mu_type = MU_MODIFY, mu_order_id = o_market_order_id x, mu_instrument_id = i,
       mu_side = o_side x, mu_price = o_price x, mu_qty = o_qty x - min l (o_qty x), mu_priority = o_priority x\<rparr>]"
  by (simp add: match_msgs_def Let_def)

lemma follows_match:
  assumes h: "holds i T k (x # xs)" and m: "m = min l (o_qty x)"
  shows "follows i T k (updates_of (match_msgs i cid sd coid moid l x)) (x # xs)
    ((if o_qty x - m = 0 then [] else [x\<lparr>o_qty := o_qty x - m\<rparr>]) @ xs)"
proof -
  let ?t = "\<lparr>mu_type = MU_TRADE, mu_order_id = INVALID_ORDER_ID, mu_instrument_id = i, mu_side = sd,
       mu_price = o_price x, mu_qty = min l (o_qty x), mu_priority = INVALID_PRIORITY\<rparr>"
  have t: "follows i T k [?t] (x # xs) (x # xs)" by (rule follows_trade [OF h]) simp_all
  note h2 = follows_holds [OF t]
  show ?thesis
  proof (cases "o_qty x - m = 0")
    case True
    have "follows i T k ([?t] @ [\<lparr>mu_type = MU_CANCEL, mu_order_id = o_market_order_id x, mu_instrument_id = i,
        mu_side = o_side x, mu_price = o_price x, mu_qty = o_qty x, mu_priority = o_priority x\<rparr>]) (x # xs) xs"
      by (rule follows_append [OF t follows_cancel [OF h2]]) simp_all
    then show ?thesis using True m by (simp add: updates_match_msgs)
  next
    case False
    have "follows i T k ([?t] @ [\<lparr>mu_type = MU_MODIFY, mu_order_id = o_market_order_id x, mu_instrument_id = i,
        mu_side = o_side x, mu_price = o_price x, mu_qty = o_qty x - m, mu_priority = o_priority x\<rparr>])
        (x # xs) (x\<lparr>o_qty := o_qty x - m\<rparr> # xs)"
      by (rule follows_append [OF t follows_modify [OF h2]]) simp_all
    then show ?thesis using False m by (simp add: updates_match_msgs)
  qed
qed

lemma orders_after_match:
  "level_orders (after_match m p x xs L) =
    (if o_qty x - m = 0 then [] else [x\<lparr>o_qty := o_qty x - m\<rparr>]) @ level_orders ((p, xs) # L)"
  by (simp add: after_match_def)

lemma sweep_follows:
  "a_sweep i cid coid moid sd price qty L = (left, L', ms) \<Longrightarrow>
    \<forall>T k. holds i T k (level_orders L @ R) \<longrightarrow>
      follows i T k (updates_of ms) (level_orders L @ R) (level_orders L' @ R)"
proof (induction rule: sweep_induct)
  case (step qty p x xs L left L' ms m)
  show ?case
  proof (intro allI impI)
    fix T k
    assume h: "holds i T k (level_orders ((p, x # xs) # L) @ R)"
    let ?us = "updates_of (match_msgs i cid sd coid moid qty x)"
    let ?ys = "level_orders (after_match m p x xs L) @ R"
    have f: "follows i T k ?us (level_orders ((p, x # xs) # L) @ R) ?ys"
    proof -
      have "holds i T k (x # level_orders ((p, xs) # L) @ R)" using h by simp
      from follows_match [OF this step.hyps(3)] show ?thesis
        unfolding orders_after_match by (simp only: append_assoc) simp
    qed
    have "follows i (T(unat i := live_orders i ?ys)) (foldl live_after k ?us) (updates_of ms) ?ys (level_orders L' @ R)"
      using step.IH follows_holds [OF f] by blast
    from follows_append [OF f this] show "follows i T k (updates_of (match_msgs i cid sd coid moid qty x @ ms))
        (level_orders ((p, x # xs) # L) @ R) (level_orders L' @ R)" by simp
  qed
qed (simp add: follows_Nil)

section \<open>Identifiers and owners\<close>

text \<open>No two resting orders have the same owner, and every market identifier has been given out.\<close>

definition okey :: "order_info \<Rightarrow> nat \<times> client_id_t \<times> order_id_t" where
  "okey x = (market_id x, o_client_id x, o_client_order_id x)"

definition keys_ok :: "nat \<Rightarrow> order_info list \<Rightarrow> bool" where
  "keys_ok n xs \<longleftrightarrow> distinct (map (snd \<circ> okey) xs) \<and> list_all (\<lambda>x. market_id x < n) xs"

lemma okey_qty [simp]: "okey (x\<lparr>o_qty := q\<rparr>) = okey x" "market_id (x\<lparr>o_qty := q\<rparr>) = market_id x"
  by (simp_all add: okey_def market_id_def)

lemma owned_by_key: "owned_by cid coid x \<longleftrightarrow> snd (okey x) = (cid, coid)"
  by (simp add: owned_by_def okey_def)

lemma keys_ok_perm: "mset xs = mset ys \<Longrightarrow> keys_ok n xs \<Longrightarrow> keys_ok n ys"
  unfolding keys_ok_def list_all_iff
  by (metis mset_eq_imp_distinct_iff mset_eq_setD mset_map)

lemma keys_ok_mono: "keys_ok n xs \<Longrightarrow> n \<le> m \<Longrightarrow> keys_ok m xs"
  by (auto simp: keys_ok_def list_all_iff)

lemma keys_ok_append_drop: "keys_ok n (xs @ zs) \<Longrightarrow> keys_ok n (drop k xs @ zs)"
proof -
  assume "keys_ok n (xs @ zs)"
  then have "keys_ok n (take k xs @ drop k xs @ zs)" by (metis append.assoc append_take_drop_id)
  then show ?thesis by (simp add: keys_ok_def)
qed

lemma keys_ok_reduced: "reduced_suffix xs ys \<Longrightarrow> keys_ok n (xs @ zs) \<Longrightarrow> keys_ok n (ys @ zs)"
proof -
  assume r: "reduced_suffix xs ys" and ok: "keys_ok n (xs @ zs)"
  from r obtain k where "ys = drop k xs \<or> (k < length xs \<and> (\<exists>q. ys = (xs ! k)\<lparr>o_qty := q\<rparr> # drop (Suc k) xs))"
    by (auto simp: reduced_suffix_def)
  then have "map okey ys = map okey (drop k xs)"
    by (elim disjE conjE exE) (simp_all add: Cons_nth_drop_Suc [symmetric])
  moreover have "keys_ok n (drop k xs @ zs)" using ok by (rule keys_ok_append_drop)
  moreover have "keys_ok n vs = keys_ok n ws" if "map okey vs = map okey ws" for vs ws
  proof -
    have m: "map (snd \<circ> okey) vs = map (snd \<circ> okey) ws" "map (fst \<circ> okey) vs = map (fst \<circ> okey) ws"
      using that by (metis list.map_comp)+
    have "list_all (\<lambda>x. market_id x < n) us \<longleftrightarrow> list_all (\<lambda>j. j < n) (map (fst \<circ> okey) us)" for us
      by (simp add: list.pred_map okey_def comp_def)
    then show ?thesis unfolding keys_ok_def by (simp add: m)
  qed
  ultimately show ?thesis by (metis map_append)
qed

section \<open>The operations\<close>

lemma orders_by_side: "mset (a_orders A) = mset (level_orders (a_side b A) @ level_orders (a_side (\<not> b) A))"
  by (cases b) (simp_all add: a_orders_def a_side_def)

lemma orders_place:
  assumes "distinct (map (price_to_index \<circ> fst) L)"
  shows "mset (level_orders (a_place sd x L)) = mset (x # level_orders L)"
proof (cases "\<exists>(p, xs) \<in> set L. same_slot p (o_price x)")
  case False
  have "inserted (o_price x, [x]) L (slot_insert fst sd (o_price x, [x]) L)" by simp
  then show ?thesis using False by (auto simp: a_place_def inserted_def)
next
  case True
  have "\<exists>(p, xs) \<in> set L. same_slot p q \<Longrightarrow> distinct (map (price_to_index \<circ> fst) L) \<Longrightarrow>
    mset (level_orders (map (\<lambda>(p, xs). if same_slot p q then (p, xs @ [x]) else (p, xs)) L)) =
      add_mset x (mset (level_orders L))" for q
  proof (induction L)
    case (Cons l L)
    obtain p xs where l: "l = (p, xs)" by force
    show ?case
    proof (cases "same_slot p q")
      case True
      have "\<not> same_slot p' q" if "(p', ys) \<in> set L" for p' ys
      proof
        assume "same_slot p' q"
        then have "price_to_index p = price_to_index p'" using True by (simp add: same_slot_def)
        then show False using Cons.prems(2) that by (force simp: l)
      qed
      then have "map (\<lambda>(p, xs). if same_slot p q then (p, xs @ [x]) else (p, xs)) L = L"
        by (intro map_idI) auto
      then show ?thesis using True by (simp add: l)
    next
      case False
      then show ?thesis using Cons by (auto simp: l)
    qed
  qed simp
  then show ?thesis using True assms by (simp add: a_place_def)
qed

lemma add_follows:
  assumes h: "holds i T k (a_orders A)" and i: "i = a_instrument A" and keys: "keys_ok (unat (a_next_id A)) (a_orders A)"
    and slots: "distinct (map (price_to_index \<circ> fst) (a_side (sd = BUY) A))"
    and adm: "add_admissible cid coid sd price qty A" and a: "a_add cid coid sd price qty A = (A', ms)"
    and room: "k < MAX_NUM_ORDERS" "unat (a_next_id A) < MAX_NUM_ORDERS"
  shows "follows i T k (updates_of ms) (a_orders A) (a_orders A') \<and> keys_ok (unat (a_next_id A')) (a_orders A') \<and>
    a_instrument A' = i \<and> a_next_id A' = a_next_id A + 1 \<and> length (a_orders A') \<le> Suc (length (a_orders A))"
proof -
  define b where "b = (sd = BUY)"
  let ?opp = "a_side (\<not> b) A" and ?own = "a_side b A"
  obtain left L ms1 where sw: "a_sweep i cid coid (a_next_id A) sd price qty ?opp = (left, L, ms1)" by (metis prod_cases3)
  have perm: "mset (a_orders A) = mset (level_orders ?opp @ level_orders ?own)"
    using orders_by_side [of A "\<not> b"] by simp
  have f: "follows i T k (updates_of ms1) (level_orders ?opp @ level_orders ?own) (level_orders L @ level_orders ?own)"
    using sweep_follows [OF sw, of "level_orders ?own"] holds_perm [OF h perm] by blast
  note f1 = follows_perm_left [OF f perm [symmetric]]
  let ?ys = "level_orders L @ level_orders ?own"
  have keys1: "keys_ok (unat (a_next_id A)) ?ys"
    using keys_ok_reduced [OF sweep_front_first [OF sw]] keys_ok_perm [OF perm keys] by blast
  have next': "unat (a_next_id A + 1) = Suc (unat (a_next_id A))"
    using room(2) by (simp add: model_constants unat_word_ariths)
  have grows: "length ?ys \<le> length (a_orders A)"
  proof -
    have "length (level_orders L) \<le> length (level_orders ?opp)"
      using sweep_front_first [OF sw] by (auto simp: reduced_suffix_def)
    then show ?thesis using mset_eq_length [OF perm] by simp
  qed
  define A1 where "A1 = (set_a_side (\<not> b) L A)\<lparr>a_next_id := a_next_id A + 1\<rparr>"
  have A1: "a_side b A1 = ?own" "a_side (\<not> b) A1 = L" "a_next_id A1 = a_next_id A + 1" "a_instrument A1 = i"
    using i by (simp_all add: A1_def a_side_def set_a_side_def)
  have perm1: "mset (a_orders A1) = mset ?ys" using orders_by_side [of A1 "\<not> b"] A1(1,2) by simp
  show ?thesis
  proof (cases "0 < left")
    case False
    then have A': "A' = A1" "updates_of ms = updates_of ms1"
      using a sw by (auto simp: a_add_def b_def A1_def Let_def i [symmetric])
    show ?thesis
      using follows_perm_right [OF f1 perm1 [symmetric]] keys_ok_perm [OF perm1 [symmetric] keys1] A1(3,4)
        mset_eq_length [OF perm1] grows
      unfolding A' by (auto simp: next' intro: keys_ok_mono)
  next
    case True
    define x where "x = \<lparr>o_instrument_id = i, o_client_id = cid, o_client_order_id = coid,
      o_market_order_id = a_next_id A, o_side = sd, o_price = price, o_qty = left, o_priority = a_priority price ?own\<rparr>"
    have A': "A' = set_a_side b (a_place sd x ?own) A1" "updates_of ms = updates_of ms1 @ [order_update x i]"
      using a sw True by (auto simp: a_add_def b_def A1_def Let_def i [symmetric] x_def order_update_def)
    have may: "may_rest cid coid sd price (set_a_side (\<not> b) L A)"
      using adm sw True by (auto simp: add_admissible_def b_def i [symmetric])
    have perm2: "mset (a_orders A') = mset (x # ?ys)"
      using orders_by_side [of A' b] orders_place [of ?own sd x] slots A1(2) by (simp add: A' b_def [symmetric])
    have xid: "market_id x = unat (a_next_id A)" by (simp add: x_def market_id_def)
    have fresh: "market_id x \<notin> market_id ` set ?ys"
      using keys1 unfolding xid keys_ok_def list_all_iff by auto
    have "set (a_orders (set_a_side (\<not> b) L A)) = set ?ys"
      using orders_by_side [of "set_a_side (\<not> b) L A" "\<not> b"] by (metis a_side_set(1) mset_eq_setD)
    then have own: "(cid, coid) \<notin> (snd \<circ> okey) ` set ?ys"
      using may by (auto simp: may_rest_def list_all_iff owned_by_key)
    have "follows i T k (updates_of ms1 @ [order_update x i]) (a_orders A) (x # ?ys)"
    proof (rule follows_append [OF f1 follows_add [OF follows_holds [OF f1] refl fresh]])
      show "market_id x < MAX_NUM_ORDERS" using room(2) by (simp add: xid)
      have "foldl live_after k (updates_of ms1) + length (a_orders A) = k + length ?ys"
        using f1 by (simp add: follows_def)
      then show "foldl live_after k (updates_of ms1) < MAX_NUM_ORDERS" using room(1) grows by simp
    qed
    then have "follows i T k (updates_of ms) (a_orders A) (a_orders A')"
      using follows_perm_right perm2 A'(2) by metis
    moreover have "keys_ok (unat (a_next_id A')) (a_orders A')"
    proof (rule keys_ok_perm [OF perm2 [symmetric]])
      have "keys_ok (Suc (unat (a_next_id A))) ?ys" using keys1 by (rule keys_ok_mono) simp
      moreover have "(snd \<circ> okey) x = (cid, coid)" by (simp add: okey_def x_def)
      ultimately show "keys_ok (unat (a_next_id A')) (x # ?ys)"
        using own by (simp add: A' A1(3) next' keys_ok_def xid image_Un)
    qed
    ultimately show ?thesis
      using A1(3,4) mset_eq_length [OF perm2] grows by (simp add: A'(1))
  qed
qed

lemma orders_delete: "level_orders (a_delete cid coid L) = filter (\<lambda>x. \<not> owned_by cid coid x) (level_orders L)"
  by (induction L) (auto simp: a_delete_def)

lemma orders_set_qty:
  "level_orders (a_set_qty cid coid q L) = map (\<lambda>x. if owned_by cid coid x then x\<lparr>o_qty := q\<rparr> else x) (level_orders L)"
  by (induction L) (auto simp: a_set_qty_def)

lemma owned_unique:
  assumes "keys_ok n xs" and "List.find (owned_by cid coid) xs = Some x"
  shows "owned_by cid coid x" and "mset xs = add_mset x (mset (filter (\<lambda>x. \<not> owned_by cid coid x) xs))"
proof -
  show ow: "owned_by cid coid x" using assms(2) by (auto simp: find_Some_iff)
  obtain as bs where xs: "xs = as @ x # bs" using assms(2) by (auto simp: find_Some_iff dest!: nth_mem split_list)
  have "\<not> owned_by cid coid y" if "y \<in> set as \<union> set bs" for y
    using assms(1) ow that by (auto simp: xs keys_ok_def owned_by_key)
      (metis comp_apply image_eqI)+
  then have "filter (\<lambda>x. \<not> owned_by cid coid x) xs = as @ bs" using ow by (simp add: xs filter_id_conv)
  then show "mset xs = add_mset x (mset (filter (\<lambda>x. \<not> owned_by cid coid x) xs))" by (simp add: xs)
qed

lemma keys_ok_filter: "keys_ok n xs \<Longrightarrow> keys_ok n (filter P xs)"
  by (auto simp: keys_ok_def list_all_iff distinct_map_filter)

lemma cancel_follows:
  assumes h: "holds i T k (a_orders A)" and i: "i = a_instrument A" and keys: "keys_ok (unat (a_next_id A)) (a_orders A)"
    and a: "a_cancel cid coid A = (A', ms)"
  shows "follows i T k (updates_of ms) (a_orders A) (a_orders A') \<and> keys_ok (unat (a_next_id A')) (a_orders A') \<and>
    a_instrument A' = i \<and> a_next_id A' = a_next_id A \<and> length (a_orders A') \<le> length (a_orders A)"
proof (cases "a_find cid coid A")
  case None
  then show ?thesis using a h i keys by (auto simp: a_cancel_def rejected_def intro: follows_Nil)
next
  case (Some x)
  have A': "a_orders A' = filter (\<lambda>x. \<not> owned_by cid coid x) (a_orders A)" "a_instrument A' = i" "a_next_id A' = a_next_id A"
    using a Some i by (auto simp: a_cancel_def a_orders_def orders_delete)
  note x = owned_unique [OF keys Some [unfolded a_find_def]]
  have perm: "mset (a_orders A) = mset (x # a_orders A')" using x(2) A'(1) by simp
  obtain u where u: "updates_of ms = [u]" "mu_type u = MU_CANCEL" "mu_instrument_id u = i"
    "mu_order_id u = o_market_order_id x" "mu_side u = o_side x"
    using a Some i by (auto simp: a_cancel_def)
  have "follows i T k (updates_of ms) (a_orders A) (a_orders A')"
    unfolding u(1) by (rule follows_perm_left [OF follows_cancel [OF holds_perm [OF h perm] u(2-5)] perm [symmetric]])
  then show ?thesis using A' keys by (simp add: keys_ok_filter length_filter_le)
qed

lemma modify_follows:
  assumes h: "holds i T k (a_orders A)" and i: "i = a_instrument A" and keys: "keys_ok (unat (a_next_id A)) (a_orders A)"
    and slots: "distinct (map (price_to_index \<circ> fst) (a_side b (fst (a_cancel cid coid A))))"
      "distinct (map (price_to_index \<circ> fst) (a_side (\<not> b) (fst (a_cancel cid coid A))))"
    and adm: "modify_admissible cid coid price qty A" and a: "a_modify cid coid price qty A = (A', ms)"
    and room: "k < MAX_NUM_ORDERS" "unat (a_next_id A) < MAX_NUM_ORDERS"
  shows "follows i T k (updates_of ms) (a_orders A) (a_orders A') \<and> keys_ok (unat (a_next_id A')) (a_orders A') \<and>
    a_instrument A' = i \<and> a_next_id A' \<in> {a_next_id A, a_next_id A + 1} \<and>
    length (a_orders A') \<le> Suc (length (a_orders A))"
proof (cases "a_find cid coid A")
  case None
  then show ?thesis using a h i keys by (auto simp: a_modify_def rejected_def intro: follows_Nil)
next
  case (Some x)
  note x = owned_unique [OF keys Some [unfolded a_find_def]]
  show ?thesis
  proof (cases "o_price x \<noteq> price \<or> o_qty x < qty")
    case True
    obtain A1 ms1 where c: "a_cancel cid coid A = (A1, ms1)" by fastforce
    obtain A2 ms2 where d: "a_add cid coid (o_side x) price qty A1 = (A2, ms2)" by fastforce
    have A': "A' = A2" "ms = ms1 @ ms2" using a Some True c d by (auto simp: a_modify_def)
    have f1: "follows i T k (updates_of ms1) (a_orders A) (a_orders A1)" "keys_ok (unat (a_next_id A1)) (a_orders A1)"
      "a_instrument A1 = i" "a_next_id A1 = a_next_id A" "length (a_orders A1) \<le> length (a_orders A)"
      using cancel_follows [OF h i keys c] by auto
    have "add_admissible cid coid (o_side x) price qty A1"
      using adm Some True c by (auto simp: modify_admissible_def)
    moreover have "distinct (map (price_to_index \<circ> fst) (a_side (o_side x = BUY) A1))"
      using slots c by (cases b; cases "o_side x = BUY") auto
    moreover have "foldl live_after k (updates_of ms1) < MAX_NUM_ORDERS"
      using f1(1,5) room(1) by (simp add: follows_def)
    ultimately have f2: "follows i (T(unat i := live_orders i (a_orders A1))) (foldl live_after k (updates_of ms1))
        (updates_of ms2) (a_orders A1) (a_orders A2)" "keys_ok (unat (a_next_id A2)) (a_orders A2)"
      "a_instrument A2 = i" "a_next_id A2 = a_next_id A + 1" "length (a_orders A2) \<le> Suc (length (a_orders A1))"
      using add_follows [OF follows_holds [OF f1(1)] f1(3) [symmetric] f1(2) _ _ d] f1(4) room(2) by auto
    then show ?thesis using follows_append [OF f1(1) f2(1)] f1(5) by (simp add: A')
  next
    case False
    let ?m = "\<lambda>x. if owned_by cid coid x then x\<lparr>o_qty := qty\<rparr> else x"
    have A': "a_orders A' = map ?m (a_orders A)" "a_instrument A' = i" "a_next_id A' = a_next_id A"
      using a Some False i by (auto simp: a_modify_def a_orders_def orders_set_qty)
    let ?rest = "filter (\<lambda>x. \<not> owned_by cid coid x) (a_orders A)"
    have perm: "mset (a_orders A) = mset (x # ?rest)" using x(2) by simp
    have rest: "map ?m ?rest = ?rest" by (rule map_idI) auto
    have "mset (map ?m (a_orders A)) = mset (map ?m (x # ?rest))" unfolding mset_map perm ..
    also have "map ?m (x # ?rest) = x\<lparr>o_qty := qty\<rparr> # ?rest" using x(1) by (simp only: list.map rest if_True)
    finally have perm': "mset (x\<lparr>o_qty := qty\<rparr> # ?rest) = mset (a_orders A')" by (simp only: A'(1))
    obtain u where u: "updates_of ms = [u]" "mu_type u = MU_MODIFY" "mu_instrument_id u = i"
      "mu_order_id u = o_market_order_id x" "mu_side u = o_side x" "mu_price u = o_price x" "mu_qty u = qty"
      using a Some False i by (auto simp: a_modify_def)
    have "follows i T k (updates_of ms) (a_orders A) (a_orders A')"
      unfolding u(1)
      by (rule follows_perm_right [OF follows_perm_left [OF follows_modify [OF holds_perm [OF h perm] u(2-7)]
            perm [symmetric]] perm'])
    moreover have "keys_ok (unat (a_next_id A)) (a_orders A')"
    proof -
      have "(snd \<circ> okey) \<circ> ?m = snd \<circ> okey" "market_id (?m y) = market_id y" for y by auto
      then show ?thesis using keys unfolding A'(1) keys_ok_def list_all_iff by auto
    qed
    moreover have "length (a_orders A') = length (a_orders A)" unfolding A'(1) by simp
    ultimately show ?thesis using A'(2,3) by simp
  qed
qed

section \<open>The engine's stream\<close>

text \<open>
  After \<open>n\<close> requests: the table holds the orders of all books, \<open>k\<close> of them, and no book
  has given out more identifiers than there were requests.
\<close>

definition mirror :: "nat \<Rightarrow> table \<Rightarrow> nat \<Rightarrow> abook list \<Rightarrow> bool" where
  "mirror n T k As \<longleftrightarrow> length As = MAX_NUM_INSTRUMENTS \<and> k = sum_list (map (length \<circ> a_orders) As) \<and> k \<le> n \<and>
     (\<forall>i < MAX_NUM_INSTRUMENTS. a_instrument (As ! i) = word_of_nat i \<and> T i = live_orders (word_of_nat i) (a_orders (As ! i)) \<and>
        distinct_ids (a_orders (As ! i)) \<and> keys_ok (unat (a_next_id (As ! i))) (a_orders (As ! i)) \<and>
        unat (a_next_id (As ! i)) \<le> Suc n)"

lemma instrument_index: "i < MAX_NUM_INSTRUMENTS \<Longrightarrow> unat (word_of_nat i :: instrument_id_t) = i"
  by (simp add: model_constants unat_of_nat take_bit_nat_eq_self)

lemma mirror_holds:
  assumes "mirror n T k As" and "Suc n < MAX_NUM_ORDERS" and "i < MAX_NUM_INSTRUMENTS"
  shows "holds (word_of_nat i) T k (a_orders (As ! i))"
proof -
  have m: "T i = live_orders (word_of_nat i) (a_orders (As ! i))" "distinct_ids (a_orders (As ! i))"
    "keys_ok (unat (a_next_id (As ! i))) (a_orders (As ! i))" "unat (a_next_id (As ! i)) \<le> Suc n"
    using assms(1,3) by (simp_all add: mirror_def)
  have "length (a_orders (As ! i)) \<in> set (map (length \<circ> a_orders) As)"
    using assms(1,3) by (auto simp: mirror_def)
  then have "length (a_orders (As ! i)) \<le> k" using assms(1) member_le_sum_list by (fastforce simp: mirror_def)
  moreover have "list_all (\<lambda>x. market_id x < MAX_NUM_ORDERS) (a_orders (As ! i))"
    using m(3,4) assms(2) by (auto simp: keys_ok_def list_all_iff)
  ultimately show ?thesis using m(1,2) assms(3) by (simp add: holds_def instrument_index)
qed

lemma levels_delete: "map fst (a_delete cid coid L) = map fst (filter (\<lambda>(p, xs). filter (\<lambda>x. \<not> owned_by cid coid x) xs \<noteq> []) L)"
  by (induction L) (auto simp: a_delete_def keep_level_def)

lemma cancel_slots:
  assumes "distinct (map (price_to_index \<circ> fst) (a_side b A))"
  shows "distinct (map (price_to_index \<circ> fst) (a_side b (fst (a_cancel cid coid A))))"
proof -
  have "distinct (map price_to_index (map fst (a_delete cid coid (a_side b A))))"
    using assms unfolding levels_delete by (simp add: distinct_map_filter)
  then show ?thesis using assms by (cases b) (auto simp: a_cancel_def a_side_def split: option.splits)
qed

lemma process_follows:
  assumes rel: "book_rel s G A" and adm: "admissible r As" and A: "A = As ! unat (rq_instrument_id r)"
    and h: "holds i T k (a_orders A)" and i: "i = a_instrument A"
    and keys: "keys_ok (unat (a_next_id A)) (a_orders A)" and a: "a_process r A = (A', ms)"
    and room: "k < MAX_NUM_ORDERS" "unat (a_next_id A) < MAX_NUM_ORDERS"
  shows "follows i T k (updates_of ms) (a_orders A) (a_orders A') \<and> keys_ok (unat (a_next_id A')) (a_orders A') \<and>
    a_instrument A' = i \<and> a_next_id A' \<in> {a_next_id A, a_next_id A + 1} \<and>
    length (a_orders A') \<le> Suc (length (a_orders A))"
proof (cases "rq_type r")
  case REQ_NEW
  with adm a A have "add_admissible (rq_client_id r) (rq_order_id r) (rq_side r) (rq_price r) (rq_qty r) A"
    and "a_add (rq_client_id r) (rq_order_id r) (rq_side r) (rq_price r) (rq_qty r) A = (A', ms)"
    by (simp_all add: admissible_def a_process_def Let_def)
  from add_follows [OF h i keys slots_distinct [OF rel] this room] show ?thesis by (metis insertCI)
next
  case REQ_CANCEL
  with a have "a_cancel (rq_client_id r) (rq_order_id r) A = (A', ms)" by (simp add: a_process_def)
  from cancel_follows [OF h i keys this] show ?thesis by (metis insertCI le_SucI)
next
  case REQ_MODIFY
  with adm a A have "modify_admissible (rq_client_id r) (rq_order_id r) (rq_price r) (rq_qty r) A"
    and "a_modify (rq_client_id r) (rq_order_id r) (rq_price r) (rq_qty r) A = (A', ms)"
    by (simp_all add: admissible_def a_process_def Let_def)
  then have adm': "modify_admissible (rq_client_id r) (rq_order_id r) (rq_price r) (rq_qty r) A"
    and a': "a_modify (rq_client_id r) (rq_order_id r) (rq_price r) (rq_qty r) A = (A', ms)" .
  have sl: "distinct (map (price_to_index \<circ> fst) (a_side b (fst (a_cancel (rq_client_id r) (rq_order_id r) A))))" for b
    by (rule cancel_slots [OF slots_distinct [OF rel]])
  show ?thesis by (rule modify_follows [OF h i keys sl sl adm' a' room])
qed (use adm in \<open>simp_all add: admissible_def Let_def\<close>)

lemma mirror_step:
  assumes m: "mirror n T k As" and rel: "engine_rel me As" and adm: "admissible r As"
    and st: "a_step r As = (As', ms)" and n: "Suc n < MAX_NUM_ORDERS"
  shows "all_consistent k (updates_of ms) T \<and>
    mirror (Suc n) (fold apply_update (updates_of ms) T) (foldl live_after k (updates_of ms)) As'"
proof -
  define j where "j = unat (rq_instrument_id r)"
  have j: "j < MAX_NUM_INSTRUMENTS" using adm by (simp add: admissible_def j_def)
  obtain A' where A': "a_process r (As ! j) = (A', ms)" "As' = As[j := A']"
    using st by (auto simp: a_step_def Let_def j_def split: prod.splits)
  obtain s G where book: "book_rel s G (As ! j)" using engine_rel_book [OF rel j] by blast
  have inst: "(word_of_nat j :: instrument_id_t) = a_instrument (As ! j)" and keys: "keys_ok (unat (a_next_id (As ! j))) (a_orders (As ! j))"
    and nx: "unat (a_next_id (As ! j)) \<le> Suc n" and k: "k \<le> n" and len: "length As = MAX_NUM_INSTRUMENTS"
    and sum: "k = sum_list (map (length \<circ> a_orders) As)"
    using m j by (simp_all add: mirror_def)
  have room: "k < MAX_NUM_ORDERS" "unat (a_next_id (As ! j)) < MAX_NUM_ORDERS" using n k nx by simp_all
  from process_follows [OF book adm [folded j_def] _ mirror_holds [OF m n j] inst keys A'(1) room] j_def
  have f: "follows (word_of_nat j) T k (updates_of ms) (a_orders (As ! j)) (a_orders A')"
    "keys_ok (unat (a_next_id A')) (a_orders A')" "a_instrument A' = word_of_nat j"
    "a_next_id A' \<in> {a_next_id (As ! j), a_next_id (As ! j) + 1}"
    "length (a_orders A') \<le> Suc (length (a_orders (As ! j)))" by auto
  have nx': "unat (a_next_id A') \<le> Suc (Suc n)"
    using f(4) nx room(2) by (auto simp: unat_word_ariths model_constants)
  let ?T = "T(j := live_orders (word_of_nat j) (a_orders A'))" and ?k = "foldl live_after k (updates_of ms)"
  have fT: "fold apply_update (updates_of ms) T = ?T" "all_consistent k (updates_of ms) T"
    "?k + length (a_orders (As ! j)) = k + length (a_orders A')" "distinct_ids (a_orders A')"
    using f(1) j by (simp_all add: follows_def holds_def instrument_index)
  have "sum_list (map (length \<circ> a_orders) As') + length (a_orders (As ! j)) = k + length (a_orders A')"
  proof -
    have "map (length \<circ> a_orders) As ! j = length (a_orders (As ! j))" using j len by simp
    moreover have "map (length \<circ> a_orders) As ! j \<le> sum_list (map (length \<circ> a_orders) As)"
      using j len by (intro member_le_sum_list nth_mem) simp_all
    ultimately show ?thesis using j len unfolding A'(2) sum map_update by (subst sum_list_update) auto
  qed
  then have sum': "?k = sum_list (map (length \<circ> a_orders) As')" using fT(3) by simp
  have "?k \<le> Suc n" using fT(3) f(5) k by simp
  then have "mirror (Suc n) ?T ?k As'"
    using m j f(2,3) fT(4) nx' sum' len unfolding mirror_def A'(2) by (auto simp: nth_list_update)
  then show ?thesis using fT(1,2) by simp
qed

lemma mirror_run:
  "mirror n T k As \<Longrightarrow> engine_rel me As \<Longrightarrow> all_admissible rs As \<Longrightarrow> a_run rs As = (As', ms) \<Longrightarrow>
    n + length rs < MAX_NUM_ORDERS \<Longrightarrow>
    all_consistent k (updates_of ms) T \<and>
    mirror (n + length rs) (fold apply_update (updates_of ms) T) (foldl live_after k (updates_of ms)) As'"
proof (induction rs arbitrary: n T k As me ms)
  case (Cons r rs)
  obtain As1 ms1 where st: "a_step r As = (As1, ms1)" by (cases "a_step r As")
  obtain ms2 where run: "a_run rs As1 = (As', ms2)" "ms = ms1 @ ms2"
    using Cons.prems(4) st by (auto split: prod.splits)
  have adm: "admissible r As" "all_admissible rs As1" using Cons.prems(3) st by simp_all
  have "Suc n < MAX_NUM_ORDERS" using Cons.prems(5) by simp
  from mirror_step [OF Cons.prems(1,2) adm(1) st this] have one: "all_consistent k (updates_of ms1) T"
    "mirror (Suc n) (fold apply_update (updates_of ms1) T) (foldl live_after k (updates_of ms1)) As1" by simp_all
  obtain me' where "engine_rel me' As1" using process_client_request_ok [OF Cons.prems(2) adm(1) st] by blast
  from Cons.IH [OF one(2) this adm(2) run(1)] Cons.prems(5) one(1) show ?case by (simp add: run(2))
qed simp

lemma mirror_init: "mirror 0 no_updates 0 a_engine_init"
  by (auto simp: mirror_def a_engine_init_def a_init_def a_orders_def distinct_ids_def keys_ok_def comp_def
      sum_list_eq_0_iff)

lemma engine_rel_init: "\<exists>me. engine_rel me a_engine_init"
  using matching_engine_init_ok by blast

text \<open>The stream of a day's requests.\<close>

lemma stream_mirrors:
  assumes "all_admissible rs a_engine_init" and "a_run rs a_engine_init = (As, ms)" and "length rs < MAX_NUM_ORDERS"
  shows "all_consistent 0 (updates_of ms) no_updates"
    and "i < MAX_NUM_INSTRUMENTS \<Longrightarrow>
      fold apply_update (updates_of ms) no_updates i = live_orders (word_of_nat i) (a_orders (As ! i))"
proof -
  obtain me where "engine_rel me a_engine_init" using engine_rel_init by blast
  from mirror_run [OF mirror_init this assms(1,2)] assms(3)
  show "all_consistent 0 (updates_of ms) no_updates"
    and "i < MAX_NUM_INSTRUMENTS \<Longrightarrow>
      fold apply_update (updates_of ms) no_updates i = live_orders (word_of_nat i) (a_orders (As ! i))"
    by (simp_all add: mirror_def)
qed

end
