(* ===== verification/MessageBound.thy ===== *)
theory MessageBound
  imports SnapshotMirror
begin

text \<open>
  How many messages the engine sends. A single request can be answered by four messages for every
  resting order it meets, but an order can be consumed only once: counting four for every order
  that rests, a request adds at most twelve to the messages and the orders together. A day's
  requests therefore cannot overrun the queues, however the other threads are scheduled.
\<close>

section \<open>One book\<close>

lemma length_split_msgs: "length (responses_of ms) + length (updates_of ms) = length ms"
  by (induction ms rule: responses_of.induct) simp_all

lemma sweep_messages:
  "a_sweep i cid coid moid sd price leaves L = (left, L', ms) \<Longrightarrow>
    length ms + 4 * length (level_orders L') \<le> 4 * length (level_orders L) + (if leaves = 0 then 0 else 4)"
proof (induction i cid coid moid sd price leaves L arbitrary: left L' ms rule: a_sweep.induct)
  case (3 i cid coid moid sd price leaves p x xs L)
  show ?case
  proof (cases "leaves = 0 \<or> too_far sd (o_price x) price")
    case False
    let ?m = "min leaves (o_qty x)"
    let ?L = "if o_qty x - ?m = 0 then keep_level p xs @ L else (p, x\<lparr>o_qty := o_qty x - ?m\<rparr> # xs) # L"
    obtain l M ns where r: "a_sweep i cid coid moid sd price (leaves - ?m) ?L = (l, M, ns)"
      by (cases "a_sweep i cid coid moid sd price (leaves - ?m) ?L") auto
    then have "L' = M" "length ms = 4 + length ns"
      using "3.prems" False by (auto simp: a_sweep.simps(3) Let_def match_msgs_def)
    moreover have "4 * length (level_orders ?L) + (if leaves - ?m = 0 then 0 else 4) \<le> 4 * length (level_orders ((p, x # xs) # L))"
      using partial_match [of "o_qty x" leaves] by auto
    moreover note "3.IH" [OF False refl refl r]
    ultimately show ?thesis using False by (auto simp del: length_concat)
  qed (use "3.prems" in \<open>auto simp: a_sweep.simps(3)\<close>)
qed auto

lemma length_orders: "length (a_orders A) = length (level_orders (a_side b A)) + length (level_orders (a_side (\<not> b) A))"
  using arg_cong [OF orders_by_side [of A b], of size] by simp

lemma add_messages:
  assumes slots: "distinct (map (price_to_index \<circ> fst) (a_side (sd = BUY) A))" and a: "a_add cid coid sd price qty A = (A', ms)"
  shows "length ms + 4 * length (a_orders A') \<le> 4 * length (a_orders A) + 10"
proof -
  let ?b = "sd = BUY"
  obtain left L ns where sw: "a_sweep (a_instrument A) cid coid (a_next_id A) sd price qty (a_side (\<not> ?b) A) = (left, L, ns)"
    by (metis prod_cases3)
  have place: "length (level_orders (a_place sd x (a_side ?b A))) = Suc (length (level_orders (a_side ?b A)))" for x
    using arg_cong [OF orders_place [OF slots, of sd x], of size] by simp
  show ?thesis
    using a sweep_messages [OF sw] length_orders [of A ?b] length_orders [of A' ?b]
    by (auto simp: a_add_def Let_def sw place split: if_splits)
qed

lemma delete_shorter: "length (level_orders (a_delete cid coid L)) \<le> length (level_orders L)"
proof (induction L)
  case (Cons l L)
  then show ?case
    by (cases l) (auto simp: a_delete_def keep_level_def intro: add_mono length_filter_le)
qed (simp add: a_delete_def)

lemma cancel_messages:
  "a_cancel cid coid A = (A', ms) \<Longrightarrow> length ms + 4 * length (a_orders A') \<le> 4 * length (a_orders A) + 2"
  using delete_shorter [of cid coid "a_bids A"] delete_shorter [of cid coid "a_asks A"]
  by (auto simp: a_cancel_def a_orders_def split: option.splits)

lemma set_qty_length [simp]: "length (level_orders (a_set_qty cid coid q L)) = length (level_orders L)"
  by (induction L) (auto simp: a_set_qty_def)

lemma modify_messages:
  assumes slots: "\<And>b. distinct (map (price_to_index \<circ> fst) (a_side b A))" and a: "a_modify cid coid price qty A = (A', ms)"
  shows "length ms + 4 * length (a_orders A') \<le> 4 * length (a_orders A) + 12"
proof (cases "a_find cid coid A")
  case (Some x)
  obtain A1 ms1 where c: "a_cancel cid coid A = (A1, ms1)" by force
  obtain A2 ms2 where d: "a_add cid coid (o_side x) price qty A1 = (A2, ms2)" by force
  have "distinct (map (price_to_index \<circ> fst) (a_side b A1))" for b
    using cancel_slots [OF slots, of b cid coid] c by simp
  from add_messages [OF this d] cancel_messages [OF c] a Some c d show ?thesis
    by (auto simp: a_modify_def a_orders_def split: if_splits)
qed (use a in \<open>auto simp: a_modify_def\<close>)

lemma process_messages:
  assumes rel: "book_rel s G A" and a: "a_process r A = (A', ms)"
  shows "length ms + 4 * length (a_orders A') \<le> 4 * length (a_orders A) + 12"
proof (cases "rq_type r")
  case REQ_NEW
  with a have "a_add (rq_client_id r) (rq_order_id r) (rq_side r) (rq_price r) (rq_qty r) A = (A', ms)"
    by (simp add: a_process_def)
  from add_messages [OF slots_distinct [OF rel] this] show ?thesis by simp
next
  case REQ_CANCEL
  with a have "a_cancel (rq_client_id r) (rq_order_id r) A = (A', ms)" by (simp add: a_process_def)
  from cancel_messages [OF this] show ?thesis by simp
next
  case REQ_MODIFY
  with a have "a_modify (rq_client_id r) (rq_order_id r) (rq_price r) (rq_qty r) A = (A', ms)"
    by (simp add: a_process_def)
  from modify_messages [OF slots_distinct [OF rel] this] show ?thesis by simp
qed (use a in \<open>auto simp: a_process_def\<close>)

section \<open>A day\<close>

lemma a_run_append:
  "a_run (rs @ rs') As = (fst (a_run rs' (fst (a_run rs As))), snd (a_run rs As) @ snd (a_run rs' (fst (a_run rs As))))"
  by (induction rs arbitrary: As) (simp_all add: case_prod_beta' Let_def)

lemma all_admissible_append:
  "all_admissible (rs @ rs') As \<longleftrightarrow> all_admissible rs As \<and> all_admissible rs' (fst (a_run rs As))"
  by (induction rs arbitrary: As) (simp_all add: case_prod_beta' Let_def)

text \<open>The requests of a day that the exchange is built for: admissible, and fewer than the identifiers.\<close>

definition day :: "client_request_internal list \<Rightarrow> bool" where
  "day rs \<longleftrightarrow> all_admissible rs a_engine_init \<and> length rs < MAX_NUM_ORDERS"

lemma day_prefix: "day (rs @ rs') \<Longrightarrow> day rs"
  by (simp add: day_def all_admissible_append)

definition resting :: "abook list \<Rightarrow> nat" where
  "resting As = sum_list (map (length \<circ> a_orders) As)"

lemma resting_update:
  assumes "i < length As"
  shows "resting (As[i := A]) + length (a_orders (As ! i)) = resting As + length (a_orders A)"
proof -
  have "As = take i As @ As ! i # drop (Suc i) As" using assms by (rule id_take_nth_drop)
  then have "resting As = resting (take i As) + length (a_orders (As ! i)) + resting (drop (Suc i) As)"
    by (metis (no_types, lifting) add.assoc comp_apply list.simps(9) map_append resting_def sum_list.Cons sum_list.append)
  then show ?thesis using upd_conv_take_nth_drop [OF assms, of A] by (simp add: resting_def)
qed

lemma run_messages:
  "engine_rel me As \<Longrightarrow> all_admissible rs As \<Longrightarrow> a_run rs As = (As', ms) \<Longrightarrow>
    length ms + 4 * resting As' \<le> 4 * resting As + 12 * length rs"
proof (induction rs arbitrary: me As ms)
  case (Cons r rs)
  obtain As1 ms1 where st: "a_step r As = (As1, ms1)" by (cases "a_step r As")
  obtain ms2 where run: "a_run rs As1 = (As', ms2)" "ms = ms1 @ ms2"
    using Cons.prems(3) st by (auto split: prod.splits)
  have adm: "admissible r As" "all_admissible rs As1" using Cons.prems(2) st by simp_all
  obtain me' where me': "engine_rel me' As1" using process_client_request_ok [OF Cons.prems(1) adm(1) st] by blast
  define j where "j = unat (rq_instrument_id r)"
  have j: "j < MAX_NUM_INSTRUMENTS" "length As = MAX_NUM_INSTRUMENTS"
    using adm(1) Cons.prems(1) by (simp_all add: admissible_def j_def engine_rel_def)
  obtain A' where A': "a_process r (As ! j) = (A', ms1)" "As1 = As[j := A']"
    using st by (auto simp: a_step_def Let_def j_def split: prod.splits)
  obtain s G where "book_rel s G (As ! j)" using engine_rel_book [OF Cons.prems(1) j(1)] by blast
  from process_messages [OF this A'(1)] resting_update [of j As A'] j A'(2)
  have "length ms1 + 4 * resting As1 \<le> 4 * resting As + 12" by simp
  then show ?case using Cons.IH [OF me' adm(2) run(1)] run(2) by simp
qed simp

lemma day_messages:
  assumes "all_admissible rs a_engine_init" and "a_run rs a_engine_init = (As, ms)"
  shows "length (responses_of ms) + length (updates_of ms) \<le> 12 * length rs"
proof -
  obtain me where "engine_rel me a_engine_init" using engine_rel_init by blast
  moreover have "resting a_engine_init = 0" by (auto simp: resting_def a_engine_init_def a_init_def a_orders_def comp_def)
  ultimately show ?thesis using run_messages [OF _ assms] length_split_msgs [of ms] by fastforce
qed

lemma day_fits_queues:
  assumes "day rs" and "a_run rs a_engine_init = (As, ms)"
  shows "length (responses_of ms) \<le> MAX_CLIENT_UPDATES" and "length (updates_of ms) \<le> MAX_MARKET_UPDATES"
  using day_messages [OF _ assms(2)] assms(1) by (simp_all add: day_def model_constants)

lemma day_consistent: "day rs \<Longrightarrow> a_run rs a_engine_init = (As, ms) \<Longrightarrow> all_consistent 0 (updates_of ms) no_updates"
  unfolding day_def by (rule stream_mirrors(1)) blast+

end
