(* ===== verification/MarketDataProperties.thy ===== *)
theory MarketDataProperties
  imports MessageBound BookProperties
begin

text \<open>
  What the market data threads guarantee: the invariant of every interleaving, progress, the
  agreement of the snapshot table with the order books, and the shape of what is sent.
\<close>

text \<open>Sample updates for the instances below: an order added, reduced and filled.\<close>

definition sample_updates :: "market_update list" where
  "sample_updates = [order_update (hd (snd (hd (a_asks four_order_book)))) 0,
     (order_update (hd (snd (hd (a_asks four_order_book)))) 0)\<lparr>mu_type := MU_MODIFY, mu_qty := 2\<rparr>]"

lemma sample_consistent: "all_consistent 0 sample_updates no_updates" "length sample_updates = 2"
  by code_simp+

text \<open>
  C18: whatever the interleaving of the engine's sends, the publisher, the synthesizer and its
  timer, the synthesizer's table is the replay of a prefix of the updates sent, numbered from one
  without gaps, the next part waits in its queue with the numbers that follow, and the rest has
  not been published yet: no update is lost, repeated or reordered.
\<close>

theorem snapshot_table_is_prefix:
  assumes "md_run be us s" and "all_consistent 0 us no_updates"
  shows "\<exists>seen waiting unsent. us = seen @ waiting @ unsent \<and>
    table_of (synthesizer s) = fold apply_update seen no_updates \<and>
    last_inc_seq_num (synthesizer s) = word_of_nat (length seen) \<and>
    queue_items (snapshot_market_update_queue (publisher s)) = numbered (1 + word_of_nat (length seen)) waiting \<and>
    queue_items (market_updates s) = unsent"
  using md_run_inv [OF assms] by (auto simp: md_inv_def md_split_def)

theorem snapshot_table_is_prefix_witness:
  "\<exists>s seen waiting unsent. md_run True sample_updates s \<and> sample_updates = seen @ waiting @ unsent \<and>
    table_of (synthesizer s) = fold apply_update seen no_updates"
proof -
  obtain s where "md_run True sample_updates s"
    using md_run_send [of sample_updates True] sample_consistent(2) by (auto simp: model_constants)
  with snapshot_table_is_prefix [OF this sample_consistent(1)] show ?thesis by blast
qed

text \<open>
  No assertion of the two threads fails: at any point of a run the publisher, then the
  synthesizer, and the snapshot timer return, and one turn of each of the first two empties both
  queues and brings the table up to date with everything the engine has sent.
\<close>

theorem market_data_drains:
  assumes "md_run be us s" and "all_consistent 0 us no_updates" and "length us \<le> MAX_MARKET_UPDATES"
  shows "\<exists>s1 s2 s3. run_publisher be s = Inr s1 \<and> run_synthesizer s1 = Inr s2 \<and> run_timer be s2 = Inr s3 \<and>
    queue_items (market_updates s2) = [] \<and> queue_items (snapshot_market_update_queue (publisher s2)) = [] \<and>
    table_of (synthesizer s2) = fold apply_update us no_updates \<and>
    last_inc_seq_num (synthesizer s2) = word_of_nat (length us)"
proof -
  obtain s1 s2 where d: "run_publisher be s = Inr s1" "run_synthesizer s1 = Inr s2" "md_run be us s2"
    "queue_items (market_updates s2) = []" "queue_items (snapshot_market_update_queue (publisher s2)) = []"
    "table_of (synthesizer s2) = fold apply_update us no_updates"
    "last_inc_seq_num (synthesizer s2) = word_of_nat (length us)"
    using md_run_drain [OF assms] by blast
  moreover obtain s3 where "run_timer be s2 = Inr s3"
    using md_inv_timer [OF md_run_inv [OF d(3) assms(2)]] by blast
  ultimately show ?thesis by blast
qed

theorem market_data_drains_witness:
  "\<exists>s s1 s2. md_run False sample_updates s \<and> run_publisher False s = Inr s1 \<and> run_synthesizer s1 = Inr s2 \<and>
    last_inc_seq_num (synthesizer s2) = 2"
proof -
  have len: "length sample_updates \<le> MAX_MARKET_UPDATES" using sample_consistent(2) by (simp add: model_constants)
  obtain s where "md_run False sample_updates s" using md_run_send [OF len, of False] by blast
  with market_data_drains [OF this sample_consistent(1) len] sample_consistent(2) show ?thesis by auto
qed

text \<open>
  The snapshot table mirrors the order books. The engine processes a day of fewer than 2048
  admissible requests; whenever the updates it has sent have been replayed, the table holds for
  every instrument exactly the resting orders of its book, by market identifier, with their
  current quantities. No update is refused on the way.
\<close>

theorem snapshot_mirrors_books:
  assumes "all_admissible rs a_engine_init" and "a_run rs a_engine_init = (As, ms)"
    and "length rs < MAX_NUM_ORDERS" and "md_run be (updates_of ms) s" and "i < MAX_NUM_INSTRUMENTS"
  shows "\<exists>s1 s2. run_publisher be s = Inr s1 \<and> run_synthesizer s1 = Inr s2 \<and>
    table_of (synthesizer s2) i =
      map_of (map (\<lambda>x. (unat (o_market_order_id x), order_update x (word_of_nat i))) (a_orders (As ! i)))"
proof -
  note st = stream_mirrors [OF assms(1-3)]
  have "day rs" using assms(1,3) by (simp add: day_def)
  note len = day_fits_queues(2) [OF this assms(2)]
  obtain s1 s2 where "run_publisher be s = Inr s1" "run_synthesizer s1 = Inr s2"
    "table_of (synthesizer s2) = fold apply_update (updates_of ms) no_updates"
    using md_run_drain [OF assms(4) st(1) len] by blast
  then show ?thesis using st(2) [OF assms(5)] by (simp add: live_orders_def market_id_def)
qed

theorem snapshot_mirrors_books_witness:
  "\<exists>s s1 s2. md_run True (updates_of (snd (a_run crossing_requests a_engine_init))) s \<and>
    run_publisher True s = Inr s1 \<and> run_synthesizer s1 = Inr s2 \<and>
    map_option mu_qty (table_of (synthesizer s2) 0 4) = Some 5 \<and> table_of (synthesizer s2) 0 1 = None"
proof -
  define As ms where "As = fst (a_run crossing_requests a_engine_init)"
    and "ms = snd (a_run crossing_requests a_engine_init)"
  have run: "a_run crossing_requests a_engine_init = (As, ms)" by (simp add: As_def ms_def)
  have adm: "all_admissible crossing_requests a_engine_init" "length crossing_requests < MAX_NUM_ORDERS" by code_simp+
  have "length (updates_of ms) \<le> 64" unfolding ms_def by code_simp
  then have len: "length (updates_of ms) \<le> MAX_MARKET_UPDATES" by (simp add: model_constants)
  obtain s where s: "md_run True (updates_of ms) s" using md_run_send [OF len] by blast
  from snapshot_mirrors_books [OF adm(1) run adm(2) s, of 0] obtain s1 s2 where
    r: "run_publisher True s = Inr s1" "run_synthesizer s1 = Inr s2"
    "table_of (synthesizer s2) 0 =
      map_of (map (\<lambda>x. (unat (o_market_order_id x), order_update x (word_of_nat 0))) (a_orders (As ! 0)))"
    by (auto simp: model_constants)
  have "map_option mu_qty (map_of (map (\<lambda>x. (unat (o_market_order_id x), order_update x (word_of_nat 0))) (a_orders (As ! 0))) 4) = Some 5"
    "map_of (map (\<lambda>x. (unat (o_market_order_id x), order_update x (word_of_nat 0))) (a_orders (As ! 0))) 1 = None"
    unfolding As_def by code_simp+
  then show ?thesis using s r unfolding ms_def by auto
qed

text \<open>
  C19: a batch: the publisher sends all waiting updates as one datagram, encoded one after the
  other with consecutive sequence numbers, passes the same numbered updates to the synthesizer,
  and leaves the send buffer empty. A client that decodes the datagram gets them back.
\<close>

theorem publisher_batch:
  assumes "queue_inv q" and "queue_items q \<noteq> []" and "next_send_valid_index p = 0"
    and "q_size q \<le> MAX_MARKET_UPDATES" and "queue_inv (snapshot_market_update_queue p)"
    and "length (queue_items (snapshot_market_update_queue p)) + length (queue_items q)
      \<le> q_size (snapshot_market_update_queue p)"
    and "list_all wire_market_update (numbered (next_inc_seq_num p) (queue_items q))"
  shows "\<exists>q' p' d. process_and_publish be q p = Inr (q', p') \<and> queue_items q' = [] \<and>
    next_send_valid_index p' = 0 \<and> sent p' = sent p @ [d] \<and>
    decode_datagram be' d = numbered (next_inc_seq_num p) (queue_items q) \<and>
    queue_items (snapshot_market_update_queue p') =
      queue_items (snapshot_market_update_queue p) @ numbered (next_inc_seq_num p) (queue_items q)"
  using process_and_publish_ok [OF assms(1-6), of be] decode_datagram [OF assms(7), of be'] by auto

theorem publisher_batch_witness:
  "\<exists>q' p' d. process_and_publish False (fold enqueue sample_updates (lock_free_queue_init 4 default_market_update))
      market_data_publisher_init = Inr (q', p') \<and> sent p' = [d] \<and> decode_datagram True d = numbered 1 sample_updates"
proof -
  let ?q = "fold enqueue sample_updates (lock_free_queue_init 4 default_market_update)"
  have q: "queue_inv ?q" "queue_items ?q = sample_updates" "q_size ?q = 4"
    using filled_queue [of 4 sample_updates] sample_consistent(2) by simp_all
  have w: "list_all wire_market_update (numbered 1 sample_updates)" "sample_updates \<noteq> []" by code_simp+
  have p: "queue_inv (snapshot_market_update_queue market_data_publisher_init)"
    "q_size (snapshot_market_update_queue market_data_publisher_init) = MAX_MARKET_UPDATES"
    "queue_items (snapshot_market_update_queue market_data_publisher_init) = []"
    "next_send_valid_index market_data_publisher_init = 0" "next_inc_seq_num market_data_publisher_init = 1"
    "sent market_data_publisher_init = []" "4 \<le> MAX_MARKET_UPDATES"
    by (simp_all add: market_data_publisher_init_def queue_init_inv model_constants)
  from publisher_batch [where q = ?q and p = market_data_publisher_init and be = False and be' = True] p q w sample_consistent(2)
  show ?thesis by (auto simp: model_constants)
qed

text \<open>
  C20: the publisher gives the slot of an update back to the engine before it has copied the update
  for the synthesizer. Left alone, the steps of the loop are \<open>publish_updates\<close>. But let the loop take an update, with number \<open>n\<close>, and let the engine write any
  updates \<open>ws\<close> for which there is room between the release of the slot and the copy. The datagram
  carries the update under \<open>n\<close>; the synthesizer is handed, under the same \<open>n\<close>, that update if
  the writes leave a slot of the queue free, and the last of \<open>ws\<close> if they fill it.
\<close>

theorem slot_released_too_early:
  assumes "queue_inv q" and "queue_items q = u # us" and "length us + length ws \<le> q_size q"
    and "buffered vs p" and "Suc (length vs) * sizeof_client_market_update < BUFFER_SIZE"
    and "queue_inv (snapshot_market_update_queue p)"
    and "length (queue_items (snapshot_market_update_queue p)) < q_size (snapshot_market_update_queue p)"
  shows "(\<exists>n. interleaved be (replicate n Publisher) (At_Head, q, p) =
      rbind (publish_updates be q p) (\<lambda>qp. Inr (At_Send, qp))) \<and>
    (\<exists>q' p'. interleaved be ([Publisher, Publisher] @ map Engine_Writes ws @ [Publisher]) (At_Head, q, p) = Inr (At_Head, q', p') \<and>
    queue_items q' = us @ ws \<and> buffered (vs @ [\<lparr>cmu_sequence_number = next_inc_seq_num p, cmu_update = u\<rparr>]) p' \<and>
    queue_items (snapshot_market_update_queue p') = queue_items (snapshot_market_update_queue p) @
      [\<lparr>cmu_sequence_number = next_inc_seq_num p,
        cmu_update = (if length us + length ws < q_size q then u else last ws)\<rparr>])"
proof (rule conjI [OF publisher_alone])
  let ?r = "fold enqueue ws (next_read_index q)" and ?slot = "q_next_read_index q"
  let ?cu = "\<lparr>cmu_sequence_number = next_inc_seq_num p, cmu_update = u\<rparr>"
  obtain b n where a: "add_to_buffer be ?cu p = Inr (p\<lparr>send_buffer := b, next_send_valid_index := n\<rparr>)"
    "buffered (vs @ [?cu]) (p\<lparr>send_buffer := b, next_send_valid_index := n\<rparr>)"
    using add_to_buffer_ok [OF assms(4,5), of be ?cu] by blast
  let ?p = "copy_to_snapshot ?slot ?r (p\<lparr>send_buffer := b, next_send_valid_index := n\<rparr>)"
  have hd: "get_next_read_element q = Some u" using assms(1,2) by (simp add: get_next_read_element_items)
  have run: "interleaved be ([Publisher, Publisher] @ map Engine_Writes ws @ [Publisher]) (At_Head, q, p) = Inr (At_Head, ?r, ?p)"
    by (simp add: hd a(1) interleaved_engine)
  have i: "queue_inv (next_read_index q)" "queue_items (next_read_index q) = us"
    using assms(1,2) by (simp_all add: queue_inv_next_read_index queue_items_next_read_index)
  have "length us < q_size q" using assms(1,2) by (simp add: queue_inv_def flip: length_queue_items)
  then have "length us + length ws = q_size q \<Longrightarrow> ws \<noteq> []" by auto
  then have "q_data ?r ?slot = (if length us + length ws < q_size q then u else last ws)"
    using released_slot_kept [OF assms(1,2), of ws] released_slot_taken [OF assms(1,2), of ws] assms(3) by auto
  then have "queue_items (snapshot_market_update_queue ?p) = queue_items (snapshot_market_update_queue p) @
      [\<lparr>cmu_sequence_number = next_inc_seq_num p,
        cmu_update = (if length us + length ws < q_size q then u else last ws)\<rparr>]"
    using assms(6,7) by (simp add: copy_to_snapshot_def Let_def queue_items_enqueue)
  moreover have "queue_items ?r = us @ ws" using lfq.fold_put [OF i(1), of ws] assms(3) i(2) by simp
  moreover have "buffered (vs @ [?cu]) ?p" using a(2) by (simp add: buffered_def copy_to_snapshot_def Let_def)
  ultimately show "\<exists>q' p'. interleaved be ([Publisher, Publisher] @ map Engine_Writes ws @ [Publisher]) (At_Head, q, p) =
      Inr (At_Head, q', p') \<and>
    queue_items q' = us @ ws \<and> buffered (vs @ [\<lparr>cmu_sequence_number = next_inc_seq_num p, cmu_update = u\<rparr>]) p' \<and>
    queue_items (snapshot_market_update_queue p') = queue_items (snapshot_market_update_queue p) @
      [\<lparr>cmu_sequence_number = next_inc_seq_num p,
        cmu_update = (if length us + length ws < q_size q then u else last ws)\<rparr>]" using run by blast
qed

text \<open>A queue of two that is full when the publisher takes the first update; the engine writes once.\<close>

theorem slot_released_too_early_witness:
  "\<exists>q p. interleaved True [Publisher, Publisher, Engine_Writes default_market_update, Publisher]
      (At_Head, fold enqueue sample_updates (lock_free_queue_init 2 default_market_update), market_data_publisher_init) =
      Inr (At_Head, q, p) \<and>
    buffered [\<lparr>cmu_sequence_number = 1, cmu_update = hd sample_updates\<rparr>] p \<and>
    queue_items (snapshot_market_update_queue p) = [\<lparr>cmu_sequence_number = 1, cmu_update = default_market_update\<rparr>]"
proof -
  let ?q = "fold enqueue sample_updates (lock_free_queue_init 2 default_market_update)"
  obtain u v where s: "sample_updates = [u, v]" using sample_consistent(2) by (auto simp: length_Suc_conv numeral_2_eq_2)
  have q: "queue_inv ?q" "queue_items ?q = u # [v]" "q_size ?q = 2"
    using filled_queue [of 2 sample_updates] sample_consistent(2) s by simp_all
  have p: "buffered [] market_data_publisher_init" "Suc (length []) * sizeof_client_market_update < BUFFER_SIZE"
    "queue_inv (snapshot_market_update_queue market_data_publisher_init)"
    "length (queue_items (snapshot_market_update_queue market_data_publisher_init)) <
      q_size (snapshot_market_update_queue market_data_publisher_init)"
    by (simp_all add: buffered_def market_data_publisher_init_def queue_init_inv model_constants sizeof_defs BUFFER_SIZE_def
        read_bytes_def)
  have "queue_items (snapshot_market_update_queue market_data_publisher_init) = []" "next_inc_seq_num market_data_publisher_init = 1"
    by (simp_all add: market_data_publisher_init_def)
  moreover have "length [v] + length [default_market_update] \<le> q_size ?q" by (simp add: q(3))
  note slot_released_too_early [OF q(1,2) this p, of True, THEN conjunct2]
  ultimately show ?thesis by (simp only: q(3) s list.map append.simps list.sel list.size last.simps) fastforce
qed

lemma snapshot_messages_table:
  "snapshot_messages s = default_market_update\<lparr>mu_type := MU_SNAPSHOT_START, mu_order_id := last_inc_seq_num s\<rparr> #
    concat (map (\<lambda>i. default_market_update\<lparr>mu_type := MU_CLEAR, mu_instrument_id := word_of_nat i\<rparr> #
      List.map_filter (table_of s i) [0..<MAX_NUM_ORDERS]) [0..<MAX_NUM_INSTRUMENTS]) @
    [default_market_update\<lparr>mu_type := MU_SNAPSHOT_END, mu_order_id := last_inc_seq_num s\<rparr>]"
  unfolding snapshot_messages_def start_message_def end_message_def table_messages_def clear_message_def
    instrument_updates_table by simp

lemma take_numbered: "take j (numbered n us) = numbered n (take j us)"
proof (induction us arbitrary: n j)
  case (Cons u us) then show ?case by (cases j) simp_all
qed simp

lemma datagram_split: "datagram us = datagram (take j us) @ datagram (drop j us)"
  unfolding datagram_simps(3) [symmetric] append_take_drop_id ..

lemma table_of_sent [simp]: "table_of (s\<lparr>send_buffer := b, sent := e\<rparr>) = table_of s"
  by (simp add: table_of_def stored_def fun_eq_iff)

text \<open>
  C21: publishing a snapshot never overruns the buffer and never fails. The last datagram is the
  complete snapshot, numbered from zero: the start message with the sequence number the snapshot
  is up to date with, for each instrument a clear message and its stored orders by identifier,
  and the end message. Every datagram sent before it is a prefix of it; the table is unchanged.
\<close>

theorem snapshot_published_completely:
  assumes "synth_ok s" and "next_send_valid_index s = 0"
  shows "\<exists>s' ds. publish_snapshot be s = Inr s' \<and> table_of s' = table_of s \<and> next_send_valid_index s' = 0 \<and>
    (let all = numbered 0
        (default_market_update\<lparr>mu_type := MU_SNAPSHOT_START, mu_order_id := last_inc_seq_num s\<rparr> #
         concat (map (\<lambda>i. default_market_update\<lparr>mu_type := MU_CLEAR, mu_instrument_id := word_of_nat i\<rparr> #
           List.map_filter (table_of s i) [0..<MAX_NUM_ORDERS]) [0..<MAX_NUM_INSTRUMENTS]) @
         [default_market_update\<lparr>mu_type := MU_SNAPSHOT_END, mu_order_id := last_inc_seq_num s\<rparr>])
     in sent s' = sent s @ ds @ [datagram all] \<and> (\<forall>d \<in> set ds. \<exists>j. datagram all = d @ datagram (drop j all)))"
proof -
  let ?ms = "snapshot_messages s"
  obtain b ds where r: "publish_snapshot be s = Inr (s\<lparr>send_buffer := b, sent := sent s @ ds @ [datagram (numbered 0 ?ms)]\<rparr>)"
    and ds: "\<forall>d \<in> set ds. \<exists>j < length ?ms. d = datagram (numbered 0 (take j ?ms))"
    using publish_snapshot_ok [OF assms] by blast
  define all where "all = numbered 0 ?ms"
  have prefixes: "\<exists>j. datagram all = d @ datagram (drop j all)" if "d \<in> set ds" for d
  proof -
    obtain j where "d = datagram (numbered 0 (take j ?ms))" using bspec [OF ds \<open>d \<in> set ds\<close>] by (elim exE conjE)
    then have "d = datagram (take j all)" unfolding all_def take_numbered .
    then show ?thesis using datagram_split by blast
  qed
  define s' where "s' = s\<lparr>send_buffer := b, sent := sent s @ ds @ [datagram all]\<rparr>"
  have "publish_snapshot be s = Inr s'" using r unfolding s'_def all_def .
  moreover have "table_of s' = table_of s" "next_send_valid_index s' = 0" "sent s' = sent s @ ds @ [datagram all]"
    unfolding s'_def using assms(2) by simp_all
  moreover have "\<forall>d \<in> set ds. \<exists>j. datagram all = d @ datagram (drop j all)" by (intro ballI prefixes)
  ultimately show ?thesis unfolding Let_def snapshot_messages_table [symmetric] all_def [symmetric]
    by (intro exI [of _ s'] exI [of _ ds] conjI)
qed

theorem snapshot_published_completely_witness:
  "\<exists>s s'. snapshot_synthesizer_init = Inr s \<and> publish_snapshot False s = Inr s' \<and> table_of s' = no_updates"
proof -
  obtain s where s: "snapshot_synthesizer_init = Inr s" "synth_ok s" "table_of s = no_updates" "next_send_valid_index s = 0"
    using snapshot_synthesizer_init_ok by blast
  with snapshot_published_completely [OF s(2,4), of False] show ?thesis by metis
qed

end
