(* ===== verification/MessageStream.thy ===== *)
theory MessageStream
  imports Serializer
begin

text \<open>
  The receiving side of a TCP connection, which \<open>order_server.hpp\<close> and \<open>order_gateway.hpp\<close>
  declare alike: the inbound buffer, libuv's read into it, and the shift that drops processed
  bytes. Messages have a fixed size and no framing; the locale \<open>message_stream\<close> is what the
  readers rely on of the wire protocol, and is interpreted for its three kinds of message.
\<close>

definition TCP_BUFFER_SIZE :: nat where [model_constants]: "TCP_BUFFER_SIZE = 64 * 1024 * 1024"

record tcp_inbound =
  inbound_data :: buffer
  next_rcv_valid_index :: nat

text \<open>
  What a read callback is called with: \<open>nread\<close> bytes, end of stream (\<open>UV_EOF\<close>) or an error.
  \<open>alloc_buffer\<close> returns the base and length of the memory libuv reads into, which is always
  the whole buffer, whatever it still holds.
\<close>

datatype read_result = Received "u8 list" | End_Of_Stream | Read_Error

definition alloc_buffer :: "'a tcp_inbound_scheme \<Rightarrow> nat \<times> nat" where
  "alloc_buffer conn = (0, TCP_BUFFER_SIZE)"

definition uv_read :: "u8 list \<Rightarrow> 'a tcp_inbound_scheme \<Rightarrow> 'a tcp_inbound_scheme" where
  "uv_read bs conn = conn\<lparr>inbound_data := write_bytes (fst (alloc_buffer conn)) bs (inbound_data conn)\<rparr>"

definition shift_inbound_buffer :: "nat \<Rightarrow> 'a tcp_inbound_scheme \<Rightarrow> 'a tcp_inbound_scheme" where
  "shift_inbound_buffer processed conn =
     (if 0 < processed \<and> processed \<le> next_rcv_valid_index conn
      then conn\<lparr>inbound_data := write_bytes 0
             (read_bytes processed (next_rcv_valid_index conn - processed) (inbound_data conn)) (inbound_data conn),
           next_rcv_valid_index := next_rcv_valid_index conn - processed\<rparr>
      else conn)"

section \<open>Fixed size messages\<close>

text \<open>The messages of size \<open>sz\<close> that \<open>n\<close> bytes from offset \<open>i\<close> hold.\<close>

definition messages :: "nat \<Rightarrow> (nat \<Rightarrow> buffer \<Rightarrow> 'm) \<Rightarrow> nat \<Rightarrow> nat \<Rightarrow> buffer \<Rightarrow> 'm list" where
  "messages sz decode i n buf = map (\<lambda>k. decode (i + k * sz) buf) [0..<n div sz]"

locale message_stream =
  fixes sz :: nat
    and image :: "'m \<Rightarrow> u8 list"
    and wf :: "'m \<Rightarrow> bool"
    and decode :: "bool \<Rightarrow> nat \<Rightarrow> buffer \<Rightarrow> 'm"
  assumes sz_pos: "0 < sz"
    and length_image: "length (image x) = sz"
    and decode_image: "read_bytes base sz buf = image x \<Longrightarrow> wf x \<Longrightarrow> decode be base buf = x"
begin

lemma images_length: "length (concat (map image xs)) = length xs * sz"
  by (induction xs) (simp_all add: length_image)

lemma messages_Cons:
  assumes "i + sz \<le> n"
  shows "messages sz (decode be) i (n - i) buf = decode be i buf # messages sz (decode be) (i + sz) (n - (i + sz)) buf"
proof -
  have "(n - i) div sz = Suc ((n - (i + sz)) div sz)"
    using assms sz_pos div_if [of "n - i" sz] by (simp add: diff_diff_eq)
  then show ?thesis
    by (simp add: messages_def upt_conv_Cons flip: map_Suc_upt del: upt_Suc) (simp add: comp_def algebra_simps)
qed

lemma messages_end: "\<not> i + sz \<le> n \<Longrightarrow> messages sz (decode be) i (n - i) buf = []"
  using sz_pos by (simp add: messages_def)

text \<open>Written back to back and read by a host of any byte order, messages come back.\<close>

lemma messages_image:
  assumes "read_bytes i (length xs * sz) buf = concat (map image xs)" and "list_all wf xs"
  shows "messages sz (decode be) i (length xs * sz) buf = xs"
  using assms
proof (induction xs arbitrary: i)
  case (Cons x xs)
  have r: "read_bytes i sz buf = image x" "read_bytes (i + sz) (length xs * sz) buf = concat (map image xs)"
    using Cons.prems(1) append_eq_append_conv [of "read_bytes i sz buf" "image x"]
    by (simp_all add: read_bytes_append length_image)
  have "messages sz (decode be) i (i + length (x # xs) * sz - i) buf =
      decode be i buf # messages sz (decode be) (i + sz) (i + length (x # xs) * sz - (i + sz)) buf"
    by (rule messages_Cons) simp
  then show ?case using decode_image [OF r(1)] Cons.IH [OF r(2)] Cons.prems(2) by simp
qed (simp add: messages_def)

lemma messages_written:
  assumes "list_all wf xs"
  shows "messages sz (decode be) 0 (length xs * sz) (write_bytes 0 (concat (map image xs)) buf) = xs"
  by (rule messages_image) (simp_all add: assms images_length)

end

interpretation requests: message_stream sizeof_client_request_external request_bytes wire_request deserialize_client_request
  by unfold_locales (simp_all add: sizeof_defs deserialize_client_request_image [unfolded sizeof_defs])

interpretation responses: message_stream sizeof_client_response_external response_bytes wire_response
  deserialize_client_response
  by unfold_locales (simp_all add: sizeof_defs deserialize_client_response_image [unfolded sizeof_defs])

interpretation updates: message_stream sizeof_client_market_update market_update_bytes wire_market_update
  deserialize_market_update
  by unfold_locales (simp_all add: sizeof_defs deserialize_market_update_image [unfolded sizeof_defs])

section \<open>The inbound buffer\<close>

lemma uv_read_simps [simp]:
  "inbound_data (uv_read bs conn) = write_bytes 0 bs (inbound_data conn)"
  "next_rcv_valid_index (uv_read bs conn) = next_rcv_valid_index conn"
  by (simp_all add: uv_read_def alloc_buffer_def)

text \<open>Dropping the processed bytes leaves exactly the unprocessed ones at the front.\<close>

lemma shift_inbound_buffer_ok:
  assumes "p \<le> next_rcv_valid_index conn"
  shows "next_rcv_valid_index (shift_inbound_buffer p conn) = next_rcv_valid_index conn - p"
    and "read_bytes 0 (next_rcv_valid_index conn - p) (inbound_data (shift_inbound_buffer p conn)) =
      read_bytes p (next_rcv_valid_index conn - p) (inbound_data conn)"
  using assms by (auto simp: shift_inbound_buffer_def)

end
