(* ===== verification/FifoSequencer.thy ===== *)
theory FifoSequencer
  imports LockFreeQueue "HOL-Library.Multiset"
begin

text \<open>
  \<open>order_server/fifo_sequencer.hpp\<close>: the array of pending requests, sorted by receive time
  before it is written to the engine's queue. The standard only fixes that \<open>std::sort\<close>
  permutes its range into ascending order, not what becomes of equal elements, so the sorting
  function is a parameter \<open>srt\<close> of the model and \<open>std_sort srt\<close> what the standard promises.
\<close>

text \<open>The value of the \<open>int64_t\<close>; receive times are clock readings and stay far from its bounds.\<close>

type_synonym nananoseconds_t = int

definition NANOS_PER_MILLIS :: nananoseconds_t where "NANOS_PER_MILLIS = 1000000"

definition MAX_PENDING_REQUESTS :: nat where [model_constants]: "MAX_PENDING_REQUESTS = 1024"

record timed_client_request =
  recv_time :: nananoseconds_t
  request :: client_request_internal

text \<open>\<open>operator<\<close>, and with it the preorder of receive times.\<close>

definition earlier :: "timed_client_request \<Rightarrow> timed_client_request \<Rightarrow> bool" where
  "earlier x y \<longleftrightarrow> recv_time x < recv_time y"

instantiation timed_client_request_ext :: (type) preorder
begin

definition less_timed_client_request_ext :: "'a timed_client_request_scheme \<Rightarrow> 'a timed_client_request_scheme \<Rightarrow> bool" where
  "less_timed_client_request_ext x y \<longleftrightarrow> recv_time x < recv_time y"

definition less_eq_timed_client_request_ext :: "'a timed_client_request_scheme \<Rightarrow> 'a timed_client_request_scheme \<Rightarrow> bool" where
  "less_eq_timed_client_request_ext x y \<longleftrightarrow> recv_time x \<le> recv_time y"

instance
  by standard (auto simp: less_timed_client_request_ext_def less_eq_timed_client_request_ext_def)

end

lemma less_iff_earlier: "x < y \<longleftrightarrow> earlier x y"
  by (simp add: less_timed_client_request_ext_def earlier_def)

text \<open>The array, of \<open>MAX_PENDING_REQUESTS\<close> elements, by index.\<close>

record fifo_sequencer =
  pending_client_requests :: "nat \<Rightarrow> timed_client_request"
  pending_size :: nat

definition fifo_sequencer_init :: fifo_sequencer where
  "fifo_sequencer_init = \<lparr>pending_client_requests = (\<lambda>_. \<lparr>recv_time = 0, request = default_client_request\<rparr>),
     pending_size = 0\<rparr>"

definition add_request :: "nananoseconds_t \<Rightarrow> client_request_internal \<Rightarrow> fifo_sequencer \<Rightarrow> fifo_sequencer result" where
  "add_request rx_time r f =
     (if MAX_PENDING_REQUESTS \<le> pending_size f then Inl (Fatal ''Too many pending requests'')
      else Inr (f\<lparr>pending_client_requests :=
             (pending_client_requests f)(pending_size f := \<lparr>recv_time = rx_time, request = r\<rparr>),
           pending_size := pending_size f + 1\<rparr>))"

text \<open>The elements in front of \<open>pending_size\<close>, and the loop that writes them to the queue.\<close>

definition pending :: "fifo_sequencer \<Rightarrow> timed_client_request list" where
  "pending f = map (pending_client_requests f) [0..<pending_size f]"

fun write_requests :: "nat \<Rightarrow> nat \<Rightarrow> fifo_sequencer \<Rightarrow> client_request_internal lock_free_queue \<Rightarrow>
    client_request_internal lock_free_queue" where
  "write_requests i 0 f q = q"
| "write_requests i (Suc n) f q =
     write_requests (i + 1) n f
       (next_write_index (put_next_write_element (request (pending_client_requests f i)) q))"

definition sequence_and_publish :: "(timed_client_request list \<Rightarrow> timed_client_request list) \<Rightarrow>
    fifo_sequencer \<Rightarrow> client_request_internal lock_free_queue \<Rightarrow>
    fifo_sequencer \<times> client_request_internal lock_free_queue" where
  "sequence_and_publish srt f q =
     (if pending_size f = 0 then (f, q)
      else let sorted_requests = srt (pending f);
               f = f\<lparr>pending_client_requests := (\<lambda>i. if i < pending_size f then sorted_requests ! i
                     else pending_client_requests f i)\<rparr>;
               q = write_requests 0 (pending_size f) f q
           in (f\<lparr>pending_size := 0\<rparr>, q))"

definition is_empty :: "fifo_sequencer \<Rightarrow> bool" where
  "is_empty f \<longleftrightarrow> pending_size f = 0"

definition std_sort :: "(timed_client_request list \<Rightarrow> timed_client_request list) \<Rightarrow> bool" where
  "std_sort srt \<longleftrightarrow> (\<forall>xs. mset (srt xs) = mset xs \<and> sorted_wrt (\<lambda>x y. \<not> earlier y x) (srt xs))"

section \<open>What reaches the engine\<close>

lemma sorted_wrt_not_earlier: "sorted_wrt (\<lambda>x y. \<not> earlier y x) xs \<longleftrightarrow> sorted (map recv_time xs)"
  by (simp add: earlier_def sorted_map not_less)

lemma std_sort_sort_key: "std_sort (sort_key recv_time)"
  by (simp add: std_sort_def sorted_wrt_not_earlier)

lemma std_sort_reversing: "std_sort (\<lambda>xs. sort_key recv_time (rev xs))"
  by (simp add: std_sort_def sorted_wrt_not_earlier)

lemma length_std_sort [simp]: "std_sort srt \<Longrightarrow> length (srt xs) = length xs"
  unfolding std_sort_def by (metis size_mset)

lemma sequencer_init_simps [simp]:
  "pending fifo_sequencer_init = []" "pending_size fifo_sequencer_init = 0" "is_empty fifo_sequencer_init"
  by (simp_all add: pending_def fifo_sequencer_init_def is_empty_def)

lemma length_pending [simp]: "length (pending f) = pending_size f"
  by (simp add: pending_def)

lemma is_empty_iff: "is_empty f \<longleftrightarrow> pending f = []"
  by (simp add: is_empty_def pending_def)

lemma add_request_ok:
  assumes "pending_size f < MAX_PENDING_REQUESTS"
  obtains g where "add_request t r f = Inr g" and "pending g = pending f @ [\<lparr>recv_time = t, request = r\<rparr>]"
    and "pending_size g = Suc (pending_size f)"
proof
  let ?g = "f\<lparr>pending_client_requests := (pending_client_requests f)(pending_size f := \<lparr>recv_time = t, request = r\<rparr>),
    pending_size := Suc (pending_size f)\<rparr>"
  show "add_request t r f = Inr ?g" using assms by (simp add: add_request_def)
  show "pending ?g = pending f @ [\<lparr>recv_time = t, request = r\<rparr>]" by (simp add: pending_def)
qed simp

lemma add_request_full: "MAX_PENDING_REQUESTS \<le> pending_size f \<Longrightarrow>
    add_request t r f = Inl (Fatal ''Too many pending requests'')"
  by (simp add: add_request_def)

lemma write_requests_fold:
  "write_requests i n f q = fold enqueue (map (\<lambda>j. request (pending_client_requests f j)) [i..<i + n]) q"
proof (induction n arbitrary: i q)
  case (Suc n)
  have "[i..<i + Suc n] = i # [Suc i..<Suc i + n]" by (simp add: upt_conv_Cons)
  then show ?case by (simp add: Suc.IH enqueue_def)
qed simp

text \<open>Publishing writes the sorted requests to the queue and empties the array.\<close>

lemma sequence_and_publish_eq:
  assumes "length (srt (pending f)) = pending_size f"
  shows "snd (sequence_and_publish srt f q) = fold enqueue (map request (srt (pending f))) q"
    and "pending (fst (sequence_and_publish srt f q)) = []"
proof -
  let ?f = "f\<lparr>pending_client_requests := \<lambda>i. if i < pending_size f then srt (pending f) ! i
    else pending_client_requests f i\<rparr>"
  have m: "map (\<lambda>j. request (pending_client_requests ?f j)) [0..<pending_size f] = map request (srt (pending f))"
    using assms by (intro nth_equalityI) simp_all
  have "snd (sequence_and_publish srt f q) = write_requests 0 (pending_size f) ?f q"
    by (simp add: sequence_and_publish_def Let_def)
  then show "snd (sequence_and_publish srt f q) = fold enqueue (map request (srt (pending f))) q"
    unfolding write_requests_fold using m by simp
  show "pending (fst (sequence_and_publish srt f q)) = []"
    by (simp add: sequence_and_publish_def Let_def pending_def)
qed

text \<open>A range that is already in strictly ascending order stays as it is, whatever the sort.\<close>

lemma sorted_wrt_less_unique:
  fixes key :: "'a \<Rightarrow> 'k::linorder"
  assumes "sorted_wrt (\<lambda>x y. key x < key y) xs" and "mset ys = mset xs" and "sorted (map key ys)"
  shows "ys = xs"
proof -
  have s: "sorted (map key xs)" using assms(1) by (induction xs) (auto intro: less_imp_le)
  have "distinct (map key xs)" using assms(1) by (induction xs) auto
  then have i: "inj_on key (set xs)" by (simp add: distinct_map)
  have "map key ys = map key xs"
    using assms(2,3) s by (metis mset_map properties_for_sort)
  moreover have "set ys = set xs" using assms(2) by (metis set_mset_mset)
  ultimately show ?thesis using i by (metis inj_on_map_eq_map sup.idem)
qed

lemma std_sort_ascending:
  fixes xs :: "timed_client_request list"
  assumes "std_sort srt" and "sorted_wrt (<) xs"
  shows "srt xs = xs"
proof (rule sorted_wrt_less_unique)
  have "((<) :: timed_client_request \<Rightarrow> _) = (\<lambda>x y. recv_time x < recv_time y)"
    by (simp add: fun_eq_iff less_timed_client_request_ext_def)
  then show "sorted_wrt (\<lambda>x y. recv_time x < recv_time y) xs" using assms(2) by simp
qed (use assms(1) in \<open>simp_all add: std_sort_def sorted_wrt_not_earlier\<close>)

end
