(* ===== verification/OrderServer.thy ===== *)
theory OrderServer
  imports MessageStream FifoSequencer MemoryPool
begin

text \<open>
  \<open>order_server/order_server.hpp\<close> and \<open>.cpp\<close>: the connections of the clients, the callbacks
  of the event loop (a new connection, a read, the check before polling, the asynchronous
  write) and the thread that distributes the responses. A connection is named by the slot of
  \<open>client_connections\<close> that owns it, so the code's comparison of connection pointers is a
  comparison of slots. What \<open>uv_write\<close> is given is recorded in \<open>written\<close>, the pending
  \<open>uv_async_send\<close> in \<open>async_pending\<close>.
\<close>

definition MAX_BUFFERED_RESPONSE :: nat where [model_constants]: "MAX_BUFFERED_RESPONSE = 1024 * 1024"

section \<open>A connection\<close>

record tcp_connection = tcp_inbound +
  outbound_data :: buffer
  next_response_index :: nat
  write_queue :: "nat lock_free_queue"
  async_pending :: bool
  written :: "u8 list list"

definition tcp_connection_init :: tcp_connection where
  "tcp_connection_init = \<lparr>inbound_data = (\<lambda>_. 0), next_rcv_valid_index = 0, outbound_data = (\<lambda>_. 0),
     next_response_index = 0, write_queue = lock_free_queue_init_size_t MAX_BUFFERED_RESPONSE,
     async_pending = False, written = []\<rparr>"

definition get_response_buffer :: "nat \<Rightarrow> nat" where
  "get_response_buffer index = index * sizeof_client_response_external"

text \<open>
  \<open>outbound_data\<close> has room for \<open>MAX_BUFFERED_RESPONSE\<close> responses; the encoder writes through
  a raw pointer, past the end it is undefined.
\<close>

definition append_to_outbound_buffer :: "bool \<Rightarrow> client_response_internal \<Rightarrow> u64 \<Rightarrow> tcp_connection \<Rightarrow>
    (nat \<times> tcp_connection) result" where
  "append_to_outbound_buffer be response sequence_number conn =
     (let conn = (if MAX_BUFFERED_RESPONSE < next_response_index conn then conn\<lparr>next_response_index := 0\<rparr> else conn);
          index = next_response_index conn;
          conn = conn\<lparr>write_queue := next_write_index (put_next_write_element index (write_queue conn))\<rparr>
      in if sizeof_client_response_external * MAX_BUFFERED_RESPONSE <
            get_response_buffer index + sizeof_client_response_external then Inl OutOfBounds
         else let conn = conn\<lparr>outbound_data := serialize_client_response be
                    \<lparr>rsx_sequence_number = sequence_number, rsx_response = response\<rparr>
                    (get_response_buffer index) (outbound_data conn),
                  next_response_index := index + 1\<rparr>
              in Inr (next_response_index conn - 1, conn))"

section \<open>The server\<close>

record order_server =
  next_client_id :: client_id_t
  matching_engine_responses :: "client_response_internal lock_free_queue"
  server_responses :: "client_response_internal lock_free_queue"
  client_next_outgoing_seq_num :: "nat \<Rightarrow> u32"
  client_next_incoming_seq_num :: "nat \<Rightarrow> u32"
  client_connections :: "nat \<Rightarrow> tcp_connection option"
  writer_pool :: "unit memory_pool"
  fifo :: fifo_sequencer
  incoming_requests :: "client_request_internal lock_free_queue"
  running :: bool

text \<open>The two queues shared with the engine are arguments of the constructor.\<close>

definition order_server_init :: "client_request_internal lock_free_queue \<Rightarrow>
    client_response_internal lock_free_queue \<Rightarrow> order_server result" where
  "order_server_init incoming_messages outgoing_messages =
     rbind (memory_pool_init MAX_BUFFERED_RESPONSE ()) (\<lambda>pool.
     Inr \<lparr>next_client_id = 0, matching_engine_responses = outgoing_messages,
          server_responses = lock_free_queue_init MAX_PENDING_REQUESTS default_client_response,
          client_next_outgoing_seq_num = (\<lambda>_. 1), client_next_incoming_seq_num = (\<lambda>_. 1),
          client_connections = (\<lambda>_. None), writer_pool = pool, fifo = fifo_sequencer_init,
          incoming_requests = incoming_messages, running = False\<rparr>)"

definition start_server :: "order_server \<Rightarrow> order_server" where
  "start_server s = s\<lparr>running := True\<rparr>"

definition stop_server :: "order_server \<Rightarrow> order_server" where
  "stop_server s = s\<lparr>running := False\<rparr>"

definition push_server_response :: "client_response_internal \<Rightarrow> order_server \<Rightarrow> order_server" where
  "push_server_response r s =
     s\<lparr>server_responses := next_write_index (put_next_write_element r (server_responses s))\<rparr>"

definition invalid_response :: "client_id_t \<Rightarrow> client_response_internal" where
  "invalid_response client_id = \<lparr>rs_type = INVALID_REQUEST, rs_client_id = client_id,
     rs_instrument_id = INVALID_INSTRUMENT_ID, rs_client_order_id = INVALID_ORDER_ID,
     rs_market_order_id = INVALID_ORDER_ID, rs_side = SIDE_INVALID, rs_price = INVALID_PRICE,
     rs_exec_qty = INVALID_QUANTITY, rs_leaves_qty = INVALID_QUANTITY\<rparr>"

definition send_invalid_response :: "client_id_t \<Rightarrow> order_server \<Rightarrow> order_server" where
  "send_invalid_response client_id = push_server_response (invalid_response client_id)"

definition accepted_response :: "client_id_t \<Rightarrow> client_response_internal" where
  "accepted_response client_id = \<lparr>rs_type = ACCEPTED, rs_client_id = client_id,
     rs_instrument_id = INVALID_INSTRUMENT_ID, rs_client_order_id = INVALID_ORDER_ID,
     rs_market_order_id = INVALID_ORDER_ID, rs_side = SIDE_INVALID, rs_price = INVALID_PRICE,
     rs_exec_qty = INVALID_QUANTITY, rs_leaves_qty = INVALID_QUANTITY\<rparr>"

definition send_connection_accepted_response :: "client_id_t \<Rightarrow> order_server \<Rightarrow> order_server" where
  "send_connection_accepted_response client_id = push_server_response (accepted_response client_id)"

text \<open>
  \<open>on_new_connection\<close>: \<open>status\<close> is libuv's, \<open>accepted\<close> whether \<open>uv_accept\<close> returned 0.
  The response is pushed before the connection is stored; \<open>at\<close> throws for the eleventh client.
\<close>

definition handle_new_connection :: "int \<Rightarrow> bool \<Rightarrow> order_server \<Rightarrow> order_server result" where
  "handle_new_connection status accepted s =
     (if status < 0 then Inr s
      else let conn = tcp_connection_init
      in if accepted then
           let s = send_connection_accepted_response (next_client_id s) s;
               id = unat (next_client_id s);
               s = s\<lparr>next_client_id := next_client_id s + 1\<rparr>
           in if id < MAX_NUM_CLIENTS then Inr (s\<lparr>client_connections := (client_connections s)(id := Some conn)\<rparr>)
              else Inl OutOfRange
         else Inr s)"

definition on_new_connection :: "int \<Rightarrow> bool \<Rightarrow> order_server \<Rightarrow> order_server result" where
  "on_new_connection status accepted s = handle_new_connection status accepted s"

section \<open>Reading requests\<close>

text \<open>
  The body of the loop in \<open>read_data\<close>, for a request received on connection \<open>c\<close>. Indexing
  the arrays of clients with the request's identifier is unchecked.
\<close>

definition receive_request :: "nat \<Rightarrow> nananoseconds_t \<Rightarrow> client_request_external \<Rightarrow> order_server \<Rightarrow>
    order_server result" where
  "receive_request c user_time x s =
     (let client_id = rq_client_id (rqx_request x)
      in if \<not> unat client_id < MAX_NUM_CLIENTS then Inl OutOfBounds
         else if unat client_id \<noteq> c then Inr (send_invalid_response client_id s)
         else let next_incoming_seq_num = client_next_incoming_seq_num s (unat client_id)
         in if rqx_sequence_number x \<noteq> ucast next_incoming_seq_num then Inr (send_invalid_response client_id s)
            else let s = s\<lparr>client_next_incoming_seq_num :=
                       (client_next_incoming_seq_num s)(unat client_id := next_incoming_seq_num + 1)\<rparr>
                 in rbind (add_request user_time (rqx_request x) (fifo s)) (\<lambda>f. Inr (s\<lparr>fifo := f\<rparr>)))"

text \<open>
  The loop, from offset \<open>i\<close>; its bound \<open>n\<close> is the connection's \<open>next_rcv_valid_index\<close>, which
  the body does not change. The buffer may only be read up to its size.
\<close>

function read_requests :: "bool \<Rightarrow> nat \<Rightarrow> nananoseconds_t \<Rightarrow> buffer \<Rightarrow> nat \<Rightarrow> nat \<Rightarrow> order_server \<Rightarrow>
    (nat \<times> order_server) result" where
  "read_requests be c user_time buf n i s =
     (if i + sizeof_client_request_external \<le> n then
        if TCP_BUFFER_SIZE < i + sizeof_client_request_external then Inl OutOfBounds
        else rbind (receive_request c user_time (deserialize_client_request be i buf) s) (\<lambda>s.
          read_requests be c user_time buf n (i + sizeof_client_request_external) s)
      else Inr (i, s))"
  by pat_completeness auto

termination
  by (relation "measure (\<lambda>(be, c, t, buf, n, i, s). n - i)") (auto simp: sizeof_defs)

declare read_requests.simps [simp del]

definition read_data :: "bool \<Rightarrow> nat \<Rightarrow> nananoseconds_t \<Rightarrow> order_server \<Rightarrow> order_server result" where
  "read_data be c user_time s =
     (case client_connections s c of
        None \<Rightarrow> Inl NullPointer
      | Some conn \<Rightarrow>
          if sizeof_client_request_external \<le> next_rcv_valid_index conn then
            rbind (read_requests be c user_time (inbound_data conn) (next_rcv_valid_index conn) 0 s) (\<lambda>(i, s).
              Inr (s\<lparr>client_connections := (client_connections s)(c := Some (shift_inbound_buffer i conn))\<rparr>))
          else Inr s)"

text \<open>
  The read callback of connection \<open>c\<close>; libuv has put the bytes where \<open>alloc_buffer\<close> said.
  \<open>now\<close> is the loop's clock (\<open>uv_now\<close>), in milliseconds.
\<close>

definition on_read :: "bool \<Rightarrow> nat \<Rightarrow> read_result \<Rightarrow> nananoseconds_t \<Rightarrow> order_server \<Rightarrow> order_server result" where
  "on_read be c r now s =
     (case client_connections s c of
        None \<Rightarrow> Inl NullPointer
      | Some conn \<Rightarrow>
          (case r of
             Received bs \<Rightarrow>
               if bs = [] then Inr s
               else let conn = uv_read bs conn;
                        conn = conn\<lparr>next_rcv_valid_index := next_rcv_valid_index conn + length bs\<rparr>;
                        user_time = now * NANOS_PER_MILLIS
                    in read_data be c user_time (s\<lparr>client_connections := (client_connections s)(c := Some conn)\<rparr>)
           | End_Of_Stream \<Rightarrow> Inr s
           | Read_Error \<Rightarrow> Inr s))"

definition on_check :: "(timed_client_request list \<Rightarrow> timed_client_request list) \<Rightarrow> order_server \<Rightarrow> order_server" where
  "on_check srt s =
     (if is_empty (fifo s) then s
      else let (f, q) = sequence_and_publish srt (fifo s) (incoming_requests s)
           in s\<lparr>fifo := f, incoming_requests := q\<rparr>)"

section \<open>Writing responses\<close>

function write_to_socket :: "tcp_connection \<Rightarrow> unit memory_pool \<Rightarrow> (tcp_connection \<times> unit memory_pool) result" where
  "write_to_socket conn pool =
     (case get_next_read_element (write_queue conn) of
        None \<Rightarrow> Inr (conn, pool)
      | Some data_index \<Rightarrow>
          let buf = read_bytes (get_response_buffer data_index) sizeof_client_response_external (outbound_data conn)
          in rbind (uv_pool_alloc pool) (\<lambda>(writer, pool).
               write_to_socket (conn\<lparr>written := written conn @ [buf], write_queue := next_read_index (write_queue conn)\<rparr>) pool))"
  by pat_completeness auto

termination
  by (relation "measure (\<lambda>(conn, pool). queue_size (write_queue conn))")
    (auto simp: queue_defs split: if_splits)

declare write_to_socket.simps [simp del]

text \<open>The callback of \<open>uv_write\<close>: only a successful write gives its request back to the pool.\<close>

definition on_write :: "int \<Rightarrow> nat \<Rightarrow> order_server \<Rightarrow> order_server result" where
  "on_write status writer s =
     (if status < 0 then Inr s
      else rbind (uv_pool_free writer (writer_pool s)) (\<lambda>pool. Inr (s\<lparr>writer_pool := pool\<rparr>)))"

text \<open>The asynchronous callback of connection \<open>c\<close>.\<close>

definition write_message :: "nat \<Rightarrow> order_server \<Rightarrow> order_server result" where
  "write_message c s =
     (case client_connections s c of
        None \<Rightarrow> Inl NullPointer
      | Some conn \<Rightarrow>
          rbind (write_to_socket (conn\<lparr>async_pending := False\<rparr>) (writer_pool s)) (\<lambda>(conn, pool).
            Inr (s\<lparr>client_connections := (client_connections s)(c := Some conn), writer_pool := pool\<rparr>)))"

section \<open>Distributing responses\<close>

text \<open>The body of the loop in \<open>process_responses_helper\<close>, for one response.\<close>

definition process_response :: "bool \<Rightarrow> client_response_internal \<Rightarrow> order_server \<Rightarrow> order_server result" where
  "process_response be r s =
     (let c = unat (rs_client_id r)
      in if \<not> c < MAX_NUM_CLIENTS then Inl OutOfBounds
         else rbind (DEBUG_ASSERT (client_connections s c \<noteq> None) ''Don't have a TCPSocket for ClientId'') (\<lambda>_.
           case client_connections s c of
             None \<Rightarrow> Inl NullPointer
           | Some conn \<Rightarrow>
               let next_outgoing_seq_num = client_next_outgoing_seq_num s c
               in rbind (append_to_outbound_buffer be r (ucast next_outgoing_seq_num) conn) (\<lambda>(i, conn).
                 Inr (s\<lparr>client_connections := (client_connections s)(c := Some (conn\<lparr>async_pending := True\<rparr>)),
                      client_next_outgoing_seq_num :=
                        (client_next_outgoing_seq_num s)(c := next_outgoing_seq_num + 1)\<rparr>))))"

function process_responses_helper :: "bool \<Rightarrow> client_response_internal lock_free_queue \<Rightarrow> order_server \<Rightarrow>
    (client_response_internal lock_free_queue \<times> order_server) result" where
  "process_responses_helper be q s =
     (case get_next_read_element q of
        None \<Rightarrow> Inr (q, s)
      | Some r \<Rightarrow> rbind (process_response be r s) (\<lambda>s. process_responses_helper be (next_read_index q) s))"
  by pat_completeness auto

termination
  by (relation "measure (\<lambda>(be, q, s). queue_size q)") (auto simp: queue_defs split: if_splits)

declare process_responses_helper.simps [simp del]

text \<open>One turn of the response thread, and \<open>n\<close> turns while the server is running.\<close>

definition process_responses_turn :: "bool \<Rightarrow> order_server \<Rightarrow> order_server result" where
  "process_responses_turn be s =
     rbind (process_responses_helper be (server_responses s) s) (\<lambda>(q, s).
     let s = s\<lparr>server_responses := q\<rparr>
     in rbind (process_responses_helper be (matching_engine_responses s) s) (\<lambda>(q, s).
          Inr (s\<lparr>matching_engine_responses := q\<rparr>)))"

fun process_responses :: "nat \<Rightarrow> bool \<Rightarrow> order_server \<Rightarrow> order_server result" where
  "process_responses 0 be s = Inr s"
| "process_responses (Suc n) be s =
     (if running s then rbind (process_responses_turn be s) (process_responses n be) else Inr s)"

section \<open>What a read accepts\<close>

text \<open>
  The requests on connection \<open>c\<close> that carry the client's own identifier and the next sequence
  number, starting from \<open>n\<close>, and the other ones.
\<close>

definition in_sequence :: "nat \<Rightarrow> u32 \<Rightarrow> client_request_external \<Rightarrow> bool" where
  "in_sequence c n x \<longleftrightarrow> unat (rq_client_id (rqx_request x)) = c \<and> rqx_sequence_number x = ucast n"

fun accepted :: "nat \<Rightarrow> u32 \<Rightarrow> client_request_external list \<Rightarrow> client_request_external list" where
  "accepted c n [] = []"
| "accepted c n (x # xs) = (if in_sequence c n x then x # accepted c (n + 1) xs else accepted c n xs)"

fun refused :: "nat \<Rightarrow> u32 \<Rightarrow> client_request_external list \<Rightarrow> client_request_external list" where
  "refused c n [] = []"
| "refused c n (x # xs) = (if in_sequence c n x then refused c (n + 1) xs else x # refused c n xs)"

lemma accepted_numbers:
  "map rqx_sequence_number (accepted c n xs) = map (\<lambda>i. ucast (n + word_of_nat i)) [0..<length (accepted c n xs)]"
proof (induction xs arbitrary: n)
  case (Cons x xs)
  show ?case
  proof (cases "in_sequence c n x")
    case True
    have "map (\<lambda>i. ucast (n + word_of_nat i) :: u64) [0..<Suc k] =
        ucast n # map (\<lambda>i. ucast (n + 1 + word_of_nat i)) [0..<k]" for k
      by (simp add: upt_conv_Cons comp_def add.assoc flip: map_Suc_upt del: upt_Suc)
    then show ?thesis using True Cons.IH [of "n + 1"] by (simp add: in_sequence_def del: upt_Suc)
  qed (simp add: Cons.IH)
qed simp

lemma accepted_length: "length (accepted c n xs) \<le> length xs"
  by (induction xs arbitrary: n) (auto intro: le_SucI)

lemma accepted_numbered:
  "(\<And>i. i < length xs \<Longrightarrow> in_sequence c (n + word_of_nat i) (xs ! i)) \<Longrightarrow> accepted c n xs = xs"
proof (induction xs arbitrary: n)
  case (Cons x xs)
  have "in_sequence c n x" using Cons.prems [of 0] by simp
  moreover have "accepted c (n + 1) xs = xs"
    by (rule Cons.IH) (use Cons.prems [of "Suc _"] in \<open>auto simp: add.assoc\<close>)
  ultimately show ?case by simp
qed simp

lemma receive_request_cases:
  assumes "unat (rq_client_id (rqx_request x)) < MAX_NUM_CLIENTS" and "pending_size (fifo s) < MAX_PENDING_REQUESTS"
  shows "\<exists>s'. receive_request c t x s = Inr s' \<and>
    (if in_sequence c (client_next_incoming_seq_num s c) x
     then \<exists>f. s' = s\<lparr>client_next_incoming_seq_num :=
         (client_next_incoming_seq_num s)(c := client_next_incoming_seq_num s c + 1), fifo := f\<rparr> \<and>
       pending f = pending (fifo s) @ [\<lparr>recv_time = t, request = rqx_request x\<rparr>] \<and>
       pending_size f = Suc (pending_size (fifo s))
     else s' = s\<lparr>server_responses := enqueue (invalid_response (rq_client_id (rqx_request x))) (server_responses s)\<rparr>)"
proof -
  obtain g where "add_request t (rqx_request x) (fifo s) = Inr g"
    "pending g = pending (fifo s) @ [\<lparr>recv_time = t, request = rqx_request x\<rparr>]"
    "pending_size g = Suc (pending_size (fifo s))"
    using add_request_ok [OF assms(2)] by blast
  then show ?thesis using assms(1)
    by (auto simp: receive_request_def Let_def in_sequence_def send_invalid_response_def push_server_response_def
        enqueue_def intro!: exI [of _ g])
qed

definition received :: "nat \<Rightarrow> nananoseconds_t \<Rightarrow> client_request_external list \<Rightarrow> order_server \<Rightarrow> order_server \<Rightarrow> bool" where
  "received c t xs s s' \<longleftrightarrow>
     (let n = client_next_incoming_seq_num s c
      in pending (fifo s') = pending (fifo s) @
           map (\<lambda>x. \<lparr>recv_time = t, request = rqx_request x\<rparr>) (accepted c n xs) \<and>
         pending_size (fifo s') = pending_size (fifo s) + length (accepted c n xs) \<and>
         s' = s\<lparr>client_next_incoming_seq_num :=
               (client_next_incoming_seq_num s)(c := n + word_of_nat (length (accepted c n xs))),
             server_responses := fold enqueue
               (map (\<lambda>x. invalid_response (rq_client_id (rqx_request x))) (refused c n xs)) (server_responses s),
             fifo := fifo s'\<rparr>)"

lemma receive_requests:
  "list_all (\<lambda>x. unat (rq_client_id (rqx_request x)) < MAX_NUM_CLIENTS) xs \<Longrightarrow>
    pending_size (fifo s) + length xs \<le> MAX_PENDING_REQUESTS \<Longrightarrow>
    \<exists>s'. rfold (receive_request c t) xs s = Inr s' \<and> received c t xs s s'"
proof (induction xs arbitrary: s)
  case (Cons x xs)
  let ?n = "client_next_incoming_seq_num s c"
  obtain s1 where s1: "receive_request c t x s = Inr s1"
    and cs: "if in_sequence c ?n x
     then \<exists>f. s1 = s\<lparr>client_next_incoming_seq_num := (client_next_incoming_seq_num s)(c := ?n + 1), fifo := f\<rparr> \<and>
       pending f = pending (fifo s) @ [\<lparr>recv_time = t, request = rqx_request x\<rparr>] \<and>
       pending_size f = Suc (pending_size (fifo s))
     else s1 = s\<lparr>server_responses := enqueue (invalid_response (rq_client_id (rqx_request x))) (server_responses s)\<rparr>"
    using receive_request_cases [of x s c t] Cons.prems by auto
  have "pending_size (fifo s1) \<le> Suc (pending_size (fifo s))" using cs by (auto split: if_splits)
  with Cons.IH [of s1] Cons.prems obtain s2 where s2: "rfold (receive_request c t) xs s1 = Inr s2" "received c t xs s1 s2"
    by auto
  have "received c t (x # xs) s s2"
  proof (cases "in_sequence c ?n x")
    case True
    then obtain f where f: "s1 = s\<lparr>client_next_incoming_seq_num := (client_next_incoming_seq_num s)(c := ?n + 1), fifo := f\<rparr>"
      "pending f = pending (fifo s) @ [\<lparr>recv_time = t, request = rqx_request x\<rparr>]"
      "pending_size f = Suc (pending_size (fifo s))" using cs by auto
    show ?thesis using s2(2) True unfolding received_def Let_def f(1)
      by (simp add: f(2,3) add.assoc)
  next
    case False
    then have "s1 = s\<lparr>server_responses := enqueue (invalid_response (rq_client_id (rqx_request x))) (server_responses s)\<rparr>"
      using cs by simp
    then show ?thesis using s2(2) False unfolding received_def Let_def by simp
  qed
  then show ?case using s1 s2(1) by simp
qed (simp add: received_def)

lemma read_requests_rfold:
  "n \<le> TCP_BUFFER_SIZE \<Longrightarrow> i \<le> n \<Longrightarrow>
    read_requests be c t buf n i s =
      rbind (rfold (receive_request c t)
          (messages sizeof_client_request_external (deserialize_client_request be) i (n - i) buf) s)
        (\<lambda>s. Inr (i + (n - i) div sizeof_client_request_external * sizeof_client_request_external, s))"
proof (induction be c t buf n i s rule: read_requests.induct)
  case (1 be c t buf n i s)
  show ?case
  proof (cases "i + sizeof_client_request_external \<le> n")
    case True
    let ?i = "i + sizeof_client_request_external"
    have d: "(n - i) div sizeof_client_request_external = Suc ((n - ?i) div sizeof_client_request_external)"
      using True div_if [of "n - i" sizeof_client_request_external] by (simp add: sizeof_defs diff_diff_eq)
    have ok: "\<not> TCP_BUFFER_SIZE < ?i" using True "1.prems"(1) by simp
    have "rfold (receive_request c t) (messages sizeof_client_request_external (deserialize_client_request be) i (n - i) buf) s =
        rbind (receive_request c t (deserialize_client_request be i buf) s)
          (rfold (receive_request c t) (messages sizeof_client_request_external (deserialize_client_request be) ?i (n - ?i) buf))"
      using requests.messages_Cons [OF True] by simp
    moreover have "read_requests be c t buf n ?i s' =
      rbind (rfold (receive_request c t)
          (messages sizeof_client_request_external (deserialize_client_request be) ?i (n - ?i) buf) s')
        (\<lambda>s. Inr (?i + (n - ?i) div sizeof_client_request_external * sizeof_client_request_external, s))"
      if "receive_request c t (deserialize_client_request be i buf) s = Inr s'" for s'
      using "1.IH" [OF True ok that "1.prems"(1) True] .
    ultimately show ?thesis using ok True unfolding read_requests.simps [of be c t buf n i s] d
      by (simp add: rbind_assoc add.assoc cong: rbind_cong)
  next
    case False
    then have "(n - i) div sizeof_client_request_external = 0" by (simp add: sizeof_defs)
    then show ?thesis using False requests.messages_end [OF False] by (simp add: read_requests.simps)
  qed
qed

end
