(* ===== verification/OrderServerResponses.thy ===== *)
theory OrderServerResponses
  imports OrderServer
begin

text \<open>
  How responses reach the clients. The queue of buffer indices of a connection has room for two
  entries only (\<open>lock_free_queue_init_size_t\<close>), so the lemmas assume that at most two responses
  of a client wait for the event loop; within that bound, and until the outbound buffer is used
  up, every response is written once, in order, with consecutive sequence numbers.
\<close>

section \<open>One connection\<close>

text \<open>The encoded responses that wait for the event loop.\<close>

definition waiting :: "tcp_connection \<Rightarrow> u8 list list" where
  "waiting conn = map (\<lambda>i. read_bytes (get_response_buffer i) sizeof_client_response_external (outbound_data conn))
     (queue_items (write_queue conn))"

definition conn_ok :: "tcp_connection \<Rightarrow> bool" where
  "conn_ok conn \<longleftrightarrow> queue_inv (write_queue conn) \<and> q_size (write_queue conn) = 2 \<and>
     (\<forall>i \<in> set (queue_items (write_queue conn)). i < next_response_index conn) \<and>
     next_response_index conn \<le> MAX_BUFFERED_RESPONSE"

lemma conn_ok_init [simp]: "conn_ok tcp_connection_init" "waiting tcp_connection_init = []"
  by (simp_all add: conn_ok_def waiting_def tcp_connection_init_def lock_free_queue_init_size_t_def
      queue_inv_def queue_items_def)

lemma conn_ok_async [simp]:
  "conn_ok (conn\<lparr>async_pending := b\<rparr>) = conn_ok conn" "waiting (conn\<lparr>async_pending := b\<rparr>) = waiting conn"
  by (simp_all add: conn_ok_def waiting_def)

lemma conn_ok_inbound [simp]:
  "conn_ok (conn\<lparr>inbound_data := d, next_rcv_valid_index := n\<rparr>) = conn_ok conn"
  "waiting (conn\<lparr>inbound_data := d, next_rcv_valid_index := n\<rparr>) = waiting conn"
  by (simp_all add: conn_ok_def waiting_def)

lemma length_waiting [simp]: "length (waiting conn) = q_num_elements (write_queue conn)"
  by (simp add: waiting_def)

abbreviation response_image :: "u32 \<Rightarrow> client_response_internal \<Rightarrow> u8 list" where
  "response_image n r \<equiv> response_bytes \<lparr>rsx_sequence_number = ucast n, rsx_response = r\<rparr>"

lemma append_to_outbound_buffer_eq:
  assumes "next_response_index conn < MAX_BUFFERED_RESPONSE"
  shows "append_to_outbound_buffer be r (ucast n) conn = Inr (next_response_index conn,
    conn\<lparr>write_queue := enqueue (next_response_index conn) (write_queue conn),
      outbound_data := write_bytes (get_response_buffer (next_response_index conn)) (response_image n r) (outbound_data conn),
      next_response_index := Suc (next_response_index conn)\<rparr>)"
  using assms by (simp add: append_to_outbound_buffer_def Let_def get_response_buffer_def enqueue_def
      serialize_client_response_eq sizeof_defs not_less)

lemma append_to_outbound_buffer_ok:
  assumes "conn_ok conn" and "length (waiting conn) < 2" and "next_response_index conn < MAX_BUFFERED_RESPONSE"
  shows "\<exists>conn'. append_to_outbound_buffer be r (ucast n) conn = Inr (next_response_index conn, conn') \<and>
    conn_ok conn' \<and> waiting conn' = waiting conn @ [response_image n r] \<and> written conn' = written conn \<and>
    next_response_index conn' = Suc (next_response_index conn)"
proof -
  let ?i = "next_response_index conn"
  let ?off = "?i * sizeof_client_response_external"
  let ?b = "write_bytes ?off (response_image n r) (outbound_data conn)"
  let ?c = "conn\<lparr>write_queue := enqueue ?i (write_queue conn), outbound_data := ?b, next_response_index := Suc ?i\<rparr>"
  have q: "queue_items (enqueue ?i (write_queue conn)) = queue_items (write_queue conn) @ [?i]"
    "queue_inv (enqueue ?i (write_queue conn))"
    using assms(1,2) by (simp_all add: conn_ok_def queue_items_enqueue queue_inv_enqueue)
  have run: "append_to_outbound_buffer be r (ucast n) conn = Inr (?i, ?c)"
    using append_to_outbound_buffer_eq [OF assms(3)] by (simp add: get_response_buffer_def)
  have other: "read_bytes (j * sizeof_client_response_external) sizeof_client_response_external ?b =
      read_bytes (j * sizeof_client_response_external) sizeof_client_response_external (outbound_data conn)"
    if "j \<in> set (queue_items (write_queue conn))" for j
  proof -
    have "Suc j * sizeof_client_response_external \<le> ?off"
      using assms(1) that by (intro mult_le_mono1) (auto simp: conn_ok_def)
    then show ?thesis by (intro read_write_other) simp
  qed
  have "waiting ?c = waiting conn @ [response_image n r]"
    using other by (simp add: waiting_def q get_response_buffer_def)
  moreover have "conn_ok ?c" using assms(1,3) by (auto simp: conn_ok_def q)
  ultimately show ?thesis using run by auto
qed

lemma append_to_outbound_buffer_overflow:
  "next_response_index conn = MAX_BUFFERED_RESPONSE \<Longrightarrow> append_to_outbound_buffer be r n conn = Inl OutOfBounds"
  by (simp add: append_to_outbound_buffer_def Let_def get_response_buffer_def sizeof_defs)

text \<open>One iteration of the write loop.\<close>

lemma write_to_socket_step:
  assumes "get_next_read_element (write_queue conn) = Some i"
    and "pool_inv pool" and "card (pool_live pool) < memory_blocks_size pool"
  obtains pool' where "write_to_socket conn pool = write_to_socket (conn\<lparr>written := written conn @
      [read_bytes (get_response_buffer i) sizeof_client_response_external (outbound_data conn)],
      write_queue := next_read_index (write_queue conn)\<rparr>) pool'"
    and "pool_inv pool'" and "memory_blocks_size pool' = memory_blocks_size pool"
    and "card (pool_live pool') = Suc (card (pool_live pool))"
proof -
  from pool_alloc_ok [OF assms(2,3), of "pool_get pool (free_block_index pool)"] obtain p where
    p: "uv_pool_alloc pool = Inr (free_block_index pool, p)" "free_block_index pool \<notin> pool_live pool"
      "pool_live p = insert (free_block_index pool) (pool_live pool)" "pool_inv p"
      "memory_blocks_size p = memory_blocks_size pool"
    unfolding uv_pool_alloc_eq by blast
  moreover have "card (pool_live p) = Suc (card (pool_live pool))"
    using p(2,3) pool.finite_live [OF assms(2)] by simp
  ultimately show thesis using assms(1) by (intro that [of p]) (simp_all add: write_to_socket.simps [of conn pool] Let_def)
qed

text \<open>The loop writes the responses whose indices it reads, in the order it reads them.\<close>

fun reads :: "nat list \<Rightarrow> nat lock_free_queue \<Rightarrow> bool" where
  "reads [] q \<longleftrightarrow> get_next_read_element q = None"
| "reads (i # js) q \<longleftrightarrow> get_next_read_element q = Some i \<and> reads js (next_read_index q)"

lemma reads_queue_items: "queue_inv q \<Longrightarrow> queue_items q = js \<Longrightarrow> reads js q"
proof (induction js arbitrary: q)
  case (Cons i js)
  then show ?case
    using Cons.IH [of "next_read_index q"] by (simp add: get_next_read_element_items queue_inv_next_read_index queue_items_next_read_index)
qed (simp add: get_next_read_element_items)

lemma write_to_socket_reads:
  "reads js (write_queue conn) \<Longrightarrow> pool_inv pool \<Longrightarrow> card (pool_live pool) + length js \<le> memory_blocks_size pool \<Longrightarrow>
    \<exists>pool'. write_to_socket conn pool = Inr (conn\<lparr>written := written conn @
        map (\<lambda>i. read_bytes (get_response_buffer i) sizeof_client_response_external (outbound_data conn)) js,
        write_queue := (next_read_index ^^ length js) (write_queue conn)\<rparr>, pool') \<and>
      pool_inv pool' \<and> memory_blocks_size pool' = memory_blocks_size pool \<and>
      card (pool_live pool') = card (pool_live pool) + length js"
proof (induction js arbitrary: conn pool)
  case (Cons i js)
  let ?buf = "read_bytes (get_response_buffer i) sizeof_client_response_external (outbound_data conn)"
  let ?c = "conn\<lparr>written := written conn @ [?buf], write_queue := next_read_index (write_queue conn)\<rparr>"
  obtain p where p: "write_to_socket conn pool = write_to_socket ?c p" "pool_inv p"
    "memory_blocks_size p = memory_blocks_size pool" "card (pool_live p) = Suc (card (pool_live pool))"
    using write_to_socket_step [of conn i pool] Cons.prems by auto
  have "reads js (write_queue ?c)" "card (pool_live p) + length js \<le> memory_blocks_size p"
    using Cons.prems p(3,4) by simp_all
  from Cons.IH [OF this(1) p(2) this(2)] show ?case unfolding p(1,3,4) by (simp add: funpow_swap1)
qed (simp add: write_to_socket.simps)

lemma write_to_socket_ok:
  assumes "conn_ok conn" and "pool_inv pool" and "card (pool_live pool) + length (waiting conn) \<le> memory_blocks_size pool"
  shows "\<exists>conn' pool'. write_to_socket conn pool = Inr (conn', pool') \<and> conn_ok conn' \<and> waiting conn' = [] \<and>
      written conn' = written conn @ waiting conn \<and> next_response_index conn' = next_response_index conn \<and>
      pool_inv pool' \<and> memory_blocks_size pool' = memory_blocks_size pool \<and>
      card (pool_live pool') = card (pool_live pool) + length (waiting conn)"
proof -
  let ?q = "write_queue conn"
  let ?c = "conn\<lparr>written := written conn @ waiting conn, write_queue := (next_read_index ^^ q_num_elements ?q) ?q\<rparr>"
  have inv: "queue_inv ?q" using assms(1) by (simp add: conn_ok_def)
  have len: "card (pool_live pool) + length (queue_items ?q) \<le> memory_blocks_size pool" using assms(3) by simp
  have rest: "queue_items (write_queue ?c) = []" "queue_inv (write_queue ?c)"
    using lfq.funpow_pop [OF inv, of "q_num_elements ?q"] by simp_all
  have "q_size ((next_read_index ^^ n) ?q) = q_size ?q" for n by (induction n) simp_all
  then have "conn_ok ?c" "waiting ?c = []" using assms(1) rest by (simp_all add: conn_ok_def waiting_def)
  then show ?thesis using write_to_socket_reads [OF reads_queue_items [OF inv refl] assms(2) len] by (auto simp: waiting_def)
qed

section \<open>All connections\<close>

text \<open>The responses for client \<open>c\<close>, and their images under consecutive sequence numbers.\<close>

definition for_client :: "nat \<Rightarrow> client_response_internal list \<Rightarrow> client_response_internal list" where
  "for_client c rs = filter (\<lambda>r. unat (rs_client_id r) = c) rs"

fun response_images :: "u32 \<Rightarrow> client_response_internal list \<Rightarrow> u8 list list" where
  "response_images n [] = []"
| "response_images n (r # rs) = response_image n r # response_images (n + 1) rs"

lemma response_images_snoc:
  "response_images n (rs @ [r]) = response_images n rs @ [response_image (n + word_of_nat (length rs)) r]"
  by (induction rs arbitrary: n) (simp_all add: add.assoc)

lemma length_response_images [simp]: "length (response_images n rs) = length rs"
  by (induction rs arbitrary: n) simp_all

lemma for_client_simps [simp]:
  "for_client c [] = []"
  "for_client c (rs @ ss) = for_client c rs @ for_client c ss"
  "for_client c (r # rs) = (if unat (rs_client_id r) = c then r # for_client c rs else for_client c rs)"
  by (simp_all add: for_client_def)

definition deliverable :: "client_response_internal list \<Rightarrow> order_server \<Rightarrow> bool" where
  "deliverable rs s \<longleftrightarrow>
     (\<forall>r \<in> set rs. unat (rs_client_id r) < MAX_NUM_CLIENTS \<and> client_connections s (unat (rs_client_id r)) \<noteq> None) \<and>
     (\<forall>c conn. client_connections s c = Some conn \<longrightarrow> conn_ok conn \<and>
        length (waiting conn) + length (for_client c rs) \<le> 2 \<and>
        next_response_index conn + length (for_client c rs) \<le> MAX_BUFFERED_RESPONSE)"

text \<open>
  \<open>delivered rs s s'\<close>: the responses \<open>rs\<close> have been added to the connections of their clients;
  nothing but connections and sequence numbers differs.
\<close>

definition conn_delivered :: "u32 \<Rightarrow> client_response_internal list \<Rightarrow> tcp_connection \<Rightarrow> tcp_connection \<Rightarrow> bool" where
  "conn_delivered n rs conn conn' \<longleftrightarrow> conn_ok conn' \<and> waiting conn' = waiting conn @ response_images n rs \<and>
     written conn' = written conn \<and> next_response_index conn' = next_response_index conn + length rs"

definition delivered :: "client_response_internal list \<Rightarrow> order_server \<Rightarrow> order_server \<Rightarrow> bool" where
  "delivered rs s s' \<longleftrightarrow>
     (\<forall>c. case client_connections s c of
        None \<Rightarrow> client_connections s' c = None
      | Some conn \<Rightarrow> \<exists>conn'. client_connections s' c = Some conn' \<and>
          conn_delivered (client_next_outgoing_seq_num s c) (for_client c rs) conn conn') \<and>
     (\<forall>c. client_next_outgoing_seq_num s' c = client_next_outgoing_seq_num s c + word_of_nat (length (for_client c rs))) \<and>
     s' = s\<lparr>client_connections := client_connections s', client_next_outgoing_seq_num := client_next_outgoing_seq_num s'\<rparr>"

lemma delivered_Nil:
  assumes "deliverable rs s"
  shows "delivered [] s s"
  using assms by (auto simp: delivered_def deliverable_def conn_delivered_def split: option.splits)

lemma conn_delivered_snoc:
  assumes "conn_delivered n rs conn conn1" and "conn_ok conn'"
    and "waiting conn' = waiting conn1 @ [response_image (n + word_of_nat (length rs)) r]"
    and "written conn' = written conn1" and "next_response_index conn' = Suc (next_response_index conn1)"
  shows "conn_delivered n (rs @ [r]) conn conn'"
  using assms by (simp add: conn_delivered_def response_images_snoc)

lemma connections_frame:
  "t = s\<lparr>client_connections := client_connections t, client_next_outgoing_seq_num := client_next_outgoing_seq_num t\<rparr> \<Longrightarrow>
    t\<lparr>client_connections := cs, client_next_outgoing_seq_num := ns\<rparr> =
      s\<lparr>client_connections := client_connections (t\<lparr>client_connections := cs, client_next_outgoing_seq_num := ns\<rparr>),
        client_next_outgoing_seq_num :=
          client_next_outgoing_seq_num (t\<lparr>client_connections := cs, client_next_outgoing_seq_num := ns\<rparr>)\<rparr>"
  by (cases s, cases t) simp

lemma process_response_delivers:
  assumes "deliverable rs s" and "delivered pre s t" and "\<exists>post. rs = pre @ r # post"
  shows "\<exists>t'. process_response be r t = Inr t' \<and> delivered (pre @ [r]) s t'"
proof -
  let ?c = "unat (rs_client_id r)"
  obtain conn where c: "?c < MAX_NUM_CLIENTS" "client_connections s ?c = Some conn"
    using assms(1,3) by (auto simp: deliverable_def)
  have fits: "length (waiting conn) + length (for_client ?c rs) \<le> 2"
    "next_response_index conn + length (for_client ?c rs) \<le> MAX_BUFFERED_RESPONSE"
    using assms(1) c(2) by (auto simp: deliverable_def)
  have len: "Suc (length (for_client ?c pre)) \<le> length (for_client ?c rs)" using assms(3) by auto
  obtain conn1 where c1: "client_connections t ?c = Some conn1"
    "conn_delivered (client_next_outgoing_seq_num s ?c) (for_client ?c pre) conn conn1"
    using assms(2) c(2) unfolding delivered_def by (auto dest!: spec [of _ ?c])
  have n: "client_next_outgoing_seq_num t ?c = client_next_outgoing_seq_num s ?c + word_of_nat (length (for_client ?c pre))"
    using assms(2) by (simp add: delivered_def)
  have d1: "conn_ok conn1" "length (waiting conn1) < 2" "next_response_index conn1 < MAX_BUFFERED_RESPONSE"
    using c1(2) fits len unfolding conn_delivered_def by (auto simp del: length_waiting)
  obtain conn2 where a: "append_to_outbound_buffer be r (ucast (client_next_outgoing_seq_num t ?c)) conn1 =
      Inr (next_response_index conn1, conn2)" "conn_ok conn2"
    "waiting conn2 = waiting conn1 @ [response_image (client_next_outgoing_seq_num t ?c) r]"
    "written conn2 = written conn1" "next_response_index conn2 = Suc (next_response_index conn1)"
    using append_to_outbound_buffer_ok [OF d1] by blast
  let ?t = "t\<lparr>client_connections := (client_connections t)(?c := Some (conn2\<lparr>async_pending := True\<rparr>)),
    client_next_outgoing_seq_num := (client_next_outgoing_seq_num t)(?c := client_next_outgoing_seq_num t ?c + 1)\<rparr>"
  have run: "process_response be r t = Inr ?t" using c(1) c1(1) a(1) by (simp add: process_response_def Let_def)
  have "conn_delivered (client_next_outgoing_seq_num s ?c) (for_client ?c pre @ [r]) conn (conn2\<lparr>async_pending := True\<rparr>)"
    by (rule conn_delivered_snoc [OF c1(2)]) (use a(2-5) n in simp_all)
  then have "case client_connections s c of None \<Rightarrow> client_connections ?t c = None
      | Some conn \<Rightarrow> \<exists>conn'. client_connections ?t c = Some conn' \<and>
          conn_delivered (client_next_outgoing_seq_num s c) (for_client c (pre @ [r])) conn conn'" for c
    using assms(2) c(2) unfolding delivered_def by (cases "c = ?c") (auto dest!: spec [of _ c] split: option.splits)
  moreover have "client_next_outgoing_seq_num ?t c =
      client_next_outgoing_seq_num s c + word_of_nat (length (for_client c (pre @ [r])))" for c
    using assms(2) n by (simp add: delivered_def add.assoc)
  moreover have "?t = s\<lparr>client_connections := client_connections ?t,
      client_next_outgoing_seq_num := client_next_outgoing_seq_num ?t\<rparr>"
    by (rule connections_frame) (use assms(2) in \<open>simp add: delivered_def\<close>)
  ultimately have "delivered (pre @ [r]) s ?t" unfolding delivered_def by blast
  then show ?thesis using run by blast
qed

lemma process_responses_helper_rfold:
  "process_responses_helper be q s =
    rbind (rfold (process_response be) (queue_items q) s) (\<lambda>s. Inr ((next_read_index ^^ q_num_elements q) q, s))"
  if "queue_inv q"
  using that
proof (induction be q s rule: process_responses_helper.induct)
  case (1 be q s)
  note peek = get_next_read_element_items [OF "1.prems"]
  show ?case
  proof (cases "queue_items q")
    case Nil
    then have "q_num_elements q = 0" by (metis length_queue_items list.size(3))
    then show ?thesis using peek Nil by (simp add: process_responses_helper.simps)
  next
    case (Cons r rs)
    then have n: "q_num_elements q = Suc (q_num_elements (next_read_index q))"
      using queue_items_next_read_index [OF "1.prems"] by (metis length_queue_items length_Cons list.sel(3))
    have rest: "queue_items (next_read_index q) = rs" using Cons queue_items_next_read_index [OF "1.prems"] by simp
    have "process_responses_helper be (next_read_index q) s' = rbind (rfold (process_response be) rs s')
        (\<lambda>s. Inr ((next_read_index ^^ q_num_elements (next_read_index q)) (next_read_index q), s))"
      if "process_response be r s = Inr s'" for s'
      using "1.IH" [OF _ that queue_inv_next_read_index [OF "1.prems"]] peek Cons rest by simp
    then show ?thesis using peek Cons unfolding process_responses_helper.simps [of be q s] n
      by (simp add: rbind_assoc funpow_swap1 cong: rbind_cong)
  qed
qed

text \<open>The whole queue is distributed and emptied.\<close>

lemma process_responses_helper_ok:
  assumes "queue_inv q" and "deliverable (queue_items q) s"
  shows "\<exists>q' s'. process_responses_helper be q s = Inr (q', s') \<and> queue_items q' = [] \<and>
    delivered (queue_items q) s s'"
proof -
  let ?P = "\<lambda>pre t. (\<exists>post. queue_items q = pre @ post) \<and> delivered pre s t"
  have "\<exists>s'. rfold (process_response be) rest t = Inr s' \<and> delivered (queue_items q) s s'"
    if "queue_items q = pre @ rest" "delivered pre s t" for pre rest t
    using that
  proof (induction rest arbitrary: pre t)
    case (Cons r rest)
    obtain t' where "process_response be r t = Inr t'" "delivered (pre @ [r]) s t'"
      using process_response_delivers [OF assms(2) Cons.prems(2)] Cons.prems(1) by blast
    then show ?case using Cons.IH [of "pre @ [r]" t'] Cons.prems(1) by simp
  qed simp
  from this [of "[]" "queue_items q" s] delivered_Nil [OF assms(2)] obtain s' where
    "rfold (process_response be) (queue_items q) s = Inr s'" "delivered (queue_items q) s s'" by auto
  moreover have "queue_items ((next_read_index ^^ q_num_elements q) q) = []"
    using lfq.funpow_pop [OF assms(1), of "q_num_elements q"] by simp
  ultimately show ?thesis using process_responses_helper_rfold [OF assms(1)] by simp
qed

text \<open>
  A client served one response at a time: each is appended, then the event loop writes it, and
  libuv reports success, which returns the write request to the pool.
\<close>

fun serve :: "bool \<Rightarrow> client_response_internal list \<Rightarrow> u32 \<Rightarrow> tcp_connection \<Rightarrow> tcp_connection result" where
  "serve be [] n conn = Inr conn"
| "serve be (r # rs) n conn =
     rbind (append_to_outbound_buffer be r (ucast n) conn) (\<lambda>(i, conn).
     rbind (write_to_socket conn (fresh_pool MAX_BUFFERED_RESPONSE ())) (\<lambda>(conn, pool).
       serve be rs (n + 1) conn))"

lemma serve_ok:
  "conn_ok conn \<Longrightarrow> waiting conn = [] \<Longrightarrow> next_response_index conn + length rs \<le> MAX_BUFFERED_RESPONSE \<Longrightarrow>
    \<exists>conn'. serve be rs n conn = Inr conn' \<and> conn_ok conn' \<and> waiting conn' = [] \<and>
      written conn' = written conn @ response_images n rs \<and>
      next_response_index conn' = next_response_index conn + length rs"
proof (induction rs arbitrary: n conn)
  case (Cons r rs)
  let ?pool = "fresh_pool MAX_BUFFERED_RESPONSE ()"
  have "length (waiting conn) < 2" "next_response_index conn < MAX_BUFFERED_RESPONSE"
    using Cons.prems(2,3) by (auto simp del: length_waiting)
  from append_to_outbound_buffer_ok [OF Cons.prems(1) this] obtain conn1 where
    a: "append_to_outbound_buffer be r (ucast n) conn = Inr (next_response_index conn, conn1)" "conn_ok conn1"
      "waiting conn1 = [response_image n r]" "written conn1 = written conn"
      "next_response_index conn1 = Suc (next_response_index conn)"
    unfolding Cons.prems(2) by force
  have p: "pool_inv ?pool" "card (pool_live ?pool) + length (waiting conn1) \<le> memory_blocks_size ?pool"
    unfolding a(3) by (simp_all add: fresh_pool_inv model_constants)
  obtain conn2 pool where w: "write_to_socket conn1 ?pool = Inr (conn2, pool)" "conn_ok conn2" "waiting conn2 = []"
    "written conn2 = written conn @ [response_image n r]" "next_response_index conn2 = Suc (next_response_index conn)"
    using write_to_socket_ok [OF a(2) p] unfolding a(3,4,5) by blast
  show ?case using Cons.IH [OF w(2,3), of "n + 1"] Cons.prems(3) a(1) w(1,4,5) by simp
qed simp

end
