(* ===== verification/OrderServerProperties.thy ===== *)
theory OrderServerProperties
  imports OrderServerResponses
begin

text \<open>
  What the order server guarantees of requests, their order and the responses, and where its
  buffers break.
\<close>

section \<open>Requests\<close>

lemma received_connections:
  "received c t xs s s' \<Longrightarrow> client_connections s' = client_connections s"
  "received c t xs s s' \<Longrightarrow> received c t xs (s\<lparr>client_connections := cc\<rparr>) (s'\<lparr>client_connections := cc\<rparr>)"
  by (cases s; cases s'; simp add: received_def Let_def)+

lemma received_fields:
  "s' = s\<lparr>client_next_incoming_seq_num := n, server_responses := q, fifo := fifo s'\<rparr> \<Longrightarrow>
    client_next_incoming_seq_num s' = n"
  "s' = s\<lparr>client_next_incoming_seq_num := n, server_responses := q, fifo := fifo s'\<rparr> \<Longrightarrow> server_responses s' = q"
  by (cases s; cases s'; simp)+

lemma received_facts:
  assumes "received c t xs s s'"
  shows "pending (fifo s') = pending (fifo s) @
      map (\<lambda>x. \<lparr>recv_time = t, request = rqx_request x\<rparr>) (accepted c (client_next_incoming_seq_num s c) xs)"
    and "client_next_incoming_seq_num s' = (client_next_incoming_seq_num s)(c :=
      client_next_incoming_seq_num s c + word_of_nat (length (accepted c (client_next_incoming_seq_num s c) xs)))"
    and "server_responses s' = fold enqueue (map (\<lambda>x. invalid_response (rq_client_id (rqx_request x)))
      (refused c (client_next_incoming_seq_num s c) xs)) (server_responses s)"
  using assms unfolding received_def Let_def by (blast dest: received_fields)+

lemma on_read_messages:
  assumes "client_connections s c = Some conn" and "next_rcv_valid_index conn = 0" and "xs \<noteq> []"
    and "list_all wire_request xs" and "length xs * sizeof_client_request_external \<le> TCP_BUFFER_SIZE"
    and "list_all (\<lambda>x. unat (rq_client_id (rqx_request x)) < MAX_NUM_CLIENTS) xs"
    and "pending_size (fifo s) + length xs \<le> MAX_PENDING_REQUESTS"
  shows "\<exists>b s'. on_read be c (Received (concat (map request_bytes xs))) t s = Inr s' \<and>
    received c (t * NANOS_PER_MILLIS) xs
      (s\<lparr>client_connections := (client_connections s)(c := Some (conn\<lparr>inbound_data := b, next_rcv_valid_index := 0\<rparr>))\<rparr>) s'"
proof -
  let ?t = "t * NANOS_PER_MILLIS"
  let ?bs = "concat (map request_bytes xs)"
  let ?n = "length xs * sizeof_client_request_external"
  let ?c1 = "conn\<lparr>inbound_data := write_bytes 0 ?bs (inbound_data conn), next_rcv_valid_index := ?n\<rparr>"
  let ?s1 = "s\<lparr>client_connections := (client_connections s)(c := Some ?c1)\<rparr>"
  have ne: "?bs \<noteq> []" "sizeof_client_request_external \<le> ?n"
    using assms(3) by (cases xs; simp add: request_bytes_def)+
  have msgs: "messages sizeof_client_request_external (deserialize_client_request be) 0 ?n (inbound_data ?c1) = xs"
    using requests.messages_written [OF assms(4)] by simp
  obtain s2 where s2: "rfold (receive_request c ?t) xs ?s1 = Inr s2" "received c ?t xs ?s1 s2"
    using receive_requests [OF assms(6), of ?s1 c ?t] assms(7) by auto
  have rd: "read_requests be c ?t (inbound_data ?c1) ?n 0 ?s1 = Inr (?n, s2)"
    using read_requests_rfold [of ?n 0 be c ?t "inbound_data ?c1" ?s1] assms(5) s2(1) msgs by (simp add: sizeof_defs)
  let ?c2 = "shift_inbound_buffer ?n ?c1"
  have c2: "\<exists>b. ?c2 = conn\<lparr>inbound_data := b, next_rcv_valid_index := 0\<rparr>"
    by (auto simp: shift_inbound_buffer_def)
  have "client_connections s2 = (client_connections s)(c := Some ?c1)" using received_connections(1) [OF s2(2)] by simp
  then have "read_data be c ?t ?s1 = Inr (s2\<lparr>client_connections := (client_connections s)(c := Some ?c2)\<rparr>)"
    using ne(2) rd by (simp add: read_data_def)
  moreover have "on_read be c (Received ?bs) t s = read_data be c ?t ?s1"
    using assms(1,2) ne(1) by (simp add: on_read_def Let_def requests.images_length uv_read_def alloc_buffer_def
        del: concat_eq_Nil_conv)
  ultimately have "on_read be c (Received ?bs) t s = Inr (s2\<lparr>client_connections := (client_connections s)(c := Some ?c2)\<rparr>)"
    by (rule trans [rotated])
  moreover have "received c ?t xs (s\<lparr>client_connections := (client_connections s)(c := Some ?c2)\<rparr>)
      (s2\<lparr>client_connections := (client_connections s)(c := Some ?c2)\<rparr>)"
    using received_connections(2) [OF s2(2)] by simp
  ultimately show ?thesis using c2 by metis
qed

text \<open>A server with one client, and that client's first two orders.\<close>

definition sample_server :: order_server where
  "sample_server = \<lparr>next_client_id = 1,
     matching_engine_responses = lock_free_queue_init 8 default_client_response,
     server_responses = enqueue (accepted_response 0) (lock_free_queue_init MAX_PENDING_REQUESTS default_client_response),
     client_next_outgoing_seq_num = (\<lambda>_. 1), client_next_incoming_seq_num = (\<lambda>_. 1),
     client_connections = (\<lambda>_. None)(0 := Some tcp_connection_init),
     writer_pool = fresh_pool MAX_BUFFERED_RESPONSE (), fifo = fifo_sequencer_init,
     incoming_requests = lock_free_queue_init 8 default_client_request, running = True\<rparr>"

lemma sample_server_reachable:
  "rbind (order_server_init (lock_free_queue_init 8 default_client_request) (lock_free_queue_init 8 default_client_response))
     (\<lambda>s. on_new_connection 0 True (start_server s)) = Inr sample_server"
  by (simp add: order_server_init_def memory_pool_init_eq on_new_connection_def handle_new_connection_def Let_def
      start_server_def send_connection_accepted_response_def push_server_response_def sample_server_def enqueue_def
      model_constants)

definition sample_order :: "u64 \<Rightarrow> client_request_external" where
  "sample_order n = \<lparr>rqx_sequence_number = n, rqx_request = \<lparr>rq_type = REQ_NEW, rq_client_id = 0, rq_instrument_id = 0,
     rq_order_id = n, rq_side = BUY, rq_price = 100, rq_qty = 10\<rparr>\<rparr>"

lemma sample_order_simps [simp]:
  "wire_request (sample_order n)" "rqx_sequence_number (sample_order n) = n"
  "rq_client_id (rqx_request (sample_order n)) = 0"
  by (simp_all add: sample_order_def wire_request_def)

lemma sample_order_id: "rq_order_id (rqx_request (sample_order n)) = n"
  by (simp add: sample_order_def)

text \<open>
  C22: a read of whole messages is screened exactly: the requests that carry the connection's own
  client identifier and the client's next sequence number reach the sequencer, in order, stamped
  with the read's time and numbered consecutively; every other one is answered with an invalid
  request response to the client it names. Nothing is left in the inbound buffer.
\<close>

theorem server_reads_requests:
  assumes "client_connections s c = Some conn" and "next_rcv_valid_index conn = 0" and "xs \<noteq> []"
    and "list_all wire_request xs" and "length xs * sizeof_client_request_external \<le> TCP_BUFFER_SIZE"
    and "list_all (\<lambda>x. unat (rq_client_id (rqx_request x)) < MAX_NUM_CLIENTS) xs"
    and "pending_size (fifo s) + length xs \<le> MAX_PENDING_REQUESTS"
  shows "\<exists>s' conn'. on_read be c (Received (concat (map request_bytes xs))) t s = Inr s' \<and>
    (let n = client_next_incoming_seq_num s c; acc = accepted c n xs
     in map rqx_sequence_number acc = map (\<lambda>i. ucast (n + word_of_nat i)) [0..<length acc] \<and>
        pending (fifo s') = pending (fifo s) @ map (\<lambda>x. \<lparr>recv_time = t * NANOS_PER_MILLIS, request = rqx_request x\<rparr>) acc \<and>
        client_next_incoming_seq_num s' =
          (client_next_incoming_seq_num s)(c := n + word_of_nat (length acc)) \<and>
        server_responses s' = fold enqueue
          (map (\<lambda>x. invalid_response (rq_client_id (rqx_request x))) (refused c n xs)) (server_responses s)) \<and>
    client_connections s' = (client_connections s)(c := Some conn') \<and> next_rcv_valid_index conn' = 0"
proof -
  obtain b s' where r: "on_read be c (Received (concat (map request_bytes xs))) t s = Inr s'"
    "received c (t * NANOS_PER_MILLIS) xs
      (s\<lparr>client_connections := (client_connections s)(c := Some (conn\<lparr>inbound_data := b, next_rcv_valid_index := 0\<rparr>))\<rparr>) s'"
    using on_read_messages [OF assms] by blast
  have "client_connections s' = (client_connections s)(c := Some (conn\<lparr>inbound_data := b, next_rcv_valid_index := 0\<rparr>))"
    using received_connections(1) [OF r(2)] by simp
  moreover note received_facts [OF r(2)]
  ultimately show ?thesis using r(1) accepted_numbers
    by (intro exI [of _ s'] exI [of _ "conn\<lparr>inbound_data := b, next_rcv_valid_index := 0\<rparr>"]) (simp add: Let_def)
qed

theorem server_reads_requests_witness:
  "\<exists>s'. on_read False 0 (Received (concat (map request_bytes [sample_order 1, sample_order 7, sample_order 2]))) 5
      sample_server = Inr s' \<and>
    map (rq_order_id \<circ> request) (pending (fifo s')) = [1, 2] \<and> client_next_incoming_seq_num s' 0 = 3"
proof -
  have c: "client_connections sample_server 0 = Some tcp_connection_init" "next_rcv_valid_index tcp_connection_init = 0"
    "pending (fifo sample_server) = []" "pending_size (fifo sample_server) = 0" "client_next_incoming_seq_num sample_server 0 = 1"
    by (simp_all add: sample_server_def tcp_connection_init_def)
  let ?xs = "[sample_order 1, sample_order 7, sample_order 2]"
  have a: "accepted 0 1 ?xs = [sample_order 1, sample_order 2]" by (simp add: in_sequence_def)
  have "list_all wire_request ?xs" "length ?xs * sizeof_client_request_external \<le> TCP_BUFFER_SIZE"
    "list_all (\<lambda>x. unat (rq_client_id (rqx_request x)) < MAX_NUM_CLIENTS) ?xs"
    "pending_size (fifo sample_server) + length ?xs \<le> MAX_PENDING_REQUESTS" "?xs \<noteq> []"
    using c by (simp_all add: model_constants sizeof_defs)
  from server_reads_requests [OF c(1,2) this(5,1-4), of False 5, unfolded Let_def c(3,5) a] show ?thesis
    by (auto simp: sample_order_id)
qed

text \<open>
  What the buffer holds after a request's bytes \<open>bs\<close> have come in two parts, split after \<open>k\<close>: the
  second part at the start, then what is left of the first part, then the old contents.
\<close>

definition split_bytes :: "nat \<Rightarrow> u8 list \<Rightarrow> buffer \<Rightarrow> u8 list" where
  "split_bytes k bs buf = drop k bs @ drop (length bs - k) (take k bs @ read_bytes k (length bs - k) buf)"

lemma read_split_bytes:
  assumes "0 < k" and "k < length bs"
  shows "read_bytes 0 (length bs) (write_bytes 0 (drop k bs) (write_bytes 0 (take k bs) buf)) = split_bytes k bs buf"
proof (rule nth_equalityI)
  fix i assume "i < length (read_bytes 0 (length bs) (write_bytes 0 (drop k bs) (write_bytes 0 (take k bs) buf)))"
  then have i: "i < length bs" by simp
  show "read_bytes 0 (length bs) (write_bytes 0 (drop k bs) (write_bytes 0 (take k bs) buf)) ! i = split_bytes k bs buf ! i"
  proof (cases "i < length bs - k")
    case False
    then have e: "split_bytes k bs buf ! i = (take k bs @ read_bytes k (length bs - k) buf) ! i"
      using i assms nth_drop [of "length bs - k" "take k bs @ read_bytes k (length bs - k) buf" "i - (length bs - k)"]
      by (simp only: split_bytes_def nth_append length_drop if_False) simp
    show ?thesis unfolding e using i assms False by (auto simp: write_bytes_def nth_append)
  qed (use i assms in \<open>simp add: split_bytes_def write_bytes_def nth_append\<close>)
qed (use assms in \<open>simp add: split_bytes_def\<close>)

lemma split_bytes_differ:
  assumes "k < length bs" and "drop k bs \<noteq> take (length bs - k) bs"
  shows "split_bytes k bs buf \<noteq> bs"
proof
  assume "split_bytes k bs buf = bs"
  then have "take (length bs - k) (split_bytes k bs buf) = take (length bs - k) bs" by simp
  then show False using assms by (simp add: split_bytes_def)
qed

text \<open>A request is refused, accepted or indexes out of the arrays of clients.\<close>

lemma receive_request_outcome:
  assumes "pending_size (fifo s) < MAX_PENDING_REQUESTS"
  shows "if MAX_NUM_CLIENTS \<le> unat (rq_client_id (rqx_request y)) then receive_request c t y s = Inl OutOfBounds
    else \<exists>s'. receive_request c t y s = Inr s' \<and> client_connections s' = client_connections s \<and>
      (if in_sequence c (client_next_incoming_seq_num s c) y
       then pending (fifo s') = pending (fifo s) @ [\<lparr>recv_time = t, request = rqx_request y\<rparr>] \<and>
         server_responses s' = server_responses s
       else pending (fifo s') = pending (fifo s) \<and>
         server_responses s' = enqueue (invalid_response (rq_client_id (rqx_request y))) (server_responses s))"
proof -
  let ?n = "client_next_incoming_seq_num s c" and ?cid = "rq_client_id (rqx_request y)"
  consider "MAX_NUM_CLIENTS \<le> unat ?cid" | "\<not> MAX_NUM_CLIENTS \<le> unat ?cid" "in_sequence c ?n y"
    | "\<not> MAX_NUM_CLIENTS \<le> unat ?cid" "\<not> in_sequence c ?n y" by blast
  then show ?thesis
  proof cases
    case 1
    then show ?thesis by (simp add: receive_request_def Let_def)
  next
    case 2
    obtain g where g: "add_request t (rqx_request y) (fifo s) = Inr g"
      "pending g = pending (fifo s) @ [\<lparr>recv_time = t, request = rqx_request y\<rparr>]"
      using add_request_ok [OF assms, of t "rqx_request y"] by blast
    then show ?thesis using 2 by (auto simp: receive_request_def Let_def in_sequence_def)
  next
    case 3
    then have "receive_request c t y s = Inr (send_invalid_response ?cid s)"
      by (auto simp: receive_request_def Let_def in_sequence_def)
    then show ?thesis using 3 by (simp add: send_invalid_response_def push_server_response_def enqueue_def)
  qed
qed

lemma on_read_part:
  assumes "client_connections s c = Some conn" and "bs \<noteq> []"
    and "next_rcv_valid_index conn + length bs < sizeof_client_request_external"
  shows "on_read be c (Received bs) t s = Inr (s\<lparr>client_connections := (client_connections s)(c := Some
    (conn\<lparr>inbound_data := write_bytes 0 bs (inbound_data conn),
       next_rcv_valid_index := next_rcv_valid_index conn + length bs\<rparr>))\<rparr>)"
  using assms by (simp add: on_read_def read_data_def Let_def uv_read_def alloc_buffer_def)

text \<open>Completing one message: whatever the buffer now holds is decoded.\<close>

lemma on_read_completes:
  assumes "client_connections s c = Some conn" and "bs \<noteq> []"
    and "next_rcv_valid_index conn + length bs = sizeof_client_request_external"
  shows "on_read be c (Received bs) t s =
    (let conn' = conn\<lparr>inbound_data := write_bytes 0 bs (inbound_data conn), next_rcv_valid_index := sizeof_client_request_external\<rparr>;
         s' = s\<lparr>client_connections := (client_connections s)(c := Some conn')\<rparr>
     in rbind (receive_request c (t * NANOS_PER_MILLIS) (deserialize_client_request be 0 (inbound_data conn')) s') (\<lambda>s.
          Inr (s\<lparr>client_connections := (client_connections s)(c := Some (shift_inbound_buffer sizeof_client_request_external conn'))\<rparr>)))"
  using assms
  by (simp add: on_read_def read_data_def Let_def uv_read_def alloc_buffer_def read_requests_rfold messages_def rbind_assoc
      model_constants sizeof_defs cong: rbind_cong)

text \<open>
  C23: a request that arrives in two reads is lost, wherever it is split, unless it happens to be its
  own shift by the split. The second read is put at the start of the buffer, over the part that is
  kept there, so the server decodes another request \<open>y\<close>, from the second part, the rest of the first
  part and whatever the buffer held before. That one is screened: a client identifier outside the
  arrays is used as an index, one that is not the connection's or not the next number is refused,
  and otherwise \<open>y\<close> is passed on. (In one read the request itself is screened, see above.)
\<close>

theorem split_request_lost:
  assumes "client_connections s c = Some conn" and "next_rcv_valid_index conn = 0"
    and "0 < k" and "k < sizeof_client_request_external"
    and "drop k (request_bytes x) \<noteq> take (sizeof_client_request_external - k) (request_bytes x)"
    and "pending_size (fifo s) < MAX_PENDING_REQUESTS"
  shows "\<exists>s1 y. on_read be c (Received (take k (request_bytes x))) t1 s = Inr s1 \<and> pending (fifo s1) = pending (fifo s) \<and>
    request_bytes y = split_bytes k (request_bytes x) (inbound_data conn) \<and> wire_request y \<and> y \<noteq> x \<and>
    (if MAX_NUM_CLIENTS \<le> unat (rq_client_id (rqx_request y))
     then on_read be c (Received (drop k (request_bytes x))) t2 s1 = Inl OutOfBounds
     else \<exists>s2. on_read be c (Received (drop k (request_bytes x))) t2 s1 = Inr s2 \<and>
       (if in_sequence c (client_next_incoming_seq_num s c) y
        then pending (fifo s2) = pending (fifo s) @ [\<lparr>recv_time = t2 * NANOS_PER_MILLIS, request = rqx_request y\<rparr>] \<and>
          server_responses s2 = server_responses s
        else pending (fifo s2) = pending (fifo s) \<and>
          server_responses s2 = enqueue (invalid_response (rq_client_id (rqx_request y))) (server_responses s)))"
proof -
  let ?bs = "request_bytes x" and ?z = sizeof_client_request_external
  have len: "length ?bs = ?z" by simp
  then have "?bs \<noteq> []" using assms(4) by (metis list.size(3) not_less_zero)
  then have ne: "take k ?bs \<noteq> []" "drop k ?bs \<noteq> []" using assms(3,4) by simp_all
  define b where "b = write_bytes 0 (drop k ?bs) (write_bytes 0 (take k ?bs) (inbound_data conn))"
  define y where "y = deserialize_client_request be 0 b"
  let ?c1 = "conn\<lparr>inbound_data := write_bytes 0 (take k ?bs) (inbound_data conn), next_rcv_valid_index := k\<rparr>"
  define s1 where "s1 = s\<lparr>client_connections := (client_connections s)(c := Some ?c1)\<rparr>"
  let ?c2 = "?c1\<lparr>inbound_data := b, next_rcv_valid_index := ?z\<rparr>"
  let ?s2 = "s1\<lparr>client_connections := (client_connections s1)(c := Some ?c2)\<rparr>"
  have r1: "on_read be c (Received (take k ?bs)) t1 s = Inr s1"
    using on_read_part [OF assms(1) ne(1)] assms(2,4) by (simp add: s1_def min_def)
  have r2: "on_read be c (Received (drop k ?bs)) t2 s1 = rbind (receive_request c (t2 * NANOS_PER_MILLIS) y ?s2) (\<lambda>s.
      Inr (s\<lparr>client_connections := (client_connections s)(c := Some (shift_inbound_buffer ?z ?c2))\<rparr>))"
    using on_read_completes [of s1 c ?c1 "drop k ?bs" be t2] ne(2) assms(4) by (simp add: s1_def Let_def b_def y_def)
  have y: "request_bytes y = split_bytes k ?bs (inbound_data conn)"
    using read_split_bytes [of k ?bs "inbound_data conn"] assms(3,4) by (simp add: y_def request_bytes_deserialize b_def)
  then have "y \<noteq> x" using split_bytes_differ [of k ?bs "inbound_data conn"] assms(4,5) len by metis
  moreover have "fifo ?s2 = fifo s" "client_next_incoming_seq_num ?s2 = client_next_incoming_seq_num s"
    "server_responses ?s2 = server_responses s" "fifo s1 = fifo s" by (simp_all add: s1_def)
  moreover note receive_request_outcome [of ?s2 y c "t2 * NANOS_PER_MILLIS"]
  moreover have "wire_request y" by (simp add: y_def)
  ultimately show ?thesis using r1 r2 y assms(6) by (intro exI [of _ s1] exI [of _ y]) (auto split: if_splits)
qed

text \<open>Split after five bytes, the first order of the sample client is refused for its sequence number.\<close>

theorem split_request_lost_witness:
  "\<exists>s1 s2. on_read False 0 (Received (take 5 (request_bytes (sample_order 1)))) 0 sample_server = Inr s1 \<and>
    on_read False 0 (Received (drop 5 (request_bytes (sample_order 1)))) 0 s1 = Inr s2 \<and>
    pending (fifo s2) = [] \<and> server_responses s2 = enqueue (invalid_response 0) (server_responses sample_server)"
proof -
  have c: "client_connections sample_server 0 = Some tcp_connection_init" "next_rcv_valid_index tcp_connection_init = 0"
    "inbound_data tcp_connection_init = (\<lambda>_. 0)" "pending (fifo sample_server) = []"
    "pending_size (fifo sample_server) < MAX_PENDING_REQUESTS" "client_next_incoming_seq_num sample_server 0 = 1"
    by (simp_all add: sample_server_def tcp_connection_init_def model_constants)
  have k: "0 < (5 :: nat)" "5 < sizeof_client_request_external" by (simp_all add: sizeof_defs)
  have d: "drop 5 (request_bytes (sample_order 1)) \<noteq> take (sizeof_client_request_external - 5) (request_bytes (sample_order 1))"
    by code_simp
  obtain s1 y where y: "on_read False 0 (Received (take 5 (request_bytes (sample_order 1)))) 0 sample_server = Inr s1"
    "request_bytes y = split_bytes 5 (request_bytes (sample_order 1)) (\<lambda>_. 0)" "wire_request y"
    and out: "if MAX_NUM_CLIENTS \<le> unat (rq_client_id (rqx_request y))
     then on_read False 0 (Received (drop 5 (request_bytes (sample_order 1)))) 0 s1 = Inl OutOfBounds
     else \<exists>s2. on_read False 0 (Received (drop 5 (request_bytes (sample_order 1)))) 0 s1 = Inr s2 \<and>
       (if in_sequence 0 1 y
        then pending (fifo s2) = [] @ [\<lparr>recv_time = 0 * NANOS_PER_MILLIS, request = rqx_request y\<rparr>] \<and>
          server_responses s2 = server_responses sample_server
        else pending (fifo s2) = [] \<and>
          server_responses s2 = enqueue (invalid_response (rq_client_id (rqx_request y))) (server_responses sample_server))"
    using split_request_lost [OF c(1,2) k d c(5), of False 0 0, unfolded c(3,4,6)] by blast
  let ?z = "deserialize_client_request False 0 (write_bytes 0 (split_bytes 5 (request_bytes (sample_order 1)) (\<lambda>_. 0)) (\<lambda>_. 0))"
  have "?z = y"
    by (rule deserialize_client_request_image) (use y(2,3) length_images(1) [of y] in simp_all)
  moreover have "rq_client_id (rqx_request ?z) = 0" "rqx_sequence_number ?z \<noteq> 1" by code_simp+
  ultimately have "rq_client_id (rqx_request y) = 0" "\<not> in_sequence 0 1 y" by (simp_all add: in_sequence_def)
  then show ?thesis using y(1) out by (auto simp: model_constants)
qed

text \<open>A client identifier outside the arrays is not checked for.\<close>

lemma foreign_client_identifier:
  "MAX_NUM_CLIENTS \<le> unat (rq_client_id (rqx_request x)) \<Longrightarrow> receive_request c t x s = Inl OutOfBounds"
  by (simp add: receive_request_def)

section \<open>Order\<close>

text \<open>
  C24: the check callback empties the sequencer into the engine's queue: exactly the pending
  requests, sorted by receive time, and in the order of arrival if the times are increasing.
\<close>

theorem sequencer_publishes_sorted:
  assumes "std_sort srt" and "queue_inv (incoming_requests s)"
    and "length (queue_items (incoming_requests s)) + pending_size (fifo s) \<le> q_size (incoming_requests s)"
  shows "\<exists>ts. queue_items (incoming_requests (on_check srt s)) = queue_items (incoming_requests s) @ map request ts \<and>
    mset ts = mset (pending (fifo s)) \<and> sorted (map recv_time ts) \<and> pending (fifo (on_check srt s)) = [] \<and>
    (sorted_wrt (<) (pending (fifo s)) \<longrightarrow> ts = pending (fifo s))"
proof (cases "is_empty (fifo s)")
  case True
  then show ?thesis by (simp add: on_check_def is_empty_iff)
next
  case False
  let ?ts = "srt (pending (fifo s))"
  have len: "length ?ts = pending_size (fifo s)" using assms(1) by simp
  note p = sequence_and_publish_eq [of srt "fifo s" "incoming_requests s", OF len]
  have "queue_items (fold enqueue (map request ?ts) (incoming_requests s)) = queue_items (incoming_requests s) @ map request ?ts"
    using lfq.fold_put [OF assms(2), of "map request ?ts"] assms(1,3) by simp
  then have "queue_items (incoming_requests (on_check srt s)) = queue_items (incoming_requests s) @ map request ?ts"
    "pending (fifo (on_check srt s)) = []"
    using False p by (simp_all add: on_check_def split_beta)
  then show ?thesis using assms(1) std_sort_ascending [OF assms(1)]
    by (auto simp: std_sort_def sorted_wrt_not_earlier)
qed

text \<open>Two requests at different milliseconds that were received in the wrong order.\<close>

definition two_pending :: "nananoseconds_t \<Rightarrow> nananoseconds_t \<Rightarrow> order_server" where
  "two_pending t u = sample_server\<lparr>fifo := \<lparr>pending_client_requests = (\<lambda>i. \<lparr>recv_time = (if i = 0 then t else u),
     request = rqx_request (sample_order (word_of_nat i))\<rparr>), pending_size = 2\<rparr>\<rparr>"

lemma two_pending_simps [simp]:
  "queue_items (incoming_requests (two_pending t u)) = []" "queue_inv (incoming_requests (two_pending t u))"
  "q_size (incoming_requests (two_pending t u)) = 8" "pending_size (fifo (two_pending t u)) = 2"
  "pending (fifo (two_pending t u)) = [\<lparr>recv_time = t, request = rqx_request (sample_order 0)\<rparr>,
     \<lparr>recv_time = u, request = rqx_request (sample_order 1)\<rparr>]"
  by (simp_all add: two_pending_def sample_server_def queue_init_inv pending_def numeral_2_eq_2)

theorem sequencer_publishes_sorted_witness:
  "\<exists>ts. queue_items (incoming_requests (on_check (sort_key recv_time) (two_pending 3 2))) = map request ts \<and>
    mset ts = mset (pending (fifo (two_pending 3 2))) \<and> sorted (map recv_time ts)"
  using sequencer_publishes_sorted [OF std_sort_sort_key, of "two_pending 3 2"] by auto

text \<open>
  The clock of the event loop counts milliseconds and the sort is not stable: requests of one
  loop iteration carry the same time, and a conforming \<open>std::sort\<close> may exchange them.
\<close>

lemma sequencer_may_swap:
  "\<exists>srt. std_sort srt \<and> queue_items (incoming_requests (on_check srt (two_pending t t))) =
    [rqx_request (sample_order 1), rqx_request (sample_order 0)]"
proof -
  let ?srt = "\<lambda>xs. sort_key recv_time (rev xs)"
  have e: "\<not> is_empty (fifo (two_pending t t))" by (simp add: is_empty_iff)
  have "snd (sequence_and_publish ?srt (fifo (two_pending t t)) (incoming_requests (two_pending t t))) =
      fold enqueue [rqx_request (sample_order 1), rqx_request (sample_order 0)] (incoming_requests (two_pending t t))"
    by (subst sequence_and_publish_eq(1)) simp_all
  moreover have "queue_items (fold enqueue [rqx_request (sample_order 1), rqx_request (sample_order 0)]
      (incoming_requests (two_pending t t))) = [rqx_request (sample_order 1), rqx_request (sample_order 0)]"
    using lfq.fold_put [of "incoming_requests (two_pending t t)" "[rqx_request (sample_order 1), rqx_request (sample_order 0)]"]
    by simp
  ultimately have "queue_items (incoming_requests (on_check ?srt (two_pending t t))) =
      [rqx_request (sample_order 1), rqx_request (sample_order 0)]"
    using e by (simp add: on_check_def split_beta)
  then show ?thesis using std_sort_reversing by blast
qed

section \<open>Responses\<close>

text \<open>
  While at most two responses per client wait and the outbound buffers last, distributing a
  queue of responses and then running a client's write callback sends that client's responses,
  and only those, exactly once, in order and with consecutive sequence numbers, after what was
  waiting before.
\<close>

lemma responses_delivered:
  assumes "queue_inv q" and "deliverable (queue_items q) s" and "client_connections s c = Some conn"
    and "pool_inv (writer_pool s)" and "card (pool_live (writer_pool s)) + 2 \<le> memory_blocks_size (writer_pool s)"
  shows "\<exists>q' s1 s2 conn'. process_responses_helper be q s = Inr (q', s1) \<and> queue_items q' = [] \<and>
    write_message c s1 = Inr s2 \<and> client_connections s2 c = Some conn' \<and> waiting conn' = [] \<and>
    written conn' = written conn @ waiting conn @
      response_images (client_next_outgoing_seq_num s c) (for_client c (queue_items q)) \<and>
    client_next_outgoing_seq_num s2 c =
      client_next_outgoing_seq_num s c + word_of_nat (length (for_client c (queue_items q)))"
proof -
  obtain q' s1 where h: "process_responses_helper be q s = Inr (q', s1)" "queue_items q' = []" "delivered (queue_items q) s s1"
    using process_responses_helper_ok [OF assms(1,2)] by blast
  obtain conn1 where c1: "client_connections s1 c = Some conn1"
    "conn_delivered (client_next_outgoing_seq_num s c) (for_client c (queue_items q)) conn conn1"
    using h(3) assms(3) unfolding delivered_def by (auto dest!: spec [of _ c])
  have n: "client_next_outgoing_seq_num s1 c =
      client_next_outgoing_seq_num s c + word_of_nat (length (for_client c (queue_items q)))"
    using h(3) unfolding delivered_def by blast
  have "s1 = s\<lparr>client_connections := client_connections s1, client_next_outgoing_seq_num := client_next_outgoing_seq_num s1\<rparr>"
    using h(3) unfolding delivered_def by blast
  then have pool: "writer_pool s1 = writer_pool s" by (cases s; cases s1) simp
  have "length (waiting conn) + length (for_client c (queue_items q)) \<le> 2"
    using assms(2,3) unfolding deliverable_def by blast
  then have two: "card (pool_live (writer_pool s1)) + length (waiting conn1) \<le> memory_blocks_size (writer_pool s1)"
    using c1(2) assms(5) unfolding conn_delivered_def pool by (simp del: length_waiting)
  obtain conn' pool' where w: "write_to_socket (conn1\<lparr>async_pending := False\<rparr>) (writer_pool s1) = Inr (conn', pool')"
    "waiting conn' = []" "written conn' = written conn1 @ waiting conn1"
    using write_to_socket_ok [of "conn1\<lparr>async_pending := False\<rparr>" "writer_pool s1"] c1(2) two assms(4) pool
    by (auto simp: conn_delivered_def simp del: length_waiting)
  have "write_message c s1 = Inr (s1\<lparr>client_connections := (client_connections s1)(c := Some conn'), writer_pool := pool'\<rparr>)"
    using c1(1) w(1) by (simp add: write_message_def)
  then show ?thesis using h(1,2) n w(2,3) c1(2) by (simp add: conn_delivered_def)
qed

text \<open>The server of the witnesses can deliver two responses.\<close>

definition sample_response :: "u32 \<Rightarrow> client_response_internal" where
  "sample_response q = default_client_response\<lparr>rs_type := FILLED, rs_client_id := 0, rs_exec_qty := q\<rparr>"

lemma sample_response_simps [simp]: "rs_client_id (sample_response q) = 0"
  by (simp add: sample_response_def)

lemma for_client_sample [simp]: "for_client c (map sample_response qs) = (if c = 0 then map sample_response qs else [])"
  by (cases "c = 0"; induction qs) simp_all

lemma sample_connection:
  "client_connections sample_server c = (if c = 0 then Some tcp_connection_init else None)"
  "next_response_index tcp_connection_init = 0" "client_next_outgoing_seq_num sample_server 0 = 1"
  "pool_inv (writer_pool sample_server)"
  "card (pool_live (writer_pool sample_server)) + 2 \<le> memory_blocks_size (writer_pool sample_server)"
  by (simp_all add: sample_server_def tcp_connection_init_def fresh_pool_inv model_constants)

lemma deliverable_sample: "length qs \<le> 2 \<Longrightarrow> deliverable (map sample_response qs) sample_server"
  unfolding deliverable_def
  by (auto simp: sample_connection model_constants simp del: length_waiting split: if_splits)

definition sample_responses :: "client_response_internal lock_free_queue" where
  "sample_responses = fold enqueue (map sample_response [5, 7]) (lock_free_queue_init 4 default_client_response)"

text \<open>
  \<open>write_queue\<close> is declared for \<open>MAX_BUFFERED_RESPONSE\<close> entries but constructed with two
  (the initializer list constructor is chosen). If a third response arrives before the event loop
  has written the first, it overwrites its entry: the first is never sent, the third twice, and
  the first time ahead of the second.
\<close>

theorem third_response_overwrites_first:
  fixes n1 n2 n3 :: u32
  shows "\<exists>c1 c2 c3 c4 pool. append_to_outbound_buffer be r1 (ucast n1) tcp_connection_init = Inr (0, c1) \<and>
    append_to_outbound_buffer be r2 (ucast n2) c1 = Inr (1, c2) \<and>
    append_to_outbound_buffer be r3 (ucast n3) c2 = Inr (2, c3) \<and>
    write_to_socket c3 (fresh_pool MAX_BUFFERED_RESPONSE ()) = Inr (c4, pool) \<and>
    written c4 = [response_image n3 r3, response_image n2 r2, response_image n3 r3]"
proof -
  let ?q1 = "enqueue 0 (lock_free_queue_init_size_t MAX_BUFFERED_RESPONSE)"
  let ?b1 = "write_bytes (get_response_buffer 0) (response_image n1 r1) (\<lambda>_. 0)"
  let ?b2 = "write_bytes (get_response_buffer 1) (response_image n2 r2) ?b1"
  let ?b3 = "write_bytes (get_response_buffer 2) (response_image n3 r3) ?b2"
  let ?q3 = "enqueue 2 (enqueue 1 ?q1)"
  let ?c1 = "tcp_connection_init\<lparr>write_queue := ?q1, outbound_data := ?b1, next_response_index := 1\<rparr>"
  let ?c2 = "?c1\<lparr>write_queue := enqueue 1 ?q1, outbound_data := ?b2, next_response_index := 2\<rparr>"
  let ?c3 = "?c2\<lparr>write_queue := ?q3, outbound_data := ?b3, next_response_index := 3\<rparr>"
  have a: "append_to_outbound_buffer be r1 (ucast n1) tcp_connection_init = Inr (0, ?c1)"
    "append_to_outbound_buffer be r2 (ucast n2) ?c1 = Inr (1, ?c2)"
    "append_to_outbound_buffer be r3 (ucast n3) ?c2 = Inr (2, ?c3)"
    by (subst append_to_outbound_buffer_eq; simp add: tcp_connection_init_def model_constants)+
  have img: "read_bytes (get_response_buffer 2) sizeof_client_response_external ?b3 = response_image n3 r3"
    "read_bytes (get_response_buffer 1) sizeof_client_response_external ?b3 = response_image n2 r2"
    by (simp_all add: read_write_other get_response_buffer_def)
  have q: "reads [2, 1, 2] (write_queue ?c3)" by (simp add: queue_defs lock_free_queue_init_size_t_def)
  have "pool_inv (fresh_pool MAX_BUFFERED_RESPONSE ())" by (simp add: fresh_pool_inv model_constants)
  from write_to_socket_reads [OF q this] obtain pool where
    w: "write_to_socket ?c3 (fresh_pool MAX_BUFFERED_RESPONSE ()) = Inr (?c3\<lparr>written := written ?c3 @ [response_image n3 r3,
      response_image n2 r2, response_image n3 r3], write_queue := (next_read_index ^^ 3) ?q3\<rparr>, pool)"
    using img by (auto simp: model_constants numeral_3_eq_3 simp del: funpow.simps)
  define c4 where "c4 = ?c3\<lparr>written := written ?c3 @ [response_image n3 r3, response_image n2 r2, response_image n3 r3],
    write_queue := (next_read_index ^^ 3) ?q3\<rparr>"
  have "written c4 = [response_image n3 r3, response_image n2 r2, response_image n3 r3]"
    by (simp add: c4_def tcp_connection_init_def)
  then show ?thesis using a w [folded c4_def] by blast
qed

text \<open>
  C26: the outbound buffer is used up after \<open>MAX_BUFFERED_RESPONSE\<close> responses. A client that is
  served one response at a time gets that many, each once and in order; the next one is written
  past the end of the buffer, because the index is reset one step too late.
\<close>

theorem outbound_buffer_overflows:
  assumes "length rs = MAX_BUFFERED_RESPONSE"
  shows "\<exists>conn. serve be rs n tcp_connection_init = Inr conn \<and> written conn = response_images n rs \<and>
    append_to_outbound_buffer be r m conn = Inl OutOfBounds"
proof -
  obtain conn where "serve be rs n tcp_connection_init = Inr conn" "written conn = written tcp_connection_init @ response_images n rs"
    "next_response_index conn = MAX_BUFFERED_RESPONSE"
    using serve_ok [of tcp_connection_init rs be n] assms by (auto simp: sample_connection(2))
  then show ?thesis using append_to_outbound_buffer_overflow by (auto simp: tcp_connection_init_def)
qed

theorem outbound_buffer_overflows_witness:
  "\<exists>conn. serve False (replicate MAX_BUFFERED_RESPONSE (sample_response 5)) 1 tcp_connection_init = Inr conn \<and>
    append_to_outbound_buffer False (sample_response 6) 0 conn = Inl OutOfBounds"
  using outbound_buffer_overflows [of "replicate MAX_BUFFERED_RESPONSE (sample_response 5)" False 1 "sample_response 6" 0]
  by auto

end
