(* ===== verification/FeedHandler.thy ===== *)
theory FeedHandler
  imports MessageStream LockFreeQueue
begin

text \<open>
  The trading client's \<open>feed_handler/feed_handler.hpp\<close> and \<open>.cpp\<close>: it forwards the incremental
  stream while sequence numbers are consecutive, and after a gap collects the snapshot and the
  incremental stream in two ordered maps until they can be joined. A \<open>std::map\<close> is its list of
  entries in ascending order of the keys.
\<close>

definition FEED_BUFFER_SIZE :: nat where [model_constants]: "FEED_BUFFER_SIZE = 64 * 1024 * 1024"

section \<open>Ordered maps\<close>

text \<open>\<open>emplace\<close> leaves an existing entry alone.\<close>

fun map_emplace :: "'k::linorder \<Rightarrow> 'v \<Rightarrow> ('k \<times> 'v) list \<Rightarrow> ('k \<times> 'v) list" where
  "map_emplace k v [] = [(k, v)]"
| "map_emplace k v ((l, w) # m) =
     (if k < l then (k, v) # (l, w) # m else if k = l then (l, w) # m else (l, w) # map_emplace k v m)"

definition map_contains :: "'k \<Rightarrow> ('k \<times> 'v) list \<Rightarrow> bool" where
  "map_contains k m \<longleftrightarrow> list_ex (\<lambda>(l, w). l = k) m"

section \<open>The handler\<close>

record multicast_connection =
  mc_buffer :: buffer
  mc_offset :: nat

definition multicast_connection_init :: multicast_connection where
  "multicast_connection_init = \<lparr>mc_buffer = (\<lambda>_. 0), mc_offset = 0\<rparr>"

definition mc_shift_inbound_buffer :: "nat \<Rightarrow> multicast_connection \<Rightarrow> multicast_connection" where
  "mc_shift_inbound_buffer processed conn =
     (if 0 < processed \<and> processed \<le> mc_offset conn
      then conn\<lparr>mc_buffer := write_bytes 0 (read_bytes processed (mc_offset conn - processed) (mc_buffer conn)) (mc_buffer conn),
           mc_offset := mc_offset conn - processed\<rparr>
      else conn)"

definition mc_alloc_buffer :: "multicast_connection \<Rightarrow> nat \<times> nat" where
  "mc_alloc_buffer conn = (0, FEED_BUFFER_SIZE)"

text \<open>
  Of the snapshot handle the model keeps which calls were made: \<open>snapshot_started\<close> once
  \<open>uv_udp_recv_start\<close> was called on it, \<open>snapshot_closed\<close> once \<open>uv_close\<close> was.
\<close>

record feed_handler =
  next_expected_seq :: u64
  incoming_updates :: "market_update lock_free_queue"
  incremental_feed :: multicast_connection
  snapshot_feed :: multicast_connection
  snapshot_started :: bool
  snapshot_closed :: bool
  in_recovery :: bool
  snapshot_queued_msgs :: "(u64 \<times> market_update) list"
  incremental_queued_msgs :: "(u64 \<times> market_update) list"

definition feed_handler_init :: "market_update lock_free_queue \<Rightarrow> feed_handler" where
  "feed_handler_init q = \<lparr>next_expected_seq = 1, incoming_updates = q,
     incremental_feed = multicast_connection_init, snapshot_feed = multicast_connection_init,
     snapshot_started = False, snapshot_closed = False, in_recovery = False, snapshot_queued_msgs = [], incremental_queued_msgs = []\<rparr>"

section \<open>Joining snapshot and increments\<close>

text \<open>The first loop: \<open>None\<close> on a gap, otherwise the updates between start and end message.\<close>

fun scan_snapshot :: "u64 \<Rightarrow> (u64 \<times> market_update) list \<Rightarrow> market_update list \<Rightarrow> market_update list option" where
  "scan_snapshot next_snapshot_seq [] acc = Some acc"
| "scan_snapshot next_snapshot_seq ((seq, update) # m) acc =
     (if seq \<noteq> next_snapshot_seq then None
      else scan_snapshot (next_snapshot_seq + 1) m
        (if seq \<noteq> 0 \<and> mu_type update \<noteq> MU_SNAPSHOT_END then acc @ [update] else acc))"

text \<open>The second loop; it also advances \<open>next_expected_seq\<close>, up to a gap.\<close>

fun scan_incremental :: "u64 \<Rightarrow> (u64 \<times> market_update) list \<Rightarrow> market_update list \<Rightarrow> bool \<times> u64 \<times> market_update list" where
  "scan_incremental next_seq [] acc = (True, next_seq, acc)"
| "scan_incremental next_seq ((seq, update) # m) acc =
     (if seq < next_seq then scan_incremental next_seq m acc
      else if seq \<noteq> next_seq then (False, next_seq, acc)
      else scan_incremental (next_seq + 1) m (acc @ [update]))"

definition sync_snapshot_with_incremental :: "feed_handler \<Rightarrow> feed_handler" where
  "sync_snapshot_with_incremental s =
     (case snapshot_queued_msgs s of
        [] \<Rightarrow> s
      | (first, _) # _ \<Rightarrow>
          if first \<noteq> 0 then s\<lparr>snapshot_queued_msgs := []\<rparr>
          else (case scan_snapshot 0 (snapshot_queued_msgs s) [] of
            None \<Rightarrow> s\<lparr>snapshot_queued_msgs := []\<rparr>
          | Some synchronized_updates \<Rightarrow>
              let last_snapshot_msg = snd (last (snapshot_queued_msgs s))
              in if mu_type last_snapshot_msg \<noteq> MU_SNAPSHOT_END then s
                 else let s = s\<lparr>next_expected_seq := mu_order_id last_snapshot_msg + 1\<rparr>;
                          (complete, next_seq, synchronized_updates) =
                            scan_incremental (next_expected_seq s) (incremental_queued_msgs s) synchronized_updates;
                          s = s\<lparr>next_expected_seq := next_seq\<rparr>
                      in if \<not> complete then s\<lparr>snapshot_queued_msgs := []\<rparr>
                         else s\<lparr>incoming_updates := fold (\<lambda>upd q. next_write_index (put_next_write_element upd q))
                                  synchronized_updates (incoming_updates s),
                                snapshot_queued_msgs := [], incremental_queued_msgs := [],
                                in_recovery := False, snapshot_closed := True\<rparr>))"

definition queue_message :: "bool \<Rightarrow> client_market_update \<Rightarrow> feed_handler \<Rightarrow> feed_handler" where
  "queue_message is_snapshot upd s =
     (let s = (if is_snapshot then
                 let s = (if map_contains (cmu_sequence_number upd) (snapshot_queued_msgs s)
                          then s\<lparr>snapshot_queued_msgs := []\<rparr> else s)
                 in s\<lparr>snapshot_queued_msgs :=
                      map_emplace (cmu_sequence_number upd) (cmu_update upd) (snapshot_queued_msgs s)\<rparr>
               else s\<lparr>incremental_queued_msgs :=
                      map_emplace (cmu_sequence_number upd) (cmu_update upd) (incremental_queued_msgs s)\<rparr>)
      in sync_snapshot_with_incremental s)"

section \<open>Reading\<close>

text \<open>The body of the loop in \<open>read_data\<close>.\<close>

definition receive_update :: "bool \<Rightarrow> client_market_update \<Rightarrow> feed_handler \<Rightarrow> feed_handler" where
  "receive_update is_snapshot update s =
     (let already_in_recovery = in_recovery s;
          s = s\<lparr>in_recovery := already_in_recovery \<or> cmu_sequence_number update \<noteq> next_expected_seq s\<rparr>
      in if in_recovery s then
           let s = (if \<not> already_in_recovery
                    then s\<lparr>snapshot_queued_msgs := [], incremental_queued_msgs := [],
                         snapshot_started := True\<rparr>
                    else s)
           in queue_message is_snapshot update s
         else if \<not> is_snapshot then
           let s = s\<lparr>next_expected_seq := next_expected_seq s + 1\<rparr>
           in s\<lparr>incoming_updates := next_write_index (put_next_write_element (cmu_update update) (incoming_updates s))\<rparr>
         else s)"

text \<open>The loop from offset \<open>i\<close> to the connection's \<open>offset\<close>, \<open>n\<close>; reads stay inside the buffer.\<close>

function read_updates :: "bool \<Rightarrow> bool \<Rightarrow> buffer \<Rightarrow> nat \<Rightarrow> nat \<Rightarrow> feed_handler \<Rightarrow> (nat \<times> feed_handler) result" where
  "read_updates be is_snapshot buf n i s =
     (if i + sizeof_client_market_update \<le> n then
        if FEED_BUFFER_SIZE < i + sizeof_client_market_update then Inl OutOfBounds
        else read_updates be is_snapshot buf n (i + sizeof_client_market_update)
          (receive_update is_snapshot (deserialize_market_update be i buf) s)
      else Inr (i, s))"
  by pat_completeness auto

termination
  by (relation "measure (\<lambda>(be, is_snapshot, buf, n, i, s). n - i)") (auto simp: sizeof_defs)

declare read_updates.simps [simp del]

definition get_feed :: "bool \<Rightarrow> feed_handler \<Rightarrow> multicast_connection" where
  "get_feed is_snapshot s = (if is_snapshot then snapshot_feed s else incremental_feed s)"

definition set_feed :: "bool \<Rightarrow> multicast_connection \<Rightarrow> feed_handler \<Rightarrow> feed_handler" where
  "set_feed is_snapshot conn s = (if is_snapshot then s\<lparr>snapshot_feed := conn\<rparr> else s\<lparr>incremental_feed := conn\<rparr>)"

definition feed_read_data :: "bool \<Rightarrow> bool \<Rightarrow> feed_handler \<Rightarrow> feed_handler result" where
  "feed_read_data be is_snapshot s =
     (let conn = get_feed is_snapshot s
      in if sizeof_client_market_update \<le> mc_offset conn then
           rbind (read_updates be is_snapshot (mc_buffer conn) (mc_offset conn) 0 s) (\<lambda>(i, s).
             Inr (set_feed is_snapshot (mc_shift_inbound_buffer i conn) s))
         else Inr s)"

text \<open>The callback of a socket; an error or end of stream closes the handle.\<close>

definition feed_on_read :: "bool \<Rightarrow> bool \<Rightarrow> read_result \<Rightarrow> feed_handler \<Rightarrow> feed_handler result" where
  "feed_on_read be is_snapshot r s =
     (case r of
        Received bs \<Rightarrow>
          if bs = [] then Inr s
          else let conn = get_feed is_snapshot s;
                   conn = conn\<lparr>mc_buffer := write_bytes (fst (mc_alloc_buffer conn)) bs (mc_buffer conn)\<rparr>;
                   conn = conn\<lparr>mc_offset := mc_offset conn + length bs\<rparr>
               in feed_read_data be is_snapshot (set_feed is_snapshot conn s)
      | End_Of_Stream \<Rightarrow> Inr (if is_snapshot then s\<lparr>snapshot_closed := True\<rparr> else s)
      | Read_Error \<Rightarrow> Inr (if is_snapshot then s\<lparr>snapshot_closed := True\<rparr> else s))"

end
