(* ===== verification/FeedRecovery.thy ===== *)
theory FeedRecovery
  imports FeedHandler SnapshotSynthesizer
begin

text \<open>
  The feed handler on the streams the exchange sends: forwarding in sequence, collecting the
  snapshot datagrams, each a prefix of the snapshot, and joining the complete snapshot with the
  increments that were queued.
\<close>

section \<open>Reading datagrams\<close>

lemma read_updates_fold:
  "n \<le> FEED_BUFFER_SIZE \<Longrightarrow> i \<le> n \<Longrightarrow>
    read_updates be b buf n i s = Inr (i + (n - i) div sizeof_client_market_update * sizeof_client_market_update,
      fold (receive_update b) (messages sizeof_client_market_update (deserialize_market_update be) i (n - i) buf) s)"
proof (induction be b buf n i s rule: read_updates.induct)
  case (1 be b buf n i s)
  show ?case
  proof (cases "i + sizeof_client_market_update \<le> n")
    case True
    have ok: "\<not> FEED_BUFFER_SIZE < i + sizeof_client_market_update" using True "1.prems"(1) by simp
    have d: "(n - i) div sizeof_client_market_update = Suc ((n - (i + sizeof_client_market_update)) div sizeof_client_market_update)"
      using True div_if [of "n - i" sizeof_client_market_update] by (simp add: sizeof_defs diff_diff_eq)
    show ?thesis using "1.IH" [OF True ok "1.prems"(1) True] ok True
      by (simp add: read_updates.simps [of be b buf n i s] updates.messages_Cons [OF True] d)
  next
    case False
    then have "(n - i) div sizeof_client_market_update = 0" by (simp add: sizeof_defs)
    then show ?thesis using False updates.messages_end [OF False] by (simp add: read_updates.simps)
  qed
qed

text \<open>Handling an update does not touch the connections.\<close>

lemma sync_feeds [simp]:
  "sync_snapshot_with_incremental (s\<lparr>snapshot_feed := x\<rparr>) = (sync_snapshot_with_incremental s)\<lparr>snapshot_feed := x\<rparr>"
  "sync_snapshot_with_incremental (s\<lparr>incremental_feed := x\<rparr>) = (sync_snapshot_with_incremental s)\<lparr>incremental_feed := x\<rparr>"
  by (cases s; simp add: sync_snapshot_with_incremental_def Let_def split: list.split option.split prod.split)+

lemma queue_message_feeds [simp]:
  "queue_message b u (s\<lparr>snapshot_feed := x\<rparr>) = (queue_message b u s)\<lparr>snapshot_feed := x\<rparr>"
  "queue_message b u (s\<lparr>incremental_feed := x\<rparr>) = (queue_message b u s)\<lparr>incremental_feed := x\<rparr>"
  by (cases s; simp add: queue_message_def Let_def flip: sync_feeds)+

lemma receive_update_feeds [simp]:
  "receive_update b u (s\<lparr>snapshot_feed := x\<rparr>) = (receive_update b u s)\<lparr>snapshot_feed := x\<rparr>"
  "receive_update b u (s\<lparr>incremental_feed := x\<rparr>) = (receive_update b u s)\<lparr>incremental_feed := x\<rparr>"
  by (cases s; simp add: receive_update_def Let_def flip: queue_message_feeds)+

lemma receive_update_set_feed [simp]:
  "receive_update b u (set_feed c x s) = set_feed c x (receive_update b u s)"
  by (simp add: set_feed_def)

lemma fold_receive_set_feed [simp]:
  "fold (receive_update b) us (set_feed c x s) = set_feed c x (fold (receive_update b) us s)"
  by (induction us arbitrary: s) simp_all

lemma set_feed_simps [simp]:
  "get_feed c (set_feed c x s) = x" "set_feed c y (set_feed c x s) = set_feed c y s"
  "in_recovery (set_feed c x s) = in_recovery s" "incoming_updates (set_feed c x s) = incoming_updates s"
  "next_expected_seq (set_feed c x s) = next_expected_seq s"
  "snapshot_queued_msgs (set_feed c x s) = snapshot_queued_msgs s"
  "incremental_queued_msgs (set_feed c x s) = incremental_queued_msgs s"
  by (simp_all add: get_feed_def set_feed_def)

text \<open>A datagram of whole messages is handled message by message and leaves nothing behind.\<close>

lemma feed_on_read_messages:
  assumes "mc_offset (get_feed b s) = 0" and "list_all wire_market_update us"
    and "length us * sizeof_client_market_update \<le> FEED_BUFFER_SIZE"
  shows "\<exists>conn. feed_on_read be b (Received (concat (map market_update_bytes us))) s =
    Inr (set_feed b conn (fold (receive_update b) us s)) \<and> mc_offset conn = 0"
proof (cases us)
  case Nil
  have "set_feed b (get_feed b s) s = s" by (simp add: set_feed_def get_feed_def)
  then show ?thesis using Nil assms(1) by (intro exI [of _ "get_feed b s"]) (simp add: feed_on_read_def)
next
  case (Cons u us')
  let ?bs = "concat (map market_update_bytes us)" and ?n = "length us * sizeof_client_market_update"
  let ?c1 = "(get_feed b s)\<lparr>mc_buffer := write_bytes 0 ?bs (mc_buffer (get_feed b s)), mc_offset := ?n\<rparr>"
  have len: "length ?bs = ?n" by (rule updates.images_length)
  have "0 < length ?bs" "sizeof_client_market_update \<le> ?n" unfolding len using Cons by (simp_all add: sizeof_defs)
  then have ne: "?bs \<noteq> []" "sizeof_client_market_update \<le> ?n" unfolding length_greater_0_conv .
  have "messages sizeof_client_market_update (deserialize_market_update be) 0 ?n (mc_buffer ?c1) = us"
    using updates.messages_written [OF assms(2)] by simp
  then have r: "read_updates be b (mc_buffer ?c1) ?n 0 (set_feed b ?c1 s) =
      Inr (?n, set_feed b ?c1 (fold (receive_update b) us s))"
    using read_updates_fold [OF assms(3), of 0 be b "mc_buffer ?c1" "set_feed b ?c1 s"] by (simp add: sizeof_defs)
  have "feed_on_read be b (Received ?bs) s = feed_read_data be b (set_feed b ?c1 s)"
    using assms(1) ne(1) len by (simp add: feed_on_read_def Let_def mc_alloc_buffer_def del: concat_eq_Nil_conv)
  also have "\<dots> = Inr (set_feed b (mc_shift_inbound_buffer ?n ?c1) (fold (receive_update b) us s))"
    using ne(2) r by (simp add: feed_read_data_def Let_def)
  finally show ?thesis by (auto simp: mc_shift_inbound_buffer_def)
qed

section \<open>In sequence\<close>

lemma receive_in_sequence:
  "\<not> in_recovery s \<Longrightarrow> fold (receive_update False) (numbered (next_expected_seq s) us) s =
    s\<lparr>next_expected_seq := next_expected_seq s + word_of_nat (length us),
      incoming_updates := fold enqueue us (incoming_updates s)\<rparr>"
proof (induction us arbitrary: s)
  case (Cons u us)
  let ?t = "s\<lparr>next_expected_seq := next_expected_seq s + 1, incoming_updates := enqueue u (incoming_updates s)\<rparr>"
  have "receive_update False \<lparr>cmu_sequence_number = next_expected_seq s, cmu_update = u\<rparr> s = ?t"
    using Cons.prems by (cases s) (simp add: receive_update_def Let_def enqueue_def)
  then show ?case using Cons.IH [of ?t] Cons.prems by (simp add: add.assoc)
qed (cases s; simp)

section \<open>In recovery\<close>

text \<open>The map entries of updates with consecutive sequence numbers.\<close>

definition entries :: "u64 \<Rightarrow> market_update list \<Rightarrow> (u64 \<times> market_update) list" where
  "entries n us = map (\<lambda>cu. (cmu_sequence_number cu, cmu_update cu)) (numbered n us)"

lemma entries_simps [simp]: "entries n [] = []" "entries n (u # us) = (n, u) # entries (n + 1) us"
  by (simp_all add: entries_def)

lemma entries_append: "entries n (us @ vs) = entries n us @ entries (n + word_of_nat (length us)) vs"
  by (induction us arbitrary: n) (simp_all add: add.assoc)

lemma snd_last_entries:
  assumes "us \<noteq> []"
  shows "snd (last (entries n us)) = last us"
proof -
  have ne: "numbered n us \<noteq> []" using assms by (metis length_numbered length_0_conv)
  then have "snd (last (entries n us)) = cmu_update (last (numbered n us))" by (simp add: entries_def last_map)
  moreover have "last (map cmu_update (numbered n us)) = cmu_update (last (numbered n us))" using ne by (rule last_map)
  ultimately show ?thesis by (simp only: map_update_numbered)
qed

lemma unat_plus_nat: "unat n + m < 2 ^ 64 \<Longrightarrow> unat (n + word_of_nat m :: u64) = unat n + m"
  by (simp add: unat_word_ariths unat_of_nat)

text \<open>The next number goes to the end of the map.\<close>

lemma map_emplace_end:
  "unat n + length us < 2 ^ 64 \<Longrightarrow>
    map_emplace (n + word_of_nat (length us)) u (entries n us) = entries n (us @ [u])"
proof (induction us arbitrary: n)
  case (Cons v us)
  have "unat (n + 1) = unat n + 1" using Cons.prems by (simp add: unat_word_ariths)
  then have IH: "map_emplace (n + 1 + word_of_nat (length us)) u (entries (n + 1) us) = entries (n + 1) (us @ [u])"
    using Cons.prems by (intro Cons.IH) simp
  have "unat (n + word_of_nat (Suc (length us))) = unat n + Suc (length us)"
    using Cons.prems by (intro unat_plus_nat) simp
  then have "n < n + word_of_nat (length (v # us))" by (simp add: word_less_nat_alt del: of_nat_Suc)
  then show ?case using IH by (auto simp: add.assoc)
qed simp

lemma map_contains_end:
  "unat n + length us < 2 ^ 64 \<Longrightarrow> \<not> map_contains (n + word_of_nat (length us)) (entries n us)"
proof (induction us arbitrary: n)
  case (Cons v us)
  have "unat (n + 1) = unat n + 1" using Cons.prems by (simp add: unat_word_ariths)
  then have IH: "\<not> map_contains (n + 1 + word_of_nat (length us)) (entries (n + 1) us)"
    using Cons.prems by (intro Cons.IH) simp
  have "unat (n + word_of_nat (Suc (length us))) = unat n + Suc (length us)"
    using Cons.prems by (intro unat_plus_nat) simp
  then have "n \<noteq> n + word_of_nat (length (v # us))" by (metis add_cancel_left_right length_Cons nat.distinct(1))
  then show ?case using IH by (auto simp: map_contains_def add.assoc)
qed (simp add: map_contains_def)

text \<open>Scanning what the snapshot stream has put into the map so far.\<close>

lemma scan_snapshot_entries:
  assumes "\<forall>u \<in> set us. mu_type u \<noteq> MU_SNAPSHOT_END" and "0 < unat n" and "unat n + length us < 2 ^ 64"
  shows "scan_snapshot n (entries n us) acc = Some (acc @ us)"
  using assms
proof (induction us arbitrary: n acc)
  case (Cons u us)
  have "unat (n + 1) = unat n + 1" using Cons.prems(3) unat_plus_nat [of n 1] by simp
  moreover have "n \<noteq> 0" using Cons.prems(2) by auto
  ultimately show ?case using Cons by simp
qed simp

lemma scan_snapshot_gap_free:
  "\<exists>acc'. scan_snapshot n (entries n us) acc = Some acc'"
  by (induction us arbitrary: n acc) simp_all

text \<open>A snapshot: start message, body, end message.\<close>

definition is_snapshot_stream :: "market_update list \<Rightarrow> bool" where
  "is_snapshot_stream ms \<longleftrightarrow> (\<exists>start body end_msg. ms = start # body @ [end_msg] \<and>
     mu_type end_msg = MU_SNAPSHOT_END \<and> mu_type start \<noteq> MU_SNAPSHOT_END \<and>
     (\<forall>u \<in> set body. mu_type u \<noteq> MU_SNAPSHOT_END)) \<and> length ms < 2 ^ 64"

definition snapshot_body :: "market_update list \<Rightarrow> market_update list" where
  "snapshot_body ms = butlast (tl ms)"

lemma scan_complete_snapshot:
  assumes "is_snapshot_stream ms"
  shows "scan_snapshot 0 (entries 0 ms) [] = Some (snapshot_body ms)"
proof -
  obtain start body end_msg where ms: "ms = start # body @ [end_msg]" "mu_type end_msg = MU_SNAPSHOT_END"
    "\<forall>u \<in> set body. mu_type u \<noteq> MU_SNAPSHOT_END" "length ms < 2 ^ 64"
    using assms by (auto simp: is_snapshot_stream_def)
  have "scan_snapshot n (entries n (body @ [end_msg])) acc = Some (acc @ body)"
    if "0 < unat n" "unat n + length body < 2 ^ 64" for n acc
    using ms(3) that
  proof (induction body arbitrary: n acc)
    case (Cons u us)
    have "unat (n + 1) = unat n + 1" using Cons.prems(3) unat_plus_nat [of n 1] by simp
    moreover have "n \<noteq> 0" using Cons.prems(2) by auto
    ultimately show ?case using Cons by simp
  qed (simp add: ms(2))
  from this [of 1 "[]"] show ?thesis using ms(1,4) by (simp add: snapshot_body_def butlast_append)
qed

lemma receive_in_recovery: "in_recovery s \<Longrightarrow> receive_update b u s = queue_message b u s"
  by (cases s) (simp add: receive_update_def Let_def)

text \<open>Before the end message has arrived, a message of the snapshot is only put into the map.\<close>

lemma receive_snapshot_message:
  assumes "is_snapshot_stream ms" and "Suc k < length ms" and "in_recovery s"
    and "k = 0 \<and> (\<exists>j. snapshot_queued_msgs s = entries 0 (take j ms)) \<or>
      0 < k \<and> snapshot_queued_msgs s = entries 0 (take k ms)"
  shows "receive_update True \<lparr>cmu_sequence_number = word_of_nat k, cmu_update = ms ! k\<rparr> s =
    s\<lparr>snapshot_queued_msgs := entries 0 (take (Suc k) ms)\<rparr>"
proof -
  let ?u = "\<lparr>cmu_sequence_number = word_of_nat k :: u64, cmu_update = ms ! k\<rparr>"
  let ?t = "s\<lparr>snapshot_queued_msgs := entries 0 (take (Suc k) ms)\<rparr>"
  have len: "length ms < 2 ^ 64" "take (Suc k) ms = take k ms @ [ms ! k]"
    using assms(1,2) by (simp_all add: is_snapshot_stream_def take_Suc_conv_app_nth)
  have emplaced: "queue_message True ?u s = sync_snapshot_with_incremental ?t"
  proof (cases "k = 0")
    case True
    then obtain j where j: "snapshot_queued_msgs s = entries 0 (take j ms)" using assms(4) by auto
    have "entries 0 (take j ms) = [] \<or> map_contains 0 (entries 0 (take j ms))"
      using assms(2) by (cases j; cases ms) (simp_all add: map_contains_def)
    then show ?thesis using True j assms(2) by (cases ms) (auto simp: queue_message_def map_contains_def Let_def)
  next
    case False
    then have q: "snapshot_queued_msgs s = entries 0 (take k ms)" using assms(4) by simp
    have "length (take k ms) = k" using assms(2) by simp
    then show ?thesis using map_emplace_end [of 0 "take k ms" "ms ! k"] map_contains_end [of 0 "take k ms"] len assms(2) q
      by (simp add: queue_message_def Let_def)
  qed
  have "last (take (Suc k) ms) = ms ! k" "ms ! k \<in> set (butlast ms)"
    using len(2) assms(2) by (simp_all add: nth_butlast [symmetric] in_set_conv_nth exI [of _ k])
  moreover have "\<forall>u \<in> set (butlast ms). mu_type u \<noteq> MU_SNAPSHOT_END"
    using assms(1) by (auto simp: is_snapshot_stream_def butlast_append)
  ultimately have "mu_type (snd (last (entries 0 (take (Suc k) ms)))) \<noteq> MU_SNAPSHOT_END"
    using snd_last_entries [of "take (Suc k) ms" 0] assms(2) by fastforce
  then have "sync_snapshot_with_incremental ?t = ?t"
    using scan_snapshot_gap_free [of 0 "take (Suc k) ms" "[]"] assms(2)
    by (cases ms) (auto simp: sync_snapshot_with_incremental_def Let_def)
  then show ?thesis using emplaced receive_in_recovery [OF assms(3)] by simp
qed

lemma receive_snapshot_prefix:
  assumes "is_snapshot_stream ms" and "in_recovery s" and "snapshot_queued_msgs s = entries 0 (take i ms)"
    and "j < length ms"
  shows "fold (receive_update True) (numbered 0 (take j ms)) s =
    (if j = 0 then s else s\<lparr>snapshot_queued_msgs := entries 0 (take j ms)\<rparr>)"
  using assms(4)
proof (induction j)
  case (Suc k)
  let ?t = "if k = 0 then s else s\<lparr>snapshot_queued_msgs := entries 0 (take k ms)\<rparr>"
  have "numbered 0 (take (Suc k) ms) = numbered 0 (take k ms) @ [\<lparr>cmu_sequence_number = word_of_nat k, cmu_update = ms ! k\<rparr>]"
    using Suc.prems by (simp add: take_Suc_conv_app_nth numbered_append)
  moreover have "receive_update True \<lparr>cmu_sequence_number = word_of_nat k, cmu_update = ms ! k\<rparr> ?t =
      ?t\<lparr>snapshot_queued_msgs := entries 0 (take (Suc k) ms)\<rparr>"
    by (rule receive_snapshot_message [OF assms(1)]) (use Suc.prems assms(2,3) in auto)
  ultimately show ?case using Suc by simp
qed simp

text \<open>The increments from before the snapshot are skipped, the others taken, without a gap.\<close>

lemma scan_incremental_entries:
  assumes "unat a + length us < 2 ^ 64" and "a \<le> n" and "unat n \<le> unat a + length us"
  shows "scan_incremental n (entries a us) acc = (True, a + word_of_nat (length us), acc @ drop (unat n - unat a) us)"
  using assms
proof (induction us arbitrary: a n acc)
  case Nil
  then have "a = n" by (simp add: word_le_nat_alt word_unat_eq_iff)
  then show ?case by simp
next
  case (Cons u us)
  have a1: "unat (a + 1) = unat a + 1" using Cons.prems(1) unat_plus_nat [of a 1] by simp
  show ?case
  proof (cases "a = n")
    case True
    then show ?thesis using Cons.IH [of "a + 1" "n + 1" "acc @ [u]"] Cons.prems a1 by (simp add: add.assoc)
  next
    case False
    then have lt: "a < n" using Cons.prems(2) by simp
    then have le: "a + 1 \<le> n" using a1 by (simp add: word_le_nat_alt word_less_nat_alt)
    have "unat n - unat a = Suc (unat n - unat (a + 1))" using lt a1 by (simp add: word_less_nat_alt)
    then show ?thesis using lt Cons.IH [OF _ le, of acc] Cons.prems a1 by (simp add: add.assoc)
  qed
qed

text \<open>The end message completes the snapshot, which is joined with the queued increments.\<close>

definition recovered :: "u64 \<Rightarrow> market_update list \<Rightarrow> feed_handler \<Rightarrow> feed_handler" where
  "recovered n us s = s\<lparr>next_expected_seq := n, incoming_updates := fold enqueue us (incoming_updates s),
     snapshot_queued_msgs := [], incremental_queued_msgs := [], in_recovery := False, snapshot_closed := True\<rparr>"

lemma enqueue_eta: "(\<lambda>v q. next_write_index (put_next_write_element v q)) = enqueue"
  by (intro ext) (simp add: enqueue_def)

lemma receive_snapshot_end:
  assumes "is_snapshot_stream ms" and "in_recovery s" and "Suc k = length ms"
    and "snapshot_queued_msgs s = entries 0 (take k ms)" and "incremental_queued_msgs s = entries a us"
    and "unat a + length us < 2 ^ 64" and "a \<le> mu_order_id (last ms) + 1"
    and "unat (mu_order_id (last ms) + 1) \<le> unat a + length us"
  shows "receive_update True \<lparr>cmu_sequence_number = word_of_nat k, cmu_update = ms ! k\<rparr> s =
    recovered (a + word_of_nat (length us))
      (snapshot_body ms @ drop (unat (mu_order_id (last ms) + 1) - unat a) us) s"
proof -
  let ?u = "\<lparr>cmu_sequence_number = word_of_nat k :: u64, cmu_update = ms ! k\<rparr>"
  let ?t = "s\<lparr>snapshot_queued_msgs := entries 0 ms\<rparr>"
  have k: "length (take k ms) = k" "take k ms @ [ms ! k] = ms" "length ms < 2 ^ 64"
    using assms(1,3) by (simp_all add: is_snapshot_stream_def take_Suc_conv_app_nth [symmetric])
  have q: "queue_message True ?u s = sync_snapshot_with_incremental ?t"
    using map_emplace_end [of 0 "take k ms" "ms ! k"] map_contains_end [of 0 "take k ms"] k assms(3,4)
    by (simp add: queue_message_def Let_def)
  obtain m ms' where ms: "ms = m # ms'" using assms(3) by (cases ms) auto
  have e: "entries 0 ms = (0, m) # entries 1 ms'" by (simp add: ms)
  have last: "mu_type (snd (last (entries 0 ms))) = MU_SNAPSHOT_END" "snd (last (entries 0 ms)) = last ms"
    using snd_last_entries [of ms 0] assms(1) ms by (auto simp: is_snapshot_stream_def)
  have "sync_snapshot_with_incremental ?t = recovered (a + word_of_nat (length us))
      (snapshot_body ms @ drop (unat (mu_order_id (last ms) + 1) - unat a) us) s"
    using scan_complete_snapshot [OF assms(1)] scan_incremental_entries [OF assms(6-8), of "snapshot_body ms"] last assms(5)
    unfolding sync_snapshot_with_incremental_def
    by (simp add: e Let_def recovered_def enqueue_eta)
  then show ?thesis using q receive_in_recovery [OF assms(2)] by simp
qed

section \<open>The datagrams of a snapshot\<close>

definition receive_datagrams :: "bool \<Rightarrow> bool \<Rightarrow> u8 list list \<Rightarrow> feed_handler \<Rightarrow> feed_handler result" where
  "receive_datagrams be is_snapshot ds = rfold (\<lambda>d. feed_on_read be is_snapshot (Received d)) ds"

text \<open>\<open>t\<close> is \<open>s\<close> with a prefix of the snapshot collected.\<close>

definition collecting :: "market_update list \<Rightarrow> feed_handler \<Rightarrow> feed_handler \<Rightarrow> bool" where
  "collecting ms s t \<longleftrightarrow> (\<exists>conn i. t = (set_feed True conn s)\<lparr>snapshot_queued_msgs := entries 0 (take i ms)\<rparr> \<and>
     mc_offset conn = 0)"

lemma set_feed_queued [simp]:
  "(set_feed True x s)\<lparr>snapshot_queued_msgs := q\<rparr> = set_feed True x (s\<lparr>snapshot_queued_msgs := q\<rparr>)"
  by (cases s) (simp add: set_feed_def)

lemma collecting_prefix:
  assumes "is_snapshot_stream ms" and "list_all wire_market_update (numbered 0 ms)"
    and "length ms * sizeof_client_market_update \<le> FEED_BUFFER_SIZE"
    and "in_recovery s" and "collecting ms s t" and "j < length ms"
  shows "\<exists>t'. feed_on_read be True (Received (datagram (numbered 0 (take j ms)))) t = Inr t' \<and> collecting ms s t'"
proof -
  obtain conn i where t: "t = set_feed True conn (s\<lparr>snapshot_queued_msgs := entries 0 (take i ms)\<rparr>)" "mc_offset conn = 0"
    using assms(5) by (auto simp: collecting_def)
  let ?us = "numbered 0 (take j ms)"
  have "numbered 0 ms = ?us @ numbered (0 + word_of_nat (length (take j ms))) (drop j ms)"
    by (subst numbered_append [symmetric]) simp
  then have wire: "list_all wire_market_update ?us" using assms(2) by simp
  have "length ?us * sizeof_client_market_update \<le> length ms * sizeof_client_market_update" by (intro mult_le_mono1) simp
  then have len: "length ?us * sizeof_client_market_update \<le> FEED_BUFFER_SIZE" using assms(3) by (rule le_trans)
  have off: "mc_offset (get_feed True t) = 0" using t by simp
  from feed_on_read_messages [OF off wire len, of be] obtain conn' where
    r: "feed_on_read be True (Received (datagram ?us)) t = Inr (set_feed True conn' (fold (receive_update True) ?us t))"
    "mc_offset conn' = 0" unfolding datagram_def by blast
  have "fold (receive_update True) ?us t = set_feed True conn (s\<lparr>snapshot_queued_msgs := entries 0 (take (if j = 0 then i else j) ms)\<rparr>)"
    unfolding t(1) fold_receive_set_feed
    by (subst receive_snapshot_prefix [OF assms(1) _ _ assms(6), of _ i]) (simp_all add: assms(4))
  then have "set_feed True conn' (fold (receive_update True) ?us t) =
      set_feed True conn' (s\<lparr>snapshot_queued_msgs := entries 0 (take (if j = 0 then i else j) ms)\<rparr>)" by simp
  then have "collecting ms s (set_feed True conn' (fold (receive_update True) ?us t))"
    unfolding collecting_def using r(2) by (metis set_feed_queued)
  then show ?thesis using r(1) by blast
qed

lemma collecting_complete:
  assumes "is_snapshot_stream ms" and "list_all wire_market_update (numbered 0 ms)"
    and "length ms * sizeof_client_market_update \<le> FEED_BUFFER_SIZE"
    and "in_recovery s" and "collecting ms s t" and "incremental_queued_msgs s = entries a us"
    and "unat a + length us < 2 ^ 64" and "a \<le> mu_order_id (last ms) + 1"
    and "unat (mu_order_id (last ms) + 1) \<le> unat a + length us"
  shows "\<exists>conn. feed_on_read be True (Received (datagram (numbered 0 ms))) t =
    Inr (set_feed True conn (recovered (a + word_of_nat (length us))
      (snapshot_body ms @ drop (unat (mu_order_id (last ms) + 1) - unat a) us) s)) \<and> mc_offset conn = 0"
proof -
  obtain conn i where t: "t = set_feed True conn (s\<lparr>snapshot_queued_msgs := entries 0 (take i ms)\<rparr>)" "mc_offset conn = 0"
    using assms(5) by (auto simp: collecting_def)
  obtain k where k: "Suc k = length ms" "k < length ms" using assms(1) by (cases ms) (auto simp: is_snapshot_stream_def)
  have split: "numbered 0 ms = numbered 0 (take k ms) @ [\<lparr>cmu_sequence_number = word_of_nat k, cmu_update = ms ! k\<rparr>]"
  proof -
    have "take k ms @ [ms ! k] = ms" using k take_Suc_conv_app_nth [of k ms] by simp
    then show ?thesis using numbered_append [of 0 "take k ms" "[ms ! k]"] k by simp
  qed
  let ?s1 = "if k = 0 then s\<lparr>snapshot_queued_msgs := entries 0 (take i ms)\<rparr> else s\<lparr>snapshot_queued_msgs := entries 0 (take k ms)\<rparr>"
  have "0 < k" using k(1) assms(1) by (auto simp: is_snapshot_stream_def)
  then have "fold (receive_update True) (numbered 0 (take k ms)) (s\<lparr>snapshot_queued_msgs := entries 0 (take i ms)\<rparr>) =
      s\<lparr>snapshot_queued_msgs := entries 0 (take k ms)\<rparr>"
    by (subst receive_snapshot_prefix [OF assms(1) _ _ k(2), of _ i]) (simp_all add: assms(4))
  moreover have "receive_update True \<lparr>cmu_sequence_number = word_of_nat k, cmu_update = ms ! k\<rparr>
        (s\<lparr>snapshot_queued_msgs := entries 0 (take k ms)\<rparr>) =
      recovered (a + word_of_nat (length us)) (snapshot_body ms @ drop (unat (mu_order_id (last ms) + 1) - unat a) us)
        (s\<lparr>snapshot_queued_msgs := entries 0 (take k ms)\<rparr>)"
    by (rule receive_snapshot_end [OF assms(1) _ k(1) _ _ assms(7-9)]) (simp_all add: assms(4,6))
  moreover have "recovered n vs (s\<lparr>snapshot_queued_msgs := q\<rparr>) = recovered n vs s" for n vs q
    by (simp add: recovered_def)
  ultimately have all: "fold (receive_update True) (numbered 0 ms) t = set_feed True conn (recovered (a + word_of_nat (length us))
      (snapshot_body ms @ drop (unat (mu_order_id (last ms) + 1) - unat a) us) s)"
    unfolding t(1) fold_receive_set_feed split fold_append by simp
  have off: "mc_offset (get_feed True t) = 0" using t by simp
  have len: "length (numbered 0 ms) * sizeof_client_market_update \<le> FEED_BUFFER_SIZE" using assms(3) by simp
  from feed_on_read_messages [OF off assms(2) len, of be] show ?thesis unfolding datagram_def [symmetric] all by auto
qed

lemma receive_snapshot_datagrams:
  assumes "is_snapshot_stream ms" and "list_all wire_market_update (numbered 0 ms)"
    and "length ms * sizeof_client_market_update \<le> FEED_BUFFER_SIZE"
    and "in_recovery s" and "snapshot_queued_msgs s = []" and "mc_offset (snapshot_feed s) = 0"
    and "incremental_queued_msgs s = entries a us" and "unat a + length us < 2 ^ 64"
    and "a \<le> mu_order_id (last ms) + 1" and "unat (mu_order_id (last ms) + 1) \<le> unat a + length us"
    and "\<forall>d \<in> set ds. \<exists>j < length ms. d = datagram (numbered 0 (take j ms))"
  shows "\<exists>conn. receive_datagrams be True (ds @ [datagram (numbered 0 ms)]) s =
    Inr (set_feed True conn (recovered (a + word_of_nat (length us))
      (snapshot_body ms @ drop (unat (mu_order_id (last ms) + 1) - unat a) us) s)) \<and> mc_offset conn = 0"
proof -
  have "s = (set_feed True (snapshot_feed s) s)\<lparr>snapshot_queued_msgs := entries 0 (take 0 ms)\<rparr>"
    using assms(5) by (cases s) (simp add: set_feed_def)
  then have "collecting ms s s" unfolding collecting_def using assms(6) by blast
  then have "\<exists>t. rfold (\<lambda>d. feed_on_read be True (Received d)) ds s = Inr t \<and> collecting ms s t"
  proof (rule rfold_rule [where P = "\<lambda>_ t. collecting ms s t"])
    fix pre d t
    assume t: "collecting ms s t" and "d \<in> set ds"
    then obtain j where "j < length ms" "d = datagram (numbered 0 (take j ms))" using assms(11) by blast
    then show "\<exists>t'. feed_on_read be True (Received d) t = Inr t' \<and> collecting ms s t'"
      using collecting_prefix [OF assms(1-4) t, of j be] by simp
  qed
  then obtain t where t: "rfold (\<lambda>d. feed_on_read be True (Received d)) ds s = Inr t" "collecting ms s t" by blast
  then show ?thesis using collecting_complete [OF assms(1-4) t(2) assms(7-10), of be]
    by (auto simp: receive_datagrams_def rfold_append)
qed

end
