(* ===== verification/FeedHandlerProperties.thy ===== *)
theory FeedHandlerProperties
  imports FeedRecovery MarketDataFlow
begin

text \<open>
  The market data path from end to end: what a trading client sees of the updates the exchange
  published, in sequence and after a gap.
\<close>

section \<open>Replaying updates\<close>

text \<open>What a client does with updates: \<open>CLEAR\<close> empties the instrument, the rest is as in the exchange.\<close>

definition replay :: "market_update \<Rightarrow> table \<Rightarrow> table" where
  "replay u T = (if mu_type u = MU_CLEAR then T(unat (mu_instrument_id u) := (\<lambda>_. None)) else apply_update u T)"

definition update_ok :: "market_update \<Rightarrow> bool" where
  "update_ok u \<longleftrightarrow> mu_type u \<in> {MU_ADD, MU_MODIFY, MU_CANCEL, MU_TRADE} \<and> wire_side (mu_side u)"

definition table_ok :: "table \<Rightarrow> bool" where
  "table_ok T \<longleftrightarrow> (\<forall>i j u. T i j = Some u \<longrightarrow> mu_type u = MU_ADD \<and> wire_side (mu_side u) \<and>
     unat (mu_instrument_id u) = i \<and> unat (mu_order_id u) = j \<and> j < MAX_NUM_ORDERS)"

lemma table_ok_empty [simp]: "table_ok no_updates"
  by (simp add: table_ok_def)

lemma table_ok_apply:
  assumes "table_ok T" and "consistent k u T" and "update_ok u"
  shows "table_ok (apply_update u T)"
  using assms unfolding table_ok_def consistent_def apply_update_def update_ok_def Let_def
  by (auto split: if_splits option.splits)

lemma table_ok_fold:
  "table_ok T \<Longrightarrow> all_consistent k us T \<Longrightarrow> list_all update_ok us \<Longrightarrow> table_ok (fold apply_update us T)"
  by (induction us arbitrary: k T) (auto intro: table_ok_apply)

lemma apply_update_local: "T i = U i \<Longrightarrow> apply_update u T i = apply_update u U i"
  unfolding apply_update_def Let_def by (cases "mu_type u") (auto simp: fun_eq_iff)

lemma fold_apply_update_local: "T i = U i \<Longrightarrow> fold apply_update us T i = fold apply_update us U i"
proof (induction us arbitrary: T U)
  case (Cons u us)
  show ?case using Cons.IH [of "apply_update u T" "apply_update u U"] apply_update_local [of T i U u] Cons.prems by simp
qed simp

lemma fold_replay_updates: "list_all update_ok us \<Longrightarrow> fold replay us T = fold apply_update us T"
  by (induction us arbitrary: T) (auto simp: replay_def update_ok_def)

text \<open>Replaying the messages of one instrument sets its table.\<close>

lemma replay_stored:
  assumes "table_ok T"
  shows "fold replay (List.map_filter (T i) [0..<n]) U = U(i := (\<lambda>j. if j < n \<and> T i j \<noteq> None then T i j else U i j))"
proof (induction n)
  case (Suc n)
  have "fold replay (List.map_filter (T i) [0..<Suc n]) U =
      fold replay (case T i n of None \<Rightarrow> [] | Some u \<Rightarrow> [u]) (fold replay (List.map_filter (T i) [0..<n]) U)"
    by (simp add: map_filter_def split: option.split)
  also have "\<dots> = U(i := (\<lambda>j. if j < Suc n \<and> T i j \<noteq> None then T i j else U i j))"
  proof (cases "T i n")
    case None
    then show ?thesis unfolding Suc by (auto simp: fun_eq_iff less_Suc_eq)
  next
    case (Some u)
    then have "mu_type u = MU_ADD" "unat (mu_instrument_id u) = i" "unat (mu_order_id u) = n"
      using assms by (auto simp: table_ok_def)
    then show ?thesis unfolding Suc using Some by (auto simp: replay_def apply_update_def Let_def fun_eq_iff less_Suc_eq)
  qed
  finally show ?case .
qed simp

lemma replay_table:
  assumes "table_ok T" and "n \<le> MAX_NUM_INSTRUMENTS"
  shows "fold replay (concat (map (\<lambda>i. clear_message i # List.map_filter (T i) [0..<MAX_NUM_ORDERS]) [0..<n])) U =
    (\<lambda>i. if i < n then T i else U i)"
  using assms(2)
proof (induction n)
  case (Suc n)
  have id: "unat (word_of_nat n :: 8 word) = n" using Suc.prems by (simp add: unat_of_nat model_constants)
  have none: "T n j = None" if "\<not> j < MAX_NUM_ORDERS" for j
    using assms(1) that unfolding table_ok_def by (meson option.exhaust)
  have "replay (clear_message n) V = V(n := (\<lambda>_. None))" for V
    using id by (simp add: replay_def clear_message_def)
  then have "fold replay (clear_message n # List.map_filter (T n) [0..<MAX_NUM_ORDERS]) V = V(n := T n)" for V
    using replay_stored [OF assms(1), of n MAX_NUM_ORDERS] none by (auto simp: fun_eq_iff)
  then show ?case using Suc by (auto simp: fun_eq_iff less_Suc_eq)
qed simp

lemma wire_numbered: "list_all wire_market_update (numbered n us) \<longleftrightarrow>
    (\<forall>u \<in> set us. wire_market_update_type (mu_type u) \<and> wire_side (mu_side u))"
  by (induction us arbitrary: n) (auto simp: wire_market_update_def)

section \<open>The published snapshot as a stream\<close>

lemma snapshot_messages_stream:
  assumes "synth_ok s" and "table_ok (table_of s)"
  shows "is_snapshot_stream (snapshot_messages s)"
    and "snapshot_body (snapshot_messages s) = table_messages s [0..<MAX_NUM_INSTRUMENTS]"
    and "mu_order_id (last (snapshot_messages s)) = last_inc_seq_num s"
    and "list_all wire_market_update (numbered 0 (snapshot_messages s))"
    and "length (snapshot_messages s) \<le> 2058"
proof -
  let ?tm = "table_messages s [0..<MAX_NUM_INSTRUMENTS]"
  have stored: "mu_type u = MU_ADD \<and> wire_side (mu_side u)" if "u \<in> set (instrument_updates i s)" for u i
    using that assms(2) by (auto simp: instrument_updates_table map_filter_def table_ok_def)
  then have body: "\<forall>u \<in> set ?tm. mu_type u \<in> {MU_ADD, MU_CLEAR} \<and> wire_side (mu_side u)"
    by (auto simp: table_messages_def clear_message_def default_market_update_def)
  have "length ?tm \<le> 2056" using table_messages_bound [OF assms(1)] synth_blocks_bound [OF assms(1)]
    by (simp add: model_constants)
  then show len: "length (snapshot_messages s) \<le> 2058" by (simp add: snapshot_messages_def)
  show "is_snapshot_stream (snapshot_messages s)" using body len
    by (auto simp: is_snapshot_stream_def snapshot_messages_def start_message_def end_message_def)
  show "snapshot_body (snapshot_messages s) = ?tm"
    by (simp add: snapshot_body_def snapshot_messages_def butlast_append)
  show "mu_order_id (last (snapshot_messages s)) = last_inc_seq_num s"
    by (simp add: snapshot_messages_def end_message_def)
  have "\<forall>u \<in> set (snapshot_messages s). wire_market_update_type (mu_type u) \<and> wire_side (mu_side u)"
    using body by (auto simp: snapshot_messages_def start_message_def end_message_def default_market_update_def)
  then show "list_all wire_market_update (numbered 0 (snapshot_messages s))"
    by (simp add: wire_numbered)
qed

section \<open>End to end\<close>

text \<open>The instances below: two orders added, the first then reduced.\<close>

definition sample_add :: "u64 \<Rightarrow> market_update" where
  "sample_add n = default_market_update\<lparr>mu_type := MU_ADD, mu_order_id := n, mu_instrument_id := 0, mu_side := BUY,
     mu_price := 100, mu_qty := 10\<rparr>"

definition three_updates :: "market_update list" where
  "three_updates = [sample_add 1, sample_add 2, (sample_add 1)\<lparr>mu_type := MU_MODIFY, mu_qty := 4\<rparr>]"

lemma three_updates_ok:
  "list_all update_ok three_updates" "all_consistent 0 three_updates no_updates" "length three_updates = 3"
  by (simp_all add: three_updates_def sample_add_def update_ok_def default_market_update_def) code_simp

definition waiting_client :: "feed_handler" where
  "waiting_client = (feed_handler_init (lock_free_queue_init 4096 default_market_update))
     \<lparr>next_expected_seq := 2, in_recovery := True, snapshot_started := True,
      incremental_queued_msgs := entries 2 (tl three_updates)\<rparr>"

text \<open>
  C27: in sequence, a client gets exactly what the engine sent: the publisher sends all waiting
  updates as one datagram, and a feed handler that expects the publisher's next number forwards
  them all, in order, and expects the publisher's following number.
\<close>

theorem client_follows_publisher:
  assumes "queue_inv q" and "queue_items q \<noteq> []" and "next_send_valid_index p = 0"
    and "q_size q \<le> MAX_MARKET_UPDATES" and "queue_inv (snapshot_market_update_queue p)"
    and "length (queue_items (snapshot_market_update_queue p)) + length (queue_items q)
      \<le> q_size (snapshot_market_update_queue p)"
    and "list_all update_ok (queue_items q)"
    and "\<not> in_recovery h" and "next_expected_seq h = next_inc_seq_num p" and "mc_offset (incremental_feed h) = 0"
    and "queue_inv (incoming_updates h)"
    and "length (queue_items (incoming_updates h)) + length (queue_items q) \<le> q_size (incoming_updates h)"
  shows "\<exists>q' p' d h'. process_and_publish be q p = Inr (q', p') \<and> sent p' = sent p @ [d] \<and>
    feed_on_read be' False (Received d) h = Inr h' \<and>
    queue_items (incoming_updates h') = queue_items (incoming_updates h) @ queue_items q \<and>
    \<not> in_recovery h' \<and> next_expected_seq h' = next_inc_seq_num p' \<and> mc_offset (incremental_feed h') = 0"
proof -
  let ?us = "queue_items q"
  let ?d = "datagram (numbered (next_inc_seq_num p) ?us)"
  obtain q' p' where p: "process_and_publish be q p = Inr (q', p')" "sent p' = sent p @ [?d]"
    "next_inc_seq_num p' = next_inc_seq_num p + word_of_nat (length ?us)"
    using process_and_publish_ok [OF assms(1-6)] by blast
  have off: "mc_offset (get_feed False h) = 0" using assms(10) by (simp add: get_feed_def)
  have wire: "list_all wire_market_update (numbered (next_inc_seq_num p) ?us)"
    unfolding wire_numbered using assms(7) by (auto simp: update_ok_def list_all_iff)
  have "length ?us \<le> MAX_MARKET_UPDATES" using assms(1,4) by (simp add: queue_inv_def)
  then have len: "length (numbered (next_inc_seq_num p) ?us) * sizeof_client_market_update \<le> FEED_BUFFER_SIZE"
    by (simp add: model_constants sizeof_defs)
  obtain conn where r: "feed_on_read be' False (Received ?d) h = Inr (set_feed False conn
      (fold (receive_update False) (numbered (next_inc_seq_num p) ?us) h))" "mc_offset conn = 0"
    using feed_on_read_messages [OF off wire len] unfolding datagram_def by blast
  have "queue_items (fold enqueue ?us (incoming_updates h)) = queue_items (incoming_updates h) @ ?us"
    using lfq.fold_put [OF assms(11,12)] by simp
  then show ?thesis using p r receive_in_sequence [OF assms(8), of ?us] assms(8,9)
    by (auto simp: set_feed_def)
qed

theorem client_follows_publisher_witness:
  "\<exists>q p d h. process_and_publish False (fold enqueue three_updates (lock_free_queue_init 4 default_market_update))
      market_data_publisher_init = Inr (q, p) \<and> sent p = [d] \<and>
    feed_on_read True False (Received d) (feed_handler_init (lock_free_queue_init 8 default_market_update)) = Inr h \<and>
    queue_items (incoming_updates h) = three_updates"
proof -
  let ?q = "fold enqueue three_updates (lock_free_queue_init 4 default_market_update)"
  let ?h = "feed_handler_init (lock_free_queue_init 8 default_market_update)"
  let ?p = market_data_publisher_init
  have q: "queue_inv ?q" "queue_items ?q = three_updates" "q_size ?q = 4"
    using filled_queue [of 4 three_updates] three_updates_ok(3) by simp_all
  have p: "queue_inv (snapshot_market_update_queue ?p)" "q_size (snapshot_market_update_queue ?p) = MAX_MARKET_UPDATES"
    "queue_items (snapshot_market_update_queue ?p) = []" "next_send_valid_index ?p = 0" "next_inc_seq_num ?p = 1" "sent ?p = []"
    by (simp_all add: market_data_publisher_init_def queue_init_inv model_constants)
  have h: "\<not> in_recovery ?h" "next_expected_seq ?h = 1" "mc_offset (incremental_feed ?h) = 0" "queue_inv (incoming_updates ?h)"
    "queue_items (incoming_updates ?h) = []" "q_size (incoming_updates ?h) = 8"
    by (simp_all add: feed_handler_init_def multicast_connection_init_def queue_init_inv)
  have "three_updates \<noteq> []" "(3::nat) \<le> MAX_MARKET_UPDATES" "(4::nat) \<le> MAX_MARKET_UPDATES"
    by (simp_all add: three_updates_def model_constants)
  with client_follows_publisher [where q = ?q and p = ?p and h = ?h and be = False and be' = True] q p h three_updates_ok
  show ?thesis by auto
qed

text \<open>
  C28: recovery is complete. The synthesizer has seen the first \<open>k\<close> of the updates \<open>us\<close>; a client
  in recovery has queued the increments from number \<open>a\<close> on, without a gap up to the end of \<open>us\<close>,
  and the snapshot overlaps them. Once the client has received the datagrams of the next
  snapshot, it is in sequence again, and whatever table it starts from, replaying what it is
  handed yields the exchange's table after all of \<open>us\<close>.
\<close>

theorem client_recovers:
  assumes "synth_ok y" and "next_send_valid_index y = 0" and "table_of y = fold apply_update (take k us) no_updates"
    and "last_inc_seq_num y = word_of_nat k" and "all_consistent 0 us no_updates" and "list_all update_ok us"
    and "k \<le> length us" and "length us + 1 < 2 ^ 64" and "1 \<le> a" and "a \<le> k + 1"
    and "in_recovery h" and "snapshot_queued_msgs h = []" and "mc_offset (snapshot_feed h) = 0"
    and "incremental_queued_msgs h = entries (word_of_nat a) (drop (a - 1) us)"
    and "queue_inv (incoming_updates h)"
    and "length (queue_items (incoming_updates h)) + 2058 + length us \<le> q_size (incoming_updates h)"
  shows "\<exists>y' ds h' received. publish_snapshot be y = Inr y' \<and> sent y' = sent y @ ds \<and>
    receive_datagrams be' True ds h = Inr h' \<and> \<not> in_recovery h' \<and>
    next_expected_seq h' = word_of_nat (length us + 1) \<and>
    queue_items (incoming_updates h') = queue_items (incoming_updates h) @ received \<and>
    (\<forall>T i. i < MAX_NUM_INSTRUMENTS \<longrightarrow> fold replay received T i = fold apply_update us no_updates i)"
proof -
  let ?ms = "snapshot_messages y" and ?incs = "drop (a - 1) us"
  obtain b ds where pub: "publish_snapshot be y = Inr (y\<lparr>send_buffer := b, sent := sent y @ ds @ [datagram (numbered 0 ?ms)]\<rparr>)"
    and prefixes: "\<forall>d \<in> set ds. \<exists>j < length ?ms. d = datagram (numbered 0 (take j ?ms))"
    using publish_snapshot_ok [OF assms(1,2), of be] by auto
  have "all_consistent 0 (take k us @ drop k us) no_updates" "list_all update_ok (take k us @ drop k us)"
    using assms(5,6) by simp_all
  then have parts: "all_consistent 0 (take k us) no_updates" "list_all update_ok (take k us)" "list_all update_ok (drop k us)"
    unfolding all_consistent_append list_all_append by blast+
  have tok: "table_ok (table_of y)" unfolding assms(3) by (rule table_ok_fold [OF table_ok_empty parts(1,2)])
  note st = snapshot_messages_stream [OF assms(1) tok]
  have size: "length ?ms * sizeof_client_market_update \<le> FEED_BUFFER_SIZE" using st(5) by (simp add: model_constants sizeof_defs)
  have n: "unat (word_of_nat a :: u64) = a" "unat (mu_order_id (last ?ms) + 1) = k + 1" "length ?incs = length us - (a - 1)"
    using assms(4,7-10) unat_plus_nat [of "word_of_nat k" 1] by (simp_all add: st(3) unat_of_nat)
  have bounds: "unat (word_of_nat a :: u64) + length ?incs < 2 ^ 64" "word_of_nat a \<le> mu_order_id (last ?ms) + 1"
    "unat (mu_order_id (last ?ms) + 1) \<le> unat (word_of_nat a :: u64) + length ?incs"
    using n assms(7-10) by (simp_all add: word_le_nat_alt)
  let ?rest = "drop (unat (mu_order_id (last ?ms) + 1) - unat (word_of_nat a :: u64)) ?incs"
  let ?received = "snapshot_body ?ms @ ?rest"
  obtain conn where feed: "receive_datagrams be' True (ds @ [datagram (numbered 0 ?ms)]) h = Inr (set_feed True conn
      (recovered (word_of_nat a + word_of_nat (length ?incs)) ?received h))"
    using receive_snapshot_datagrams [OF st(1,4) size assms(11-14) bounds prefixes] by blast
  have rest: "?rest = drop k us" using n(1,2) assms(9,10) by (simp add: drop_drop)
  have "length ?received \<le> 2058 + length us" using st(5) by (simp add: snapshot_body_def rest)
  then have "queue_items (fold enqueue ?received (incoming_updates h)) = queue_items (incoming_updates h) @ ?received"
    using lfq.fold_put [OF assms(15), of ?received] assms(16) by linarith
  moreover have "word_of_nat a + word_of_nat (length ?incs) = (word_of_nat (length us + 1) :: u64)"
    using n(3) assms(7,9,10) by (simp flip: of_nat_add)
  moreover have "fold replay ?received T i = fold apply_update us no_updates i" if "i < MAX_NUM_INSTRUMENTS" for T i
  proof -
    have "fold replay (snapshot_body ?ms) T i = table_of y i"
      using replay_table [OF tok order_refl, of T] that unfolding st(2) table_messages_def instrument_updates_table by simp
    then have "fold apply_update (drop k us) (fold replay (snapshot_body ?ms) T) i = fold apply_update (drop k us) (table_of y) i"
      by (rule fold_apply_update_local)
    then have "fold replay ?received T i = (fold apply_update (drop k us) \<circ> fold apply_update (take k us)) no_updates i"
      unfolding rest fold_append comp_apply fold_replay_updates [OF parts(3)] assms(3) .
    then show ?thesis unfolding fold_append [symmetric] append_take_drop_id .
  qed
  ultimately show ?thesis using pub feed
    by (intro exI [of _ "y\<lparr>send_buffer := b, sent := sent y @ ds @ [datagram (numbered 0 ?ms)]\<rparr>"]
        exI [of _ "ds @ [datagram (numbered 0 ?ms)]"] exI [of _ "set_feed True conn
      (recovered (word_of_nat a + word_of_nat (length ?incs)) ?received h)"] exI [of _ ?received])
      (simp add: recovered_def)
qed

theorem client_recovers_witness:
  "\<exists>y y' ds h' received. publish_snapshot False y = Inr y' \<and> sent y' = sent y @ ds \<and>
    receive_datagrams False True ds waiting_client = Inr h' \<and> \<not> in_recovery h' \<and>
    queue_items (incoming_updates h') = received \<and>
    fold replay received no_updates 0 1 = Some ((sample_add 1)\<lparr>mu_qty := 4\<rparr>)"
proof -
  obtain y0 where y0: "snapshot_synthesizer_init = Inr y0" "synth_ok y0" "table_of y0 = no_updates" "blocks_in_use y0 = 0"
    "last_inc_seq_num y0 = 0" "next_send_valid_index y0 = 0" using snapshot_synthesizer_init_ok by blast
  let ?q = "fold enqueue (numbered 1 (take 2 three_updates)) (lock_free_queue_init 4 \<lparr>cmu_sequence_number = 0, cmu_update = default_market_update\<rparr>)"
  have q: "queue_inv ?q" "queue_items ?q = numbered (last_inc_seq_num y0 + 1) (take 2 three_updates)"
    using filled_queue [of 4 "numbered 1 (take 2 three_updates)"] three_updates_ok(3) y0(5) by simp_all
  have "all_consistent 0 (take 2 three_updates) no_updates" by code_simp
  then have c: "all_consistent (blocks_in_use y0) (take 2 three_updates) (table_of y0)" using y0(3,4) by simp
  obtain y where y: "synth_ok y" "table_of y = fold apply_update (take 2 three_updates) no_updates" "last_inc_seq_num y = word_of_nat 2"
    "next_send_valid_index y = 0"
    using process_client_market_update_ok [OF q y0(2) c] y0(3,5,6) three_updates_ok(3) by (auto simp: quiet_def)
  have h: "in_recovery waiting_client" "snapshot_queued_msgs waiting_client = []" "mc_offset (snapshot_feed waiting_client) = 0"
    "incremental_queued_msgs waiting_client = entries (word_of_nat 2) (drop (2 - 1) three_updates)"
    "queue_inv (incoming_updates waiting_client)" "queue_items (incoming_updates waiting_client) = []"
    "q_size (incoming_updates waiting_client) = 4096"
    by (simp_all add: waiting_client_def feed_handler_init_def multicast_connection_init_def queue_init_inv drop_Suc)
  have n: "(2::nat) \<le> length three_updates" "length three_updates + 1 < 2 ^ 64" "(1::nat) \<le> 2" "(2::nat) \<le> 2 + 1"
    "length (queue_items (incoming_updates waiting_client)) + 2058 + length three_updates \<le> q_size (incoming_updates waiting_client)"
    using three_updates_ok(3) h(6,7) by simp_all
  have "fold apply_update three_updates no_updates 0 1 = Some ((sample_add 1)\<lparr>mu_qty := 4\<rparr>)" by code_simp
  moreover obtain y' ds h' received where r: "publish_snapshot False y = Inr y'" "sent y' = sent y @ ds"
    "receive_datagrams False True ds waiting_client = Inr h'" "\<not> in_recovery h'"
    "queue_items (incoming_updates h') = queue_items (incoming_updates waiting_client) @ received"
    "\<forall>T i. i < MAX_NUM_INSTRUMENTS \<longrightarrow> fold replay received T i = fold apply_update three_updates no_updates i"
    using client_recovers [OF y(1,4,2,3) three_updates_ok(2,1) n(1-4) h(1-5) n(5), of False False]
    by (elim exE conjE) (rule that)
  have "0 < MAX_NUM_INSTRUMENTS" by (simp add: model_constants)
  then have "fold replay received no_updates 0 = fold apply_update three_updates no_updates 0" using r(6) by blast
  ultimately have "fold replay received no_updates 0 1 = Some ((sample_add 1)\<lparr>mu_qty := 4\<rparr>)" by simp
  moreover have "queue_items (incoming_updates h') = received" using r(5) h(6) by simp
  ultimately show ?thesis using r(1-4) by blast
qed

text \<open>
  C29: there is only one recovery. After it the snapshot handle is closed and is not opened
  again (a closed handle calls no callback), so after the next gap only increments arrive, and
  whatever they are, the client stays in recovery and none of them is forwarded.
\<close>

theorem no_second_recovery:
  assumes "\<not> in_recovery h" and "snapshot_closed h" and "cmu_sequence_number u \<noteq> next_expected_seq h"
  shows "in_recovery (fold (receive_update False) (u # us) h) \<and>
    snapshot_closed (fold (receive_update False) (u # us) h) \<and>
    incoming_updates (fold (receive_update False) (u # us) h) = incoming_updates h"
proof -
  have stuck: "in_recovery (fold (receive_update False) us s) \<and> snapshot_closed (fold (receive_update False) us s) \<and>
      incoming_updates (fold (receive_update False) us s) = incoming_updates s"
    if "in_recovery s" "snapshot_queued_msgs s = []" "snapshot_closed s" for s
    using that
  proof (induction us arbitrary: s)
    case (Cons v us)
    let ?t = "s\<lparr>incremental_queued_msgs := map_emplace (cmu_sequence_number v) (cmu_update v) (incremental_queued_msgs s)\<rparr>"
    have "receive_update False v s = ?t"
      using receive_in_recovery [OF Cons.prems(1)] Cons.prems(2)
      by (simp add: queue_message_def Let_def sync_snapshot_with_incremental_def)
    then show ?case using Cons.IH [of ?t] Cons.prems by simp
  qed simp
  let ?s = "h\<lparr>in_recovery := True, snapshot_started := True, snapshot_queued_msgs := [], incremental_queued_msgs := [(cmu_sequence_number u, cmu_update u)]\<rparr>"
  have "receive_update False u h = ?s" using assms
    by (cases h) (simp add: receive_update_def Let_def queue_message_def sync_snapshot_with_incremental_def)
  then show ?thesis using stuck [of ?s] assms(2) by simp
qed

theorem no_second_recovery_witness:
  "in_recovery (fold (receive_update False) (numbered 9 three_updates)
     ((feed_handler_init (lock_free_queue_init 8 default_market_update))\<lparr>snapshot_closed := True\<rparr>))"
  using no_second_recovery [where h = "(feed_handler_init (lock_free_queue_init 8 default_market_update))\<lparr>snapshot_closed := True\<rparr>"
      and u = "hd (numbered 9 three_updates)" and us = "tl (numbered 9 three_updates)"]
  by (simp add: feed_handler_init_def three_updates_def)

end
