(* ===== verification/MarketOrderBook.thy ===== *)
theory MarketOrderBook
  imports MemoryPool
begin

text \<open>
  The trading client's \<open>trading_engine/market_order.hpp\<close>, \<open>market_order_book.hpp\<close> and
  \<open>.cpp\<close>: the book of one instrument that a client rebuilds from market updates, on the heap
  the code uses, and its best bid and offer. The calls to the trade engine at the end of
  \<open>on_market_update\<close> are returned.
\<close>

section \<open>Orders, levels and the best prices (market\_order.hpp)\<close>

record market_order =
  m_market_order_id :: order_id_t
  m_side :: side_t
  m_price :: price_t
  m_qty :: quantity_t
  m_priority :: priority_t
  m_prev_order :: ptr
  m_next_order :: ptr

definition default_market_order :: market_order where
  "default_market_order = \<lparr>m_market_order_id = INVALID_ORDER_ID, m_side = SIDE_INVALID, m_price = INVALID_PRICE,
     m_qty = INVALID_QUANTITY, m_priority = INVALID_PRIORITY, m_prev_order = None, m_next_order = None\<rparr>"

record market_price_level =
  ml_side :: side_t
  ml_price :: price_t
  ml_first_order :: ptr
  ml_prev_entry :: ptr
  ml_next_entry :: ptr

definition default_market_price_level :: market_price_level where
  "default_market_price_level = \<lparr>ml_side = SIDE_INVALID, ml_price = INVALID_PRICE, ml_first_order = None,
     ml_prev_entry = None, ml_next_entry = None\<rparr>"

record bbo_t =
  bid_price :: price_t
  ask_price :: price_t
  bid_qty :: quantity_t
  ask_qty :: quantity_t

definition default_bbo :: bbo_t where
  "default_bbo = \<lparr>bid_price = INVALID_PRICE, ask_price = INVALID_PRICE, bid_qty = INVALID_QUANTITY, ask_qty = INVALID_QUANTITY\<rparr>"

section \<open>The book (market\_order\_book.hpp)\<close>

record market_order_book =
  mb_instrument_id :: instrument_id_t
  mb_orders :: "nat \<Rightarrow> ptr"
  mb_price_level_pool :: "market_price_level memory_pool"
  mb_bid :: ptr
  mb_ask :: ptr
  mb_price_levels :: "nat \<Rightarrow> ptr"
  mb_order_pool :: "market_order memory_pool"
  mb_bbo :: bbo_t

definition market_order_book_init :: "instrument_id_t \<Rightarrow> market_order_book result" where
  "market_order_book_init i =
     rbind (memory_pool_init MAX_PRICE_LEVELS default_market_price_level) (\<lambda>lp.
     rbind (memory_pool_init MAX_NUM_ORDERS default_market_order) (\<lambda>op.
     Inr \<lparr>mb_instrument_id = i, mb_orders = (\<lambda>_. None), mb_price_level_pool = lp, mb_bid = None, mb_ask = None,
          mb_price_levels = (\<lambda>_. None), mb_order_pool = op, mb_bbo = default_bbo\<rparr>))"

definition mb_level_at :: "market_order_book \<Rightarrow> nat \<Rightarrow> market_price_level" where
  "mb_level_at s = pool_get (mb_price_level_pool s)"

definition mb_order_at :: "market_order_book \<Rightarrow> nat \<Rightarrow> market_order" where
  "mb_order_at s = pool_get (mb_order_pool s)"

definition mb_set_level :: "nat \<Rightarrow> (market_price_level \<Rightarrow> market_price_level) \<Rightarrow> market_order_book \<Rightarrow> market_order_book" where
  "mb_set_level a f s = s\<lparr>mb_price_level_pool := pool_set a f (mb_price_level_pool s)\<rparr>"

definition mb_set_order :: "nat \<Rightarrow> (market_order \<Rightarrow> market_order) \<Rightarrow> market_order_book \<Rightarrow> market_order_book" where
  "mb_set_order a f s = s\<lparr>mb_order_pool := pool_set a f (mb_order_pool s)\<rparr>"

definition mb_best :: "side_t \<Rightarrow> market_order_book \<Rightarrow> ptr" where
  "mb_best sd s = (if sd = BUY then mb_bid s else mb_ask s)"

definition mb_set_best :: "side_t \<Rightarrow> ptr \<Rightarrow> market_order_book \<Rightarrow> market_order_book" where
  "mb_set_best sd p s = (if sd = BUY then s\<lparr>mb_bid := p\<rparr> else s\<lparr>mb_ask := p\<rparr>)"

definition mb_price_to_index :: "price_t \<Rightarrow> nat" where
  "mb_price_to_index p = unat p mod MAX_PRICE_LEVELS"

text \<open>Unlike the exchange's book, the level found is not checked to be of the order's side.\<close>

definition mb_get_price_level :: "price_t \<Rightarrow> market_order_book \<Rightarrow> ptr" where
  "mb_get_price_level p s = mb_price_levels s (mb_price_to_index p)"

section \<open>Best bid and offer\<close>

text \<open>The loop of \<open>update_side\<close> over the orders of a level, until it is back at the first.\<close>

fun sum_orders :: "nat \<Rightarrow> nat \<Rightarrow> ptr \<Rightarrow> quantity_t \<Rightarrow> market_order_book \<Rightarrow> quantity_t result" where
  "sum_orders fuel first order quantity s =
     (if order = Some first then Inr quantity
      else if fuel = 0 then Inl OutOfFuel
      else rbind (deref order) (\<lambda>a. sum_orders (fuel - 1) first (m_next_order (mb_order_at s a))
             (quantity + m_qty (mb_order_at s a)) s))"

declare sum_orders.simps [simp del]

definition update_side :: "ptr \<Rightarrow> market_order_book \<Rightarrow> (price_t \<times> quantity_t) result" where
  "update_side level s =
     (case level of
        None \<Rightarrow> Inr (INVALID_PRICE, INVALID_QUANTITY)
      | Some l \<Rightarrow>
          rbind (deref (ml_first_order (mb_level_at s l))) (\<lambda>f.
          rbind (sum_orders MAX_NUM_ORDERS f (m_next_order (mb_order_at s f)) (m_qty (mb_order_at s f)) s) (\<lambda>quantity.
          Inr (ml_price (mb_level_at s l), quantity))))"

definition update_bbo :: "bool \<Rightarrow> bool \<Rightarrow> market_order_book \<Rightarrow> market_order_book result" where
  "update_bbo update_bid update_ask s =
     rbind (if update_bid
            then rbind (update_side (mb_bid s) s) (\<lambda>(p, q). Inr (s\<lparr>mb_bbo := (mb_bbo s)\<lparr>bid_price := p, bid_qty := q\<rparr>\<rparr>))
            else Inr s) (\<lambda>s.
     if update_ask
     then rbind (update_side (mb_ask s) s) (\<lambda>(p, q). Inr (s\<lparr>mb_bbo := (mb_bbo s)\<lparr>ask_price := p, ask_qty := q\<rparr>\<rparr>))
     else Inr s)"

section \<open>Price levels\<close>

text \<open>\<open>clear_price_levels\<close>: the blocks are freed, the table of levels keeps its entries.\<close>

fun free_levels :: "nat \<Rightarrow> nat \<Rightarrow> ptr \<Rightarrow> market_order_book \<Rightarrow> market_order_book result" where
  "free_levels fuel best p s =
     (case p of
        None \<Rightarrow> Inr s
      | Some l \<Rightarrow>
          if l = best then Inr s
          else if fuel = 0 then Inl OutOfFuel
          else let nxt = ml_next_entry (mb_level_at s l)
               in rbind (pool_free l (mb_price_level_pool s)) (\<lambda>lp.
                    free_levels (fuel - 1) best nxt (s\<lparr>mb_price_level_pool := lp\<rparr>)))"

declare free_levels.simps [simp del]

definition clear_price_levels :: "side_t \<Rightarrow> market_order_book \<Rightarrow> market_order_book result" where
  "clear_price_levels sd s =
     (case mb_best sd s of
        None \<Rightarrow> Inr s
      | Some b \<Rightarrow>
          rbind (free_levels MAX_PRICE_LEVELS b (ml_next_entry (mb_level_at s b)) s) (\<lambda>s.
          rbind (pool_free b (mb_price_level_pool s)) (\<lambda>lp. Inr (s\<lparr>mb_price_level_pool := lp\<rparr>))))"

definition mb_comparison_func :: "price_t \<Rightarrow> price_t \<Rightarrow> side_t \<Rightarrow> bool" where
  "mb_comparison_func a b sd = (if sd = BUY then sint b < sint a else sint a < sint b)"

definition mb_add_after :: "nat \<Rightarrow> nat \<Rightarrow> market_order_book \<Rightarrow> market_order_book result" where
  "mb_add_after current new s =
     (let s = mb_set_level new (\<lambda>l. l\<lparr>ml_next_entry := ml_next_entry (mb_level_at s current)\<rparr>) s;
          s = mb_set_level new (\<lambda>l. l\<lparr>ml_prev_entry := Some current\<rparr>) s
      in rbind (deref (ml_next_entry (mb_level_at s current))) (\<lambda>c.
      let s = mb_set_level c (\<lambda>l. l\<lparr>ml_prev_entry := Some new\<rparr>) s;
          s = mb_set_level current (\<lambda>l. l\<lparr>ml_next_entry := Some new\<rparr>) s
      in Inr s))"

definition mb_add_before :: "nat \<Rightarrow> nat \<Rightarrow> market_order_book \<Rightarrow> market_order_book result" where
  "mb_add_before current new s =
     (let s = mb_set_level new (\<lambda>l. l\<lparr>ml_prev_entry := ml_prev_entry (mb_level_at s current)\<rparr>) s;
          s = mb_set_level new (\<lambda>l. l\<lparr>ml_next_entry := Some current\<rparr>) s
      in rbind (deref (ml_prev_entry (mb_level_at s current))) (\<lambda>c.
      let s = mb_set_level c (\<lambda>l. l\<lparr>ml_next_entry := Some new\<rparr>) s;
          s = mb_set_level current (\<lambda>l. l\<lparr>ml_prev_entry := Some new\<rparr>) s
      in Inr s))"

fun mb_find_slot :: "nat \<Rightarrow> market_order_book \<Rightarrow> ptr \<Rightarrow> side_t \<Rightarrow> price_t \<Rightarrow> nat \<Rightarrow> bool \<Rightarrow> (nat \<times> bool) result" where
  "mb_find_slot fuel s bst sd p current flag =
     (if \<not> flag \<and> \<not> mb_comparison_func p (ml_price (mb_level_at s current)) sd
      then if fuel = 0 then Inl OutOfFuel
           else rbind (deref (ml_next_entry (mb_level_at s current))) (\<lambda>c.
             mb_find_slot (fuel - 1) s bst sd p c (ml_next_entry (mb_level_at s c) = bst))
      else Inr (current, flag))"

declare mb_find_slot.simps [simp del]

definition mb_add_price_level :: "nat \<Rightarrow> market_order_book \<Rightarrow> market_order_book result" where
  "mb_add_price_level new s =
     (let s = s\<lparr>mb_price_levels := (mb_price_levels s)(mb_price_to_index (ml_price (mb_level_at s new)) := Some new)\<rparr>;
          sd = ml_side (mb_level_at s new); p = ml_price (mb_level_at s new)
      in case mb_best sd s of
           None \<Rightarrow> Inr (mb_set_best sd (Some new)
             (mb_set_level new (\<lambda>l. l\<lparr>ml_prev_entry := Some new, ml_next_entry := Some new\<rparr>) s))
         | Some b \<Rightarrow>
             if mb_comparison_func p (ml_price (mb_level_at s b)) sd
             then rbind (mb_add_before b new s) (\<lambda>s. Inr (mb_set_best sd (Some new) s))
             else rbind (deref (ml_next_entry (mb_level_at s b))) (\<lambda>c.
                  rbind (mb_find_slot (MAX_PRICE_LEVELS + 1) s (Some b) sd p c False) (\<lambda>(current, flag).
                  if flag then mb_add_after current new s else mb_add_before current new s)))"

definition remove_order_at_price :: "side_t \<Rightarrow> price_t \<Rightarrow> market_order_book \<Rightarrow> market_order_book result" where
  "remove_order_at_price sd p s =
     rbind (deref (mb_get_price_level p s)) (\<lambda>l.
     rbind
       (if ml_next_entry (mb_level_at s l) = Some l then Inr (mb_set_best sd None s)
        else rbind (deref (ml_prev_entry (mb_level_at s l))) (\<lambda>before.
          let s = mb_set_level before (\<lambda>x. x\<lparr>ml_next_entry := ml_next_entry (mb_level_at s l)\<rparr>) s
          in rbind (deref (ml_next_entry (mb_level_at s l))) (\<lambda>after.
          let s = mb_set_level after (\<lambda>x. x\<lparr>ml_prev_entry := ml_prev_entry (mb_level_at s l)\<rparr>) s;
              s = (if mb_best sd s = Some l then mb_set_best sd (ml_next_entry (mb_level_at s l)) s else s)
          in Inr (mb_set_level l (\<lambda>x. x\<lparr>ml_next_entry := None, ml_prev_entry := None\<rparr>) s))))
       (\<lambda>s. let s = s\<lparr>mb_price_levels := (mb_price_levels s)(mb_price_to_index p := None)\<rparr>
            in rbind (pool_free l (mb_price_level_pool s)) (\<lambda>lp. Inr (s\<lparr>mb_price_level_pool := lp\<rparr>))))"

section \<open>Orders\<close>

text \<open>\<open>orders_\<close> is indexed with \<open>at\<close>.\<close>

definition mb_find_order :: "order_id_t \<Rightarrow> market_order_book \<Rightarrow> ptr result" where
  "mb_find_order i s = (if unat i < MAX_NUM_ORDERS then Inr (mb_orders s (unat i)) else Inl OutOfRange)"

definition mb_store_order :: "order_id_t \<Rightarrow> ptr \<Rightarrow> market_order_book \<Rightarrow> market_order_book result" where
  "mb_store_order i p s =
     (if unat i < MAX_NUM_ORDERS then Inr (s\<lparr>mb_orders := (mb_orders s)(unat i := p)\<rparr>) else Inl OutOfRange)"

definition mb_add_order :: "nat \<Rightarrow> market_order_book \<Rightarrow> market_order_book result" where
  "mb_add_order a s =
     rbind
       (case mb_get_price_level (m_price (mb_order_at s a)) s of
          None \<Rightarrow>
            let s = mb_set_order a (\<lambda>x. x\<lparr>m_prev_order := Some a, m_next_order := Some a\<rparr>) s
            in rbind (pool_alloc \<lparr>ml_side = m_side (mb_order_at s a), ml_price = m_price (mb_order_at s a),
                 ml_first_order = Some a, ml_prev_entry = None, ml_next_entry = None\<rparr> (mb_price_level_pool s)) (\<lambda>(l, lp).
               mb_add_price_level l (s\<lparr>mb_price_level_pool := lp\<rparr>))
        | Some l \<Rightarrow>
            rbind (deref (ml_first_order (mb_level_at s l))) (\<lambda>f.
            rbind (deref (m_prev_order (mb_order_at s f))) (\<lambda>old_last.
            let s = mb_set_order old_last (\<lambda>x. x\<lparr>m_next_order := Some a\<rparr>) s;
                s = mb_set_order a (\<lambda>x. x\<lparr>m_prev_order := Some old_last\<rparr>) s;
                s = mb_set_order a (\<lambda>x. x\<lparr>m_next_order := ml_first_order (mb_level_at s l)\<rparr>) s;
                s = mb_set_order f (\<lambda>x. x\<lparr>m_prev_order := Some a\<rparr>) s
            in Inr s)))
       (\<lambda>s. mb_store_order (m_market_order_id (mb_order_at s a)) (Some a) s)"

definition mb_remove_order :: "nat \<Rightarrow> market_order_book \<Rightarrow> market_order_book result" where
  "mb_remove_order a s =
     (let lvl = mb_get_price_level (m_price (mb_order_at s a)) s in
      rbind
       (if m_prev_order (mb_order_at s a) = Some a
        then remove_order_at_price (m_side (mb_order_at s a)) (m_price (mb_order_at s a)) s
        else
          rbind (deref (m_prev_order (mb_order_at s a))) (\<lambda>before.
          rbind (deref (m_next_order (mb_order_at s a))) (\<lambda>after.
          let s = mb_set_order before (\<lambda>x. x\<lparr>m_next_order := Some after\<rparr>) s;
              s = mb_set_order after (\<lambda>x. x\<lparr>m_prev_order := Some before\<rparr>) s
          in rbind (deref lvl) (\<lambda>l.
          let s = (if ml_first_order (mb_level_at s l) = Some a
                   then mb_set_level l (\<lambda>x. x\<lparr>ml_first_order := Some after\<rparr>) s else s)
          in Inr (mb_set_order a (\<lambda>x. x\<lparr>m_prev_order := None, m_next_order := None\<rparr>) s)))))
       (\<lambda>s. rbind (mb_store_order (m_market_order_id (mb_order_at s a)) None s) (\<lambda>s.
            rbind (pool_free a (mb_order_pool s)) (\<lambda>op. Inr (s\<lparr>mb_order_pool := op\<rparr>)))))"

section \<open>Market updates (market\_order\_book.cpp)\<close>

text \<open>The calls made to the trade engine.\<close>

datatype engine_call =
    On_trade_update market_update
  | On_order_book_update instrument_id_t price_t side_t

text \<open>\<open>CLEAR\<close>: the orders found in the array are freed, then both sides' levels.\<close>

definition free_orders :: "market_order_book \<Rightarrow> market_order_book result" where
  "free_orders s = rfold (\<lambda>i s. case mb_orders s i of
       None \<Rightarrow> Inr s
     | Some a \<Rightarrow> rbind (pool_free a (mb_order_pool s)) (\<lambda>op. Inr (s\<lparr>mb_order_pool := op\<rparr>))) [0..<MAX_NUM_ORDERS] s"

definition clear_book :: "market_order_book \<Rightarrow> market_order_book result" where
  "clear_book s =
     rbind (free_orders s) (\<lambda>s.
     let s = s\<lparr>mb_orders := (\<lambda>_. None)\<rparr>
     in rbind (clear_price_levels BUY s) (\<lambda>s.
        rbind (clear_price_levels SELL s) (\<lambda>s.
        Inr (s\<lparr>mb_bid := None, mb_ask := None\<rparr>))))"

definition bid_updated :: "market_update \<Rightarrow> market_order_book \<Rightarrow> bool" where
  "bid_updated u s = (case mb_bid s of None \<Rightarrow> False
     | Some l \<Rightarrow> mu_side u = BUY \<and> sint (ml_price (mb_level_at s l)) \<le> sint (mu_price u))"

definition ask_updated :: "market_update \<Rightarrow> market_order_book \<Rightarrow> bool" where
  "ask_updated u s = (case mb_ask s of None \<Rightarrow> False
     | Some l \<Rightarrow> mu_side u = SELL \<and> sint (mu_price u) \<le> sint (ml_price (mb_level_at s l)))"

definition change_book :: "market_update \<Rightarrow> market_order_book \<Rightarrow> market_order_book result" where
  "change_book u s = (case mu_type u of
       MU_ADD \<Rightarrow>
         rbind (pool_alloc \<lparr>m_market_order_id = mu_order_id u, m_side = mu_side u, m_price = mu_price u, m_qty = mu_qty u,
           m_priority = mu_priority u, m_prev_order = None, m_next_order = None\<rparr> (mb_order_pool s)) (\<lambda>(a, op).
         mb_add_order a (s\<lparr>mb_order_pool := op\<rparr>))
     | MU_MODIFY \<Rightarrow>
         rbind (mb_find_order (mu_order_id u) s) (\<lambda>p.
         rbind (deref p) (\<lambda>a. Inr (mb_set_order a (\<lambda>x. x\<lparr>m_price := mu_price u, m_qty := mu_qty u\<rparr>) s)))
     | MU_CANCEL \<Rightarrow>
         rbind (mb_find_order (mu_order_id u) s) (\<lambda>p.
         rbind (deref p) (\<lambda>a. mb_remove_order a s))
     | MU_CLEAR \<Rightarrow> clear_book s
     | _ \<Rightarrow> Inr s)"

definition on_market_update :: "market_update \<Rightarrow> market_order_book \<Rightarrow> (market_order_book \<times> engine_call) result" where
  "on_market_update u s =
     (let update_bid = bid_updated u s; update_ask = ask_updated u s
      in if mu_type u = MU_TRADE then Inr (s, On_trade_update u)
         else rbind (change_book u s) (\<lambda>s.
              rbind (update_bbo update_bid update_ask s) (\<lambda>s.
              Inr (s, On_order_book_update (mu_instrument_id u) (mu_price u) (mu_side u)))))"

end
