(* ===== verification/MarketPrinting.thy ===== *)
theory MarketPrinting
  imports Printing MarketOrderBook
begin

text \<open>
  The \<open>to_string\<close> functions of \<open>trading_engine/market_order.hpp\<close> and of the client's book in
  \<open>market_order_book.cpp\<close>. The loops of the latter run over linked rings; the fuel bounds the
  number of levels and orders visited. Streams are strings, \<open>fmt::format\<close> with plain
  placeholders is concatenation.
\<close>

section \<open>Orders, levels and the best prices\<close>

definition market_order_to_string :: "market_order \<Rightarrow> string" where
  "market_order_to_string x = concat
     [''order['',
      ''market_order_id:'', order_id_to_string (m_market_order_id x), '' '',
      ''side:'', side_to_string (m_side x), '' '',
      ''price:'', price_to_string (m_price x), '' '',
      ''qty:'', quantity_to_string (m_qty x), '' '',
      ''priority:'', priority_to_string (m_priority x), '']'']"

definition mb_level_price :: "market_order_book \<Rightarrow> ptr \<Rightarrow> price_t" where
  "mb_level_price s p = (case p of None \<Rightarrow> INVALID_PRICE | Some a \<Rightarrow> ml_price (mb_level_at s a))"

definition mb_order_id :: "market_order_book \<Rightarrow> ptr \<Rightarrow> order_id_t" where
  "mb_order_id s p = (case p of None \<Rightarrow> INVALID_ORDER_ID | Some a \<Rightarrow> m_market_order_id (mb_order_at s a))"

definition market_price_level_to_string :: "market_order_book \<Rightarrow> market_price_level \<Rightarrow> string" where
  "market_price_level_to_string s l = concat
     [''price_level['',
      ''side:'', side_to_string (ml_side l), '' '',
      ''price:'', price_to_string (ml_price l), '' '',
      ''first_me_order:'', (case ml_first_order l of None \<Rightarrow> ''null'' | Some a \<Rightarrow> market_order_to_string (mb_order_at s a)), '' '',
      ''prev:'', price_to_string (mb_level_price s (ml_prev_entry l)), '' '',
      ''next:'', price_to_string (mb_level_price s (ml_next_entry l)), '']'']"

definition bbo_to_string :: "bbo_t \<Rightarrow> string" where
  "bbo_to_string b = concat
     [''BBO{'', decimal (unat (bid_qty b)), ''@'', signed_decimal (sint (bid_price b)),
      ''X'', signed_decimal (sint (ask_price b)), ''@'', decimal (unat (ask_qty b)), ''}'']"

section \<open>The book\<close>

text \<open>A loop over the orders of a level, which breaks when the next one is the first again.\<close>

fun visit_orders :: "nat \<Rightarrow> (nat \<Rightarrow> 'a \<Rightarrow> 'a) \<Rightarrow> ptr \<Rightarrow> ptr \<Rightarrow> market_order_book \<Rightarrow> 'a \<Rightarrow> 'a result" where
  "visit_orders fuel body first itr s acc =
     (if fuel = 0 then Inl OutOfFuel
      else rbind (deref itr) (\<lambda>a.
           let acc = body a acc; nxt = m_next_order (mb_order_at s a)
           in if nxt = first then Inr acc else visit_orders (fuel - 1) body first nxt s acc))"

declare visit_orders.simps [simp del]

definition order_line :: "market_order_book \<Rightarrow> nat \<Rightarrow> string" where
  "order_line s a = concat
     ['' [oid:'', order_id_to_string (m_market_order_id (mb_order_at s a)),
      '' q:'', quantity_to_string (m_qty (mb_order_at s a)),
      '' p:'', order_id_to_string (mb_order_id s (m_prev_order (mb_order_at s a))),
      '' n:'', order_id_to_string (mb_order_id s (m_next_order (mb_order_at s a))), ''] '']"

text \<open>
  The lambda \<open>printer\<close>: it reads through \<open>prev_entry_\<close> and \<open>next_entry_\<close> of the level
  unchecked, and returns the text and \<open>last_price\<close>.
\<close>

definition printer :: "bool \<Rightarrow> bool \<Rightarrow> market_order_book \<Rightarrow> nat \<Rightarrow> side_t \<Rightarrow> price_t \<Rightarrow> (string \<times> price_t) result" where
  "printer verbose sanity_check s l sd last_price =
     (let lv = mb_level_at s l; fst_order = ml_first_order lv
      in rbind (visit_orders MAX_NUM_ORDERS (\<lambda>a (qty, num_orders). (qty + m_qty (mb_order_at s a), num_orders + 1))
           fst_order fst_order s (0 :: quantity_t, 0 :: nat)) (\<lambda>(qty, num_orders).
         rbind (deref (ml_prev_entry lv)) (\<lambda>p.
         rbind (deref (ml_next_entry lv)) (\<lambda>n.
         rbind (visit_orders MAX_NUM_ORDERS (\<lambda>a line. if verbose then line @ order_line s a else line)
           fst_order fst_order s []) (\<lambda>details.
         let line = concat
               ['' <px:'', price_to_string (ml_price lv), '' p:'', price_to_string (ml_price (mb_level_at s p)),
                '' n:'', price_to_string (ml_price (mb_level_at s n)), ''> '', price_to_string (ml_price lv),
                '' @ '', quantity_to_string qty, ''('', decimal num_orders, '')'', details, [CHR 0x0A]]
         in if sanity_check
            then Inr (line @ (if sd = SELL \<and> sint (ml_price lv) \<le> sint last_price \<or> sd = BUY \<and> sint last_price \<le> sint (ml_price lv)
                        then concat [''Bids/Asks not sorted by ascending/descending prices last:'', price_to_string last_price,
                               '' itr:'', market_price_level_to_string s lv] else []), ml_price lv)
            else Inr (line, last_price))))))"

text \<open>
  The two loops over levels. Each is left when the level's successor is \<open>stop\<close>: for the asks
  that is \<open>ask_\<close>, for the bids \<open>bid_\<close>; both start from \<open>ask_\<close>.
\<close>

fun print_levels :: "nat \<Rightarrow> string \<Rightarrow> bool \<Rightarrow> bool \<Rightarrow> market_order_book \<Rightarrow> side_t \<Rightarrow> ptr \<Rightarrow> ptr \<Rightarrow> nat \<Rightarrow> price_t \<Rightarrow>
    string \<Rightarrow> string result" where
  "print_levels fuel tag verbose validity_check s sd stop itr count last_price ss =
     (case itr of
        None \<Rightarrow> Inr ss
      | Some l \<Rightarrow>
          if fuel = 0 then Inl OutOfFuel
          else let ss = concat [ss, tag, '' L:'', decimal count, '' => ''];
                   nxt = (if ml_next_entry (mb_level_at s l) = stop then None else ml_next_entry (mb_level_at s l))
               in rbind (printer verbose validity_check s l sd last_price) (\<lambda>(line, last_price).
                  print_levels (fuel - 1) tag verbose validity_check s sd stop nxt (count + 1) last_price (ss @ line)))"

declare print_levels.simps [simp del]

definition mb_to_string :: "nat \<Rightarrow> bool \<Rightarrow> bool \<Rightarrow> market_order_book \<Rightarrow> string result" where
  "mb_to_string fuel verbose validity_check s =
     (let ss = concat [''Instrument:'', instrument_id_to_string (mb_instrument_id s), [CHR 0x0A]]
      in rbind (print_levels fuel ''ASKS'' verbose validity_check s SELL (mb_ask s) (mb_ask s) 0 (- (2 ^ 63)) ss) (\<lambda>ss.
         let ss = concat [ss, [CHR 0x0A], ''                          X'', [CHR 0x0A, CHR 0x0A]]
         in print_levels fuel ''BIDS'' verbose validity_check s BUY (mb_bid s) (mb_ask s) 0 (2 ^ 63 - 1) ss))"

section \<open>The bids are never printed to the end\<close>

text \<open>
  A side whose loop never meets its stop: every level reached has a successor in a set of levels
  \<open>L\<close> that all print and does not contain \<open>stop\<close>.
\<close>

lemma print_levels_diverges:
  assumes "itr = Some l" and "l \<in> L"
    and "\<And>l. l \<in> L \<Longrightarrow> \<exists>n\<in>L. ml_next_entry (mb_level_at s l) = Some n \<and> stop \<noteq> Some n"
    and "\<And>l lp. l \<in> L \<Longrightarrow> \<exists>r. printer verbose check s l sd lp = Inr r"
  shows "print_levels fuel tag verbose check s sd stop itr count lp ss = Inl OutOfFuel"
  using assms(1,2)
proof (induction fuel arbitrary: itr l count lp ss)
  case 0
  then show ?case by (simp add: print_levels.simps)
next
  case (Suc fuel)
  obtain n where n: "ml_next_entry (mb_level_at s l) = Some n" "stop \<noteq> Some n" "n \<in> L"
    using assms(3) [OF Suc.prems(2)] by blast
  obtain line lp' where "printer verbose check s l sd lp = Inr (line, lp')" using assms(4) [OF Suc.prems(2)] by fastforce
  then show ?case using Suc.prems(1) n Suc.IH [OF _ n(3)] by (subst print_levels.simps) (simp add: Let_def)
qed

lemma print_levels_result:
  assumes "itr = Some l" and "l \<in> L"
    and "\<And>l. l \<in> L \<Longrightarrow> \<exists>n\<in>L. ml_next_entry (mb_level_at s l) = Some n"
    and "\<And>l lp. l \<in> L \<Longrightarrow> \<exists>r. printer verbose check s l sd lp = Inr r"
  shows "print_levels fuel tag verbose check s sd stop itr count lp ss = Inl OutOfFuel \<or>
    (\<exists>t. print_levels fuel tag verbose check s sd stop itr count lp ss = Inr t)"
  using assms(1,2)
proof (induction fuel arbitrary: itr l count lp ss)
  case 0
  then show ?case by (simp add: print_levels.simps)
next
  case (Suc fuel)
  obtain n where n: "ml_next_entry (mb_level_at s l) = Some n" "n \<in> L"
    using assms(3) [OF Suc.prems(2)] by blast
  obtain line lp' where "printer verbose check s l sd lp = Inr (line, lp')" using assms(4) [OF Suc.prems(2)] by fastforce
  then show ?case using Suc.prems(1) n Suc.IH [OF _ n(2)] print_levels.simps [where itr = None]
    by (subst (1 2) print_levels.simps) (simp add: Let_def)
qed

lemma visit_orders_ring:
  assumes "ring (m_next_order \<circ> mb_order_at s) (m_prev_order \<circ> mb_order_at s) os" and "length os \<le> fuel"
  shows "visit_orders fuel body (Some (hd os)) (Some (hd os)) s acc = Inr (fold body os acc)"
proof -
  have "os = pre @ suf \<Longrightarrow> suf \<noteq> [] \<Longrightarrow> length suf \<le> n \<Longrightarrow>
      visit_orders n body (Some (hd os)) (Some (hd suf)) s acc = Inr (fold body suf acc)" for pre suf n acc
  proof (induction suf arbitrary: pre n acc)
    case (Cons a suf)
    then have n: "n \<noteq> 0" by simp
    show ?case
    proof (cases suf)
      case Nil
      then have "m_next_order (mb_order_at s a) = Some (hd os)"
        using ring_last_next [OF assms(1)] Cons.prems(1) by simp
      then show ?thesis using n Nil by (subst visit_orders.simps) simp
    next
      case (Cons b rest)
      have nx: "m_next_order (mb_order_at s a) = Some b"
        using ring_next [OF assms(1) [unfolded Cons.prems(1) Cons]] by simp
      have "b \<noteq> hd os"
        using ring_distinct [OF assms(1)] Cons.prems(1) Cons by (cases pre) auto
      then show ?thesis using n nx Cons.IH [of "pre @ [a]" "n - 1"] Cons.prems Cons
        by (subst visit_orders.simps) simp
    qed
  qed simp
  from this [of "[]" os fuel acc] assms show ?thesis by (cases os) auto
qed

text \<open>The sides of a client's book as rings: the levels with their orders, as addresses.\<close>

definition side_rings :: "market_order_book \<Rightarrow> (nat \<times> nat list) list \<Rightarrow> bool" where
  "side_rings s L \<longleftrightarrow> ring (ml_next_entry \<circ> mb_level_at s) (ml_prev_entry \<circ> mb_level_at s) (map fst L) \<and>
     (\<forall>(l, os) \<in> set L. ring (m_next_order \<circ> mb_order_at s) (m_prev_order \<circ> mb_order_at s) os \<and>
        ml_first_order (mb_level_at s l) = Some (hd os) \<and> length os \<le> MAX_NUM_ORDERS)"

lemma ring_neighbours:
  assumes "ring nx pv xs" and "x \<in> set xs"
  shows "\<exists>n \<in> set xs. nx x = Some n" and "\<exists>p \<in> set xs. pv x = Some p"
proof -
  obtain as bs where xs: "xs = as @ x # bs" using assms(2) by (meson split_list)
  show "\<exists>n \<in> set xs. nx x = Some n"
    using ring_last_next [OF assms(1)] ring_next [of nx pv as x] assms(1) xs by (cases bs; cases as; force)
  show "\<exists>p \<in> set xs. pv x = Some p"
    using ring_hd_prev [OF assms(1)] ring_prev [of nx pv] assms(1) xs by (cases as rule: rev_cases; force)
qed

lemma printer_ring:
  assumes "side_rings s L" and "l \<in> fst ` set L"
  shows "\<exists>r. printer verbose check s l sd lp = Inr r"
proof -
  obtain os where m: "(l, os) \<in> set L" using assms(2) by auto
  have o: "ring (m_next_order \<circ> mb_order_at s) (m_prev_order \<circ> mb_order_at s) os"
    "ml_first_order (mb_level_at s l) = Some (hd os)" "length os \<le> MAX_NUM_ORDERS"
    and r: "ring (ml_next_entry \<circ> mb_level_at s) (ml_prev_entry \<circ> mb_level_at s) (map fst L)"
    using assms(1) m by (auto simp: side_rings_def)
  have l: "l \<in> set (map fst L)" using assms(2) by auto
  obtain n p where "ml_next_entry (mb_level_at s l) = Some n" "ml_prev_entry (mb_level_at s l) = Some p"
    using ring_neighbours [OF r l] by auto
  then show ?thesis using o(2) by (simp add: printer_def Let_def visit_orders_ring [OF o(1,3)] split: prod.split)
qed

end
