(* ===== verification/MarketOrderBookProperties.thy ===== *)
theory MarketOrderBookProperties
  imports MarketPrinting
begin

text \<open>
  The client's book at its boundaries: the first order of an empty side, and the book after
  \<open>CLEAR\<close>, with which every recovery begins.
\<close>

section \<open>A new book and its first order\<close>

definition new_book :: "instrument_id_t \<Rightarrow> market_order_book" where
  "new_book i = \<lparr>mb_instrument_id = i, mb_orders = (\<lambda>_. None),
     mb_price_level_pool = fresh_pool MAX_PRICE_LEVELS default_market_price_level, mb_bid = None, mb_ask = None,
     mb_price_levels = (\<lambda>_. None), mb_order_pool = fresh_pool MAX_NUM_ORDERS default_market_order, mb_bbo = default_bbo\<rparr>"

lemma market_order_book_init_eq: "market_order_book_init i = Inr (new_book i)"
  by (simp add: market_order_book_init_def memory_pool_init_eq new_book_def model_constants)

definition taken_pool :: "nat \<Rightarrow> 'a \<Rightarrow> 'a \<Rightarrow> 'a memory_pool" where
  "taken_pool n d v = (fresh_pool n d)\<lparr>memory_blocks := (memory_blocks (fresh_pool n d))(0 := \<lparr>mb_data = v, next_free_block = 1,
     is_free = False\<rparr>), free_block_index := 1, free_block_count := n - 1\<rparr>"

lemma alloc_fresh: "1 < n \<Longrightarrow> pool_alloc v (fresh_pool n d) = Inr (0, taken_pool n d v)"
  by (simp add: pool_alloc_def fresh_pool_def taken_pool_def Let_def)

lemma taken_simps [simp]: "pool_get (taken_pool n d v) 0 = v" "pool_set 0 f (taken_pool n d v) = taken_pool n d (f v)"
  by (simp_all add: pool_get_def pool_set_def taken_pool_def)

lemma taken_pool_ok:
  assumes "1 < n"
  shows "pool_inv (taken_pool n d v)" and "card (pool_live (taken_pool n d v)) < memory_blocks_size (taken_pool n d v)"
  using pool_alloc_ok [of "fresh_pool n d" v] alloc_fresh [OF assms, of v d] fresh_pool_inv [of n d] assms by auto

definition freed_pool :: "nat \<Rightarrow> 'a \<Rightarrow> 'a \<Rightarrow> 'a memory_pool" where
  "freed_pool n d v = (fresh_pool n d)\<lparr>memory_blocks := (memory_blocks (fresh_pool n d))(0 := \<lparr>mb_data = v, next_free_block = 1,
     is_free = True\<rparr>)\<rparr>"

lemma free_taken: "1 < n \<Longrightarrow> pool_free 0 (taken_pool n d v) = Inr (freed_pool n d v)"
  by (simp add: pool_free_def taken_pool_def freed_pool_def Let_def fresh_pool_def)

lemma alloc_freed: "1 < n \<Longrightarrow> pool_alloc w (freed_pool n d v) = Inr (0, taken_pool n d w)"
  by (simp add: pool_alloc_def freed_pool_def taken_pool_def Let_def fresh_pool_def)

lemma freed_simps [simp]: "pool_get (freed_pool n d v) 0 = v"
  by (simp add: pool_get_def freed_pool_def)

text \<open>The book with the one order of an \<open>ADD\<close>.\<close>

definition one_order_book :: "instrument_id_t \<Rightarrow> market_update \<Rightarrow> market_order_book" where
  "one_order_book i u = (new_book i)\<lparr>
     mb_orders := (\<lambda>_. None)(unat (mu_order_id u) := Some 0),
     mb_price_level_pool := taken_pool MAX_PRICE_LEVELS default_market_price_level
       \<lparr>ml_side = mu_side u, ml_price = mu_price u, ml_first_order = Some 0, ml_prev_entry = Some 0, ml_next_entry = Some 0\<rparr>,
     mb_bid := (if mu_side u = BUY then Some 0 else None), mb_ask := (if mu_side u = BUY then None else Some 0),
     mb_price_levels := (\<lambda>_. None)(mb_price_to_index (mu_price u) := Some 0),
     mb_order_pool := taken_pool MAX_NUM_ORDERS default_market_order \<lparr>m_market_order_id = mu_order_id u, m_side = mu_side u,
       m_price = mu_price u, m_qty = mu_qty u, m_priority = mu_priority u, m_prev_order = Some 0, m_next_order = Some 0\<rparr>\<rparr>"

lemmas book_access = mb_level_at_def mb_order_at_def mb_set_level_def mb_set_order_def mb_best_def mb_set_best_def
  mb_get_price_level_def mb_store_order_def mb_find_order_def

lemma pool_sizes: "1 < MAX_PRICE_LEVELS" "1 < MAX_NUM_ORDERS"
  by (simp_all add: model_constants)

lemmas pool_steps = pool_sizes [THEN alloc_fresh] pool_sizes [THEN free_taken] pool_sizes [THEN alloc_freed]

lemma add_first:
  assumes "mu_type u = MU_ADD" and "unat (mu_order_id u) < MAX_NUM_ORDERS"
  shows "change_book u (new_book i) = Inr (one_order_book i u)"
  using assms
  by (simp add: change_book_def mb_add_order_def mb_add_price_level_def book_access new_book_def one_order_book_def
      pool_steps Let_def)

section \<open>Clearing\<close>

lemma rfold_skip: "(\<And>x. x \<in> set xs \<Longrightarrow> f x s = Inr s) \<Longrightarrow> rfold f xs s = Inr s"
  by (induction xs) auto

lemma free_orders_single:
  assumes "mb_orders s = (\<lambda>_. None)(k := Some a)" and "k < MAX_NUM_ORDERS"
    and "pool_free a (mb_order_pool s) = Inr op"
  shows "free_orders s = Inr (s\<lparr>mb_order_pool := op\<rparr>)"
proof -
  let ?f = "\<lambda>i s. case mb_orders s i of None \<Rightarrow> Inr s
    | Some a \<Rightarrow> rbind (pool_free a (mb_order_pool s)) (\<lambda>op. Inr (s\<lparr>mb_order_pool := op\<rparr>))"
  let ?t = "s\<lparr>mb_order_pool := op\<rparr>"
  have split: "[0..<MAX_NUM_ORDERS] = [0..<k] @ k # [Suc k..<MAX_NUM_ORDERS]"
    using assms(2) by (metis le_add_diff_inverse less_imp_le upt_add_eq_append upt_conv_Cons zero_le)
  have "rfold ?f [0..<k] s = Inr s" by (rule rfold_skip) (simp add: assms(1))
  moreover have "rfold ?f [Suc k..<MAX_NUM_ORDERS] ?t = Inr ?t" by (rule rfold_skip) (simp add: assms(1))
  moreover have "?f k s = Inr ?t" using assms(1,3) by simp
  ultimately show ?thesis unfolding free_orders_def split rfold_append by simp
qed

text \<open>After \<open>CLEAR\<close> the table of levels still points to the freed level.\<close>

definition cleared_book :: "instrument_id_t \<Rightarrow> market_update \<Rightarrow> market_order_book" where
  "cleared_book i u = (one_order_book i u)\<lparr>mb_orders := (\<lambda>_. None),
     mb_price_level_pool := freed_pool MAX_PRICE_LEVELS default_market_price_level
       \<lparr>ml_side = mu_side u, ml_price = mu_price u, ml_first_order = Some 0, ml_prev_entry = Some 0, ml_next_entry = Some 0\<rparr>,
     mb_order_pool := freed_pool MAX_NUM_ORDERS default_market_order \<lparr>m_market_order_id = mu_order_id u, m_side = mu_side u,
       m_price = mu_price u, m_qty = mu_qty u, m_priority = mu_priority u, m_prev_order = Some 0, m_next_order = Some 0\<rparr>,
     mb_bid := None, mb_ask := None\<rparr>"

lemma clear_one_order:
  assumes "mu_type c = MU_CLEAR" and "unat (mu_order_id u) < MAX_NUM_ORDERS"
  shows "change_book c (one_order_book i u) = Inr (cleared_book i u)"
proof -
  have "free_orders (one_order_book i u) = Inr ((one_order_book i u)\<lparr>mb_order_pool :=
      freed_pool MAX_NUM_ORDERS default_market_order \<lparr>m_market_order_id = mu_order_id u, m_side = mu_side u,
       m_price = mu_price u, m_qty = mu_qty u, m_priority = mu_priority u, m_prev_order = Some 0, m_next_order = Some 0\<rparr>\<rparr>)"
    by (rule free_orders_single [where k = "unat (mu_order_id u)" and a = 0])
      (simp_all add: one_order_book_def assms(2) pool_steps)
  then show ?thesis using assms(1)
    by (simp add: change_book_def clear_book_def Let_def clear_price_levels_def book_access free_levels.simps
        one_order_book_def cleared_book_def new_book_def pool_steps)
qed

lemma add_after_clear:
  assumes "mu_type v = MU_ADD" and "mb_price_to_index (mu_price v) = mb_price_to_index (mu_price u)"
  shows "change_book v ((cleared_book i u)\<lparr>mb_bbo := x\<rparr>) = Inl NullPointer"
  using assms
  by (simp add: change_book_def mb_add_order_def book_access cleared_book_def one_order_book_def new_book_def pool_steps Let_def)

section \<open>The book at its boundaries\<close>

text \<open>
  C30: the first order of an empty side is not quoted. Whether a best price is to be updated is
  decided before the book changes, from the old best level, and an empty side has none. So on any
  book, whatever it has on the other side, an \<open>ADD\<close> to an empty side whose price's slot is free
  makes the order's level the best one of its side and leaves the best bid and offer as they were:
  a side that was quoted as empty still is.
\<close>

theorem first_order_not_quoted:
  assumes "mu_type u = MU_ADD" and "mu_side u = sd" and "sd \<in> {BUY, SELL}" and "unat (mu_order_id u) < MAX_NUM_ORDERS"
    and "mb_best sd b = None" and "mb_get_price_level (mu_price u) b = None"
    and "pool_inv (mb_order_pool b)" and "card (pool_live (mb_order_pool b)) < memory_blocks_size (mb_order_pool b)"
    and "pool_inv (mb_price_level_pool b)"
    and "card (pool_live (mb_price_level_pool b)) < memory_blocks_size (mb_price_level_pool b)"
  shows "\<exists>b' l a. on_market_update u b = Inr (b', On_order_book_update (mu_instrument_id u) (mu_price u) (mu_side u)) \<and>
    mb_best sd b' = Some l \<and> ml_price (mb_level_at b' l) = mu_price u \<and> ml_first_order (mb_level_at b' l) = Some a \<and>
    m_qty (mb_order_at b' a) = mu_qty u \<and> mb_best (if sd = BUY then SELL else BUY) b' = mb_best (if sd = BUY then SELL else BUY) b \<and>
    mb_bbo b' = mb_bbo b"
proof -
  let ?v = "\<lparr>m_market_order_id = mu_order_id u, m_side = mu_side u, m_price = mu_price u, m_qty = mu_qty u,
    m_priority = mu_priority u, m_prev_order = None, m_next_order = None\<rparr>"
  obtain a op where a: "pool_alloc ?v (mb_order_pool b) = Inr (a, op)" "pool_get op a = ?v"
    using pool_alloc_ok [OF assms(7,8), of ?v] by auto
  let ?w = "\<lparr>ml_side = mu_side u, ml_price = mu_price u, ml_first_order = Some a, ml_prev_entry = None, ml_next_entry = None\<rparr>"
  obtain l lp where l: "pool_alloc ?w (mb_price_level_pool b) = Inr (l, lp)" "pool_get lp l = ?w"
    using pool_alloc_ok [OF assms(9,10), of ?w] by auto
  have "bid_updated u b = False" "ask_updated u b = False"
    using assms(2,3,5) by (auto simp: bid_updated_def ask_updated_def mb_best_def split: option.splits)
  then have u: "on_market_update u b = rbind (change_book u b) (\<lambda>b. Inr (b,
      On_order_book_update (mu_instrument_id u) (mu_price u) (mu_side u)))"
    using assms(1) by (simp add: on_market_update_def update_bbo_def cong: rbind_cong)
  have "\<exists>b'. change_book u b = Inr b' \<and> mb_best sd b' = Some l \<and> ml_price (mb_level_at b' l) = mu_price u \<and>
      ml_first_order (mb_level_at b' l) = Some a \<and> m_qty (mb_order_at b' a) = mu_qty u \<and>
      mb_best (if sd = BUY then SELL else BUY) b' = mb_best (if sd = BUY then SELL else BUY) b \<and> mb_bbo b' = mb_bbo b"
    using assms(1-6) a l
    by (auto simp: change_book_def mb_add_order_def mb_add_price_level_def book_access Let_def split: if_splits)
  then show ?thesis using u by auto
qed

definition sample_bid :: market_update where
  "sample_bid = default_market_update\<lparr>mu_type := MU_ADD, mu_order_id := 7, mu_instrument_id := 0, mu_side := BUY,
     mu_price := 100, mu_qty := 10, mu_priority := 1\<rparr>"

lemma sample_bid_simps [simp]:
  "mu_type sample_bid = MU_ADD" "mu_side sample_bid = BUY" "unat (mu_order_id sample_bid) < MAX_NUM_ORDERS"
  "mu_price sample_bid = 100"
  by (simp_all add: sample_bid_def model_constants)

definition sample_offer :: market_update where
  "sample_offer = sample_bid\<lparr>mu_order_id := 8, mu_side := SELL, mu_price := 101\<rparr>"

text \<open>The first ask of a book that has a bid.\<close>

theorem first_order_not_quoted_witness:
  "\<exists>b b1 e1 b2 e2 l. market_order_book_init 0 = Inr b \<and> on_market_update sample_bid b = Inr (b1, e1) \<and>
    on_market_update sample_offer b1 = Inr (b2, e2) \<and> mb_best SELL b2 = Some l \<and> ml_price (mb_level_at b2 l) = 101 \<and>
    ask_price (mb_bbo b2) = INVALID_PRICE \<and> bid_price (mb_bbo b2) = INVALID_PRICE"
proof -
  let ?b1 = "one_order_book 0 sample_bid"
  have b1: "on_market_update sample_bid (new_book 0) = Inr (?b1, On_order_book_update (mu_instrument_id sample_bid) 100 BUY)"
    using add_first [OF sample_bid_simps(1,3), of 0]
    by (simp add: on_market_update_def bid_updated_def ask_updated_def update_bbo_def) (simp add: new_book_def)
  have h: "mu_type sample_offer = MU_ADD" "mu_side sample_offer = SELL" "SELL \<in> {BUY, SELL}"
    "unat (mu_order_id sample_offer) < MAX_NUM_ORDERS" "mb_best SELL ?b1 = None"
    "mb_get_price_level (mu_price sample_offer) ?b1 = None"
    by (simp_all add: sample_offer_def model_constants one_order_book_def new_book_def book_access mb_price_to_index_def)
  have p: "pool_inv (mb_order_pool ?b1)" "card (pool_live (mb_order_pool ?b1)) < memory_blocks_size (mb_order_pool ?b1)"
    "pool_inv (mb_price_level_pool ?b1)" "card (pool_live (mb_price_level_pool ?b1)) < memory_blocks_size (mb_price_level_pool ?b1)"
    using taken_pool_ok [OF pool_sizes(1)] taken_pool_ok [OF pool_sizes(2)]
    by (simp_all add: one_order_book_def)
  obtain b2 l where "on_market_update sample_offer ?b1 = Inr (b2, On_order_book_update (mu_instrument_id sample_offer)
      (mu_price sample_offer) (mu_side sample_offer))" "mb_best SELL b2 = Some l"
    "ml_price (mb_level_at b2 l) = mu_price sample_offer" "mb_bbo b2 = mb_bbo ?b1"
    using first_order_not_quoted [OF h p] by blast
  moreover have "mb_bbo ?b1 = default_bbo" "mu_price sample_offer = 101"
    by (simp_all add: one_order_book_def new_book_def sample_offer_def)
  ultimately show ?thesis using b1 market_order_book_init_eq [of 0] by (auto simp: default_bbo_def)
qed

text \<open>
  C31: \<open>CLEAR\<close> breaks the book. It frees the levels but leaves the pointers to them in the table
  of levels. A client that has one bid, is sent \<open>CLEAR\<close> (as at the start of every snapshot) and
  then an order at a price of the same slot, follows a pointer of the freed level to the
  recycled order and dereferences its null link.
\<close>

theorem clear_breaks_book:
  assumes "mu_type u = MU_ADD" and "mu_side u = BUY" and "unat (mu_order_id u) < MAX_NUM_ORDERS"
    and "mu_type c = MU_CLEAR" and "mu_type v = MU_ADD"
    and "mb_price_to_index (mu_price v) = mb_price_to_index (mu_price u)"
  shows "\<exists>b b1 b2 e1 e2. market_order_book_init i = Inr b \<and> on_market_update u b = Inr (b1, e1) \<and>
    on_market_update c b1 = Inr (b2, e2) \<and> mb_bid b2 = None \<and> mb_ask b2 = None \<and>
    mb_get_price_level (mu_price u) b2 \<noteq> None \<and> on_market_update v b2 = Inl NullPointer"
proof -
  let ?b1 = "one_order_book i u" and ?b2 = "cleared_book i u"
  have u: "on_market_update u (new_book i) = Inr (?b1, On_order_book_update (mu_instrument_id u) (mu_price u) (mu_side u))"
    using add_first [OF assms(1,3), of i] assms(1)
    by (simp add: on_market_update_def bid_updated_def ask_updated_def update_bbo_def) (simp add: new_book_def)
  have upd: "\<exists>b. update_bbo x y ?b2 = Inr b \<and> b = ?b2\<lparr>mb_bbo := mb_bbo b\<rparr>" for x y
    by (auto simp: update_bbo_def update_side_def cleared_book_def)
  then obtain b2 where b2: "update_bbo (bid_updated c ?b1) (ask_updated c ?b1) ?b2 = Inr b2" "b2 = ?b2\<lparr>mb_bbo := mb_bbo b2\<rparr>"
    by blast
  have c: "on_market_update c ?b1 = Inr (b2, On_order_book_update (mu_instrument_id c) (mu_price c) (mu_side c))"
    using clear_one_order [OF assms(4,3), of i] assms(4) b2(1) by (simp add: on_market_update_def)
  have "change_book v b2 = Inl NullPointer" using add_after_clear [OF assms(5,6)] b2(2) by metis
  then have v: "on_market_update v b2 = Inl NullPointer" using assms(5) by (simp add: on_market_update_def)
  have "mb_bid b2 = None" "mb_ask b2 = None" "mb_get_price_level (mu_price u) b2 \<noteq> None"
    by (subst b2(2); simp add: cleared_book_def one_order_book_def book_access)+
  then show ?thesis using market_order_book_init_eq u c v by blast
qed

theorem clear_breaks_book_witness:
  "\<exists>b b1 b2 e1 e2. market_order_book_init 0 = Inr b \<and> on_market_update sample_bid b = Inr (b1, e1) \<and>
    on_market_update (default_market_update\<lparr>mu_type := MU_CLEAR, mu_instrument_id := 0\<rparr>) b1 = Inr (b2, e2) \<and>
    on_market_update sample_bid b2 = Inl NullPointer"
  using clear_breaks_book [of sample_bid "default_market_update\<lparr>mu_type := MU_CLEAR, mu_instrument_id := 0\<rparr>" sample_bid 0]
  by auto

section \<open>Printing\<close>

text \<open>
  Printing a client's book that has an ask never ends. The loop over the bids starts from
  \<open>ask_\<close> and waits for a successor that is \<open>bid_\<close>, which the ring of the asks does not
  contain, so no number of iterations is enough. The destructor of the book prints it this way.
\<close>

theorem book_with_asks_prints_forever:
  assumes "side_rings s asks" and "mb_ask s = Some (fst (hd asks))" and "\<forall>l \<in> set (map fst asks). mb_bid s \<noteq> Some l"
  shows "mb_to_string fuel verbose check s = Inl OutOfFuel"
proof -
  let ?L = "fst ` set asks"
  have r: "ring (ml_next_entry \<circ> mb_level_at s) (ml_prev_entry \<circ> mb_level_at s) (map fst asks)"
    using assms(1) by (simp add: side_rings_def)
  have h: "fst (hd asks) \<in> ?L" using r by (cases asks) auto
  have step: "\<exists>n\<in>?L. ml_next_entry (mb_level_at s l) = Some n \<and> mb_bid s \<noteq> Some n" if "l \<in> ?L" for l
    using ring_neighbours(1) [OF r, of l] that assms(3) by auto
  have "print_levels fuel ''BIDS'' verbose check s BUY (mb_bid s) (mb_ask s) 0 (2 ^ 63 - 1) ss = Inl OutOfFuel" for ss
    by (rule print_levels_diverges [OF assms(2) h step printer_ring [OF assms(1)]])
  moreover have "print_levels fuel ''ASKS'' verbose check s SELL (mb_ask s) (mb_ask s) 0 (- (2 ^ 63)) ss = Inl OutOfFuel \<or>
      (\<exists>t. print_levels fuel ''ASKS'' verbose check s SELL (mb_ask s) (mb_ask s) 0 (- (2 ^ 63)) ss = Inr t)" for ss
  proof (rule print_levels_result [OF assms(2) h])
    show "\<exists>n\<in>?L. ml_next_entry (mb_level_at s l) = Some n" if "l \<in> ?L" for l using step [OF that] by auto
  qed (rule printer_ring [OF assms(1)])
  ultimately show ?thesis unfolding mb_to_string_def Let_def by (metis rbind_simps)
qed

definition sample_ask :: market_update where
  "sample_ask = sample_bid\<lparr>mu_side := SELL\<rparr>"

theorem book_with_asks_prints_forever_witness:
  "\<exists>b b' c. market_order_book_init 0 = Inr b \<and> on_market_update sample_ask b = Inr (b', c) \<and>
    (\<forall>fuel. mb_to_string fuel False True b' = Inl OutOfFuel)"
proof -
  let ?b = "one_order_book 0 sample_ask"
  have a: "mu_type sample_ask = MU_ADD" "mu_side sample_ask = SELL" "unat (mu_order_id sample_ask) < MAX_NUM_ORDERS"
    by (simp_all add: sample_ask_def)
  have u: "on_market_update sample_ask (new_book 0) = Inr (?b, On_order_book_update 0 100 SELL)"
    using add_first [OF a(1,3), of 0]
    by (simp add: on_market_update_def Let_def a bid_updated_def ask_updated_def new_book_def update_bbo_def)
      (simp add: sample_ask_def sample_bid_def)
  have "side_rings ?b [(0, [0])]" "mb_ask ?b = Some (fst (hd [(0 :: nat, [0 :: nat])]))"
    "\<forall>l \<in> set (map fst [(0 :: nat, [0 :: nat])]). mb_bid ?b \<noteq> Some l"
    using pool_sizes a by (simp_all add: side_rings_def one_order_book_def book_access)
  from book_with_asks_prints_forever [OF this] u show ?thesis by (auto simp: market_order_book_init_eq)
qed

end
