(* ===== verification/GatewaySerializer.thy ===== *)
theory GatewaySerializer
  imports MessageStream
begin

text \<open>
  \<open>example/order_gateway/serializer.hpp\<close>: the client's own copy of the encoders and decoders
  of requests and responses, in its namespace. They are translated from the client's file; the
  two ends agree because each of the four functions equals the server's, which is proved from
  the two translations.
\<close>

definition gw_serialize_client_request :: "bool \<Rightarrow> client_request_external \<Rightarrow> nat \<Rightarrow> buffer \<Rightarrow> buffer" where
  "gw_serialize_client_request be x base buffer =
     (let offset = base;
          seq_number_be = to_big_endian_64 be (rqx_sequence_number x);
          buffer = write_bytes offset (object_bytes be 8 seq_number_be) buffer;
          offset = offset + 8;
          buffer = write_bytes offset [byte_of_request_type (rq_type (rqx_request x))] buffer;
          offset = offset + 1;
          client_id_be = to_big_endian_32 be (rq_client_id (rqx_request x));
          buffer = write_bytes offset (object_bytes be 4 client_id_be) buffer;
          offset = offset + 4;
          buffer = write_bytes offset [rq_instrument_id (rqx_request x)] buffer;
          offset = offset + 1;
          order_id_be = to_big_endian_64 be (rq_order_id (rqx_request x));
          buffer = write_bytes offset (object_bytes be 8 order_id_be) buffer;
          offset = offset + 8;
          buffer = write_bytes offset [byte_of_side (rq_side (rqx_request x))] buffer;
          offset = offset + 1;
          price_be = to_big_endian_64 be (rq_price (rqx_request x));
          buffer = write_bytes offset (object_bytes be 8 price_be) buffer;
          offset = offset + 8;
          qty_be = to_big_endian_32 be (rq_qty (rqx_request x));
          buffer = write_bytes offset (object_bytes be 4 qty_be) buffer
      in buffer)"

definition gw_deserialize_client_request :: "bool \<Rightarrow> nat \<Rightarrow> buffer \<Rightarrow> client_request_external" where
  "gw_deserialize_client_request be base buffer =
     (let offset = base;
          sequence_number_be = object_value be (read_bytes offset 8 buffer);
          sequence_number = from_big_endian_64 be sequence_number_be;
          offset = offset + 8;
          type = request_type_of_byte (buffer offset);
          offset = offset + 1;
          client_id_be = object_value be (read_bytes offset 4 buffer);
          client_id = from_big_endian_32 be client_id_be;
          offset = offset + 4;
          instrument_id = buffer offset;
          offset = offset + 1;
          order_id_be = object_value be (read_bytes offset 8 buffer);
          order_id = from_big_endian_64 be order_id_be;
          offset = offset + 8;
          side = side_of_byte (buffer offset);
          offset = offset + 1;
          price_be = object_value be (read_bytes offset 8 buffer);
          price = from_big_endian_64 be price_be;
          offset = offset + 8;
          qty_be = object_value be (read_bytes offset 4 buffer);
          qty = from_big_endian_32 be qty_be
      in \<lparr>rqx_sequence_number = sequence_number, rqx_request = \<lparr>rq_type = type, rq_client_id = client_id, rq_instrument_id = instrument_id, rq_order_id = order_id, rq_side = side, rq_price = price, rq_qty = qty\<rparr>\<rparr>)"

definition gw_serialize_client_response :: "bool \<Rightarrow> client_response_external \<Rightarrow> nat \<Rightarrow> buffer \<Rightarrow> buffer" where
  "gw_serialize_client_response be x base buffer =
     (let offset = base;
          seq_number_be = to_big_endian_64 be (rsx_sequence_number x);
          buffer = write_bytes offset (object_bytes be 8 seq_number_be) buffer;
          offset = offset + 8;
          buffer = write_bytes offset [byte_of_response_type (rs_type (rsx_response x))] buffer;
          offset = offset + 1;
          client_id_be = to_big_endian_32 be (rs_client_id (rsx_response x));
          buffer = write_bytes offset (object_bytes be 4 client_id_be) buffer;
          offset = offset + 4;
          buffer = write_bytes offset [rs_instrument_id (rsx_response x)] buffer;
          offset = offset + 1;
          client_order_id_be = to_big_endian_64 be (rs_client_order_id (rsx_response x));
          buffer = write_bytes offset (object_bytes be 8 client_order_id_be) buffer;
          offset = offset + 8;
          market_order_id_be = to_big_endian_64 be (rs_market_order_id (rsx_response x));
          buffer = write_bytes offset (object_bytes be 8 market_order_id_be) buffer;
          offset = offset + 8;
          buffer = write_bytes offset [byte_of_side (rs_side (rsx_response x))] buffer;
          offset = offset + 1;
          price_be = to_big_endian_64 be (rs_price (rsx_response x));
          buffer = write_bytes offset (object_bytes be 8 price_be) buffer;
          offset = offset + 8;
          exec_qty_be = to_big_endian_32 be (rs_exec_qty (rsx_response x));
          buffer = write_bytes offset (object_bytes be 4 exec_qty_be) buffer;
          offset = offset + 4;
          leaves_qty_be = to_big_endian_32 be (rs_leaves_qty (rsx_response x));
          buffer = write_bytes offset (object_bytes be 4 leaves_qty_be) buffer
      in buffer)"

definition gw_deserialize_client_response :: "bool \<Rightarrow> nat \<Rightarrow> buffer \<Rightarrow> client_response_external" where
  "gw_deserialize_client_response be base buffer =
     (let offset = base;
          sequence_number_be = object_value be (read_bytes offset 8 buffer);
          sequence_number = from_big_endian_64 be sequence_number_be;
          offset = offset + 8;
          type = response_type_of_byte (buffer offset);
          offset = offset + 1;
          client_id_be = object_value be (read_bytes offset 4 buffer);
          client_id = from_big_endian_32 be client_id_be;
          offset = offset + 4;
          instrument_id = buffer offset;
          offset = offset + 1;
          client_order_id_be = object_value be (read_bytes offset 8 buffer);
          client_order_id = from_big_endian_64 be client_order_id_be;
          offset = offset + 8;
          market_order_id_be = object_value be (read_bytes offset 8 buffer);
          market_order_id = from_big_endian_64 be market_order_id_be;
          offset = offset + 8;
          side = side_of_byte (buffer offset);
          offset = offset + 1;
          price_be = object_value be (read_bytes offset 8 buffer);
          price = from_big_endian_64 be price_be;
          offset = offset + 8;
          exec_qty_be = object_value be (read_bytes offset 4 buffer);
          exec_qty = from_big_endian_32 be exec_qty_be;
          offset = offset + 4;
          leaves_qty_be = object_value be (read_bytes offset 4 buffer);
          leaves_qty = from_big_endian_32 be leaves_qty_be
      in \<lparr>rsx_sequence_number = sequence_number, rsx_response = \<lparr>rs_type = type, rs_client_id = client_id, rs_instrument_id = instrument_id, rs_client_order_id = client_order_id, rs_market_order_id = market_order_id, rs_side = side, rs_price = price, rs_exec_qty = exec_qty, rs_leaves_qty = leaves_qty\<rparr>\<rparr>)"

section \<open>Both ends speak the same protocol\<close>

lemma gw_serialize_client_request_eq: "gw_serialize_client_request = serialize_client_request"
  by (simp add: fun_eq_iff gw_serialize_client_request_def serialize_client_request_def)

lemma gw_deserialize_client_request_eq: "gw_deserialize_client_request = deserialize_client_request"
  by (simp add: fun_eq_iff gw_deserialize_client_request_def deserialize_client_request_def)

lemma gw_serialize_client_response_eq: "gw_serialize_client_response = serialize_client_response"
  by (simp add: fun_eq_iff gw_serialize_client_response_def serialize_client_response_def)

lemma gw_deserialize_client_response_eq: "gw_deserialize_client_response = deserialize_client_response"
  by (simp add: fun_eq_iff gw_deserialize_client_response_def deserialize_client_response_def)

lemmas gateway_protocol = gw_serialize_client_request_eq gw_deserialize_client_request_eq gw_serialize_client_response_eq gw_deserialize_client_response_eq

end
