(* ===== verification/OrderGateway.thy ===== *)
theory OrderGateway
  imports GatewaySerializer LockFreeQueue
begin

text \<open>
  \<open>example/order_gateway/order_gateway.hpp\<close> and \<open>.cpp\<close>: the trading client's connection to
  the order server. The callbacks of its event loop (connected, bytes read, idle) are the
  operations; what \<open>uv_write\<close> is given is recorded in \<open>gw_written\<close>, \<open>uv_read_start\<close> and
  \<open>uv_close\<close> in \<open>gw_reading\<close>.
\<close>

section \<open>The connection\<close>

record gateway_connection = tcp_inbound +
  gw_outbound_data :: buffer
  next_send_valid_index :: nat
  gw_reading :: bool
  gw_written :: "u8 list list"

definition gateway_connection_init :: gateway_connection where
  "gateway_connection_init = \<lparr>inbound_data = (\<lambda>_. 0), next_rcv_valid_index = 0, gw_outbound_data = (\<lambda>_. 0),
     next_send_valid_index = 0, gw_reading = False, gw_written = []\<rparr>"

definition gw_alloc_buffer :: "gateway_connection \<Rightarrow> nat \<times> nat" where
  "gw_alloc_buffer conn = (0, TCP_BUFFER_SIZE)"

definition gw_shift_inbound_buffer :: "nat \<Rightarrow> gateway_connection \<Rightarrow> gateway_connection" where
  "gw_shift_inbound_buffer processed_bytes conn =
     (if 0 < processed_bytes \<and> processed_bytes \<le> next_rcv_valid_index conn
      then conn\<lparr>inbound_data := write_bytes 0
             (read_bytes processed_bytes (next_rcv_valid_index conn - processed_bytes) (inbound_data conn)) (inbound_data conn),
           next_rcv_valid_index := next_rcv_valid_index conn - processed_bytes\<rparr>
      else conn)"

text \<open>
  The result says whether another request fits. The encoder writes through a raw pointer, so
  past the end of the vector the write is undefined.
\<close>

definition gw_append_to_outbound_buffer :: "bool \<Rightarrow> client_request_internal \<Rightarrow> u64 \<Rightarrow> gateway_connection \<Rightarrow>
    (bool \<times> gateway_connection) result" where
  "gw_append_to_outbound_buffer be request sequence_number conn =
     (if TCP_BUFFER_SIZE < next_send_valid_index conn + sizeof_client_request_external then Inl OutOfBounds
      else let conn = conn\<lparr>gw_outbound_data := gw_serialize_client_request be
                 \<lparr>rqx_sequence_number = sequence_number, rqx_request = request\<rparr>
                 (next_send_valid_index conn) (gw_outbound_data conn)\<rparr>;
               conn = conn\<lparr>next_send_valid_index := next_send_valid_index conn + sizeof_client_request_external\<rparr>
           in Inr (sizeof_client_request_external \<le> TCP_BUFFER_SIZE - next_send_valid_index conn, conn))"

section \<open>The gateway\<close>

record order_gateway =
  gw_client_id :: client_id_t
  incoming_responses :: "client_response_internal lock_free_queue"
  outgoing_requests :: "client_request_internal lock_free_queue"
  next_outgoing_seq_num :: u64
  gw_next_exp_seq_num :: u64
  gw_connection :: gateway_connection

definition order_gateway_init :: "client_request_internal lock_free_queue \<Rightarrow>
    client_response_internal lock_free_queue \<Rightarrow> order_gateway" where
  "order_gateway_init outgoing incoming = \<lparr>gw_client_id = INVALID_CLIENT_ID, incoming_responses = incoming,
     outgoing_requests = outgoing, next_outgoing_seq_num = 1, gw_next_exp_seq_num = 1,
     gw_connection = gateway_connection_init\<rparr>"

definition on_connect :: "int \<Rightarrow> order_gateway \<Rightarrow> order_gateway" where
  "on_connect status g =
     (if status < 0 then g else g\<lparr>gw_connection := (gw_connection g)\<lparr>gw_reading := True\<rparr>\<rparr>)"

text \<open>The body of the loop in \<open>read_data\<close>, for one response.\<close>

definition receive_response :: "client_response_external \<Rightarrow> order_gateway \<Rightarrow> order_gateway" where
  "receive_response x g =
     (if gw_client_id g \<noteq> INVALID_CLIENT_ID \<and> gw_client_id g \<noteq> rs_client_id (rsx_response x) then g
      else if rsx_sequence_number x \<noteq> gw_next_exp_seq_num g then g
      else let g = (if rsx_sequence_number x = 1 then g\<lparr>gw_client_id := rs_client_id (rsx_response x)\<rparr>
                    else g\<lparr>incoming_responses := next_write_index
                           (put_next_write_element (rsx_response x) (incoming_responses g))\<rparr>)
           in g\<lparr>gw_next_exp_seq_num := gw_next_exp_seq_num g + 1\<rparr>)"

text \<open>
  The loop, from offset \<open>i\<close>, up to the connection's \<open>next_rcv_valid_index\<close> \<open>n\<close>, which the
  body leaves alone. The buffer may only be read up to its size.
\<close>

function read_responses :: "bool \<Rightarrow> buffer \<Rightarrow> nat \<Rightarrow> nat \<Rightarrow> order_gateway \<Rightarrow> (nat \<times> order_gateway) result" where
  "read_responses be buf n i g =
     (if i + sizeof_client_response_external \<le> n then
        if TCP_BUFFER_SIZE < i + sizeof_client_response_external then Inl OutOfBounds
        else read_responses be buf n (i + sizeof_client_response_external)
               (receive_response (gw_deserialize_client_response be i buf) g)
      else Inr (i, g))"
  by pat_completeness auto

termination
  by (relation "measure (\<lambda>(be, buf, n, i, g). n - i)") (auto simp: sizeof_defs)

declare read_responses.simps [simp del]

definition gw_read_data :: "bool \<Rightarrow> order_gateway \<Rightarrow> order_gateway result" where
  "gw_read_data be g =
     (let conn = gw_connection g
      in if sizeof_client_response_external \<le> next_rcv_valid_index conn then
           rbind (read_responses be (inbound_data conn) (next_rcv_valid_index conn) 0 g) (\<lambda>(i, g).
             Inr (g\<lparr>gw_connection := gw_shift_inbound_buffer i (gw_connection g)\<rparr>))
         else Inr g)"

text \<open>The read callback; libuv has put the bytes where \<open>alloc_buffer\<close> said.\<close>

definition gw_on_read :: "bool \<Rightarrow> read_result \<Rightarrow> order_gateway \<Rightarrow> order_gateway result" where
  "gw_on_read be r g =
     (case r of
        Received bs \<Rightarrow>
          if bs = [] then Inr g
          else let conn = gw_connection g;
                   conn = conn\<lparr>inbound_data := write_bytes (fst (gw_alloc_buffer conn)) bs (inbound_data conn)\<rparr>;
                   conn = conn\<lparr>next_rcv_valid_index := next_rcv_valid_index conn + length bs\<rparr>
               in gw_read_data be (g\<lparr>gw_connection := conn\<rparr>)
      | End_Of_Stream \<Rightarrow> Inr (g\<lparr>gw_connection := (gw_connection g)\<lparr>gw_reading := False\<rparr>\<rparr>)
      | Read_Error \<Rightarrow> Inr (g\<lparr>gw_connection := (gw_connection g)\<lparr>gw_reading := False\<rparr>\<rparr>))"

section \<open>Sending requests\<close>

text \<open>\<open>request\<close> points into the queue: the client identifier is stored in the slot itself.\<close>

definition put_read_element :: "'a \<Rightarrow> 'a lock_free_queue \<Rightarrow> 'a lock_free_queue" where
  "put_read_element v q = q\<lparr>q_data := (q_data q)(q_next_read_index q := v)\<rparr>"

definition send_one :: "bool \<Rightarrow> client_request_internal \<Rightarrow> order_gateway \<Rightarrow> (bool \<times> order_gateway) result" where
  "send_one be request g =
     (let request = request\<lparr>rq_client_id := gw_client_id g\<rparr>;
          g = g\<lparr>outgoing_requests := put_read_element request (outgoing_requests g)\<rparr>
      in rbind (gw_append_to_outbound_buffer be request (next_outgoing_seq_num g) (gw_connection g)) (\<lambda>(can_continue_write, conn).
         Inr (can_continue_write, g\<lparr>gw_connection := conn, outgoing_requests := next_read_index (outgoing_requests g),
                next_outgoing_seq_num := next_outgoing_seq_num g + 1\<rparr>)))"

lemma send_one_consumes:
  assumes "send_one be x g = Inr (c, g')" and "queue_size (outgoing_requests g) \<noteq> 0"
  shows "q_num_elements (outgoing_requests g') < q_num_elements (outgoing_requests g)"
  using assms by (auto simp: send_one_def Let_def rbind_Inr_iff put_read_element_def queue_defs)

function send_loop :: "bool \<Rightarrow> bool \<Rightarrow> order_gateway \<Rightarrow> order_gateway result" where
  "send_loop be can_continue_write g =
     (if queue_size (outgoing_requests g) \<noteq> 0 \<and> get_next_read_element (outgoing_requests g) \<noteq> None \<and> can_continue_write
      then rbind (send_one be (the (get_next_read_element (outgoing_requests g))) g) (\<lambda>(can_continue_write, g).
             send_loop be can_continue_write g)
      else Inr g)"
  by pat_completeness auto

termination
  by (relation "measure (\<lambda>(be, c, g). q_num_elements (outgoing_requests g))")
    (auto dest: send_one_consumes)

declare send_loop.simps [simp del]

definition send_request :: "bool \<Rightarrow> order_gateway \<Rightarrow> order_gateway result" where
  "send_request be g =
     rbind (send_loop be True g) (\<lambda>g.
     let conn = gw_connection g;
         conn = (if next_send_valid_index conn \<noteq> 0
                 then conn\<lparr>gw_written := gw_written conn @ [read_bytes 0 (next_send_valid_index conn) (gw_outbound_data conn)]\<rparr>
                 else conn)
     in Inr (g\<lparr>gw_connection := conn\<lparr>next_send_valid_index := 0\<rparr>\<rparr>))"

definition gw_on_idle :: "bool \<Rightarrow> order_gateway \<Rightarrow> order_gateway result" where
  "gw_on_idle be g = (if gw_client_id g = INVALID_CLIENT_ID then Inr g else send_request be g)"

end
