(* ===== verification/OrderGatewayProperties.thy ===== *)
theory OrderGatewayProperties
  imports OrderGateway OrderServerProperties
begin

text \<open>
  The two ends of a client connection together: what the gateway sends, the server accepts, and
  what the server sends, the gateway forwards to the trading engine.
\<close>

section \<open>The requests of a batch\<close>

fun batch_numbered :: "u64 \<Rightarrow> client_id_t \<Rightarrow> client_request_internal list \<Rightarrow> client_request_external list" where
  "batch_numbered n c [] = []"
| "batch_numbered n c (x # xs) = \<lparr>rqx_sequence_number = n, rqx_request = x\<lparr>rq_client_id := c\<rparr>\<rparr> # batch_numbered (n + 1) c xs"

lemma length_batch [simp]: "length (batch_numbered n c xs) = length xs"
  by (induction xs arbitrary: n) simp_all

lemma numbered_requests: "map (\<lambda>x. f (rqx_request x)) (batch_numbered n c xs) = map (\<lambda>x. f (x\<lparr>rq_client_id := c\<rparr>)) xs"
  by (induction xs arbitrary: n) simp_all

lemma numbered_client: "list_all (\<lambda>x. rq_client_id (rqx_request x) = c) (batch_numbered n c xs)"
  by (induction xs arbitrary: n) simp_all

lemma numbered_wire: "list_all (\<lambda>x. wire_request_type (rq_type x) \<and> wire_side (rq_side x)) xs \<Longrightarrow>
    list_all wire_request (batch_numbered n c xs)"
  by (induction xs arbitrary: n) (simp_all add: wire_request_def)

text \<open>The 64 bit numbers of the gateway meet the 32 bit counter of the server until that wraps.\<close>

lemma ucast_Suc32: "unat (n::u32) + 1 < 2 ^ 32 \<Longrightarrow> (ucast (n + 1) :: u64) = ucast n + 1"
  by (simp add: word_unat_eq_iff unsigned_ucast_eq unat_word_ariths take_bit_eq_mod)

lemma accepted_batch:
  assumes "unat n + length xs < 2 ^ 32" and "unat c = k"
  shows "accepted k n (batch_numbered (ucast n) c xs) = batch_numbered (ucast n) c xs \<and> refused k n (batch_numbered (ucast n) c xs) = []"
  using assms
proof (induction xs arbitrary: n)
  case (Cons x xs)
  have s: "unat (n + 1) = unat n + 1" "(ucast (n + 1) :: u64) = ucast n + 1"
    using Cons.prems(1) ucast_Suc32 [of n] by (simp_all add: unat_word_ariths)
  then show ?case using Cons.IH [of "n + 1"] Cons.prems by (simp add: in_sequence_def)
qed simp

section \<open>Sending\<close>

lemma write_bytes_Nil [simp]: "write_bytes i [] buf = buf"
  by (auto simp: write_bytes_def fun_eq_iff)

lemma put_read_element_queue:
  assumes "queue_inv q" and "queue_items q = x # xs"
  shows "queue_inv (next_read_index (put_read_element v q))"
    and "queue_items (next_read_index (put_read_element v q)) = xs"
    and "q_size (next_read_index (put_read_element v q)) = q_size q"
proof -
  have n: "q_num_elements q \<noteq> 0" using assms(2) length_queue_items [of q] by auto
  let ?p = "put_read_element v q"
  have i: "queue_inv ?p" using assms(1) by (simp add: queue_inv_def put_read_element_def)
  then show "queue_inv (next_read_index ?p)" by (rule queue_inv_next_read_index)
  have "(q_next_read_index q + i) mod q_size q \<noteq> q_next_read_index q" if "i < q_num_elements q" "i \<noteq> 0" for i
    using mod_add_inj [of "q_next_read_index q" i "q_size q" 0] that assms(1) by (auto simp: queue_inv_def)
  then have "tl (queue_items ?p) = tl (queue_items q)"
    using n by (auto simp: queue_items_def put_read_element_def map_tl [symmetric] upt_conv_Cons)
  then show "queue_items (next_read_index ?p) = xs" using queue_items_next_read_index [OF i] assms(2) by simp
  show "q_size (next_read_index ?p) = q_size q" by (simp add: put_read_element_def)
qed

lemma send_one_ok:
  assumes "next_send_valid_index (gw_connection g) + sizeof_client_request_external \<le> TCP_BUFFER_SIZE"
  shows "send_one be x g = (let i = next_send_valid_index (gw_connection g); m = batch_numbered (next_outgoing_seq_num g) (gw_client_id g) [x]
     in Inr (sizeof_client_request_external \<le> TCP_BUFFER_SIZE - (i + sizeof_client_request_external),
       g\<lparr>gw_connection := (gw_connection g)\<lparr>gw_outbound_data := write_bytes i (concat (map request_bytes m)) (gw_outbound_data (gw_connection g)),
            next_send_valid_index := i + sizeof_client_request_external\<rparr>,
         outgoing_requests := next_read_index (put_read_element (x\<lparr>rq_client_id := gw_client_id g\<rparr>) (outgoing_requests g)),
         next_outgoing_seq_num := next_outgoing_seq_num g + 1\<rparr>))"
  using assms by (simp add: send_one_def gw_append_to_outbound_buffer_def Let_def gateway_protocol serialize_client_request_eq)

text \<open>The loop empties the queue into the buffer, as long as everything fits.\<close>

lemma send_loop_ok:
  assumes "queue_inv (outgoing_requests g)" and "queue_items (outgoing_requests g) = xs"
    and "next_send_valid_index (gw_connection g) + length xs * sizeof_client_request_external \<le> TCP_BUFFER_SIZE"
    and "cont \<or> xs = []"
  shows "\<exists>q. send_loop be cont g = Inr (g\<lparr>gw_connection := (gw_connection g)\<lparr>
        gw_outbound_data := write_bytes (next_send_valid_index (gw_connection g))
          (concat (map request_bytes (batch_numbered (next_outgoing_seq_num g) (gw_client_id g) xs))) (gw_outbound_data (gw_connection g)),
        next_send_valid_index := next_send_valid_index (gw_connection g) + length xs * sizeof_client_request_external\<rparr>,
      outgoing_requests := q, next_outgoing_seq_num := next_outgoing_seq_num g + word_of_nat (length xs)\<rparr>) \<and>
    queue_inv q \<and> queue_items q = [] \<and> q_size q = q_size (outgoing_requests g)"
  using assms
proof (induction xs arbitrary: g cont)
  case Nil
  then have "queue_size (outgoing_requests g) = 0" using length_queue_items [of "outgoing_requests g"] by (simp add: queue_defs)
  then show ?case using Nil by (intro exI [of _ "outgoing_requests g"]) (simp add: send_loop.simps)
next
  case (Cons x xs)
  let ?c = "gw_connection g" and ?q = "outgoing_requests g"
  let ?i = "next_send_valid_index ?c"
  let ?m = "concat (map request_bytes (batch_numbered (next_outgoing_seq_num g) (gw_client_id g) [x]))"
  let ?q1 = "next_read_index (put_read_element (x\<lparr>rq_client_id := gw_client_id g\<rparr>) ?q)"
  let ?g1 = "g\<lparr>gw_connection := ?c\<lparr>gw_outbound_data := write_bytes ?i ?m (gw_outbound_data ?c),
            next_send_valid_index := ?i + sizeof_client_request_external\<rparr>,
         outgoing_requests := ?q1, next_outgoing_seq_num := next_outgoing_seq_num g + 1\<rparr>"
  let ?k = "sizeof_client_request_external \<le> TCP_BUFFER_SIZE - (?i + sizeof_client_request_external)"
  have q: "get_next_read_element ?q = Some x" "queue_size ?q \<noteq> 0"
    using get_next_read_element_items [OF Cons.prems(1)] Cons.prems(2) by (auto simp: get_next_read_element_def split: if_splits)
  have room: "?i + sizeof_client_request_external \<le> TCP_BUFFER_SIZE" "?k \<or> xs = []"
    using Cons.prems(3) by (cases xs; simp)+
  have step: "send_loop be cont g = send_loop be ?k ?g1"
    using q Cons.prems(4) send_one_ok [OF room(1), of be x] by (subst send_loop.simps) (simp add: Let_def)
  have "\<exists>q. send_loop be ?k ?g1 = Inr (?g1\<lparr>gw_connection := (gw_connection ?g1)\<lparr>
        gw_outbound_data := write_bytes (next_send_valid_index (gw_connection ?g1))
          (concat (map request_bytes (batch_numbered (next_outgoing_seq_num ?g1) (gw_client_id ?g1) xs))) (gw_outbound_data (gw_connection ?g1)),
        next_send_valid_index := next_send_valid_index (gw_connection ?g1) + length xs * sizeof_client_request_external\<rparr>,
      outgoing_requests := q, next_outgoing_seq_num := next_outgoing_seq_num ?g1 + word_of_nat (length xs)\<rparr>) \<and>
    queue_inv q \<and> queue_items q = [] \<and> q_size q = q_size (outgoing_requests ?g1)"
    by (rule Cons.IH) (use put_read_element_queue [OF Cons.prems(1,2)] Cons.prems(3) room(2) in simp_all)
  then show ?case unfolding step using put_read_element_queue(3) [OF Cons.prems(1,2)]
    by (simp add: write_write_adjacent add.assoc add.commute [of 1])
qed

lemma send_request_ok:
  assumes "queue_inv (outgoing_requests g)" and "queue_items (outgoing_requests g) = xs" and "xs \<noteq> []"
    and "next_send_valid_index (gw_connection g) = 0"
    and "length xs * sizeof_client_request_external \<le> TCP_BUFFER_SIZE"
  shows "\<exists>g'. send_request be g = Inr g' \<and>
    gw_written (gw_connection g') = gw_written (gw_connection g) @
      [concat (map request_bytes (batch_numbered (next_outgoing_seq_num g) (gw_client_id g) xs))] \<and>
    next_send_valid_index (gw_connection g') = 0 \<and> gw_client_id g' = gw_client_id g \<and>
    next_outgoing_seq_num g' = next_outgoing_seq_num g + word_of_nat (length xs) \<and>
    queue_inv (outgoing_requests g') \<and> queue_items (outgoing_requests g') = [] \<and>
    q_size (outgoing_requests g') = q_size (outgoing_requests g)"
proof -
  let ?m = "batch_numbered (next_outgoing_seq_num g) (gw_client_id g) xs"
  have len: "length (concat (map request_bytes ?m)) = length xs * sizeof_client_request_external"
    using requests.images_length [of ?m] by simp
  have "0 < length xs * sizeof_client_request_external" using assms(3) by (simp add: sizeof_defs)
  then show ?thesis using send_loop_ok [OF assms(1,2), of True be] assms(4,5) len
    by (auto simp: send_request_def Let_def)
qed

text \<open>
  C32: end to end, the requests the trading engine has queued reach the exchange's sequencer. An
  idle turn of a logged-on gateway sends all of them in one write, stamped with the gateway's
  client identifier and the next sequence numbers, within the outbound buffer; when the server
  reads these bytes it accepts every request in order and answers none with an error, and both
  ends agree again on the number of the next request, so the step can be repeated until the
  server's 32 bit counter is exhausted.
\<close>

theorem gateway_requests_accepted:
  assumes "queue_inv (outgoing_requests g)" and "queue_items (outgoing_requests g) = xs" and "xs \<noteq> []"
    and "next_send_valid_index (gw_connection g) = 0" and "gw_client_id g \<noteq> INVALID_CLIENT_ID"
    and "list_all (\<lambda>x. wire_request_type (rq_type x) \<and> wire_side (rq_side x)) xs"
    and "unat (gw_client_id g) = c" and "c < MAX_NUM_CLIENTS"
    and "client_connections s c = Some conn" and "next_rcv_valid_index conn = 0"
    and "pending_size (fifo s) + length xs \<le> MAX_PENDING_REQUESTS"
    and "next_outgoing_seq_num g = ucast (client_next_incoming_seq_num s c)"
    and "unat (client_next_incoming_seq_num s c) + length xs < 2 ^ 32"
  shows "\<exists>g' s' conn' bs. gw_on_idle be g = Inr g' \<and> gw_written (gw_connection g') = gw_written (gw_connection g) @ [bs] \<and>
    on_read be' c (Received bs) t s = Inr s' \<and>
    pending (fifo s') = pending (fifo s) @
      map (\<lambda>x. \<lparr>recv_time = t * NANOS_PER_MILLIS, request = x\<lparr>rq_client_id := gw_client_id g\<rparr>\<rparr>) xs \<and>
    server_responses s' = server_responses s \<and>
    next_outgoing_seq_num g' = ucast (client_next_incoming_seq_num s' c) \<and> queue_items (outgoing_requests g') = [] \<and>
    next_send_valid_index (gw_connection g') = 0 \<and> client_connections s' c = Some conn' \<and> next_rcv_valid_index conn' = 0"
proof -
  let ?n = "client_next_incoming_seq_num s c"
  let ?m = "batch_numbered (ucast ?n) (gw_client_id g) xs"
  have room: "length xs * sizeof_client_request_external \<le> TCP_BUFFER_SIZE"
    using assms(11) by (simp add: model_constants sizeof_defs)
  obtain g' where g': "gw_on_idle be g = Inr g'"
    "gw_written (gw_connection g') = gw_written (gw_connection g) @ [concat (map request_bytes ?m)]"
    "next_send_valid_index (gw_connection g') = 0" "next_outgoing_seq_num g' = ucast ?n + word_of_nat (length xs)"
    "queue_items (outgoing_requests g') = []"
    using send_request_ok [OF assms(1-4) room, of be] assms(5,12) by (auto simp: gw_on_idle_def)
  have "?m \<noteq> []" using assms(3) by (cases xs) auto
  moreover have "list_all (\<lambda>x. unat (rq_client_id (rqx_request x)) < MAX_NUM_CLIENTS) ?m"
    using numbered_client [of "gw_client_id g" "ucast ?n" xs] assms(7,8) by (auto simp: list_all_iff)
  ultimately obtain b s' where r: "on_read be' c (Received (concat (map request_bytes ?m))) t s = Inr s'"
    "received c (t * NANOS_PER_MILLIS) ?m
      (s\<lparr>client_connections := (client_connections s)(c := Some (conn\<lparr>inbound_data := b, next_rcv_valid_index := 0\<rparr>))\<rparr>) s'"
    using on_read_messages [OF assms(9,10) _ numbered_wire [OF assms(6)], of "ucast ?n" "gw_client_id g" be' t] room assms(11)
    by auto
  have acc: "accepted c ?n ?m = ?m" "refused c ?n ?m = []" using accepted_batch [OF assms(13,7)] by simp_all
  note f = received_facts [OF r(2)] and cc = received_connections(1) [OF r(2)]
  have "(ucast (?n + word_of_nat (length xs)) :: u64) = ucast ?n + word_of_nat (length xs)"
    using assms(13) by (simp add: word_unat_eq_iff unsigned_ucast_eq unat_word_ariths unat_of_nat take_bit_eq_mod)
  then show ?thesis using g' r(1) f cc acc
      numbered_requests [of "\<lambda>x. \<lparr>recv_time = t * NANOS_PER_MILLIS, request = x\<rparr>" "ucast ?n" "gw_client_id g" xs] by simp
qed

text \<open>A gateway that has logged on as client 0, with two orders queued.\<close>

definition sample_gateway :: order_gateway where
  "sample_gateway = (order_gateway_init
     (fold enqueue [rqx_request (sample_order 1), rqx_request (sample_order 2)] (lock_free_queue_init 8 default_client_request))
     (lock_free_queue_init 8 default_client_response))\<lparr>gw_client_id := 0, gw_next_exp_seq_num := 2\<rparr>"

theorem gateway_requests_accepted_witness:
  "\<exists>g' s' bs. gw_on_idle False sample_gateway = Inr g' \<and> gw_written (gw_connection g') = [bs] \<and>
    on_read True 0 (Received bs) 5 sample_server = Inr s' \<and> map (rq_order_id \<circ> request) (pending (fifo s')) = [1, 2] \<and>
    next_outgoing_seq_num g' = ucast (client_next_incoming_seq_num s' 0)"
proof -
  let ?xs = "[rqx_request (sample_order 1), rqx_request (sample_order 2)]"
  have q: "queue_inv (outgoing_requests sample_gateway)" "queue_items (outgoing_requests sample_gateway) = ?xs"
    using filled_queue [of 8 ?xs default_client_request] by (simp_all add: sample_gateway_def order_gateway_init_def)
  have h: "?xs \<noteq> []" "next_send_valid_index (gw_connection sample_gateway) = 0" "gw_client_id sample_gateway \<noteq> INVALID_CLIENT_ID"
    "list_all (\<lambda>x. wire_request_type (rq_type x) \<and> wire_side (rq_side x)) ?xs"
    "unat (gw_client_id sample_gateway) = 0" "0 < MAX_NUM_CLIENTS"
    "client_connections sample_server 0 = Some tcp_connection_init" "next_rcv_valid_index tcp_connection_init = 0"
    "pending_size (fifo sample_server) + length ?xs \<le> MAX_PENDING_REQUESTS"
    "next_outgoing_seq_num sample_gateway = ucast (client_next_incoming_seq_num sample_server 0)"
    "unat (client_next_incoming_seq_num sample_server 0) + length ?xs < 2 ^ 32"
    by (simp_all add: sample_gateway_def order_gateway_init_def gateway_connection_init_def invalid_defs sample_order_def
        model_constants sample_server_def tcp_connection_init_def fifo_sequencer_init_def)
  have "gw_written (gw_connection sample_gateway) = []" "pending (fifo sample_server) = []"
    by (simp_all add: sample_gateway_def order_gateway_init_def gateway_connection_init_def sample_server_def
        fifo_sequencer_init_def pending_def)
  then show ?thesis using gateway_requests_accepted [OF q h, of False True 5] by (auto simp: sample_order_id)
qed

section \<open>Receiving\<close>

text \<open>The gateway's loop is a fold over the messages of the buffer.\<close>

lemma read_responses_fold:
  assumes "n \<le> TCP_BUFFER_SIZE"
  shows "\<exists>j. read_responses be buf n i g = Inr (j, fold receive_response
      (messages sizeof_client_response_external (deserialize_client_response be) i (n - i) buf) g) \<and>
    j = i + (n - i) div sizeof_client_response_external * sizeof_client_response_external"
  using assms
proof (induction be buf n i g rule: read_responses.induct)
  case (1 be buf n i g)
  let ?z = sizeof_client_response_external
  show ?case
  proof (cases "i + ?z \<le> n")
    case True
    then have b: "\<not> TCP_BUFFER_SIZE < i + ?z" using "1.prems" by simp
    have d: "(n - i) div ?z = Suc ((n - (i + ?z)) div ?z)"
      using True responses.sz_pos div_if [of "n - i" ?z] by (simp add: diff_diff_eq)
    show ?thesis using "1.IH" [OF True b "1.prems"] True b responses.messages_Cons [OF True, of be buf]
      by (subst read_responses.simps) (simp add: gateway_protocol d)
  next
    case False
    then show ?thesis using responses.messages_end [OF False, of be buf] responses.sz_pos
      by (subst read_responses.simps) simp
  qed
qed

fun consecutive :: "u64 \<Rightarrow> client_id_t \<Rightarrow> client_response_external list \<Rightarrow> bool" where
  "consecutive n c [] \<longleftrightarrow> True"
| "consecutive n c (x # xs) \<longleftrightarrow> rsx_sequence_number x = n \<and> rs_client_id (rsx_response x) = c \<and> consecutive (n + 1) c xs"

lemma receive_consecutive:
  assumes "consecutive (gw_next_exp_seq_num g) c xs" and "gw_client_id g = c" and "1 < unat (gw_next_exp_seq_num g)"
    and "unat (gw_next_exp_seq_num g) + length xs < 2 ^ 64"
  shows "fold receive_response xs g = g\<lparr>incoming_responses := fold enqueue (map rsx_response xs) (incoming_responses g),
      gw_next_exp_seq_num := gw_next_exp_seq_num g + word_of_nat (length xs)\<rparr>"
  using assms
proof (induction xs arbitrary: g)
  case (Cons x xs)
  let ?n = "gw_next_exp_seq_num g"
  let ?g1 = "g\<lparr>incoming_responses := enqueue (rsx_response x) (incoming_responses g), gw_next_exp_seq_num := ?n + 1\<rparr>"
  have "?n \<noteq> 1" using Cons.prems(3) by auto
  then have "receive_response x g = ?g1" using Cons.prems(1,2) by (simp add: receive_response_def Let_def enqueue_def)
  moreover have u: "unat (?n + 1) = unat ?n + 1" using Cons.prems(4) by (simp add: unat_word_ariths)
  moreover have "fold receive_response xs ?g1 = ?g1\<lparr>incoming_responses := fold enqueue (map rsx_response xs) (incoming_responses ?g1),
      gw_next_exp_seq_num := gw_next_exp_seq_num ?g1 + word_of_nat (length xs)\<rparr>"
    by (rule Cons.IH) (use Cons.prems u in simp_all)
  ultimately show ?case by (simp add: add.assoc add.commute [of 1])
qed simp

lemma receive_logon:
  assumes "consecutive 1 c xs" and "gw_next_exp_seq_num g = 1" and "gw_client_id g = INVALID_CLIENT_ID"
    and "xs \<noteq> []" and "length xs + 1 < 2 ^ 64"
  shows "fold receive_response xs g = g\<lparr>gw_client_id := c,
      incoming_responses := fold enqueue (map rsx_response (tl xs)) (incoming_responses g),
      gw_next_exp_seq_num := 1 + word_of_nat (length xs)\<rparr>"
proof -
  obtain x ys where xs: "xs = x # ys" using assms(4) by (cases xs) auto
  let ?g1 = "g\<lparr>gw_client_id := c, gw_next_exp_seq_num := 2\<rparr>"
  have "receive_response x g = ?g1" using assms(1-3) xs by (auto simp: receive_response_def)
  moreover have "fold receive_response ys ?g1 = ?g1\<lparr>incoming_responses := fold enqueue (map rsx_response ys) (incoming_responses ?g1),
      gw_next_exp_seq_num := gw_next_exp_seq_num ?g1 + word_of_nat (length ys)\<rparr>"
    by (rule receive_consecutive) (use assms(1,5) xs in simp_all)
  ultimately show ?thesis using xs by simp
qed

lemma receive_response_connection:
  "fold receive_response xs (g\<lparr>gw_connection := c\<rparr>) = (fold receive_response xs g)\<lparr>gw_connection := c\<rparr>"
proof (induction xs arbitrary: g)
  case (Cons x xs)
  have "receive_response x (g\<lparr>gw_connection := c\<rparr>) = (receive_response x g)\<lparr>gw_connection := c\<rparr>"
    by (cases g) (simp add: receive_response_def Let_def)
  then show ?case by (simp add: Cons.IH)
qed simp

lemma gw_on_read_messages:
  assumes "next_rcv_valid_index (gw_connection g) = 0" and "xs \<noteq> []" and "list_all wire_response xs"
    and "length xs * sizeof_client_response_external \<le> TCP_BUFFER_SIZE"
  shows "\<exists>b. gw_on_read be (Received (concat (map response_bytes xs))) g = Inr ((fold receive_response xs g)
      \<lparr>gw_connection := (gw_connection g)\<lparr>inbound_data := b, next_rcv_valid_index := 0\<rparr>\<rparr>)"
proof -
  let ?bs = "concat (map response_bytes xs)" and ?z = sizeof_client_response_external
  let ?n = "length xs * ?z"
  let ?c1 = "(gw_connection g)\<lparr>inbound_data := write_bytes 0 ?bs (inbound_data (gw_connection g)), next_rcv_valid_index := ?n\<rparr>"
  let ?g1 = "g\<lparr>gw_connection := ?c1\<rparr>"
  have ne: "?bs \<noteq> []" "?z \<le> ?n" using assms(2) by (cases xs; simp add: response_bytes_def)+
  have "messages ?z (deserialize_client_response be) 0 ?n (inbound_data ?c1) = xs"
    using responses.messages_written [OF assms(3)] by simp
  then have "read_responses be (inbound_data ?c1) ?n 0 ?g1 = Inr (?n, fold receive_response xs ?g1)"
    using read_responses_fold [OF assms(4), of be "inbound_data ?c1" 0 ?g1] responses.sz_pos by simp
  then have "gw_read_data be ?g1 = Inr ((fold receive_response xs g)\<lparr>gw_connection := gw_shift_inbound_buffer ?n ?c1\<rparr>)"
    using ne(2) by (simp add: gw_read_data_def receive_response_connection)
  moreover have "gw_on_read be (Received ?bs) g = gw_read_data be ?g1"
    using assms(1) ne(1) by (simp add: gw_on_read_def Let_def responses.images_length gw_alloc_buffer_def
        del: concat_eq_Nil_conv)
  moreover have "\<exists>b. gw_shift_inbound_buffer ?n ?c1 = (gw_connection g)\<lparr>inbound_data := b, next_rcv_valid_index := 0\<rparr>"
    using assms(2) by (auto simp: gw_shift_inbound_buffer_def)
  ultimately show ?thesis by metis
qed

text \<open>
  The first response a gateway gets logs it on, the following ones go to the trading engine, in
  order; a gateway that is logged on forwards all of them.
\<close>

lemma gateway_logs_on:
  assumes "next_rcv_valid_index (gw_connection g) = 0" and "xs \<noteq> []" and "list_all wire_response xs"
    and "length xs * sizeof_client_response_external \<le> TCP_BUFFER_SIZE" and "consecutive 1 c xs"
    and "gw_next_exp_seq_num g = 1" and "gw_client_id g = INVALID_CLIENT_ID"
  shows "\<exists>g'. gw_on_read be (Received (concat (map response_bytes xs))) g = Inr g' \<and> gw_client_id g' = c \<and>
    incoming_responses g' = fold enqueue (map rsx_response (tl xs)) (incoming_responses g) \<and>
    gw_next_exp_seq_num g' = 1 + word_of_nat (length xs)"
  using gw_on_read_messages [OF assms(1-4), of be] receive_logon [OF assms(5,6,7,2)] assms(4)
  by (auto simp: model_constants sizeof_defs)

lemma gateway_forwards_responses:
  assumes "next_rcv_valid_index (gw_connection g) = 0" and "xs \<noteq> []" and "list_all wire_response xs"
    and "length xs * sizeof_client_response_external \<le> TCP_BUFFER_SIZE"
    and "consecutive (gw_next_exp_seq_num g) c xs" and "gw_client_id g = c" and "1 < unat (gw_next_exp_seq_num g)"
    and "unat (gw_next_exp_seq_num g) + length xs < 2 ^ 64"
  shows "\<exists>g'. gw_on_read be (Received (concat (map response_bytes xs))) g = Inr g' \<and> gw_client_id g' = c \<and>
    incoming_responses g' = fold enqueue (map rsx_response xs) (incoming_responses g) \<and>
    gw_next_exp_seq_num g' = gw_next_exp_seq_num g + word_of_nat (length xs)"
  using gw_on_read_messages [OF assms(1-4), of be] receive_consecutive [OF assms(5-8)] assms(6) by auto

end
