(* ===== verification/ResponsePath.thy ===== *)
theory ResponsePath
  imports OrderGatewayProperties
begin

text \<open>
  The way back: from the server's queue of responses, over the write callback and the connection,
  to the queue from which the trade engine takes them.
\<close>

section \<open>The responses of a batch\<close>

fun responses_numbered :: "u32 \<Rightarrow> client_response_internal list \<Rightarrow> client_response_external list" where
  "responses_numbered n [] = []"
| "responses_numbered n (r # rs) = \<lparr>rsx_sequence_number = ucast n, rsx_response = r\<rparr> # responses_numbered (n + 1) rs"

lemma length_responses_numbered [simp]: "length (responses_numbered n rs) = length rs"
  by (induction rs arbitrary: n) simp_all

lemma response_images_numbered: "response_images n rs = map response_bytes (responses_numbered n rs)"
  by (induction rs arbitrary: n) simp_all

lemma responses_numbered_responses [simp]: "map rsx_response (responses_numbered n rs) = rs"
  by (induction rs arbitrary: n) simp_all

lemma responses_numbered_wire:
  "list_all (\<lambda>r. wire_response_type (rs_type r) \<and> wire_side (rs_side r)) rs \<Longrightarrow>
    list_all wire_response (responses_numbered n rs)"
  by (induction rs arbitrary: n) (simp_all add: wire_response_def)

text \<open>The server's 32 bit counter and the gateway's 64 bit one go together until the first wraps.\<close>

lemma responses_numbered_consecutive:
  assumes "unat n + length rs < 2 ^ 32" and "list_all (\<lambda>r. rs_client_id r = c) rs"
  shows "consecutive (ucast n) c (responses_numbered n rs)"
  using assms
proof (induction rs arbitrary: n)
  case (Cons r rs)
  then have "unat (n + 1) = unat n + 1" "(ucast (n + 1) :: u64) = ucast n + 1"
    using ucast_Suc32 [of n] by (simp_all add: unat_word_ariths)
  then show ?case using Cons.IH [of "n + 1"] Cons.prems by simp
qed simp

lemma ucast_advance32:
  "unat (n :: u32) + k < 2 ^ 32 \<Longrightarrow> (ucast (n + word_of_nat k) :: u64) = ucast n + word_of_nat k"
  by (simp add: word_unat_eq_iff unsigned_ucast_eq unat_word_ariths unat_of_nat take_bit_eq_mod)

lemma for_client_id: "list_all (\<lambda>r. unat (rs_client_id r) = c) (for_client c rs)"
  by (simp add: for_client_def list_all_iff)

section \<open>From the server's queue to the trade engine's\<close>

text \<open>
  C25: end to end, the responses of a client reach its trade engine. While at most two responses
  per client wait and the outbound buffers last, the server distributes its queue without failing
  and the client's write callback sends this client's responses, and no other's, once and in
  order; when a logged-on gateway that expects the server's next number reads these bytes, on a
  host of either byte order, it appends exactly these responses to the trade engine's queue, and
  both ends agree again on the next number, with nothing left over on the connection, so the step
  can be repeated until the server's 32 bit counter is exhausted.
\<close>

theorem responses_reach_trade_engine:
  assumes "queue_inv q" and "deliverable (queue_items q) s" and "client_connections s c = Some conn" and "waiting conn = []"
    and "pool_inv (writer_pool s)" and "card (pool_live (writer_pool s)) + 2 \<le> memory_blocks_size (writer_pool s)"
    and "for_client c (queue_items q) = rs" and "rs \<noteq> []"
    and "list_all (\<lambda>r. wire_response_type (rs_type r) \<and> wire_side (rs_side r)) rs"
    and "unat (gw_client_id g) = c" and "next_rcv_valid_index (gw_connection g) = 0"
    and "gw_next_exp_seq_num g = ucast (client_next_outgoing_seq_num s c)" and "1 < unat (client_next_outgoing_seq_num s c)"
    and "unat (client_next_outgoing_seq_num s c) + length rs < 2 ^ 32"
    and "queue_inv (incoming_responses g)" and "length (queue_items (incoming_responses g)) + length rs \<le> q_size (incoming_responses g)"
  shows "\<exists>q' s1 s2 conn' bs g'. process_responses_helper be q s = Inr (q', s1) \<and> queue_items q' = [] \<and>
    write_message c s1 = Inr s2 \<and> client_connections s2 c = Some conn' \<and> waiting conn' = [] \<and>
    written conn' = written conn @ bs \<and> gw_on_read be' (Received (concat bs)) g = Inr g' \<and>
    queue_inv (incoming_responses g') \<and> queue_items (incoming_responses g') = queue_items (incoming_responses g) @ rs \<and>
    gw_next_exp_seq_num g' = ucast (client_next_outgoing_seq_num s2 c) \<and>
    gw_client_id g' = gw_client_id g \<and> next_rcv_valid_index (gw_connection g') = 0"
proof -
  let ?n = "client_next_outgoing_seq_num s c"
  let ?xs = "responses_numbered ?n rs"
  obtain q' s1 s2 conn' where h: "process_responses_helper be q s = Inr (q', s1)" "queue_items q' = []"
    "write_message c s1 = Inr s2" "client_connections s2 c = Some conn'" "waiting conn' = []"
    "written conn' = written conn @ map response_bytes ?xs" "client_next_outgoing_seq_num s2 c = ?n + word_of_nat (length rs)"
    using responses_delivered [OF assms(1-3,5,6), of be] assms(4,7) by (auto simp: response_images_numbered)
  have two: "length rs \<le> 2" using assms(2,3,4,7) unfolding deliverable_def by (fastforce simp del: length_waiting)
  have "list_all (\<lambda>r. rs_client_id r = gw_client_id g) rs"
    using for_client_id [of c "queue_items q"] assms(7,10) by (auto simp: list_all_iff word_unat_eq_iff)
  then have c: "consecutive (gw_next_exp_seq_num g) (gw_client_id g) ?xs"
    using responses_numbered_consecutive [OF assms(14)] assms(12) by simp
  have u: "unat (gw_next_exp_seq_num g) = unat ?n"
    using assms(12,14) by (simp add: unsigned_ucast_eq take_bit_eq_mod)
  have x: "?xs \<noteq> []" "length ?xs * sizeof_client_response_external \<le> TCP_BUFFER_SIZE"
    using assms(8) two by (cases rs; simp add: model_constants sizeof_defs)+
  obtain b where r: "gw_on_read be' (Received (concat (map response_bytes ?xs))) g = Inr ((fold receive_response ?xs g)
      \<lparr>gw_connection := (gw_connection g)\<lparr>inbound_data := b, next_rcv_valid_index := 0\<rparr>\<rparr>)"
    using gw_on_read_messages [OF assms(11) x(1) responses_numbered_wire [OF assms(9)] x(2), of be'] by blast
  have f: "fold receive_response ?xs g = g\<lparr>incoming_responses := fold enqueue rs (incoming_responses g),
      gw_next_exp_seq_num := gw_next_exp_seq_num g + word_of_nat (length rs)\<rparr>"
    using receive_consecutive [OF c refl] u assms(13,14) by simp
  show ?thesis using h r f ucast_advance32 [OF assms(14)] assms(12) lfq.fold_put [OF assms(15,16)] by simp
qed

text \<open>Client 0 has logged on at both ends; the server sends it two fills.\<close>

theorem responses_reach_trade_engine_witness:
  "\<exists>q s1 s2 conn g'. process_responses_helper True sample_responses (sample_server\<lparr>client_next_outgoing_seq_num := \<lambda>_. 2\<rparr>) = Inr (q, s1) \<and>
    write_message 0 s1 = Inr s2 \<and> client_connections s2 0 = Some conn \<and>
    gw_on_read False (Received (concat (written conn))) sample_gateway = Inr g' \<and>
    queue_items (incoming_responses g') = map sample_response [5, 7]"
proof -
  let ?s = "sample_server\<lparr>client_next_outgoing_seq_num := \<lambda>_. 2\<rparr>"
  have q: "queue_inv sample_responses" "queue_items sample_responses = map sample_response [5, 7]"
    using filled_queue [of 4 "map sample_response [5, 7]" default_client_response] by (simp_all add: sample_responses_def)
  have "deliverable (queue_items sample_responses) sample_server" using deliverable_sample [of "[5, 7]"] q(2) by simp
  then have d: "deliverable (queue_items sample_responses) ?s" by (simp add: deliverable_def)
  note sc = sample_connection
  have t: "client_connections ?s 0 = Some tcp_connection_init" "waiting tcp_connection_init = []" "written tcp_connection_init = []"
    "pool_inv (writer_pool ?s)" "card (pool_live (writer_pool ?s)) + 2 \<le> memory_blocks_size (writer_pool ?s)"
    using sc(5) by (simp_all add: sc(1,4) tcp_connection_init_def waiting_def queue_items_def lock_free_queue_init_size_t_def)
  have r: "for_client 0 (queue_items sample_responses) = map sample_response [5, 7]" "map sample_response [5, 7] \<noteq> []"
    "list_all (\<lambda>r. wire_response_type (rs_type r) \<and> wire_side (rs_side r)) (map sample_response [5, 7])"
    by (simp_all add: q(2) sample_response_def default_client_response_def)
  have i: "queue_inv (incoming_responses sample_gateway)" "queue_items (incoming_responses sample_gateway) = []"
    "q_size (incoming_responses sample_gateway) = 8"
    by (simp_all add: sample_gateway_def order_gateway_init_def queue_init_inv)
  have g: "unat (gw_client_id sample_gateway) = 0" "next_rcv_valid_index (gw_connection sample_gateway) = 0"
    "gw_next_exp_seq_num sample_gateway = ucast (client_next_outgoing_seq_num ?s 0)"
    "1 < unat (client_next_outgoing_seq_num ?s 0)"
    "unat (client_next_outgoing_seq_num ?s 0) + length (map sample_response [5, 7]) < 2 ^ 32"
    "length (queue_items (incoming_responses sample_gateway)) + length (map sample_response [5, 7]) \<le> q_size (incoming_responses sample_gateway)"
    using i by (simp_all add: sample_gateway_def order_gateway_init_def gateway_connection_init_def)
  show ?thesis
    using responses_reach_trade_engine [OF q(1) d t(1,2,4,5) r g(1-5) i(1) g(6), of True False] t(3) i(2) by auto
qed

end
