(* ===== verification/Doubles.thy ===== *)
theory Doubles
  imports Prelude Complex_Main
begin

text \<open>
  Floating point numbers of the trading client. The sources use \<open>double\<close> through conversions
  from integers, the four operations, comparisons, the constant \<open>quiet_NaN\<close> and stream output.
  These are collected in a record that the definitions take as an argument, so that no
  definition depends on how a result is rounded; the locale states the one law of
  IEEE 754 comparisons that the proofs rely on. \<open>exact_double\<close> computes without rounding.
\<close>

record 'd double_ops =
  d_of_int :: "int \<Rightarrow> 'd"
  d_half :: 'd
  d_nan :: 'd
  d_add :: "'d \<Rightarrow> 'd \<Rightarrow> 'd"
  d_sub :: "'d \<Rightarrow> 'd \<Rightarrow> 'd"
  d_mul :: "'d \<Rightarrow> 'd \<Rightarrow> 'd"
  d_div :: "'d \<Rightarrow> 'd \<Rightarrow> 'd"
  d_less :: "'d \<Rightarrow> 'd \<Rightarrow> bool"
  d_le :: "'d \<Rightarrow> 'd \<Rightarrow> bool"
  d_eq :: "'d \<Rightarrow> 'd \<Rightarrow> bool"
  d_show :: "'d \<Rightarrow> string"

text \<open>A comparison with a NaN is false, so \<open>x != NaN\<close> is true of every \<open>x\<close>.\<close>

locale ieee_comparisons =
  fixes D :: "'d double_ops"
  assumes nan_unordered: "\<not> d_eq D x (d_nan D)" "\<not> d_le D x (d_nan D)" "\<not> d_less D x (d_nan D)"
    "\<not> d_eq D (d_nan D) x" "\<not> d_le D (d_nan D) x" "\<not> d_less D (d_nan D) x"
begin

lemma not_equal_nan: "(\<not> d_eq D x (d_nan D)) = True"
  using nan_unordered by simp

end

section \<open>Arithmetic without rounding\<close>

text \<open>\<open>None\<close> is NaN; it also stands for the quotients that IEEE 754 makes infinite.\<close>

fun lift2 :: "(real \<Rightarrow> real \<Rightarrow> 'b) \<Rightarrow> 'b \<Rightarrow> real option \<Rightarrow> real option \<Rightarrow> 'b" where
  "lift2 f e (Some x) (Some y) = f x y"
| "lift2 f e _ _ = e"

definition exact_double :: "real option double_ops" where
  "exact_double = \<lparr>d_of_int = (\<lambda>z. Some (of_int z)), d_half = Some (1 / 2), d_nan = None,
     d_add = lift2 (\<lambda>x y. Some (x + y)) None, d_sub = lift2 (\<lambda>x y. Some (x - y)) None,
     d_mul = lift2 (\<lambda>x y. Some (x * y)) None, d_div = lift2 (\<lambda>x y. if y = 0 then None else Some (x / y)) None,
     d_less = lift2 (<) False, d_le = lift2 (\<le>) False, d_eq = lift2 (=) False, d_show = (\<lambda>_. '''')\<rparr>"

lemma lift2_nan [simp]: "lift2 f e x None = e" "lift2 f e None x = e"
  by (cases x; simp)+

interpretation exact: ieee_comparisons exact_double
  by unfold_locales (simp_all add: exact_double_def)

lemma exact_double_simps [simp]:
  "d_of_int exact_double z = Some (of_int z)" "d_half exact_double = Some (1 / 2)" "d_nan exact_double = None"
  "d_add exact_double (Some x) (Some y) = Some (x + y)" "d_sub exact_double (Some x) (Some y) = Some (x - y)"
  "d_mul exact_double (Some x) (Some y) = Some (x * y)" "y \<noteq> 0 \<Longrightarrow> d_div exact_double (Some x) (Some y) = Some (x / y)"
  "d_less exact_double (Some x) (Some y) \<longleftrightarrow> x < y" "d_le exact_double (Some x) (Some y) \<longleftrightarrow> x \<le> y"
  "d_eq exact_double (Some x) (Some y) \<longleftrightarrow> x = y"
  by (simp_all add: exact_double_def)

end
