(* ===== verification/TradingUtils.thy ===== *)
theory TradingUtils
  imports Printing Doubles
begin

text \<open>
  \<open>example/trading_utils/trading_utils.hpp\<close>: sides as indices and signs, the configuration of
  the trading engine, and the names of the trading algorithms.
\<close>

definition side_to_index :: "side_t \<Rightarrow> nat" where
  "side_to_index sd = (if sd = BUY then 0 else 1)"

definition side_to_value :: "side_t \<Rightarrow> int" where
  "side_to_value sd = (if sd = BUY then 1 else - 1)"

lemma side_to_index_less [simp]: "side_to_index sd < 2"
  by (simp add: side_to_index_def)

section \<open>Configuration\<close>

record 'd risk_config =
  max_order_size :: quantity_t
  max_position :: quantity_t
  max_loss :: 'd

definition default_risk_config :: "'d double_ops \<Rightarrow> 'd risk_config" where
  "default_risk_config D = \<lparr>max_order_size = 0, max_position = 0, max_loss = d_of_int D 0\<rparr>"

definition risk_config_to_string :: "'d double_ops \<Rightarrow> 'd risk_config \<Rightarrow> string" where
  "risk_config_to_string D c = concat
     [''RiskCfg{'',
      ''max-order-size:'', quantity_to_string (max_order_size c), '' '',
      ''max-position:'', quantity_to_string (max_position c), '' '',
      ''max-loss:'', d_show D (max_loss c), ''}'']"

record 'd trade_engine_config =
  clip :: quantity_t
  threshold :: 'd
  risk_cfg :: "'d risk_config"

definition default_trade_engine_config :: "'d double_ops \<Rightarrow> 'd trade_engine_config" where
  "default_trade_engine_config D = \<lparr>clip = 0, threshold = d_of_int D 0, risk_cfg = default_risk_config D\<rparr>"

definition trade_engine_config_to_string :: "'d double_ops \<Rightarrow> 'd trade_engine_config \<Rightarrow> string" where
  "trade_engine_config_to_string D c = concat
     [''TradeEngineCfg{'',
      ''clip:'', quantity_to_string (clip c), '' '',
      ''thresh:'', d_show D (threshold c), '' '',
      ''risk:'', risk_config_to_string D (risk_cfg c), ''}'']"

text \<open>\<open>trade_engine_config_map\<close>: an array of \<open>MAX_NUM_INSTRUMENTS\<close> configurations, by index.\<close>

type_synonym 'd trade_engine_config_map = "nat \<Rightarrow> 'd trade_engine_config"

section \<open>Algorithms\<close>

text \<open>As for the other enumerations, the last constructor is a byte that names no enumerator.\<close>

datatype algo_type_t = ALGO_INVALID | RANDOM | MAKER | TAKER | ALGO_MAX | ALGO_UNKNOWN u8

definition algo_type_of_byte :: "u8 \<Rightarrow> algo_type_t" where
  "algo_type_of_byte b = (if b = 0 then ALGO_INVALID else if b = 1 then RANDOM else if b = 2 then MAKER
     else if b = 3 then TAKER else if b = 4 then ALGO_MAX else ALGO_UNKNOWN b)"

fun algo_type_to_string :: "algo_type_t \<Rightarrow> string" where
  "algo_type_to_string RANDOM = ''RANDOM''"
| "algo_type_to_string MAKER = ''MAKER''"
| "algo_type_to_string TAKER = ''TAKER''"
| "algo_type_to_string ALGO_INVALID = ''INVALID''"
| "algo_type_to_string ALGO_MAX = ''MAX''"
| "algo_type_to_string (ALGO_UNKNOWN b) = ''UNKNOWN''"

text \<open>The loop of \<open>string_to_algo_type\<close> over the enumerators, from \<open>i\<close> up to \<open>MAX\<close>, which is 4.\<close>

function find_algo_type :: "string \<Rightarrow> nat \<Rightarrow> algo_type_t" where
  "find_algo_type str i =
     (if i \<le> 4 then
        if algo_type_to_string (algo_type_of_byte (word_of_nat i)) = str then algo_type_of_byte (word_of_nat i)
        else find_algo_type str (i + 1)
      else ALGO_INVALID)"
  by pat_completeness auto

termination
  by (relation "measure (\<lambda>(str, i). 5 - i)") auto

declare find_algo_type.simps [simp del]

definition string_to_algo_type :: "string \<Rightarrow> algo_type_t" where
  "string_to_algo_type str = find_algo_type str 0"

section \<open>Names and algorithms\<close>

lemma string_to_algo_type_cases:
  "string_to_algo_type str = (if str = ''RANDOM'' then RANDOM else if str = ''MAKER'' then MAKER
     else if str = ''TAKER'' then TAKER else if str = ''MAX'' then ALGO_MAX else ALGO_INVALID)"
  by (simp add: string_to_algo_type_def find_algo_type.simps algo_type_of_byte_def)

text \<open>Reading back the name of an enumerator gives it; anything else is \<open>INVALID\<close>.\<close>

lemma string_to_algo_type_round_trip:
  "a \<in> {ALGO_INVALID, RANDOM, MAKER, TAKER, ALGO_MAX} \<Longrightarrow> string_to_algo_type (algo_type_to_string a) = a"
  by (auto simp: string_to_algo_type_cases)

lemma string_to_algo_type_sound:
  "string_to_algo_type str \<noteq> ALGO_INVALID \<Longrightarrow> algo_type_to_string (string_to_algo_type str) = str"
  by (auto simp: string_to_algo_type_cases)

end
