(* ===== verification/PositionKeeper.thy ===== *)
theory PositionKeeper
  imports TradingUtils MarketPrinting
begin

text \<open>
  \<open>trading_engine/position_keeper.hpp\<close>: the position, profit and volume of each instrument.
  \<open>position_\<close> is an \<open>int32_t\<close>, the 32 bits read by \<open>sint\<close>; \<open>D\<close> is the floating point
  arithmetic. A logger is a pointer: logging through \<open>nullptr\<close> is undefined.
\<close>

section \<open>The position of one instrument\<close>

text \<open>\<open>bbo_\<close> points to the best prices of a book; books are named by their instrument.\<close>

record 'd position_info_t =
  position :: u32
  realized_pnl :: 'd
  unrealized_pnl :: 'd
  total_pnl :: 'd
  buy_open_vwap :: 'd
  sell_open_vwap :: 'd
  volume :: quantity_t
  bbo_ptr :: ptr

definition default_position_info :: "'d double_ops \<Rightarrow> 'd position_info_t" where
  "default_position_info D = \<lparr>position = 0, realized_pnl = d_of_int D 0, unrealized_pnl = d_of_int D 0,
     total_pnl = d_of_int D 0, buy_open_vwap = d_of_int D 0, sell_open_vwap = d_of_int D 0, volume = 0, bbo_ptr = None\<rparr>"

definition i_abs :: "int \<Rightarrow> int result" where
  "i_abs z = i32 \<bar>z\<bar>"

text \<open>The average price of the open position, zero for a flat one, as \<open>to_string\<close> prints it.\<close>

definition vwap_to_string :: "'d double_ops \<Rightarrow> u32 \<Rightarrow> 'd \<Rightarrow> string result" where
  "vwap_to_string D pos v =
     (if pos \<noteq> 0 then rbind (i_abs (sint pos)) (\<lambda>n. Inr (d_show D (d_div D v (d_of_int D n))))
      else Inr (d_show D (d_of_int D 0)))"

definition position_info_to_string :: "'d double_ops \<Rightarrow> (nat \<Rightarrow> bbo_t) \<Rightarrow> 'd position_info_t \<Rightarrow> string result" where
  "position_info_to_string D bbos p =
     rbind (vwap_to_string D (position p) (buy_open_vwap p)) (\<lambda>buy.
     rbind (vwap_to_string D (position p) (sell_open_vwap p)) (\<lambda>sell.
     Inr (concat
       [''Position{'', ''pos:'', signed_decimal (sint (position p)),
        '' u-pnl:'', d_show D (unrealized_pnl p),
        '' r-pnl:'', d_show D (realized_pnl p),
        '' t-pnl:'', d_show D (total_pnl p),
        '' vol:'', quantity_to_string (volume p),
        '' vwaps:['', buy, ''X'', sell, ''] '',
        (case bbo_ptr p of None \<Rightarrow> '''' | Some b \<Rightarrow> bbo_to_string (bbos b)), ''}''])))"

text \<open>The references \<open>open_vwap\<close> and \<open>opposite_side_open_vwap\<close>.\<close>

definition open_vwap :: "side_t \<Rightarrow> 'd position_info_t \<Rightarrow> 'd" where
  "open_vwap sd p = (if sd = BUY then buy_open_vwap p else sell_open_vwap p)"

definition opposite_side_open_vwap :: "side_t \<Rightarrow> 'd position_info_t \<Rightarrow> 'd" where
  "opposite_side_open_vwap sd p = (if sd = BUY then sell_open_vwap p else buy_open_vwap p)"

definition set_open_vwap :: "side_t \<Rightarrow> 'd \<Rightarrow> 'd position_info_t \<Rightarrow> 'd position_info_t" where
  "set_open_vwap sd v p = (if sd = BUY then p\<lparr>buy_open_vwap := v\<rparr> else p\<lparr>sell_open_vwap := v\<rparr>)"

definition set_opposite_vwap :: "side_t \<Rightarrow> 'd \<Rightarrow> 'd position_info_t \<Rightarrow> 'd position_info_t" where
  "set_opposite_vwap sd v p = (if sd = BUY then p\<lparr>sell_open_vwap := v\<rparr> else p\<lparr>buy_open_vwap := v\<rparr>)"

text \<open>The profit of the open position at \<open>price\<close>.\<close>

definition mark_position :: "'d double_ops \<Rightarrow> 'd \<Rightarrow> 'd position_info_t \<Rightarrow> 'd result" where
  "mark_position D price p =
     rbind (i_abs (sint (position p))) (\<lambda>n.
     if 0 < sint (position p)
     then Inr (d_mul D (d_sub D price (d_div D (buy_open_vwap p) (d_of_int D n))) (d_of_int D n))
     else Inr (d_mul D (d_sub D (d_div D (sell_open_vwap p) (d_of_int D n)) price) (d_of_int D n)))"

text \<open>
  The branch that decreases the position: the average price of the other side is kept, the part
  that is closed is realized, and a position that changes sign opens at the fill's price.
\<close>

definition decrease_position :: "'d double_ops \<Rightarrow> client_response_internal \<Rightarrow> u32 \<Rightarrow> 'd position_info_t \<Rightarrow>
    'd position_info_t result" where
  "decrease_position D r old_position p =
     (let sd = rs_side r; price = sint (rs_price r)
      in rbind (i_abs (sint old_position)) (\<lambda>old_abs.
         rbind (i_abs (sint (position p))) (\<lambda>new_abs.
         let opp_side_vwap = d_div D (opposite_side_open_vwap sd p) (d_of_int D old_abs);
             p = set_opposite_vwap sd (d_mul D opp_side_vwap (d_of_int D new_abs)) p;
             p = p\<lparr>realized_pnl := d_add D (realized_pnl p)
                   (d_mul D (d_mul D (d_of_int D (min (sint (rs_exec_qty r)) old_abs))
                     (d_sub D opp_side_vwap (d_of_int D price))) (d_of_int D (side_to_value sd)))\<rparr>
         in rbind (i32 (sint (position p) * sint old_position)) (\<lambda>prod.
            if prod < 0
            then rbind (i64 (price * new_abs)) (\<lambda>v.
                 Inr (set_opposite_vwap sd (d_of_int D 0) (set_open_vwap sd (d_of_int D v) p)))
            else Inr p))))"

text \<open>
  The end of \<open>add_fill\<close>: a flat position is reset, an open one is marked at the fill's price. The
  log line goes through the pointer \<open>logger\<close>.
\<close>

definition settle :: "'d double_ops \<Rightarrow> 'd \<Rightarrow> ptr \<Rightarrow> 'd position_info_t \<Rightarrow> 'd position_info_t result" where
  "settle D price logger p =
     rbind (if position p = 0
            then Inr (p\<lparr>buy_open_vwap := d_of_int D 0, sell_open_vwap := d_of_int D 0, unrealized_pnl := d_of_int D 0\<rparr>)
            else rbind (mark_position D price p) (\<lambda>u. Inr (p\<lparr>unrealized_pnl := u\<rparr>))) (\<lambda>p.
     let p = p\<lparr>total_pnl := d_add D (unrealized_pnl p) (realized_pnl p)\<rparr>
     in rbind (deref logger) (\<lambda>_. Inr p))"

text \<open>
  \<open>position_ += exec_qty_ * side_value\<close> is computed in \<open>uint32_t\<close> and wraps.
\<close>

definition position_add_fill :: "'d double_ops \<Rightarrow> client_response_internal \<Rightarrow> ptr \<Rightarrow> 'd position_info_t \<Rightarrow>
    'd position_info_t result" where
  "position_add_fill D r logger p =
     (let old_position = position p; sd = rs_side r; price = sint (rs_price r);
          p = p\<lparr>position := position p + rs_exec_qty r * word_of_int (side_to_value sd), volume := volume p + rs_exec_qty r\<rparr>
      in rbind (i32 (sint old_position * side_to_value sd)) (\<lambda>signed_old.
         rbind (if 0 \<le> signed_old
                then rbind (i64 (price * uint (rs_exec_qty r))) (\<lambda>v.
                     Inr (set_open_vwap sd (d_add D (open_vwap sd p) (d_of_int D v)) p))
                else decrease_position D r old_position p) (settle D (d_of_int D price) logger)))"

definition position_update_bbo :: "'d double_ops \<Rightarrow> nat \<Rightarrow> bbo_t \<Rightarrow> ptr \<Rightarrow> 'd position_info_t \<Rightarrow> 'd position_info_t result" where
  "position_update_bbo D book bbo logger p =
     (let p = p\<lparr>bbo_ptr := Some book\<rparr>
      in if position p \<noteq> 0 \<and> bid_price bbo \<noteq> INVALID_PRICE \<and> ask_price bbo \<noteq> INVALID_PRICE
         then rbind (i64 (sint (bid_price bbo) + sint (ask_price bbo))) (\<lambda>total.
              let mid_price = d_mul D (d_of_int D total) (d_half D)
              in rbind (mark_position D mid_price p) (\<lambda>u.
                 let p = p\<lparr>unrealized_pnl := u\<rparr>;
                     old_total_pnl = total_pnl p;
                     p = p\<lparr>total_pnl := d_add D (unrealized_pnl p) (realized_pnl p)\<rparr>
                 in if \<not> d_eq D (total_pnl p) old_total_pnl then rbind (deref logger) (\<lambda>_. Inr p) else Inr p))
         else Inr p)"

section \<open>The position keeper\<close>

record 'd position_keeper =
  pk_logger :: ptr
  instrument_position :: "nat \<Rightarrow> 'd position_info_t"

text \<open>The constructor of the trade engine uses \<open>position_keeper_{}\<close>: the logger stays null.\<close>

definition position_keeper_init :: "'d double_ops \<Rightarrow> 'd position_keeper" where
  "position_keeper_init D = \<lparr>pk_logger = None, instrument_position = (\<lambda>_. default_position_info D)\<rparr>"

text \<open>The body of \<open>add_fill\<close> is commented out in the source.\<close>

definition keeper_add_fill :: "client_response_internal \<Rightarrow> 'd position_keeper \<Rightarrow> 'd position_keeper" where
  "keeper_add_fill r pk = pk"

definition keeper_update_bbo :: "'d double_ops \<Rightarrow> instrument_id_t \<Rightarrow> bbo_t \<Rightarrow> 'd position_keeper \<Rightarrow> 'd position_keeper result" where
  "keeper_update_bbo D i bbo pk =
     (if unat i < MAX_NUM_INSTRUMENTS
      then rbind (position_update_bbo D (unat i) bbo (pk_logger pk) (instrument_position pk (unat i))) (\<lambda>p.
           Inr (pk\<lparr>instrument_position := (instrument_position pk)(unat i := p)\<rparr>))
      else Inl OutOfRange)"

definition get_position_info :: "instrument_id_t \<Rightarrow> 'd position_keeper \<Rightarrow> 'd position_info_t result" where
  "get_position_info i pk = (if unat i < MAX_NUM_INSTRUMENTS then Inr (instrument_position pk (unat i)) else Inl OutOfRange)"

definition position_line :: "'d double_ops \<Rightarrow> (nat \<Rightarrow> bbo_t) \<Rightarrow> 'd position_keeper \<Rightarrow> nat \<Rightarrow> string \<times> 'd \<times> quantity_t \<Rightarrow>
    (string \<times> 'd \<times> quantity_t) result" where
  "position_line D bbos pk i = (\<lambda>(ss, total, vol).
     rbind (position_info_to_string D bbos (instrument_position pk i)) (\<lambda>t.
     Inr (concat [ss, ''insturment id:'', instrument_id_to_string (word_of_nat i), '' '', t, [CHR 0x0A]],
       d_add D total (total_pnl (instrument_position pk i)), vol + volume (instrument_position pk i))))"

definition keeper_to_string :: "'d double_ops \<Rightarrow> (nat \<Rightarrow> bbo_t) \<Rightarrow> 'd position_keeper \<Rightarrow> string result" where
  "keeper_to_string D bbos pk =
     rbind (rfold (position_line D bbos pk) [0..<MAX_NUM_INSTRUMENTS] ([], d_of_int D 0, 0)) (\<lambda>(ss, total, vol).
     Inr (concat [ss, ''Total PnL:'', d_show D total, '' Vol:'', decimal (unat vol), [CHR 0x0A]]))"

end
