(* ===== verification/PositionProperties.thy ===== *)
theory PositionProperties
  imports PositionKeeper
begin

text \<open>
  The bookkeeping of \<open>position_info_t\<close> in exact arithmetic: realized and unrealized profit
  always add up to the cash paid and received plus the value of the open position.
\<close>

section \<open>Positions as integers\<close>

text \<open>Beyond this bound \<open>position_ * old_position\<close> can leave \<open>int\<close>.\<close>

definition POSITION_BOUND :: int where "POSITION_BOUND = 46340"

lemma sint_small: "\<bar>z\<bar> < 2 ^ 31 \<Longrightarrow> sint (word_of_int z :: u32) = z"
  by (auto simp: sint_sbintrunc' intro!: signed_take_bit_int_eq_self)

lemma position_product: "\<bar>a\<bar> \<le> POSITION_BOUND \<Longrightarrow> \<bar>b\<bar> \<le> POSITION_BOUND \<Longrightarrow> i32 (a * b) = Inr (a * b)"
proof -
  assume "\<bar>a\<bar> \<le> POSITION_BOUND" "\<bar>b\<bar> \<le> POSITION_BOUND"
  then have "\<bar>a\<bar> * \<bar>b\<bar> \<le> POSITION_BOUND * POSITION_BOUND" by (intro mult_mono) auto
  then have "\<bar>a * b\<bar> < 2 ^ 31" by (simp add: abs_mult POSITION_BOUND_def)
  then show ?thesis by (rule i32_ok)
qed

lemma price_product:
  assumes "\<bar>x\<bar> < 2 ^ 40" and "\<bar>n\<bar> \<le> 2 * POSITION_BOUND"
  shows "i64 (x * n) = Inr (x * n)"
proof -
  have "\<bar>x\<bar> * \<bar>n\<bar> \<le> 2 ^ 40 * (2 * POSITION_BOUND)" using assms by (intro mult_mono) auto
  then have "\<bar>x * n\<bar> < 2 ^ 63" by (simp add: abs_mult POSITION_BOUND_def)
  then show ?thesis by (rule i64_ok)
qed

section \<open>The accounts\<close>

text \<open>
  \<open>accounts p q c\<close>: \<open>p\<close> records the position \<open>q\<close>, and the cash flow \<open>c\<close> is the realized profit
  less what the open position has cost.
\<close>

definition accounts :: "real option position_info_t \<Rightarrow> int \<Rightarrow> real \<Rightarrow> bool" where
  "accounts p q c \<longleftrightarrow> position p = word_of_int q \<and> \<bar>q\<bar> \<le> POSITION_BOUND \<and>
     (\<exists>r b s. realized_pnl p = Some r \<and> buy_open_vwap p = Some b \<and> sell_open_vwap p = Some s \<and>
        c = r - b + s \<and> (q \<le> 0 \<longrightarrow> b = 0) \<and> (0 \<le> q \<longrightarrow> s = 0))"

lemma accounts_init: "accounts (default_position_info exact_double) 0 0"
  by (simp add: accounts_def default_position_info_def POSITION_BOUND_def)

lemma accounts_simps:
  assumes "accounts p q c"
  shows "sint (position p) = q" "position p = 0 \<longleftrightarrow> q = 0" "i_abs (sint (position p)) = Inr \<bar>q\<bar>"
proof -
  have b: "\<bar>q\<bar> < 2 ^ 31" "position p = word_of_int q" using assms by (auto simp: accounts_def POSITION_BOUND_def)
  then show s: "sint (position p) = q" using sint_small by simp
  then show "position p = 0 \<longleftrightarrow> q = 0" using b(2) by auto
  show "i_abs (sint (position p)) = Inr \<bar>q\<bar>" using b(1) unfolding s by (simp add: i_abs_def)
qed

text \<open>The end of \<open>add_fill\<close>: a position at whose price all accounts are marked.\<close>

lemma mark_accounts:
  assumes "accounts p q c" and "q \<noteq> 0"
  shows "\<exists>r. realized_pnl p = Some r \<and> mark_position exact_double (Some x) p = Inr (Some (c - r + of_int q * x))"
proof -
  obtain r b s where a: "realized_pnl p = Some r" "buy_open_vwap p = Some b" "sell_open_vwap p = Some s"
    "c = r - b + s" "q \<le> 0 \<longrightarrow> b = 0" "0 \<le> q \<longrightarrow> s = 0" using assms(1) by (auto simp: accounts_def)
  then show ?thesis using assms(2) accounts_simps [OF assms(1)]
    by (cases "0 < q") (auto simp: mark_position_def field_simps)
qed

lemma settle_accounts:
  assumes "accounts p q c"
  shows "\<exists>p'. settle exact_double (Some x) (Some l) p = Inr p' \<and> accounts p' q c \<and> total_pnl p' = Some (c + of_int q * x) \<and>
    volume p' = volume p"
proof (cases "q = 0")
  case True
  then show ?thesis using assms accounts_simps(2) [OF assms] by (auto simp: settle_def accounts_def)
next
  case False
  obtain r where r: "realized_pnl p = Some r" "mark_position exact_double (Some x) p = Inr (Some (c - r + of_int q * x))"
    using mark_accounts [OF assms False] by blast
  then show ?thesis using assms False accounts_simps(2) [OF assms] by (auto simp: settle_def accounts_def)
qed

section \<open>A fill\<close>

abbreviation fill_size :: "client_response_internal \<Rightarrow> int" where
  "fill_size r \<equiv> side_to_value (rs_side r) * uint (rs_exec_qty r)"

definition fill_ok :: "client_response_internal \<Rightarrow> int \<Rightarrow> bool" where
  "fill_ok r q \<longleftrightarrow> \<bar>q + fill_size r\<bar> \<le> POSITION_BOUND \<and> \<bar>sint (rs_price r)\<bar> < 2 ^ 40"

lemma side_value_cases: "side_to_value sd = 1 \<and> sd = BUY \<or> side_to_value sd = - 1 \<and> sd \<noteq> BUY"
  by (simp add: side_to_value_def)

lemma fill_bounds:
  assumes "accounts p q c" and "fill_ok r q"
  shows "\<bar>uint (rs_exec_qty r)\<bar> \<le> 2 * POSITION_BOUND" and "sint (rs_exec_qty r) = uint (rs_exec_qty r)"
    and "position p + rs_exec_qty r * word_of_int (side_to_value (rs_side r)) = word_of_int (q + fill_size r)"
proof -
  have "\<bar>fill_size r\<bar> \<le> 2 * POSITION_BOUND" using assms by (auto simp: accounts_def fill_ok_def)
  then show e: "\<bar>uint (rs_exec_qty r)\<bar> \<le> 2 * POSITION_BOUND" using side_value_cases [of "rs_side r"] by auto
  then have "uint (rs_exec_qty r) < 2 ^ 31" by (simp add: POSITION_BOUND_def)
  then show "sint (rs_exec_qty r) = uint (rs_exec_qty r)" using sint_small [of "uint (rs_exec_qty r)"] by simp
  show "position p + rs_exec_qty r * word_of_int (side_to_value (rs_side r)) = word_of_int (q + fill_size r)"
    using assms(1) by (simp add: accounts_def mult.commute)
qed

text \<open>The two branches: a fill on the side of the position, and one against it.\<close>

lemma increase_accounts:
  assumes "accounts p q c" and "fill_ok r q" and "0 \<le> q * side_to_value (rs_side r)"
    and "p1 = p\<lparr>position := word_of_int (q + fill_size r), volume := v\<rparr>"
  shows "\<exists>b. open_vwap (rs_side r) p1 = Some b \<and>
    accounts (set_open_vwap (rs_side r) (Some (b + of_int (sint (rs_price r) * uint (rs_exec_qty r)))) p1) (q + fill_size r)
      (c - of_int (fill_size r * sint (rs_price r)))"
proof -
  define e where "e = uint (rs_exec_qty r)"
  define x where "x = sint (rs_price r)"
  obtain t b s where a: "realized_pnl p = Some t" "buy_open_vwap p = Some b" "sell_open_vwap p = Some s"
    "c = t - b + s" "q \<le> 0 \<longrightarrow> b = 0" "0 \<le> q \<longrightarrow> s = 0" using assms(1) by (auto simp: accounts_def)
  have e: "0 \<le> e" by (simp add: e_def)
  have k: "\<bar>q + side_to_value (rs_side r) * e\<bar> \<le> POSITION_BOUND" using assms(2) by (simp add: fill_ok_def e_def)
  show ?thesis unfolding assms(4) e_def [symmetric] x_def [symmetric]
    using a assms(3) side_value_cases [of "rs_side r"] e k
    by (cases "e = 0"; cases "q = 0")
      (auto simp: open_vwap_def set_open_vwap_def accounts_def algebra_simps simp del: of_int_add of_int_diff of_int_mult)
qed

lemma ex_summand: "\<exists>r. a = r + (b :: real)"
  by (rule exI [of _ "a - b"]) simp

lemma decrease_accounts:
  assumes "accounts p q c" and "fill_ok r q" and "q * side_to_value (rs_side r) < 0"
    and "p1 = p\<lparr>position := word_of_int (q + fill_size r), volume := v\<rparr>"
  shows "\<exists>p2. decrease_position exact_double r (position p) p1 = Inr p2 \<and> volume p2 = v \<and>
    accounts p2 (q + fill_size r) (c - of_int (fill_size r * sint (rs_price r)))"
proof -
  define e where "e = uint (rs_exec_qty r)"
  define x where "x = sint (rs_price r)"
  define n where "n = q + side_to_value (rs_side r) * e"
  obtain t b s where a: "realized_pnl p = Some t" "buy_open_vwap p = Some b" "sell_open_vwap p = Some s"
    "c = t - b + s" "q \<le> 0 \<longrightarrow> b = 0" "0 \<le> q \<longrightarrow> s = 0" using assms(1) by (auto simp: accounts_def)
  have e: "0 \<le> e" "sint (rs_exec_qty r) = e" using fill_bounds [OF assms(1,2)] by (simp_all add: e_def)
  have n: "\<bar>n\<bar> \<le> POSITION_BOUND" "\<bar>q\<bar> \<le> POSITION_BOUND" "position p1 = word_of_int n" "sint (position p1) = n"
    using assms(1,2,4) sint_small [of n] by (auto simp: fill_ok_def e_def n_def accounts_def POSITION_BOUND_def)
  have i: "i_abs (sint (position p)) = Inr \<bar>q\<bar>" "i_abs n = Inr \<bar>n\<bar>" "i32 (n * q) = Inr (n * q)"
    "i64 (x * \<bar>n\<bar>) = Inr (x * \<bar>n\<bar>)" "sint (position p) = q"
    using accounts_simps [OF assms(1)] n position_product [of n q] price_product [of x "\<bar>n\<bar>"] assms(2)
    by (simp_all add: i_abs_def POSITION_BOUND_def fill_ok_def x_def)
  define opp where "opp = (if rs_side r = BUY then s else b)"
  define w where "w = opp / of_int \<bar>q\<bar>"
  define P where "P = (set_opposite_vwap (rs_side r) (Some (w * of_int \<bar>n\<bar>)) p1)\<lparr>realized_pnl :=
      Some (t + of_int (min e \<bar>q\<bar>) * (w - of_int x) * of_int (side_to_value (rs_side r)))\<rparr>"
  have q0: "q \<noteq> 0" using assms(3) by auto
  have d: "decrease_position exact_double r (position p) p1 = Inr (if n * q < 0
      then set_opposite_vwap (rs_side r) (Some 0) (set_open_vwap (rs_side r) (Some (of_int (x * \<bar>n\<bar>))) P) else P)"
    using a assms(4) e n i q0
    by (simp add: decrease_position_def Let_def x_def [symmetric] P_def opp_def w_def opposite_side_open_vwap_def
        set_opposite_vwap_def)
  have sides: "side_to_value (rs_side r) = 1 \<and> rs_side r = BUY \<and> q < 0 \<or>
      side_to_value (rs_side r) = - 1 \<and> rs_side r \<noteq> BUY \<and> 0 < q"
    using side_value_cases [of "rs_side r"] assms(3) by (auto simp: mult_less_0_iff)
  have wq: "w * of_int \<bar>q\<bar> = opp" using q0 by (simp add: w_def)
  have "accounts (if n * q < 0 then set_opposite_vwap (rs_side r) (Some 0)
        (set_open_vwap (rs_side r) (Some (of_int (x * \<bar>n\<bar>))) P) else P) n (c - of_int (side_to_value (rs_side r) * e * x))"
  proof (cases "n * q < 0")
    case True
    then have "\<bar>n\<bar> = e - \<bar>q\<bar>" "min e \<bar>q\<bar> = \<bar>q\<bar>" using sides e(1) by (auto simp: n_def mult_less_0_iff)
    then show ?thesis using True sides a n(1,3) assms(4) wq
      by (auto simp: accounts_def P_def opp_def set_opposite_vwap_def set_open_vwap_def mult_less_0_iff algebra_simps ex_summand)
  next
    case False
    then have "\<bar>n\<bar> = \<bar>q\<bar> - e" "min e \<bar>q\<bar> = e" using sides e(1) by (auto simp: n_def mult_less_0_iff)
    then show ?thesis using False sides a n(1,3) assms(4) wq
      by (auto simp: accounts_def P_def opp_def set_opposite_vwap_def set_open_vwap_def mult_less_0_iff algebra_simps ex_summand)
  qed
  moreover have "volume P = v" using assms(4) by (simp add: P_def set_opposite_vwap_def)
  ultimately show ?thesis unfolding d e_def [symmetric] x_def [symmetric] n_def [symmetric]
    by (simp add: set_opposite_vwap_def set_open_vwap_def)
qed

lemma volume_set_open_vwap [simp]: "volume (set_open_vwap sd v p) = volume p"
  by (simp add: set_open_vwap_def)

lemma add_fill_accounts:
  assumes "accounts p q c" and "fill_ok r q"
  shows "\<exists>p'. position_add_fill exact_double r (Some l) p = Inr p' \<and>
    accounts p' (q + fill_size r) (c - of_int (fill_size r * sint (rs_price r))) \<and>
    total_pnl p' = Some (c - of_int (fill_size r * sint (rs_price r)) + of_int (q + fill_size r) * of_int (sint (rs_price r))) \<and>
    volume p' = volume p + rs_exec_qty r"
proof -
  let ?v = "volume p + rs_exec_qty r" and ?x = "sint (rs_price r)" and ?sv = "side_to_value (rs_side r)"
  let ?c = "c - of_int (fill_size r * ?x)" and ?n = "q + fill_size r"
  let ?p1 = "p\<lparr>position := word_of_int ?n, volume := ?v\<rparr>"
  note fb = fill_bounds [OF assms]
  have s: "sint (position p) = q" using accounts_simps(1) [OF assms(1)] .
  have "\<bar>q * ?sv\<bar> = \<bar>q\<bar>" using side_value_cases [of "rs_side r"] by auto
  moreover have "\<bar>q\<bar> < 2 ^ 31" using assms(1) by (simp add: accounts_def POSITION_BOUND_def)
  ultimately have so: "i32 (q * ?sv) = Inr (q * ?sv)" by (simp del: power_numeral)
  have "\<exists>p2. (if 0 \<le> q * ?sv
      then rbind (i64 (?x * uint (rs_exec_qty r))) (\<lambda>v.
           Inr (set_open_vwap (rs_side r) (d_add exact_double (open_vwap (rs_side r) ?p1) (d_of_int exact_double v)) ?p1))
      else decrease_position exact_double r (position p) ?p1) = Inr p2 \<and> volume p2 = ?v \<and> accounts p2 ?n ?c"
  proof (cases "0 \<le> q * ?sv")
    case True
    obtain b where b: "open_vwap (rs_side r) ?p1 = Some b"
      "accounts (set_open_vwap (rs_side r) (Some (b + of_int (?x * uint (rs_exec_qty r)))) ?p1) ?n ?c"
      using increase_accounts [OF assms True refl, of ?v] by blast
    have "i64 (?x * uint (rs_exec_qty r)) = Inr (?x * uint (rs_exec_qty r))"
      using assms(2) fb(1) by (intro price_product) (simp_all add: fill_ok_def)
    then show ?thesis using True b by (auto simp del: of_int_add of_int_mult)
  next
    case False
    then show ?thesis using decrease_accounts [OF assms _ refl, of ?v] by auto
  qed
  then obtain p2 where p2: "(if 0 \<le> q * ?sv
      then rbind (i64 (?x * uint (rs_exec_qty r))) (\<lambda>v.
           Inr (set_open_vwap (rs_side r) (d_add exact_double (open_vwap (rs_side r) ?p1) (d_of_int exact_double v)) ?p1))
      else decrease_position exact_double r (position p) ?p1) = Inr p2" "volume p2 = ?v" "accounts p2 ?n ?c" by blast
  obtain p' where "settle exact_double (Some (of_int ?x)) (Some l) p2 = Inr p'" "accounts p' ?n ?c"
    "total_pnl p' = Some (?c + of_int ?n * of_int ?x)" "volume p' = ?v"
    using settle_accounts [OF p2(3), of "of_int ?x" l] p2(2) by auto
  then show ?thesis unfolding position_add_fill_def Let_def fb(3) s so rbind_simps p2(1) by (simp add: exact_double_def)
qed

section \<open>A day of fills\<close>

fun fills_ok :: "int \<Rightarrow> client_response_internal list \<Rightarrow> bool" where
  "fills_ok q [] \<longleftrightarrow> True"
| "fills_ok q (r # rs) \<longleftrightarrow> fill_ok r q \<and> fills_ok (q + fill_size r) rs"

definition net_size :: "client_response_internal list \<Rightarrow> int" where
  "net_size rs = sum_list (map fill_size rs)"

definition cash_flow :: "client_response_internal list \<Rightarrow> real" where
  "cash_flow rs = - of_int (sum_list (map (\<lambda>r. fill_size r * sint (rs_price r)) rs))"

lemma add_fills_accounts:
  assumes "accounts p q c" and "fills_ok q rs" and "rs \<noteq> []"
  shows "\<exists>p'. rfold (\<lambda>r. position_add_fill exact_double r (Some l)) rs p = Inr p' \<and>
    accounts p' (q + net_size rs) (c + cash_flow rs) \<and>
    total_pnl p' = Some (c + cash_flow rs + of_int (q + net_size rs) * of_int (sint (rs_price (last rs)))) \<and>
    volume p' = volume p + sum_list (map rs_exec_qty rs)"
  using assms
proof (induction rs arbitrary: p q c)
  case (Cons r rs)
  let ?q = "q + fill_size r" and ?c = "c - of_int (fill_size r * sint (rs_price r))"
  obtain p1 where p1: "position_add_fill exact_double r (Some l) p = Inr p1" "accounts p1 ?q ?c"
    "total_pnl p1 = Some (?c + of_int ?q * of_int (sint (rs_price r)))" "volume p1 = volume p + rs_exec_qty r"
    using add_fill_accounts [OF Cons.prems(1)] Cons.prems(2) by auto
  have n: "q + net_size (r # rs) = ?q + net_size rs" "c + cash_flow (r # rs) = ?c + cash_flow rs"
    by (simp_all add: net_size_def cash_flow_def)
  show ?case
  proof (cases "rs = []")
    case True
    then show ?thesis using p1 unfolding n by (simp add: net_size_def cash_flow_def)
  next
    case False
    then show ?thesis using Cons.IH [OF p1(2) _ False] Cons.prems(2) p1(1,4) unfolding n by (auto simp: add.assoc)
  qed
qed simp

text \<open>Without a logger the last thing a fill does is to dereference the null pointer.\<close>

lemma add_fill_null_logger:
  assumes "position_add_fill D r (Some l) p = Inr p'"
  shows "position_add_fill D r None p = Inl NullPointer"
proof -
  have settle: "settle D x None p = Inl NullPointer" if "settle D x (Some l) p = Inr q" for x p q
    using that by (auto simp: settle_def rbind_Inr_iff Let_def split: if_splits)
  show ?thesis using assms
    by (auto simp: position_add_fill_def Let_def rbind_Inr_iff dest!: settle split: if_splits)
qed

text \<open>
  C33: the bookkeeping of a position is sound, as long as it stays in range and has a logger.
  Computed without rounding, after any sequence of fills at prices below \<open>2 ^ 40\<close> in absolute value
  in which the running position stays within 46340 on either side (the square is an \<open>int\<close>),
  through openings, partial closings and changes of sign, the position is the net size bought,
  the volume the size traded, and the total profit is the cash received less the cash paid plus
  the open position valued at the last fill's price. With the logger that the client's position
  keeper has, a null pointer, the first fill already ends in a null dereference.
\<close>

theorem profit_is_marked_to_market:
  assumes "fills_ok 0 rs"
  shows "(\<exists>p. rfold (\<lambda>r. position_add_fill exact_double r (Some l)) rs (default_position_info exact_double) = Inr p \<and>
      sint (position p) = net_size rs \<and> volume p = sum_list (map rs_exec_qty rs) \<and>
      total_pnl p = Some (cash_flow rs + of_int (net_size rs) * (if rs = [] then 0 else of_int (sint (rs_price (last rs)))))) \<and>
    (rs \<noteq> [] \<longrightarrow> rfold (\<lambda>r. position_add_fill exact_double r (pk_logger (position_keeper_init exact_double))) rs
      (default_position_info exact_double) = Inl NullPointer)"
proof (cases rs)
  case Nil
  then show ?thesis by (simp add: default_position_info_def net_size_def cash_flow_def exact_double_def)
next
  case (Cons r rs')
  obtain p where p: "rfold (\<lambda>r. position_add_fill exact_double r (Some l)) rs (default_position_info exact_double) = Inr p"
    "accounts p (net_size rs) (cash_flow rs)" "volume p = sum_list (map rs_exec_qty rs)"
    "total_pnl p = Some (cash_flow rs + of_int (net_size rs) * of_int (sint (rs_price (last rs))))"
    using add_fills_accounts [OF accounts_init assms, of l] Cons by (auto simp: default_position_info_def)
  obtain p1 where "position_add_fill exact_double r (Some l) (default_position_info exact_double) = Inr p1"
    using p(1) Cons by (auto simp: rbind_Inr_iff)
  from add_fill_null_logger [OF this]
  have "rfold (\<lambda>r. position_add_fill exact_double r None) rs (default_position_info exact_double) = Inl NullPointer"
    by (simp add: Cons)
  then show ?thesis using p accounts_simps(1) [OF p(2)] Cons by (auto simp: position_keeper_init_def)
qed

text \<open>Bought 10 at 100, sold 15 at 104: 40 realized, and short 5.\<close>

definition sample_fill :: "side_t \<Rightarrow> price_t \<Rightarrow> quantity_t \<Rightarrow> client_response_internal" where
  "sample_fill sd p q = default_client_response\<lparr>rs_type := FILLED, rs_side := sd, rs_price := p, rs_exec_qty := q\<rparr>"

theorem profit_is_marked_to_market_witness:
  "\<exists>p. rfold (\<lambda>r. position_add_fill exact_double r (Some 0)) [sample_fill BUY 100 10, sample_fill SELL 104 15]
      (default_position_info exact_double) = Inr p \<and>
    sint (position p) = - 5 \<and> volume p = 25 \<and> total_pnl p = Some 40"
proof -
  have "fills_ok 0 [sample_fill BUY 100 10, sample_fill SELL 104 15]"
    by (simp add: fill_ok_def sample_fill_def side_to_value_def POSITION_BOUND_def)
  from profit_is_marked_to_market [OF this, of 0] show ?thesis
    by (simp add: net_size_def cash_flow_def sample_fill_def side_to_value_def)
qed

end
