(* ===== verification/OrderManager.thy ===== *)
theory OrderManager
  imports PositionKeeper LockFreeQueue
begin

text \<open>
  \<open>trading_engine/om_order.hpp\<close>, \<open>risk_manager.hpp\<close> and \<open>order_manager.hpp\<close> with \<open>.cpp\<close>: the
  one order per instrument and side that the trading client keeps in the market, its states, and
  the checks before an order is sent. The requests go to the queue towards the order gateway,
  which is passed along with the manager.
\<close>

section \<open>Orders (om\_order.hpp)\<close>

datatype om_order_state = OM_INVALID | PENDING_NEW | LIVE | PENDING_CANCEL | DEAD | PENDING_MODIFIED | OM_UNKNOWN u8

fun om_order_state_to_string :: "om_order_state \<Rightarrow> string" where
  "om_order_state_to_string PENDING_NEW = ''PENDING_NEW''"
| "om_order_state_to_string LIVE = ''LIVE''"
| "om_order_state_to_string PENDING_CANCEL = ''PENDING_CANCEL''"
| "om_order_state_to_string DEAD = ''DEAD''"
| "om_order_state_to_string PENDING_MODIFIED = ''PENDING_MODIFIED''"
| "om_order_state_to_string OM_INVALID = ''INVALID''"
| "om_order_state_to_string (OM_UNKNOWN b) = ''UNKNOWN''"

record om_order =
  om_instrument_id :: instrument_id_t
  om_order_id :: order_id_t
  om_side :: side_t
  om_price :: price_t
  om_qty :: quantity_t
  om_state :: om_order_state

definition default_om_order :: om_order where
  "default_om_order = \<lparr>om_instrument_id = INVALID_INSTRUMENT_ID, om_order_id = INVALID_ORDER_ID, om_side = SIDE_INVALID,
     om_price = INVALID_PRICE, om_qty = INVALID_QUANTITY, om_state = OM_INVALID\<rparr>"

definition om_order_to_string :: "om_order \<Rightarrow> string" where
  "om_order_to_string x = concat
     [''OMOrder'', ''['',
      ''tid:'', instrument_id_to_string (om_instrument_id x), '' '',
      ''oid:'', order_id_to_string (om_order_id x), '' '',
      ''side:'', side_to_string (om_side x), '' '',
      ''price:'', price_to_string (om_price x), '' '',
      ''qty:'', quantity_to_string (om_qty x), '' '',
      ''state:'', om_order_state_to_string (om_state x), '']'']"

section \<open>Risk (risk\_manager.hpp)\<close>

datatype risk_check_result = RISK_INVALID | ORDER_TOO_LARGE | POSITION_TOO_LARGE | LOSS_TOO_LARGE | ALLOWED | RISK_UNKNOWN u8

fun risk_check_result_to_string :: "risk_check_result \<Rightarrow> string" where
  "risk_check_result_to_string RISK_INVALID = ''INVALID''"
| "risk_check_result_to_string ORDER_TOO_LARGE = ''ORDER_TOO_LARGE''"
| "risk_check_result_to_string POSITION_TOO_LARGE = ''POSITION_TOO_LARGE''"
| "risk_check_result_to_string LOSS_TOO_LARGE = ''LOSS_TOO_LARGE''"
| "risk_check_result_to_string ALLOWED = ''ALLOWED''"
| "risk_check_result_to_string (RISK_UNKNOWN b) = ''''"

text \<open>\<open>ri_position_info\<close> points into the position keeper's array; its target is an argument below.\<close>

record 'd risk_info =
  ri_position_info :: ptr
  ri_risk_cfg :: "'d risk_config"

text \<open>The position limit is compared in \<open>int\<close>, where overflow is undefined.\<close>

definition check_risk :: "'d double_ops \<Rightarrow> 'd position_info_t \<Rightarrow> 'd risk_config \<Rightarrow> side_t \<Rightarrow> quantity_t \<Rightarrow>
    risk_check_result result" where
  "check_risk D p c sd qty =
     (if max_order_size c < qty then Inr ORDER_TOO_LARGE
      else rbind (i32 (side_to_value sd * sint qty)) (\<lambda>signed_qty.
           rbind (i32 (sint (position p) + signed_qty)) (\<lambda>new_position.
           rbind (i_abs new_position) (\<lambda>size.
           if sint (max_position c) < size then Inr POSITION_TOO_LARGE
           else if d_less D (total_pnl p) (max_loss c) then Inr LOSS_TOO_LARGE
           else Inr ALLOWED))))"

definition risk_info_to_string :: "'d double_ops \<Rightarrow> (nat \<Rightarrow> bbo_t) \<Rightarrow> 'd position_info_t \<Rightarrow> 'd risk_info \<Rightarrow> string result" where
  "risk_info_to_string D bbos p r =
     rbind (position_info_to_string D bbos p) (\<lambda>pos.
     Inr (concat [''RiskInfo'', ''['', ''pos:'', pos, '' '', risk_config_to_string D (ri_risk_cfg r), '']'']))"

type_synonym 'd risk_manager = "nat \<Rightarrow> 'd risk_info"

definition risk_manager_init :: "'d trade_engine_config_map \<Rightarrow> 'd risk_manager" where
  "risk_manager_init cfgs = (\<lambda>i. \<lparr>ri_position_info = Some i, ri_risk_cfg = risk_cfg (cfgs i)\<rparr>)"

definition check_pretrade_risk :: "'d double_ops \<Rightarrow> 'd position_keeper \<Rightarrow> 'd risk_manager \<Rightarrow> instrument_id_t \<Rightarrow> side_t \<Rightarrow>
    quantity_t \<Rightarrow> risk_check_result result" where
  "check_pretrade_risk D pk rm i sd qty =
     (if unat i < MAX_NUM_INSTRUMENTS
      then rbind (deref (ri_position_info (rm (unat i)))) (\<lambda>p.
           check_risk D (instrument_position pk p) (ri_risk_cfg (rm (unat i))) sd qty)
      else Inl OutOfRange)"

section \<open>The order manager\<close>

text \<open>\<open>instrument_side_order_\<close> by instrument and side index; a slot is the pair of indices.\<close>

type_synonym slot = "nat \<times> nat"

record order_manager =
  instrument_side_order :: "slot \<Rightarrow> om_order"
  next_order_id :: order_id_t

definition order_manager_init :: order_manager where
  "order_manager_init = \<lparr>instrument_side_order = (\<lambda>_. default_om_order), next_order_id = 1\<rparr>"

type_synonym request_queue = "client_request_internal lock_free_queue"

definition send_client_request :: "client_request_internal \<Rightarrow> request_queue \<Rightarrow> request_queue" where
  "send_client_request r q = next_write_index (put_next_write_element r q)"

definition on_order_update :: "client_response_internal \<Rightarrow> order_manager \<Rightarrow> order_manager result" where
  "on_order_update r om =
     (if unat (rs_instrument_id r) < MAX_NUM_INSTRUMENTS then
        let k = (unat (rs_instrument_id r), side_to_index (rs_side r));
            order = instrument_side_order om k;
            order = (case rs_type r of
                ACCEPTED \<Rightarrow> order\<lparr>om_state := LIVE\<rparr>
              | CANCELED \<Rightarrow> order\<lparr>om_state := DEAD\<rparr>
              | MODIFIED \<Rightarrow> order\<lparr>om_state := LIVE\<rparr>
              | FILLED \<Rightarrow> (let order = order\<lparr>om_qty := rs_leaves_qty r\<rparr>
                          in if om_qty order = 0 then order\<lparr>om_state := DEAD\<rparr> else order)
              | _ \<Rightarrow> order)
        in Inr (om\<lparr>instrument_side_order := (instrument_side_order om)(k := order)\<rparr>)
      else Inl OutOfRange)"

definition new_order_request :: "instrument_id_t \<Rightarrow> order_id_t \<Rightarrow> price_t \<Rightarrow> side_t \<Rightarrow> quantity_t \<Rightarrow> client_request_internal" where
  "new_order_request i oid price sd qty = \<lparr>rq_type = REQ_NEW, rq_client_id = 0, rq_instrument_id = i, rq_order_id = oid,
     rq_side = sd, rq_price = price, rq_qty = qty\<rparr>"

definition new_order :: "slot \<Rightarrow> instrument_id_t \<Rightarrow> price_t \<Rightarrow> side_t \<Rightarrow> quantity_t \<Rightarrow> order_manager \<times> request_queue \<Rightarrow>
    order_manager \<times> request_queue" where
  "new_order k i price sd qty = (\<lambda>(om, q).
     let q = send_client_request (new_order_request i (next_order_id om) price sd qty) q;
         om = om\<lparr>instrument_side_order := (instrument_side_order om)(k := \<lparr>om_instrument_id = i, om_order_id = next_order_id om,
             om_side = sd, om_price = price, om_qty = qty, om_state = PENDING_NEW\<rparr>)\<rparr>
     in (om\<lparr>next_order_id := next_order_id om + 1\<rparr>, q))"

definition cancel_order_request :: "om_order \<Rightarrow> client_request_internal" where
  "cancel_order_request x = \<lparr>rq_type = REQ_CANCEL, rq_client_id = 0, rq_instrument_id = om_instrument_id x,
     rq_order_id = om_order_id x, rq_side = om_side x, rq_price = om_price x, rq_qty = om_qty x\<rparr>"

definition cancel_order :: "slot \<Rightarrow> order_manager \<times> request_queue \<Rightarrow> order_manager \<times> request_queue" where
  "cancel_order k = (\<lambda>(om, q). (om, send_client_request (cancel_order_request (instrument_side_order om k)) q))"

text \<open>The branch of \<open>move_order\<close> for a slot without a working order.\<close>

definition open_order :: "'d double_ops \<Rightarrow> 'd position_keeper \<Rightarrow> 'd risk_manager \<Rightarrow> slot \<Rightarrow> instrument_id_t \<Rightarrow> price_t \<Rightarrow>
    side_t \<Rightarrow> quantity_t \<Rightarrow> order_manager \<times> request_queue \<Rightarrow> (order_manager \<times> request_queue) result" where
  "open_order D pk rm k i price sd qty = (\<lambda>(om, q).
     if price \<noteq> INVALID_PRICE
     then rbind (check_pretrade_risk D pk rm i sd qty) (\<lambda>risk_result.
          Inr (if risk_result = ALLOWED then new_order k i price sd qty (om, q) else (om, q)))
     else Inr (om, q))"

definition move_order :: "'d double_ops \<Rightarrow> 'd position_keeper \<Rightarrow> 'd risk_manager \<Rightarrow> slot \<Rightarrow> instrument_id_t \<Rightarrow> price_t \<Rightarrow>
    side_t \<Rightarrow> quantity_t \<Rightarrow> order_manager \<times> request_queue \<Rightarrow> (order_manager \<times> request_queue) result" where
  "move_order D pk rm k i price sd qty = (\<lambda>(om, q).
     case om_state (instrument_side_order om k) of
       LIVE \<Rightarrow> (if om_price (instrument_side_order om k) \<noteq> price then Inr (cancel_order k (om, q)) else Inr (om, q))
     | OM_INVALID \<Rightarrow> open_order D pk rm k i price sd qty (om, q)
     | DEAD \<Rightarrow> open_order D pk rm k i price sd qty (om, q)
     | _ \<Rightarrow> Inr (om, q))"

definition move_orders :: "'d double_ops \<Rightarrow> 'd position_keeper \<Rightarrow> 'd risk_manager \<Rightarrow> instrument_id_t \<Rightarrow> price_t \<Rightarrow> price_t \<Rightarrow>
    quantity_t \<Rightarrow> order_manager \<times> request_queue \<Rightarrow> (order_manager \<times> request_queue) result" where
  "move_orders D pk rm i bid ask qty s =
     (if unat i < MAX_NUM_INSTRUMENTS
      then rbind (move_order D pk rm (unat i, side_to_index BUY) i bid BUY qty s)
             (move_order D pk rm (unat i, side_to_index SELL) i ask SELL qty)
      else Inl OutOfRange)"

definition get_instrument_side_orders :: "instrument_id_t \<Rightarrow> order_manager \<Rightarrow> (nat \<Rightarrow> om_order) result" where
  "get_instrument_side_orders i om =
     (if unat i < MAX_NUM_INSTRUMENTS then Inr (\<lambda>sd. instrument_side_order om (unat i, sd)) else Inl OutOfRange)"

end
