(* ===== verification/Logger.thy ===== *)
theory Logger
  imports Printing LockFreeQueue
begin

text \<open>
  \<open>utils/logger.hpp\<close>: the logger of every component. The calling thread pushes the characters
  and values of a line into a ring buffer, and a worker thread writes them to a file, whose
  contents are \<open>log_file\<close> here. How a stream prints a \<open>float\<close> or \<open>double\<close> is a parameter
  of the functions that print.
\<close>

section \<open>Entries\<close>

definition LOG_QUEUE_SIZE :: nat where [model_constants]: "LOG_QUEUE_SIZE = 256 * 1024"

text \<open>
  \<open>log_entry\<close>, the tag with the member of the union it selects. \<open>long\<close> has 64 bits on the
  targets of the build; the signed types are the words read by \<open>sint\<close>. The array \<open>s[256]\<close>
  is the text in front of its terminating NUL.
\<close>

datatype ('f, 'd) log_entry =
    LOG_CHAR char
  | LOG_INTEGER u32
  | LOG_LONG_INTEGER u64
  | LOG_LONG_LONG_INTEGER u64
  | LOG_UNSIGNED_INTEGER u32
  | LOG_UNSIGNED_LONG_INTEGER u64
  | LOG_UNSIGNED_LONG_LONG_INTEGER u64
  | LOG_FLOAT 'f
  | LOG_DOUBLE 'd
  | LOG_STRING string

text \<open>The switch of \<open>flush_queue\<close>: what \<open>file_ <<\<close> writes.\<close>

fun entry_text :: "('f \<Rightarrow> string) \<Rightarrow> ('d \<Rightarrow> string) \<Rightarrow> ('f, 'd) log_entry \<Rightarrow> string" where
  "entry_text sf sd (LOG_CHAR c) = [c]"
| "entry_text sf sd (LOG_INTEGER i) = signed_decimal (sint i)"
| "entry_text sf sd (LOG_LONG_INTEGER l) = signed_decimal (sint l)"
| "entry_text sf sd (LOG_LONG_LONG_INTEGER ll) = signed_decimal (sint ll)"
| "entry_text sf sd (LOG_UNSIGNED_INTEGER u) = decimal (unat u)"
| "entry_text sf sd (LOG_UNSIGNED_LONG_INTEGER ul) = decimal (unat ul)"
| "entry_text sf sd (LOG_UNSIGNED_LONG_LONG_INTEGER ull) = decimal (unat ull)"
| "entry_text sf sd (LOG_FLOAT f) = sf f"
| "entry_text sf sd (LOG_DOUBLE d) = sd d"
| "entry_text sf sd (LOG_STRING s) = s"

type_synonym ('f, 'd) log_queue = "('f, 'd) log_entry lock_free_queue"

section \<open>Pushing values\<close>

text \<open>The arguments of \<open>log\<close>, one constructor per overload of \<open>push_value\<close>.\<close>

datatype ('f, 'd) log_arg =
    Char_Arg char
  | Int_Arg u32
  | Long_Arg u64
  | Long_Long_Arg u64
  | Unsigned_Arg u32
  | Unsigned_Long_Arg u64
  | Unsigned_Long_Long_Arg u64
  | Float_Arg 'f
  | Double_Arg 'd
  | C_String_Arg "string option"
  | String_Arg string

definition push_entry :: "('f, 'd) log_entry \<Rightarrow> ('f, 'd) log_queue \<Rightarrow> ('f, 'd) log_queue" where
  "push_entry e q = next_write_index (put_next_write_element e q)"

text \<open>
  The overload for \<open>const char*\<close>: a null pointer pushes nothing, and at most 255 characters are
  copied into the entry.
\<close>

definition push_c_string :: "string option \<Rightarrow> ('f, 'd) log_queue \<Rightarrow> ('f, 'd) log_queue" where
  "push_c_string value q = (case value of
       None \<Rightarrow> q
     | Some s \<Rightarrow> push_entry (LOG_STRING (take 255 s)) q)"

text \<open>What a C string of the characters \<open>s\<close> is: the text in front of the first NUL.\<close>

definition c_str :: "string \<Rightarrow> string" where
  "c_str s = takeWhile (\<lambda>c. c \<noteq> CHR 0x00) s"

fun push_value :: "('f, 'd) log_arg \<Rightarrow> ('f, 'd) log_queue \<Rightarrow> ('f, 'd) log_queue" where
  "push_value (Char_Arg v) q = push_entry (LOG_CHAR v) q"
| "push_value (Int_Arg v) q = push_entry (LOG_INTEGER v) q"
| "push_value (Long_Arg v) q = push_entry (LOG_LONG_INTEGER v) q"
| "push_value (Long_Long_Arg v) q = push_entry (LOG_LONG_LONG_INTEGER v) q"
| "push_value (Unsigned_Arg v) q = push_entry (LOG_UNSIGNED_INTEGER v) q"
| "push_value (Unsigned_Long_Arg v) q = push_entry (LOG_UNSIGNED_LONG_INTEGER v) q"
| "push_value (Unsigned_Long_Long_Arg v) q = push_entry (LOG_UNSIGNED_LONG_LONG_INTEGER v) q"
| "push_value (Float_Arg v) q = push_entry (LOG_FLOAT v) q"
| "push_value (Double_Arg v) q = push_entry (LOG_DOUBLE v) q"
| "push_value (C_String_Arg v) q = push_c_string v q"
| "push_value (String_Arg v) q = push_c_string (Some (c_str v)) q"

section \<open>Formatting\<close>

text \<open>
  The two templates of \<open>log\<close>, with and without a value left to print. \<open>%%\<close> is a per cent
  sign, a single \<open>%\<close> takes the next value; the character after the last is the NUL.
\<close>

fun log_line :: "string \<Rightarrow> ('f, 'd) log_arg list \<Rightarrow> ('f, 'd) log_queue \<Rightarrow> ('f, 'd) log_queue result" where
  "log_line [] [] q = Inr q"
| "log_line [] (value # args) q = Inl (Fatal ''extra arguments provided to log()'')"
| "log_line (c # s) args q =
     (if c = CHR ''%'' then
        (case s of
           d # rest \<Rightarrow>
             if d = CHR ''%'' then log_line rest args (push_entry (LOG_CHAR d) q)
             else (case args of
                 value # args \<Rightarrow> log_line s args (push_value value q)
               | [] \<Rightarrow> Inl (Fatal ''missing arguments to log()''))
         | [] \<Rightarrow>
             (case args of
                value # args \<Rightarrow> log_line s args (push_value value q)
              | [] \<Rightarrow> Inl (Fatal ''missing arguments to log()'')))
      else log_line s args (push_entry (LOG_CHAR c) q))"

text \<open>Debug lines are written in builds without \<open>NDEBUG\<close>.\<close>

definition debug_log :: "bool \<Rightarrow> string \<Rightarrow> ('f, 'd) log_arg list \<Rightarrow> ('f, 'd) log_queue \<Rightarrow> ('f, 'd) log_queue result" where
  "debug_log ndebug s args q = (if ndebug then Inr q else log_line s args q)"

section \<open>The logger and its worker\<close>

record ('f, 'd) logger =
  log_file_name :: string
  log_file :: string
  log_queue :: "('f, 'd) log_queue"
  log_running :: bool

text \<open>The constructor; \<open>opened\<close> is whether the file could be opened, \<open>d\<close> the default entry.\<close>

definition logger_init :: "('f, 'd) log_entry \<Rightarrow> bool \<Rightarrow> string \<Rightarrow> ('f, 'd) logger result" where
  "logger_init d opened name =
     rbind (DEBUG_ASSERT opened (''Could not open log file:'' @ name)) (\<lambda>_.
     Inr \<lparr>log_file_name = name, log_file = [], log_queue = lock_free_queue_init LOG_QUEUE_SIZE d, log_running = True\<rparr>)"

function flush_entries :: "('f \<Rightarrow> string) \<Rightarrow> ('d \<Rightarrow> string) \<Rightarrow> ('f, 'd) log_queue \<Rightarrow> string \<Rightarrow> ('f, 'd) log_queue \<times> string" where
  "flush_entries sf sd q file =
     (if queue_size q \<noteq> 0 \<and> get_next_read_element q \<noteq> None
      then flush_entries sf sd (next_read_index q) (file @ entry_text sf sd (the (get_next_read_element q)))
      else (q, file))"
  by pat_completeness auto

termination
  by (relation "measure (\<lambda>(sf, sd, q, file). q_num_elements q)") (auto simp: queue_defs)

declare flush_entries.simps [simp del]

text \<open>One iteration of the worker's loop.\<close>

definition flush_queue :: "('f \<Rightarrow> string) \<Rightarrow> ('d \<Rightarrow> string) \<Rightarrow> ('f, 'd) logger \<Rightarrow> ('f, 'd) logger" where
  "flush_queue sf sd l =
     (if log_running l
      then let (q, file) = flush_entries sf sd (log_queue l) (log_file l) in l\<lparr>log_queue := q, log_file := file\<rparr>
      else l)"

text \<open>The destructor waits while there are entries; \<open>None\<close> means that it sleeps once more.\<close>

definition close_logger :: "('f, 'd) logger \<Rightarrow> ('f, 'd) logger option" where
  "close_logger l = (if queue_size (log_queue l) \<noteq> 0 then None else Some (l\<lparr>log_running := False\<rparr>))"

section \<open>What a line becomes\<close>

text \<open>The specification: the text with the values in place.\<close>

fun arg_text :: "('f \<Rightarrow> string) \<Rightarrow> ('d \<Rightarrow> string) \<Rightarrow> ('f, 'd) log_arg \<Rightarrow> string" where
  "arg_text sf sd (Char_Arg v) = [v]"
| "arg_text sf sd (Int_Arg v) = signed_decimal (sint v)"
| "arg_text sf sd (Long_Arg v) = signed_decimal (sint v)"
| "arg_text sf sd (Long_Long_Arg v) = signed_decimal (sint v)"
| "arg_text sf sd (Unsigned_Arg v) = decimal (unat v)"
| "arg_text sf sd (Unsigned_Long_Arg v) = decimal (unat v)"
| "arg_text sf sd (Unsigned_Long_Long_Arg v) = decimal (unat v)"
| "arg_text sf sd (Float_Arg v) = sf v"
| "arg_text sf sd (Double_Arg v) = sd v"
| "arg_text sf sd (C_String_Arg v) = (case v of None \<Rightarrow> [] | Some s \<Rightarrow> take 255 s)"
| "arg_text sf sd (String_Arg v) = take 255 (c_str v)"

text \<open>
  A line in pieces: literal characters and holes. The number of holes is the number of values
  the line needs; \<open>fill_holes\<close> puts their texts in.
\<close>

datatype piece = Literal char | Hole

fun pieces :: "string \<Rightarrow> piece list" where
  "pieces [] = []"
| "pieces [c] = [if c = CHR ''%'' then Hole else Literal c]"
| "pieces (c # d # s) = (if c = CHR ''%'' then if d = CHR ''%'' then Literal d # pieces s else Hole # pieces (d # s)
     else Literal c # pieces (d # s))"

fun fill_holes :: "piece list \<Rightarrow> string list \<Rightarrow> string" where
  "fill_holes [] ts = []"
| "fill_holes (Literal c # ps) ts = c # fill_holes ps ts"
| "fill_holes (Hole # ps) [] = []"
| "fill_holes (Hole # ps) (t # ts) = t @ fill_holes ps ts"

definition holes :: "string \<Rightarrow> nat" where
  "holes s = length (filter (\<lambda>p. p = Hole) (pieces s))"

section \<open>Pushing a line\<close>

text \<open>The entries of a value and of a line.\<close>

fun arg_entries :: "('f, 'd) log_arg \<Rightarrow> ('f, 'd) log_entry list" where
  "arg_entries (Char_Arg v) = [LOG_CHAR v]"
| "arg_entries (Int_Arg v) = [LOG_INTEGER v]"
| "arg_entries (Long_Arg v) = [LOG_LONG_INTEGER v]"
| "arg_entries (Long_Long_Arg v) = [LOG_LONG_LONG_INTEGER v]"
| "arg_entries (Unsigned_Arg v) = [LOG_UNSIGNED_INTEGER v]"
| "arg_entries (Unsigned_Long_Arg v) = [LOG_UNSIGNED_LONG_INTEGER v]"
| "arg_entries (Unsigned_Long_Long_Arg v) = [LOG_UNSIGNED_LONG_LONG_INTEGER v]"
| "arg_entries (Float_Arg v) = [LOG_FLOAT v]"
| "arg_entries (Double_Arg v) = [LOG_DOUBLE v]"
| "arg_entries (C_String_Arg v) = (case v of None \<Rightarrow> [] | Some s \<Rightarrow> [LOG_STRING (take 255 s)])"
| "arg_entries (String_Arg v) = [LOG_STRING (take 255 (c_str v))]"

fun line_entries :: "piece list \<Rightarrow> ('f, 'd) log_arg list \<Rightarrow> ('f, 'd) log_entry list" where
  "line_entries [] args = []"
| "line_entries (Literal c # ps) args = LOG_CHAR c # line_entries ps args"
| "line_entries (Hole # ps) [] = []"
| "line_entries (Hole # ps) (v # args) = arg_entries v @ line_entries ps args"

lemma push_entry_enqueue: "push_entry e q = enqueue e q"
  by (simp add: push_entry_def enqueue_def)

lemma push_value_entries: "push_value v q = fold enqueue (arg_entries v) q"
  by (cases v) (simp_all add: push_entry_enqueue push_c_string_def split: option.split)

lemma arg_entries_text: "concat (map (entry_text sf sd) (arg_entries v)) = arg_text sf sd v"
  by (cases v) (simp_all split: option.split)

lemma line_entries_text:
  "length args = length (filter (\<lambda>p. p = Hole) ps) \<Longrightarrow>
    concat (map (entry_text sf sd) (line_entries ps args)) = fill_holes ps (map (arg_text sf sd) args)"
  by (induction ps args rule: line_entries.induct) (simp_all add: arg_entries_text)

lemma line_entries_length: "length (line_entries ps args) \<le> length ps"
proof (induction ps args rule: line_entries.induct)
  case (4 ps v args)
  have "length (arg_entries v) \<le> 1" by (cases v) (simp_all split: option.split)
  then show ?case using 4 by simp
qed simp_all

lemma pieces_length: "length (pieces s) \<le> length s"
  by (induction s rule: pieces.induct) auto

lemma log_line_ok:
  "log_line s args q = (if holes s = length args then Inr (fold enqueue (line_entries (pieces s) args) q)
     else Inl (Fatal (if holes s < length args then ''extra arguments provided to log()'' else ''missing arguments to log()'')))"
proof (induction s arbitrary: args q rule: pieces.induct)
  case 1
  then show ?case by (cases args) (simp_all add: holes_def)
next
  case (2 c)
  show ?case
  proof (cases args)
    case (Cons v rest)
    then show ?thesis by (cases rest) (simp_all add: holes_def push_entry_enqueue push_value_entries)
  qed (simp add: holes_def push_entry_enqueue)
next
  case (3 c d s)
  consider "c = CHR ''%''" "d = CHR ''%''" | "c = CHR ''%''" "d \<noteq> CHR ''%''" | "c \<noteq> CHR ''%''" by blast
  then show ?case
  proof cases
    case 1
    then show ?thesis using "3.IH"(1) [OF 1] by (simp add: holes_def push_entry_enqueue)
  next
    case 2
    then show ?thesis using "3.IH"(2) [OF 2] log_line.simps(3) [of c "d # s" args q]
      by (cases args) (simp_all add: holes_def push_value_entries del: log_line.simps)
  next
    case 3
    then show ?thesis using "3.IH"(3) [OF 3, of args] log_line.simps(3) [of c "d # s" args q]
      by (simp add: holes_def push_entry_enqueue del: log_line.simps)
  qed
qed

text \<open>The worker writes the waiting entries, oldest first.\<close>

lemma flush_entries_ok:
  "queue_inv q \<Longrightarrow> \<exists>q'. flush_entries sf sd q contents = (q', contents @ concat (map (entry_text sf sd) (queue_items q))) \<and>
    queue_inv q' \<and> queue_items q' = [] \<and> q_size q' = q_size q"
proof (induction sf sd q contents rule: flush_entries.induct)
  case (1 sf sd q contents)
  show ?case
  proof (cases "queue_items q")
    case Nil
    then have "queue_size q = 0" using length_queue_items [of q] by (simp add: queue_defs)
    then show ?thesis using "1.prems" Nil by (subst flush_entries.simps) simp
  next
    case (Cons x xs)
    have h: "get_next_read_element q = Some x" "queue_size q \<noteq> 0"
      using get_next_read_element_items [OF "1.prems"] Cons length_queue_items [of q] by (auto simp: queue_size_def)
    have "queue_items (next_read_index q) = xs" using queue_items_next_read_index [OF "1.prems"] Cons by simp
    then show ?thesis using "1.IH" queue_inv_next_read_index [OF "1.prems"] h Cons
      by (subst flush_entries.simps) auto
  qed
qed

text \<open>
  C37: a log line reaches the file as it reads. If the number of values is the number of single
  per cent signs of the format, logging succeeds, and once the worker has run the file has grown
  by the format with its values in place (texts cut to 255 characters) behind whatever waited
  before; with any other number of values the process is ended with the message that says so.
  The queue must have room for the line, a slot per character.
\<close>

theorem logged_line_is_written:
  assumes "log_running l" and "queue_inv (log_queue l)" and "length (queue_items (log_queue l)) + length s \<le> q_size (log_queue l)"
  shows "if holes s = length args
    then \<exists>q l'. log_line s args (log_queue l) = Inr q \<and> flush_queue sf sd (l\<lparr>log_queue := q\<rparr>) = l' \<and>
      log_file l' = log_file l @ concat (map (entry_text sf sd) (queue_items (log_queue l))) @
        fill_holes (pieces s) (map (arg_text sf sd) args) \<and>
      queue_inv (log_queue l') \<and> queue_items (log_queue l') = [] \<and> close_logger l' \<noteq> None
    else \<exists>msg. log_line s args (log_queue l) = Inl (Fatal msg)"
proof (cases "holes s = length args")
  case True
  let ?es = "line_entries (pieces s) args"
  let ?q = "fold enqueue ?es (log_queue l)"
  have "length ?es \<le> length s" using line_entries_length pieces_length le_trans by blast
  then have q: "queue_inv ?q" "queue_items ?q = queue_items (log_queue l) @ ?es"
    using lfq.fold_put [OF assms(2), of ?es] assms(3) by simp_all
  obtain q' where f: "flush_entries sf sd ?q (log_file l) = (q', log_file l @ concat (map (entry_text sf sd) (queue_items ?q)))"
    "queue_inv q'" "queue_items q' = []" using flush_entries_ok [OF q(1)] by blast
  have "queue_size q' = 0" using f(3) length_queue_items [of q'] by (simp add: queue_size_def)
  moreover have "concat (map (entry_text sf sd) ?es) = fill_holes (pieces s) (map (arg_text sf sd) args)"
    using line_entries_text [of args "pieces s"] True by (simp add: holes_def)
  ultimately show ?thesis using True f q(2) assms(1) by (simp add: log_line_ok flush_queue_def close_logger_def)
qed (simp add: log_line_ok)

theorem logged_line_is_written_witness:
  "\<exists>l q. logger_init (LOG_CHAR CHR ''x'' :: (unit, unit) log_entry) True ''kse.log'' = Inr l \<and>
    log_line ''qty:% 100%%'' [Unsigned_Arg 7] (log_queue l) = Inr q \<and>
    log_file (flush_queue (\<lambda>_. ''0'') (\<lambda>_. ''0'') (l\<lparr>log_queue := q\<rparr>)) = ''qty:7 100%''"
proof -
  obtain l where l: "logger_init (LOG_CHAR CHR ''x'' :: (unit, unit) log_entry) True ''kse.log'' = Inr l" "log_running l"
    "log_file l = []" "queue_inv (log_queue l)" "queue_items (log_queue l) = []" "q_size (log_queue l) = LOG_QUEUE_SIZE"
    by (simp add: logger_init_def queue_init_inv model_constants)
  have d: "decimal 7 = ''7''" by code_simp
  have p: "pieces ''qty:% 100%%'' = map Literal ''qty:'' @ Hole # map Literal '' 100%''" by simp
  from logged_line_is_written [OF l(2,4), of "''qty:% 100%%''" "[Unsigned_Arg 7]" "\<lambda>_. ''0''" "\<lambda>_. ''0''"] l
  show ?thesis by (auto simp: model_constants holes_def p d)
qed

end
