(* ===== verification/Clock.thy ===== *)
theory Clock
  imports Logger FifoSequencer "HOL-Library.Signed_Division"
begin

unbundle bit_operations_syntax

text \<open>
  \<open>utils/utils.hpp\<close>, threads and clocks: what the program computes around the calls of the
  operating system. Clock readings, the time zone, the processor's counter and whether a thread
  could be pinned are arguments.
\<close>

section \<open>Threads\<close>

text \<open>
  \<open>create_thread\<close>: the new thread pins itself if a core is given, and the process ends if that
  fails; then it runs \<open>func\<close>.
\<close>

definition create_thread :: "int \<Rightarrow> bool \<Rightarrow> 'a result \<Rightarrow> 'a result" where
  "create_thread core pinned func =
     (if core \<ge> 0 \<and> \<not> pinned then Inl (Fatal (''Failed to pin thread to core '' @ signed_decimal core)) else func)"

lemma create_thread_Inr: "create_thread core pinned func = Inr x \<longleftrightarrow> (0 \<le> core \<longrightarrow> pinned) \<and> func = Inr x"
  by (auto simp: create_thread_def)

section \<open>Units of time\<close>

definition NANOS_PER_MICROS :: nananoseconds_t where "NANOS_PER_MICROS = 1000"

definition MICROS_PER_MILLIS :: nananoseconds_t where "MICROS_PER_MILLIS = 1000"

definition MILLIS_PER_SECS :: nananoseconds_t where "MILLIS_PER_SECS = 1000"

definition NANOS_PER_SECS :: nananoseconds_t where "NANOS_PER_SECS = NANOS_PER_MILLIS * MILLIS_PER_SECS"

lemma units_of_time:
  "NANOS_PER_MILLIS = NANOS_PER_MICROS * MICROS_PER_MILLIS" "NANOS_PER_SECS = 10 ^ 9"
  by (simp_all add: NANOS_PER_MILLIS_def NANOS_PER_MICROS_def MICROS_PER_MILLIS_def MILLIS_PER_SECS_def NANOS_PER_SECS_def)

section \<open>The time of day\<close>

text \<open>The broken-down time of \<open>localtime_r\<close> and its text by \<open>asctime\<close>.\<close>

record tm =
  tm_sec :: nat
  tm_min :: nat
  tm_hour :: nat
  tm_mday :: nat
  tm_mon :: nat
  tm_year :: nat
  tm_wday :: nat

definition tm_ok :: "tm \<Rightarrow> bool" where
  "tm_ok t \<longleftrightarrow> tm_sec t \<le> 60 \<and> tm_min t < 60 \<and> tm_hour t < 24 \<and> 0 < tm_mday t \<and> tm_mday t < 32 \<and>
     tm_mon t < 12 \<and> tm_wday t < 7"

definition zero_pad :: "nat \<Rightarrow> string \<Rightarrow> string" where
  "zero_pad n s = replicate (n - length s) CHR ''0'' @ s"

definition space_pad :: "nat \<Rightarrow> string \<Rightarrow> string" where
  "space_pad n s = replicate (n - length s) CHR '' '' @ s"

definition asctime :: "tm \<Rightarrow> string" where
  "asctime t =
     [''Sun'', ''Mon'', ''Tue'', ''Wed'', ''Thu'', ''Fri'', ''Sat''] ! tm_wday t @ '' '' @
     [''Jan'', ''Feb'', ''Mar'', ''Apr'', ''May'', ''Jun'', ''Jul'', ''Aug'', ''Sep'', ''Oct'', ''Nov'', ''Dec''] ! tm_mon t @
     space_pad 3 (decimal (tm_mday t)) @ '' '' @ zero_pad 2 (decimal (tm_hour t)) @ '':'' @
     zero_pad 2 (decimal (tm_min t)) @ '':'' @ zero_pad 2 (decimal (tm_sec t)) @ '' '' @
     decimal (1900 + tm_year t) @ [CHR 0x0A]"

text \<open>
  \<open>get_curren_time_str\<close> for a clock reading in nanoseconds: the eight characters of the time in
  \<open>asctime\<close>, a dot, and nine digits by \<open>%09ld\<close>, cut to the 25 characters the buffer holds.
  \<open>local\<close> is the time zone's \<open>localtime_r\<close>.
\<close>

definition long_09 :: "int \<Rightarrow> string" where
  "long_09 z = (if z < 0 then ''-'' @ zero_pad 8 (decimal (nat (- z))) else zero_pad 9 (decimal (nat z)))"

definition get_curren_time_str :: "(int \<Rightarrow> tm) \<Rightarrow> nananoseconds_t \<Rightarrow> string" where
  "get_curren_time_str local clock =
     (let tm_time = local (clock sdiv NANOS_PER_SECS)
      in take 25 (take 8 (drop 11 (asctime tm_time)) @ ''.'' @ long_09 (clock smod NANOS_PER_SECS)))"

lemma length_decimal: "n < 10 ^ k \<Longrightarrow> 0 < k \<Longrightarrow> length (decimal n) \<le> k"
proof (induction k arbitrary: n)
  case (Suc k)
  show ?case
  proof (cases "n < 10")
    case False
    then have "0 < k" using Suc.prems(1) by (cases k) auto
    then have "length (decimal (n div 10)) \<le> k" using Suc by (simp add: less_mult_imp_div_less mult.commute)
    then show ?thesis using False by (simp add: decimal.simps [of n])
  qed (simp add: decimal.simps [of n])
qed simp

lemma zero_pad_length: "n < 10 ^ k \<Longrightarrow> 0 < k \<Longrightarrow> length (zero_pad k (decimal n)) = k"
  using length_decimal [of n k] by (simp add: zero_pad_def)

lemma zero_pad_value [simp]: "decimal_value (zero_pad k s) = decimal_value s"
proof -
  have "foldl (\<lambda>v c. 10 * v + digit_value c) 0 (replicate n CHR ''0'') = 0" for n
    by (induction n) (simp_all add: digit_value_def)
  then show ?thesis by (simp add: zero_pad_def decimal_value_def)
qed

lemma middle: "length xs = m \<Longrightarrow> length ys = n \<Longrightarrow> take n (drop m (xs @ ys @ zs)) = ys"
  by auto

lemma asctime_time:
  assumes "tm_ok t"
  shows "take 8 (drop 11 (asctime t)) = zero_pad 2 (decimal (tm_hour t)) @ '':'' @ zero_pad 2 (decimal (tm_min t)) @ '':'' @
    zero_pad 2 (decimal (tm_sec t))"
proof -
  let ?day = "[''Sun'', ''Mon'', ''Tue'', ''Wed'', ''Thu'', ''Fri'', ''Sat''] ! tm_wday t @ '' '' @
     [''Jan'', ''Feb'', ''Mar'', ''Apr'', ''May'', ''Jun'', ''Jul'', ''Aug'', ''Sep'', ''Oct'', ''Nov'', ''Dec''] ! tm_mon t @
     space_pad 3 (decimal (tm_mday t)) @ '' ''"
  let ?time = "zero_pad 2 (decimal (tm_hour t)) @ '':'' @ zero_pad 2 (decimal (tm_min t)) @ '':'' @ zero_pad 2 (decimal (tm_sec t))"
  have "list_all (\<lambda>s. length s = 3) [''Sun'', ''Mon'', ''Tue'', ''Wed'', ''Thu'', ''Fri'', ''Sat'']"
    "list_all (\<lambda>s. length s = 3) [''Jan'', ''Feb'', ''Mar'', ''Apr'', ''May'', ''Jun'', ''Jul'', ''Aug'', ''Sep'', ''Oct'', ''Nov'', ''Dec'']"
    by simp_all
  then have w: "length ([''Sun'', ''Mon'', ''Tue'', ''Wed'', ''Thu'', ''Fri'', ''Sat''] ! tm_wday t) = 3"
    and m: "length ([''Jan'', ''Feb'', ''Mar'', ''Apr'', ''May'', ''Jun'', ''Jul'', ''Aug'', ''Sep'', ''Oct'', ''Nov'', ''Dec''] ! tm_mon t) = 3"
    using assms unfolding list_all_length tm_ok_def by simp_all
  have "length (decimal (tm_mday t)) \<le> 3" using assms by (intro length_decimal) (simp_all add: tm_ok_def)
  then have d: "length ?day = 11" using w m by (simp add: space_pad_def)
  have l: "length ?time = 8" using assms by (simp add: zero_pad_length tm_ok_def)
  have "asctime t = (?day) @ (?time) @ '' '' @ decimal (1900 + tm_year t) @ [CHR 0x0A]" by (simp add: asctime_def)
  then show ?thesis by (simp only: middle [OF d l])
qed

text \<open>
  The text always has 18 characters, so the buffer is never cut, and the time of day and the
  nanoseconds can be read back from it.
\<close>

lemma time_str_reads_back:
  assumes "0 \<le> clock" and "tm_ok (local (clock div NANOS_PER_SECS))"
  shows "length (get_curren_time_str local clock) = 18"
    and "decimal_value (take 2 (get_curren_time_str local clock)) = tm_hour (local (clock div NANOS_PER_SECS))"
    and "decimal_value (take 2 (drop 3 (get_curren_time_str local clock))) = tm_min (local (clock div NANOS_PER_SECS))"
    and "decimal_value (take 2 (drop 6 (get_curren_time_str local clock))) = tm_sec (local (clock div NANOS_PER_SECS))"
    and "int (decimal_value (drop 9 (get_curren_time_str local clock))) = clock mod NANOS_PER_SECS"
proof -
  let ?t = "local (clock div NANOS_PER_SECS)" and ?n = "nat (clock mod NANOS_PER_SECS)"
  have pos: "0 < NANOS_PER_SECS" by (simp add: units_of_time)
  have c: "clock sdiv NANOS_PER_SECS = clock div NANOS_PER_SECS" "clock smod NANOS_PER_SECS = clock mod NANOS_PER_SECS"
    using assms(1) pos by (simp_all add: signed_divide_int_def signed_modulo_int_def sgn_if minus_div_mult_eq_mod)
  have nonneg: "\<not> clock mod NANOS_PER_SECS < 0" using pos by (simp add: not_less)
  have n: "?n < 10 ^ 9" "int ?n = clock mod NANOS_PER_SECS" using pos by (simp_all add: units_of_time nat_less_iff)
  have l: "length (zero_pad 2 (decimal (tm_hour ?t))) = 2" "length (zero_pad 2 (decimal (tm_min ?t))) = 2"
    "length (zero_pad 2 (decimal (tm_sec ?t))) = 2" "length (zero_pad 9 (decimal ?n)) = 9"
    using assms(2) n(1) by (simp_all add: zero_pad_length tm_ok_def)
  have "get_curren_time_str local clock = zero_pad 2 (decimal (tm_hour ?t)) @ '':'' @ zero_pad 2 (decimal (tm_min ?t)) @ '':'' @
      zero_pad 2 (decimal (tm_sec ?t)) @ ''.'' @ zero_pad 9 (decimal ?n)"
    using l nonneg by (simp add: get_curren_time_str_def Let_def c asctime_time [OF assms(2)] long_09_def)
  then show "length (get_curren_time_str local clock) = 18"
    "decimal_value (take 2 (get_curren_time_str local clock)) = tm_hour ?t"
    "decimal_value (take 2 (drop 3 (get_curren_time_str local clock))) = tm_min ?t"
    "decimal_value (take 2 (drop 6 (get_curren_time_str local clock))) = tm_sec ?t"
    "int (decimal_value (drop 9 (get_curren_time_str local clock))) = clock mod NANOS_PER_SECS"
    using l n(2) by simp_all
qed

section \<open>Measuring\<close>

text \<open>The processor's counter from its two halves, and the macros, whose tag is part of the format.\<close>

definition rdtsc :: "u32 \<Rightarrow> u32 \<Rightarrow> u64" where
  "rdtsc lo hi = (push_bit 32 (ucast hi) OR ucast lo)"

definition START_MEASURE :: "u32 \<Rightarrow> u32 \<Rightarrow> u64" where
  "START_MEASURE lo hi = rdtsc lo hi"

definition END_MEASURE :: "string \<Rightarrow> string \<Rightarrow> u64 \<Rightarrow> u32 \<Rightarrow> u32 \<Rightarrow> ('f, 'd) log_queue \<Rightarrow> ('f, 'd) log_queue result" where
  "END_MEASURE tag time_str start lo hi q =
     (let stop = rdtsc lo hi
      in log_line (''% RDTSC '' @ tag @ '' %'' @ [CHR 0x0A]) [String_Arg time_str, Unsigned_Long_Arg (stop - start)] q)"

definition TIME_MEASURE :: "string \<Rightarrow> string \<Rightarrow> u64 \<Rightarrow> ('f, 'd) log_queue \<Rightarrow> ('f, 'd) log_queue result" where
  "TIME_MEASURE tag time_str timestamp q =
     log_line (''% TTT '' @ tag @ '' %'' @ [CHR 0x0A]) [String_Arg time_str, Long_Arg timestamp] q"

lemma unat_rdtsc: "unat (rdtsc lo hi) = unat hi * 2 ^ 32 + unat lo"
proof -
  have b: "unat w < 2 ^ 32" for w :: u32 by (rule order.strict_trans2 [OF unsigned_less]) simp
  have "push_bit 32 (ucast hi :: u64) AND ucast lo = 0"
    by (rule bit_word_eqI) (auto simp: bit_simps dest: bit_imp_le_length)
  then have "rdtsc lo hi = push_bit 32 (ucast hi) + ucast lo"
    by (simp add: rdtsc_def disjunctive_add_eq_or)
  moreover have u: "unat (ucast w :: u64) = unat w" for w :: u32
    using b [of w] by (simp add: unsigned_ucast_eq take_bit_eq_mod)
  moreover have "unat (push_bit 32 (ucast hi :: u64)) = unat hi * 2 ^ 32"
    using b [of hi] by (simp add: push_bit_eq_mult unat_word_ariths u)
  ultimately show ?thesis using b [of hi] b [of lo] by (simp add: unat_word_ariths)
qed

lemma pieces_literal: "CHR ''%'' \<notin> set s \<Longrightarrow> pieces (s @ t) = map Literal s @ pieces t"
proof (induction s)
  case (Cons c s)
  then show ?case by (cases "s @ t") auto
qed simp

lemma fill_literal: "fill_holes (map Literal s @ ps) ts = s @ fill_holes ps ts"
  by (induction s) simp_all

lemma log_two_values:
  assumes "CHR ''%'' \<notin> set u" and "u \<noteq> []"
  shows "\<exists>es. log_line (''%'' @ u @ ''%'' @ [CHR 0x0A]) [v, w] q = Inr (fold enqueue es q) \<and>
    concat (map (entry_text sf sd) es) = arg_text sf sd v @ u @ arg_text sf sd w @ [CHR 0x0A]"
proof -
  obtain c u' where u: "u = c # u'" using assms(2) by (cases u) auto
  then have "pieces (''%'' @ u @ ''%'' @ [CHR 0x0A]) = Hole # pieces (u @ ''%'' @ [CHR 0x0A])" using assms(1) by auto
  then have p: "pieces (''%'' @ u @ ''%'' @ [CHR 0x0A]) = Hole # map Literal u @ [Hole, Literal (CHR 0x0A)]"
    unfolding pieces_literal [OF assms(1)] by simp
  have "length (filter (\<lambda>p. p = Hole) (map Literal s)) = 0" for s by (induction s) simp_all
  then have h: "length [v, w] = length (filter (\<lambda>p. p = Hole) (Hole # map Literal u @ [Hole, Literal (CHR 0x0A)]))" by simp
  show ?thesis using line_entries_text [OF h, of sf sd] h
    by (intro exI [of _ "line_entries (Hole # map Literal u @ [Hole, Literal (CHR 0x0A)]) [v, w]"])
      (simp only: log_line_ok holes_def p fill_literal fill_holes.simps list.map append.assoc if_True simp_thms append_Nil2)
qed

text \<open>A measurement never ends the program and writes the difference of the counters.\<close>

lemma measures_written:
  assumes "CHR ''%'' \<notin> set tag" and "start \<le> rdtsc lo hi"
  shows "\<exists>es. END_MEASURE tag time_str start lo hi q = Inr (fold enqueue es q) \<and> concat (map (entry_text sf sd) es) =
      take 255 (c_str time_str) @ '' RDTSC '' @ tag @ '' '' @ decimal (unat (rdtsc lo hi) - unat start) @ [CHR 0x0A]"
    and "\<exists>es. TIME_MEASURE tag time_str timestamp q = Inr (fold enqueue es q) \<and> concat (map (entry_text sf sd) es) =
      take 255 (c_str time_str) @ '' TTT '' @ tag @ '' '' @ signed_decimal (sint timestamp) @ [CHR 0x0A]"
proof -
  have t: "CHR ''%'' \<notin> set ('' RDTSC '' @ tag @ '' '')" "CHR ''%'' \<notin> set ('' TTT '' @ tag @ '' '')"
    using assms(1) by simp_all
  show "\<exists>es. END_MEASURE tag time_str start lo hi q = Inr (fold enqueue es q) \<and> concat (map (entry_text sf sd) es) =
      take 255 (c_str time_str) @ '' RDTSC '' @ tag @ '' '' @ decimal (unat (rdtsc lo hi) - unat start) @ [CHR 0x0A]"
    using log_two_values [OF t(1), of "String_Arg time_str" "Unsigned_Long_Arg (rdtsc lo hi - start)" q sf sd] assms(2)
    by (simp add: END_MEASURE_def Let_def unat_sub del: log_line.simps)
  show "\<exists>es. TIME_MEASURE tag time_str timestamp q = Inr (fold enqueue es q) \<and> concat (map (entry_text sf sd) es) =
      take 255 (c_str time_str) @ '' TTT '' @ tag @ '' '' @ signed_decimal (sint timestamp) @ [CHR 0x0A]"
    using log_two_values [OF t(2), of "String_Arg time_str" "Long_Arg timestamp" q sf sd]
    by (simp add: TIME_MEASURE_def del: log_line.simps)
qed

end
