(* ===== verification/TradeEngine.thy ===== *)
theory TradeEngine
  imports OrderManager Clock
begin

text \<open>
  \<open>trading_engine/feature_engine.hpp\<close>, \<open>market_maker\<close>, \<open>liquidity_taker\<close> and
  \<open>trade_engine.hpp\<close> with \<open>.cpp\<close>: the trading client's engine. It takes responses and market
  updates from its queues, keeps the books, features and positions, and calls the algorithm
  that the constructor installed. \<open>D\<close> is the floating point arithmetic and \<open>now\<close> the clock.
\<close>

section \<open>Features (feature\_engine.hpp)\<close>

record 'd feature_engine =
  market_price :: 'd
  agg_trade_qty_ratio :: 'd

definition feature_engine_init :: "'d double_ops \<Rightarrow> 'd feature_engine" where
  "feature_engine_init D = \<lparr>market_price = d_nan D, agg_trade_qty_ratio = d_nan D\<rparr>"

definition two_sided :: "bbo_t \<Rightarrow> bool" where
  "two_sided b \<longleftrightarrow> bid_price b \<noteq> INVALID_PRICE \<and> ask_price b \<noteq> INVALID_PRICE"

text \<open>The sum of the products is an \<open>int64_t\<close>, the sum of the quantities a \<open>uint32_t\<close>.\<close>

definition fe_on_order_book_update :: "'d double_ops \<Rightarrow> bbo_t \<Rightarrow> 'd feature_engine \<Rightarrow> 'd feature_engine result" where
  "fe_on_order_book_update D b fe =
     (if two_sided b
      then rbind (i64 (sint (bid_price b) * uint (ask_qty b))) (\<lambda>x.
           rbind (i64 (sint (ask_price b) * uint (bid_qty b))) (\<lambda>y.
           rbind (i64 (x + y)) (\<lambda>total.
           Inr (fe\<lparr>market_price := d_div D (d_of_int D total) (d_of_int D (uint (bid_qty b + ask_qty b)))\<rparr>))))
      else Inr fe)"

definition fe_on_trade_update :: "'d double_ops \<Rightarrow> market_update \<Rightarrow> bbo_t \<Rightarrow> 'd feature_engine \<Rightarrow> 'd feature_engine" where
  "fe_on_trade_update D u b fe =
     (if two_sided b
      then fe\<lparr>agg_trade_qty_ratio := d_div D (d_of_int D (uint (mu_qty u)))
             (d_of_int D (uint (if mu_side u = BUY then ask_qty b else bid_qty b)))\<rparr>
      else fe)"

section \<open>The algorithms (market\_maker.hpp, liquidity\_taker.hpp)\<close>

text \<open>
  The prices the maker moves its orders to: joining the best price, or one behind it when the
  fair price is closer than the threshold.
\<close>

definition maker_prices :: "'d double_ops \<Rightarrow> 'd \<Rightarrow> 'd \<Rightarrow> bbo_t \<Rightarrow> (price_t \<times> price_t) result" where
  "maker_prices D fair_price thr b =
     rbind (i64 (sint (bid_price b) - (if d_le D thr (d_sub D fair_price (d_of_int D (sint (bid_price b)))) then 0 else 1))) (\<lambda>bid.
     rbind (i64 (sint (ask_price b) + (if d_le D thr (d_sub D (d_of_int D (sint (ask_price b))) fair_price) then 0 else 1))) (\<lambda>ask.
     Inr (word_of_int bid, word_of_int ask)))"

definition maker_on_order_book_update :: "'d double_ops \<Rightarrow> 'd position_keeper \<Rightarrow> 'd risk_manager \<Rightarrow> 'd trade_engine_config_map \<Rightarrow>
    'd feature_engine \<Rightarrow> instrument_id_t \<Rightarrow> bbo_t \<Rightarrow> order_manager \<times> request_queue \<Rightarrow> (order_manager \<times> request_queue) result" where
  "maker_on_order_book_update D pk rm cfgs fe i b s =
     (let fair_price = market_price fe
      in if two_sided b \<and> \<not> d_eq D fair_price (d_nan D)
         then if unat i < MAX_NUM_INSTRUMENTS
              then rbind (maker_prices D fair_price (threshold (cfgs (unat i))) b) (\<lambda>(bid, ask).
                   move_orders D pk rm i bid ask (clip (cfgs (unat i))) s)
              else Inl OutOfRange
         else Inr s)"

definition taker_on_trade_update :: "'d double_ops \<Rightarrow> 'd position_keeper \<Rightarrow> 'd risk_manager \<Rightarrow> 'd trade_engine_config_map \<Rightarrow>
    'd feature_engine \<Rightarrow> market_update \<Rightarrow> bbo_t \<Rightarrow> order_manager \<times> request_queue \<Rightarrow> (order_manager \<times> request_queue) result" where
  "taker_on_trade_update D pk rm cfgs fe u b s =
     (let agg_qty_ratio = agg_trade_qty_ratio fe; i = mu_instrument_id u
      in if two_sided b \<and> \<not> d_eq D agg_qty_ratio (d_nan D)
         then if unat i < MAX_NUM_INSTRUMENTS
              then if d_le D (threshold (cfgs (unat i))) agg_qty_ratio
                   then if mu_side u = BUY
                        then move_orders D pk rm i (ask_price b) INVALID_PRICE (clip (cfgs (unat i))) s
                        else move_orders D pk rm i INVALID_PRICE (bid_price b) (clip (cfgs (unat i))) s
                   else Inr s
              else Inl OutOfRange
         else Inr s)"

section \<open>The engine (trade\_engine.hpp)\<close>

text \<open>
  What the three \<open>std::function\<close> members hold: the defaults, which only log, or the callbacks
  of the maker or the taker, each with its copy of the configuration.
\<close>

datatype 'd algorithm =
    Default_Algo
  | Market_Maker "'d trade_engine_config_map"
  | Liquidity_Taker "'d trade_engine_config_map"

record 'd trade_engine =
  instrument_order_book :: "nat \<Rightarrow> market_order_book option"
  outgoing_ogw_requests :: request_queue
  incoming_ogw_responses :: "client_response_internal lock_free_queue"
  incoming_md_updates :: "market_update lock_free_queue"
  last_event_time :: nananoseconds_t
  te_run :: bool
  te_features :: "'d feature_engine"
  te_positions :: "'d position_keeper"
  te_risk :: "'d risk_manager"
  te_orders :: order_manager
  te_algo :: "'d algorithm"

definition make_market_books :: "(nat \<Rightarrow> market_order_book option) result" where
  "make_market_books = rfold (\<lambda>i bs. rbind (market_order_book_init (word_of_nat i)) (\<lambda>b. Inr (bs(i := Some b))))
     [0..<MAX_NUM_INSTRUMENTS] (\<lambda>_. None)"

definition installed_algorithm :: "algo_type_t \<Rightarrow> 'd trade_engine_config_map \<Rightarrow> 'd algorithm" where
  "installed_algorithm a cfg = (if a = MAKER then Market_Maker cfg else if a = TAKER then Liquidity_Taker cfg else Default_Algo)"

definition trade_engine_init :: "'d double_ops \<Rightarrow> algo_type_t \<Rightarrow> 'd trade_engine_config_map \<Rightarrow> request_queue \<Rightarrow>
    client_response_internal lock_free_queue \<Rightarrow> market_update lock_free_queue \<Rightarrow> 'd trade_engine result" where
  "trade_engine_init D algo_type cfg client_requests client_responses market_updates =
     rbind make_market_books (\<lambda>bs.
     Inr \<lparr>instrument_order_book = bs, outgoing_ogw_requests = client_requests, incoming_ogw_responses = client_responses,
          incoming_md_updates = market_updates, last_event_time = 0, te_run = False, te_features = feature_engine_init D,
          te_positions = position_keeper_init D, te_risk = risk_manager_init cfg, te_orders = order_manager_init,
          te_algo = installed_algorithm algo_type cfg\<rparr>)"

text \<open>The trade engine's own method, which the order manager and \<open>main\<close> call.\<close>

definition te_send_client_request :: "client_request_internal \<Rightarrow> 'd trade_engine \<Rightarrow> 'd trade_engine" where
  "te_send_client_request r te = te\<lparr>outgoing_ogw_requests := send_client_request r (outgoing_ogw_requests te)\<rparr>"

text \<open>An algorithm works on the order manager and the outgoing queue.\<close>

definition run_algo :: "(order_manager \<times> request_queue \<Rightarrow> (order_manager \<times> request_queue) result) \<Rightarrow> 'd trade_engine \<Rightarrow>
    'd trade_engine result" where
  "run_algo f te = rbind (f (te_orders te, outgoing_ogw_requests te)) (\<lambda>(om, q).
     Inr (te\<lparr>te_orders := om, outgoing_ogw_requests := q\<rparr>))"

text \<open>Calling the three \<open>std::function\<close> members.\<close>

definition algo_on_order_book_update :: "'d double_ops \<Rightarrow> instrument_id_t \<Rightarrow> market_order_book \<Rightarrow> 'd trade_engine \<Rightarrow>
    'd trade_engine result" where
  "algo_on_order_book_update D i book te = (case te_algo te of
       Market_Maker cfgs \<Rightarrow> run_algo (maker_on_order_book_update D (te_positions te) (te_risk te) cfgs (te_features te) i (mb_bbo book)) te
     | _ \<Rightarrow> Inr te)"

definition algo_on_trade_update :: "'d double_ops \<Rightarrow> market_update \<Rightarrow> market_order_book \<Rightarrow> 'd trade_engine \<Rightarrow>
    'd trade_engine result" where
  "algo_on_trade_update D u book te = (case te_algo te of
       Liquidity_Taker cfgs \<Rightarrow> run_algo (taker_on_trade_update D (te_positions te) (te_risk te) cfgs (te_features te) u (mb_bbo book)) te
     | _ \<Rightarrow> Inr te)"

definition algo_on_order_update :: "client_response_internal \<Rightarrow> 'd trade_engine \<Rightarrow> 'd trade_engine result" where
  "algo_on_order_update r te = (case te_algo te of
       Default_Algo \<Rightarrow> Inr te
     | _ \<Rightarrow> rbind (on_order_update r (te_orders te)) (\<lambda>om. Inr (te\<lparr>te_orders := om\<rparr>)))"

definition te_on_order_book_update :: "'d double_ops \<Rightarrow> instrument_id_t \<Rightarrow> price_t \<Rightarrow> side_t \<Rightarrow> market_order_book \<Rightarrow>
    'd trade_engine \<Rightarrow> 'd trade_engine result" where
  "te_on_order_book_update D i price sd book te =
     rbind (keeper_update_bbo D i (mb_bbo book) (te_positions te)) (\<lambda>pk.
     let te = te\<lparr>te_positions := pk\<rparr>
     in rbind (fe_on_order_book_update D (mb_bbo book) (te_features te)) (\<lambda>fe.
        algo_on_order_book_update D i book (te\<lparr>te_features := fe\<rparr>)))"

definition te_on_trade_update :: "'d double_ops \<Rightarrow> market_update \<Rightarrow> market_order_book \<Rightarrow> 'd trade_engine \<Rightarrow> 'd trade_engine result" where
  "te_on_trade_update D u book te =
     algo_on_trade_update D u book (te\<lparr>te_features := fe_on_trade_update D u (mb_bbo book) (te_features te)\<rparr>)"

definition te_on_order_update :: "client_response_internal \<Rightarrow> 'd trade_engine \<Rightarrow> 'd trade_engine result" where
  "te_on_order_update r te =
     algo_on_order_update r (if rs_type r = FILLED then te\<lparr>te_positions := keeper_add_fill r (te_positions te)\<rparr> else te)"

section \<open>The run loop (trade\_engine.cpp)\<close>

definition process_client_response :: "nananoseconds_t \<Rightarrow> client_response_internal \<Rightarrow> 'd trade_engine \<Rightarrow> 'd trade_engine result" where
  "process_client_response now r te =
     rbind (te_on_order_update r te) (\<lambda>te.
     Inr (te\<lparr>incoming_ogw_responses := next_read_index (incoming_ogw_responses te), last_event_time := now\<rparr>))"

definition engine_called :: "'d double_ops \<Rightarrow> engine_call \<Rightarrow> market_order_book \<Rightarrow> 'd trade_engine \<Rightarrow> 'd trade_engine result" where
  "engine_called D c book te = (case c of
       On_trade_update u \<Rightarrow> te_on_trade_update D u book te
     | On_order_book_update i price sd \<Rightarrow> te_on_order_book_update D i price sd book te)"

definition process_market_update :: "'d double_ops \<Rightarrow> nananoseconds_t \<Rightarrow> market_update \<Rightarrow> 'd trade_engine \<Rightarrow> 'd trade_engine result" where
  "process_market_update D now u te =
     (let i = unat (mu_instrument_id u)
      in rbind (DEBUG_ASSERT (i < MAX_NUM_INSTRUMENTS) (''Unknown instrument-id on update:'' @ market_update_to_string u)) (\<lambda>_.
         case instrument_order_book te i of
           None \<Rightarrow> Inl NullPointer
         | Some book \<Rightarrow>
             rbind (on_market_update u book) (\<lambda>(book, c).
             rbind (engine_called D c book (te\<lparr>instrument_order_book := (instrument_order_book te)(i := Some book)\<rparr>)) (\<lambda>te.
             Inr (te\<lparr>incoming_md_updates := next_read_index (incoming_md_updates te), last_event_time := now\<rparr>)))))"

text \<open>The handlers leave the incoming queues alone, so each iteration takes one element away.\<close>

definition same_inputs :: "'d trade_engine \<Rightarrow> 'd trade_engine \<Rightarrow> bool" where
  "same_inputs te te' \<longleftrightarrow> incoming_ogw_responses te' = incoming_ogw_responses te \<and>
     incoming_md_updates te' = incoming_md_updates te \<and> te_run te' = te_run te \<and> te_algo te' = te_algo te \<and>
     te_risk te' = te_risk te"

lemma run_algo_inputs: "run_algo f te = Inr te' \<Longrightarrow> same_inputs te te'"
  by (auto simp: run_algo_def rbind_Inr_iff same_inputs_def)

lemma same_inputs_simps [simp]:
  "same_inputs (te\<lparr>te_positions := pk\<rparr>) te' \<longleftrightarrow> same_inputs te te'"
  "same_inputs (te\<lparr>te_features := fe\<rparr>) te' \<longleftrightarrow> same_inputs te te'"
  "same_inputs (te\<lparr>instrument_order_book := b\<rparr>) te' \<longleftrightarrow> same_inputs te te'"
  "same_inputs te (te\<lparr>te_orders := om\<rparr>)" "same_inputs te te"
  by (simp_all add: same_inputs_def)

lemma algo_inputs:
  "algo_on_order_book_update D i book te = Inr te' \<Longrightarrow> same_inputs te te'"
  "algo_on_trade_update D u book te = Inr te' \<Longrightarrow> same_inputs te te'"
  "algo_on_order_update r te = Inr te' \<Longrightarrow> same_inputs te te'"
  by (cases "te_algo te"; auto simp: algo_on_order_book_update_def algo_on_trade_update_def algo_on_order_update_def
      rbind_Inr_iff dest: run_algo_inputs)+

lemma te_on_order_update_inputs: "te_on_order_update r te = Inr te' \<Longrightarrow> same_inputs te te'"
  by (auto simp: te_on_order_update_def dest!: algo_inputs split: if_splits)

lemma engine_called_inputs: "engine_called D c book te = Inr te' \<Longrightarrow> same_inputs te te'"
  by (cases c) (auto simp: engine_called_def te_on_trade_update_def te_on_order_book_update_def Let_def rbind_Inr_iff
      dest!: algo_inputs)

lemma process_client_response_takes:
  assumes "process_client_response now r te = Inr te'" and "get_next_read_element (incoming_ogw_responses te) \<noteq> None"
  shows "q_num_elements (incoming_ogw_responses te') < q_num_elements (incoming_ogw_responses te)"
  using assms by (auto simp: process_client_response_def rbind_Inr_iff same_inputs_def queue_defs
      dest!: te_on_order_update_inputs split: if_splits)

lemma process_market_update_takes:
  assumes "process_market_update D now u te = Inr te'" and "get_next_read_element (incoming_md_updates te) \<noteq> None"
  shows "q_num_elements (incoming_md_updates te') < q_num_elements (incoming_md_updates te)"
  using assms by (auto simp: process_market_update_def Let_def rbind_Inr_iff same_inputs_def queue_defs
      dest!: engine_called_inputs split: if_splits option.splits)

function drain_responses :: "nananoseconds_t \<Rightarrow> 'd trade_engine \<Rightarrow> 'd trade_engine result" where
  "drain_responses now te =
     (if get_next_read_element (incoming_ogw_responses te) \<noteq> None
      then rbind (process_client_response now (the (get_next_read_element (incoming_ogw_responses te))) te) (drain_responses now)
      else Inr te)"
  by pat_completeness auto

termination
  by (relation "measure (\<lambda>(now, te). q_num_elements (incoming_ogw_responses te))")
    (auto dest: process_client_response_takes)

function drain_updates :: "'d double_ops \<Rightarrow> nananoseconds_t \<Rightarrow> 'd trade_engine \<Rightarrow> 'd trade_engine result" where
  "drain_updates D now te =
     (if get_next_read_element (incoming_md_updates te) \<noteq> None
      then rbind (process_market_update D now (the (get_next_read_element (incoming_md_updates te))) te) (drain_updates D now)
      else Inr te)"
  by pat_completeness auto

termination
  by (relation "measure (\<lambda>(D, now, te). q_num_elements (incoming_md_updates te))")
    (auto dest: process_market_update_takes)

declare drain_responses.simps [simp del] drain_updates.simps [simp del]

text \<open>
  One iteration of \<open>while (run_)\<close>, and \<open>run\<close> for as many iterations as clock readings are given.
\<close>

definition run_iteration :: "'d double_ops \<Rightarrow> nananoseconds_t \<Rightarrow> 'd trade_engine \<Rightarrow> 'd trade_engine result" where
  "run_iteration D now te = (if te_run te then rbind (drain_responses now te) (drain_updates D now) else Inr te)"

definition run_engine :: "'d double_ops \<Rightarrow> nananoseconds_t list \<Rightarrow> 'd trade_engine \<Rightarrow> 'd trade_engine result" where
  "run_engine D = rfold (run_iteration D)"

section \<open>Starting and stopping\<close>

definition start_engine :: "'d trade_engine \<Rightarrow> 'd trade_engine" where
  "start_engine te = te\<lparr>te_run := True\<rparr>"

text \<open>\<open>stop\<close> waits while an incoming queue holds something; \<open>None\<close> means that it sleeps once more.\<close>

definition stop_engine :: "'d trade_engine \<Rightarrow> 'd trade_engine option" where
  "stop_engine te = (if queue_size (incoming_ogw_responses te) \<noteq> 0 \<or> queue_size (incoming_md_updates te) \<noteq> 0 then None
     else Some (te\<lparr>te_run := False\<rparr>))"

definition init_last_event_time :: "nananoseconds_t \<Rightarrow> 'd trade_engine \<Rightarrow> 'd trade_engine" where
  "init_last_event_time now te = te\<lparr>last_event_time := now\<rparr>"

definition silent_seconds :: "nananoseconds_t \<Rightarrow> 'd trade_engine \<Rightarrow> int" where
  "silent_seconds now te = (now - last_event_time te) sdiv NANOS_PER_SECS"

end
