(* ===== verification/TradeEngineProperties.thy ===== *)
theory TradeEngineProperties
  imports TradeEngine OrderServer MarketOrderBookProperties
begin

text \<open>
  What the trading client sends in any run: the requests of its algorithms, the limits they
  respect, and what the engine never learns of its fills.
\<close>

section \<open>Flat positions\<close>

definition flat :: "'d double_ops \<Rightarrow> 'd position_keeper \<Rightarrow> bool" where
  "flat D pk \<longleftrightarrow> (\<forall>i. position (instrument_position pk i) = 0 \<and> total_pnl (instrument_position pk i) = d_of_int D 0)"

lemma flat_init: "flat D (position_keeper_init D)"
  by (simp add: flat_def position_keeper_init_def default_position_info_def)

lemma flat_update_bbo:
  assumes "keeper_update_bbo D i b pk = Inr pk'" and "flat D pk"
  shows "flat D pk'"
  using assms by (auto simp: keeper_update_bbo_def position_update_bbo_def flat_def rbind_Inr_iff Let_def split: if_splits)

section \<open>The requests of an algorithm\<close>

text \<open>The limits that a new order has passed, with a flat position and no profit or loss.\<close>

definition within_limits :: "'d double_ops \<Rightarrow> 'd trade_engine_config_map \<Rightarrow> client_request_internal \<Rightarrow> bool" where
  "within_limits D cfgs r \<longleftrightarrow> unat (rq_instrument_id r) < MAX_NUM_INSTRUMENTS \<and>
     (let c = risk_cfg (cfgs (unat (rq_instrument_id r)))
      in rq_qty r \<le> max_order_size c \<and> \<bar>sint (rq_qty r)\<bar> \<le> sint (max_position c) \<and>
         \<not> d_less D (d_of_int D 0) (max_loss c) \<and> rq_price r \<noteq> INVALID_PRICE)"

definition new_ids :: "client_request_internal list \<Rightarrow> order_id_t list" where
  "new_ids rs = map rq_order_id (filter (\<lambda>r. rq_type r = REQ_NEW) rs)"

text \<open>
  From one state to the next only requests were appended to the outgoing queue: new orders
  within the limits that take the next order identifiers in turn, and cancels.
\<close>

definition sends_requests :: "'d double_ops \<Rightarrow> 'd trade_engine_config_map \<Rightarrow> order_manager \<times> request_queue \<Rightarrow>
    order_manager \<times> request_queue \<Rightarrow> bool" where
  "sends_requests D cfgs s s' \<longleftrightarrow> (\<exists>rs. snd s' = fold send_client_request rs (snd s) \<and>
     (\<forall>r \<in> set rs. rq_type r = REQ_NEW \<and> within_limits D cfgs r \<or> rq_type r = REQ_CANCEL) \<and>
     new_ids rs = map (\<lambda>k. next_order_id (fst s) + word_of_nat k) [0..<length (new_ids rs)] \<and>
     next_order_id (fst s') = next_order_id (fst s) + word_of_nat (length (new_ids rs)))"

lemma sends_requests_refl [simp, intro]: "sends_requests D cfgs s s"
  by (auto simp: sends_requests_def new_ids_def intro!: exI [of _ "[]"])

lemma sends_requests_trans:
  assumes "sends_requests D cfgs s t" and "sends_requests D cfgs t u"
  shows "sends_requests D cfgs s u"
proof -
  obtain xs where x: "snd t = fold send_client_request xs (snd s)"
    "\<forall>r \<in> set xs. rq_type r = REQ_NEW \<and> within_limits D cfgs r \<or> rq_type r = REQ_CANCEL"
    "new_ids xs = map (\<lambda>k. next_order_id (fst s) + word_of_nat k) [0..<length (new_ids xs)]"
    "next_order_id (fst t) = next_order_id (fst s) + word_of_nat (length (new_ids xs))"
    using assms(1) unfolding sends_requests_def by blast
  obtain ys where y: "snd u = fold send_client_request ys (snd t)"
    "\<forall>r \<in> set ys. rq_type r = REQ_NEW \<and> within_limits D cfgs r \<or> rq_type r = REQ_CANCEL"
    "new_ids ys = map (\<lambda>k. next_order_id (fst t) + word_of_nat k) [0..<length (new_ids ys)]"
    "next_order_id (fst u) = next_order_id (fst t) + word_of_nat (length (new_ids ys))"
    using assms(2) unfolding sends_requests_def by blast
  have app: "new_ids (xs @ ys) = new_ids xs @ new_ids ys" by (simp add: new_ids_def)
  have "map (\<lambda>k. next_order_id (fst s) + word_of_nat k) [0..<m + n] =
      map (\<lambda>k. next_order_id (fst s) + word_of_nat k) [0..<m] @
      map (\<lambda>k. next_order_id (fst s) + word_of_nat m + word_of_nat k) [0..<n]" for m n
    by (rule nth_equalityI) (auto simp: nth_append add.assoc simp flip: of_nat_add)
  then have "new_ids (xs @ ys) = map (\<lambda>k. next_order_id (fst s) + word_of_nat k) [0..<length (new_ids (xs @ ys))]"
    using x(3,4) y(3) by (simp add: app)
  then show ?thesis using x y unfolding sends_requests_def
    by (intro exI [of _ "xs @ ys"]) (auto simp: app add.assoc)
qed

lemma check_flat:
  assumes "check_pretrade_risk D pk (risk_manager_init cfgs) i sd qty = Inr ALLOWED" and "flat D pk" and "price \<noteq> INVALID_PRICE"
  shows "within_limits D cfgs (new_order_request i oid price sd qty)"
proof -
  have "unat i < MAX_NUM_INSTRUMENTS" using assms(1) by (auto simp: check_pretrade_risk_def split: if_splits)
  moreover have "position (instrument_position pk (unat i)) = 0" "total_pnl (instrument_position pk (unat i)) = d_of_int D 0"
    using assms(2) by (simp_all add: flat_def)
  ultimately show ?thesis using assms(1,3)
    by (auto simp: check_pretrade_risk_def risk_manager_init_def check_risk_def rbind_Inr_iff within_limits_def Let_def
        new_order_request_def i32_def i_abs_def side_to_value_def not_less split: if_splits)
qed

lemma new_order_sends:
  assumes "within_limits D cfgs (new_order_request i (next_order_id (fst s)) price sd qty)"
  shows "sends_requests D cfgs s (new_order k i price sd qty s)"
  using assms
  by (auto simp: sends_requests_def new_order_def Let_def new_ids_def new_order_request_def split_beta
      intro!: exI [of _ "[new_order_request i (next_order_id (fst s)) price sd qty]"])

lemma cancel_order_sends: "sends_requests D cfgs s (cancel_order k s)"
  by (auto simp: sends_requests_def cancel_order_def new_ids_def cancel_order_request_def split_beta
      intro!: exI [of _ "[cancel_order_request (instrument_side_order (fst s) k)]"])

lemma move_order_sends:
  assumes "move_order D pk (risk_manager_init cfgs) k i price sd qty s = Inr s'" and "flat D pk"
  shows "sends_requests D cfgs s s'"
proof -
  obtain om q where s: "s = (om, q)" by (cases s)
  have "sends_requests D cfgs (om, q) (new_order k i price sd qty (om, q))"
    if "check_pretrade_risk D pk (risk_manager_init cfgs) i sd qty = Inr ALLOWED" "price \<noteq> INVALID_PRICE"
    by (rule new_order_sends) (rule check_flat [OF that(1) assms(2) that(2)])
  then have "open_order D pk (risk_manager_init cfgs) k i price sd qty (om, q) = Inr s' \<Longrightarrow> ?thesis"
    by (auto simp: open_order_def rbind_Inr_iff s split: if_splits)
  then show ?thesis using assms(1) s cancel_order_sends [of D cfgs "(om, q)" k]
    by (auto simp: move_order_def split: om_order_state.splits if_splits)
qed

lemma move_orders_sends:
  assumes "move_orders D pk (risk_manager_init cfgs) i bid ask qty s = Inr s'" and "flat D pk"
  shows "sends_requests D cfgs s s'"
  using assms by (auto simp: move_orders_def rbind_Inr_iff split: if_splits
      intro: sends_requests_trans move_order_sends)

lemma maker_sends:
  assumes "maker_on_order_book_update D pk (risk_manager_init cfgs) cs fe i b s = Inr s'" and "flat D pk"
  shows "sends_requests D cfgs s s'"
  using assms by (auto simp: maker_on_order_book_update_def Let_def rbind_Inr_iff split: if_splits
      intro: move_orders_sends)

lemma taker_sends:
  assumes "taker_on_trade_update D pk (risk_manager_init cfgs) cs fe u b s = Inr s'" and "flat D pk"
  shows "sends_requests D cfgs s s'"
  using assms by (auto simp: taker_on_trade_update_def Let_def split: if_splits intro: move_orders_sends)

section \<open>A step of the engine\<close>

abbreviation outbound :: "'d trade_engine \<Rightarrow> order_manager \<times> request_queue" where
  "outbound te \<equiv> (te_orders te, outgoing_ogw_requests te)"

text \<open>The invariant of the engine, and what a handler does from a state that has it.\<close>

definition engine_inv :: "'d double_ops \<Rightarrow> 'd trade_engine_config_map \<Rightarrow> 'd trade_engine \<Rightarrow> bool" where
  "engine_inv D cfgs te \<longleftrightarrow> flat D (te_positions te) \<and> te_risk te = risk_manager_init cfgs"

definition good_step :: "'d double_ops \<Rightarrow> 'd trade_engine_config_map \<Rightarrow> 'd trade_engine \<Rightarrow> 'd trade_engine \<Rightarrow> bool" where
  "good_step D cfgs te te' \<longleftrightarrow> engine_inv D cfgs te' \<and> sends_requests D cfgs (outbound te) (outbound te')"

lemma good_step_trans: "good_step D cfgs s t \<Longrightarrow> good_step D cfgs t u \<Longrightarrow> good_step D cfgs s u"
  by (auto simp: good_step_def intro: sends_requests_trans)

lemma good_step_refl: "engine_inv D cfgs te \<Longrightarrow> good_step D cfgs te te"
  by (simp add: good_step_def)

lemma run_algo_good:
  assumes "run_algo f te = Inr te'" and "engine_inv D cfgs te" and "\<And>s'. f (outbound te) = Inr s' \<Longrightarrow> sends_requests D cfgs (outbound te) s'"
  shows "good_step D cfgs te te'"
  using assms by (auto simp: run_algo_def rbind_Inr_iff good_step_def engine_inv_def)

lemma algo_on_order_book_update_good:
  assumes "algo_on_order_book_update D i book te = Inr te'" and "engine_inv D cfgs te"
  shows "good_step D cfgs te te'"
  using assms maker_sends by (cases "te_algo te")
    (auto simp: algo_on_order_book_update_def good_step_refl engine_inv_def elim!: run_algo_good)

lemma algo_on_trade_update_good:
  assumes "algo_on_trade_update D u book te = Inr te'" and "engine_inv D cfgs te"
  shows "good_step D cfgs te te'"
  using assms taker_sends by (cases "te_algo te")
    (auto simp: algo_on_trade_update_def good_step_refl engine_inv_def elim!: run_algo_good)

lemma on_order_update_next_id: "on_order_update r om = Inr om' \<Longrightarrow> next_order_id om' = next_order_id om"
  by (auto simp: on_order_update_def Let_def split: if_splits)

lemma te_on_order_update_good:
  assumes "te_on_order_update r te = Inr te'" and "engine_inv D cfgs te"
  shows "good_step D cfgs te te'"
proof -
  have "sends_requests D cfgs (outbound te) (om, outgoing_ogw_requests te)" if "on_order_update r (te_orders te) = Inr om" for om
    using on_order_update_next_id [OF that] by (auto simp: sends_requests_def new_ids_def intro!: exI [of _ "[]"])
  then show ?thesis using assms
    by (cases "te_algo te"; cases "rs_type r = FILLED")
      (auto simp: te_on_order_update_def algo_on_order_update_def keeper_add_fill_def rbind_Inr_iff good_step_def engine_inv_def)
qed

lemma te_on_trade_update_good:
  assumes "te_on_trade_update D u book te = Inr te'" and "engine_inv D cfgs te"
  shows "good_step D cfgs te te'"
  using algo_on_trade_update_good [OF assms(1) [unfolded te_on_trade_update_def]] assms(2)
  by (simp add: good_step_def engine_inv_def)

lemma te_on_order_book_update_good:
  assumes "te_on_order_book_update D i price sd book te = Inr te'" and "engine_inv D cfgs te"
  shows "good_step D cfgs te te'"
proof -
  obtain pk fe where h: "keeper_update_bbo D i (mb_bbo book) (te_positions te) = Inr pk"
    "algo_on_order_book_update D i book (te\<lparr>te_positions := pk, te_features := fe\<rparr>) = Inr te'"
    using assms(1) by (auto simp: te_on_order_book_update_def rbind_Inr_iff Let_def)
  have "engine_inv D cfgs (te\<lparr>te_positions := pk, te_features := fe\<rparr>)"
    using flat_update_bbo [OF h(1)] assms(2) by (simp add: engine_inv_def)
  from algo_on_order_book_update_good [OF h(2) this] show ?thesis by (simp add: good_step_def)
qed

lemma process_client_response_good:
  assumes "process_client_response now r te = Inr te'" and "engine_inv D cfgs te"
  shows "good_step D cfgs te te'"
  using assms by (auto simp: process_client_response_def rbind_Inr_iff good_step_def engine_inv_def
      dest!: te_on_order_update_good [OF _ assms(2)])

lemma process_market_update_good:
  assumes "process_market_update D now u te = Inr te'" and "engine_inv D cfgs te"
  shows "good_step D cfgs te te'"
proof -
  obtain te1 book c bs where h: "engine_called D c book (te\<lparr>instrument_order_book := bs\<rparr>) = Inr te1"
    "te' = te1\<lparr>incoming_md_updates := next_read_index (incoming_md_updates te1), last_event_time := now\<rparr>"
    using assms(1) by (auto simp: process_market_update_def Let_def rbind_Inr_iff split: option.splits)
  have "engine_inv D cfgs (te\<lparr>instrument_order_book := bs\<rparr>)" using assms(2) by (simp add: engine_inv_def)
  then have "good_step D cfgs (te\<lparr>instrument_order_book := bs\<rparr>) te1"
    using h(1) by (cases c) (auto simp: engine_called_def intro: te_on_trade_update_good te_on_order_book_update_good)
  then show ?thesis using h(2) by (simp add: good_step_def engine_inv_def)
qed

lemma drain_responses_good:
  assumes "drain_responses now te = Inr te'" and "engine_inv D cfgs te"
  shows "good_step D cfgs te te'"
  using assms
proof (induction now te rule: drain_responses.induct)
  case (1 now te)
  then show ?case
    by (subst (asm) drain_responses.simps)
      (auto simp: rbind_Inr_iff good_step_refl split: if_splits
        intro: good_step_trans [OF process_client_response_good] dest: process_client_response_good [unfolded good_step_def])
qed

lemma drain_updates_good:
  assumes "drain_updates D now te = Inr te'" and "engine_inv D cfgs te"
  shows "good_step D cfgs te te'"
  using assms
proof (induction D now te rule: drain_updates.induct)
  case (1 D now te)
  then show ?case
    by (subst (asm) drain_updates.simps)
      (auto simp: rbind_Inr_iff good_step_refl split: if_splits
        intro: good_step_trans [OF process_market_update_good] dest: process_market_update_good [unfolded good_step_def])
qed

lemma run_iteration_good:
  assumes "run_iteration D now te = Inr te'" and "engine_inv D cfgs te"
  shows "good_step D cfgs te te'"
proof (cases "te_run te")
  case True
  then obtain te1 where h: "drain_responses now te = Inr te1" "drain_updates D now te1 = Inr te'"
    using assms(1) by (auto simp: run_iteration_def rbind_Inr_iff)
  have g: "good_step D cfgs te te1" using drain_responses_good [OF h(1) assms(2)] .
  then show ?thesis using drain_updates_good [OF h(2)] by (auto simp: good_step_def intro: sends_requests_trans)
qed (use assms in \<open>simp add: run_iteration_def good_step_refl\<close>)

section \<open>Runs of the client\<close>

text \<open>
  The engine between the other threads: the order gateway delivers a response or takes a request,
  the feed handler delivers an update, the engine runs an iteration.
\<close>

inductive client_step :: "'d double_ops \<Rightarrow> 'd trade_engine \<Rightarrow> 'd trade_engine \<Rightarrow> bool" for D where
  Gateway_Delivers: "client_step D te (te\<lparr>incoming_ogw_responses := enqueue r (incoming_ogw_responses te)\<rparr>)"
| Gateway_Takes: "client_step D te (te\<lparr>outgoing_ogw_requests := next_read_index (outgoing_ogw_requests te)\<rparr>)"
| Feed_Delivers: "client_step D te (te\<lparr>incoming_md_updates := enqueue u (incoming_md_updates te)\<rparr>)"
| Engine_Runs: "run_iteration D now te = Inr te' \<Longrightarrow> client_step D te te'"

inductive_cases client_stepE: "client_step D te te'"

lemma engine_inv_init:
  "trade_engine_init D algo cfgs reqs resps upds = Inr te \<Longrightarrow> engine_inv D cfgs (start_engine te)"
  by (auto simp: trade_engine_init_def rbind_Inr_iff engine_inv_def start_engine_def flat_init)

lemma engine_inv_step: "client_step D te te' \<Longrightarrow> engine_inv D cfgs te \<Longrightarrow> engine_inv D cfgs te'"
  by (erule client_stepE) (auto simp: engine_inv_def dest: run_iteration_good [unfolded good_step_def engine_inv_def])

lemma engine_inv_reachable:
  assumes "rtranclp (client_step D) te te'" and "engine_inv D cfgs te"
  shows "engine_inv D cfgs te'"
  using assms by (induction rule: rtranclp_induct) (auto intro: engine_inv_step)

text \<open>
  C34: in every run of a trading client, with either algorithm, whatever arrives in whatever
  order: an iteration of the engine appends to the outgoing queue only cancels and new orders,
  the new orders carry the next order identifiers in turn, have a price, and respect the
  configured limits of their instrument. The position and the profit that the limits are checked
  against are zero throughout, whatever fills have been reported, so that the position limit
  bounds single orders only and a positive loss limit forbids every order.
\<close>

theorem client_orders_within_limits:
  assumes "trade_engine_init D algo cfgs reqs resps upds = Inr te0" and "rtranclp (client_step D) (start_engine te0) te"
    and "run_iteration D now te = Inr te'"
  shows "sends_requests D cfgs (te_orders te, outgoing_ogw_requests te) (te_orders te', outgoing_ogw_requests te') \<and>
    (\<forall>i. position (instrument_position (te_positions te') i) = 0 \<and>
      total_pnl (instrument_position (te_positions te') i) = d_of_int D 0)"
  using run_iteration_good [OF assms(3) engine_inv_reachable [OF assms(2) engine_inv_init [OF assms(1)]]]
  by (simp add: good_step_def engine_inv_def flat_def)

lemma make_market_books_eq: "make_market_books = Inr (\<lambda>i. if i < MAX_NUM_INSTRUMENTS then Some (new_book (word_of_nat i)) else None)"
proof -
  have "rfold (\<lambda>i bs. rbind (market_order_book_init (word_of_nat i)) (\<lambda>b. Inr (bs(i := Some b)))) [0..<n] (\<lambda>_. None) =
      Inr (\<lambda>i. if i < n then Some (new_book (word_of_nat i)) else None)" for n
    by (induction n) (auto simp: rfold_append market_order_book_init_eq fun_eq_iff less_Suc_eq)
  then show ?thesis by (simp add: make_market_books_def)
qed

text \<open>A market maker whose first response reports a fill of 10.\<close>

definition sample_config :: "nat \<Rightarrow> real option trade_engine_config" where
  "sample_config _ = \<lparr>clip = 10, threshold = Some 0, risk_cfg = \<lparr>max_order_size = 10, max_position = 10, max_loss = Some (- 5)\<rparr>\<rparr>"

definition sample_fill_response :: client_response_internal where
  "sample_fill_response = default_client_response\<lparr>rs_type := FILLED, rs_instrument_id := 3, rs_side := BUY, rs_price := 100,
     rs_exec_qty := 10, rs_leaves_qty := 0\<rparr>"

theorem client_orders_within_limits_witness:
  "\<exists>te0 te te'. trade_engine_init exact_double MAKER sample_config (lock_free_queue_init 8 default_client_request)
      (lock_free_queue_init 8 default_client_response) (lock_free_queue_init 8 default_market_update) = Inr te0 \<and>
    client_step exact_double (start_engine te0) te \<and> run_iteration exact_double 7 te = Inr te' \<and>
    last_event_time te' = 7 \<and> om_state (instrument_side_order (te_orders te') (3, 0)) = DEAD \<and>
    position (instrument_position (te_positions te') 3) = 0"
proof -
  let ?reqs = "lock_free_queue_init 8 default_client_request" and ?upds = "lock_free_queue_init 8 default_market_update"
  let ?resps = "lock_free_queue_init 8 default_client_response"
  obtain te0 where te0: "trade_engine_init exact_double MAKER sample_config ?reqs ?resps ?upds = Inr te0"
    "incoming_ogw_responses te0 = ?resps" "incoming_md_updates te0 = ?upds" "te_orders te0 = order_manager_init"
    "te_algo te0 = Market_Maker sample_config"
    by (simp add: trade_engine_init_def make_market_books_eq installed_algorithm_def)
  let ?te = "(start_engine te0)\<lparr>incoming_ogw_responses := enqueue sample_fill_response (incoming_ogw_responses (start_engine te0))\<rparr>"
  have s: "client_step exact_double (start_engine te0) ?te" by (rule Gateway_Delivers)
  have "\<exists>te'. run_iteration exact_double 7 ?te = Inr te' \<and> last_event_time te' = 7 \<and>
      om_state (instrument_side_order (te_orders te') (3, 0)) = DEAD"
    using te0
    by (simp add: run_iteration_def start_engine_def drain_responses.simps drain_updates.simps queue_defs lock_free_queue_init_def
        process_client_response_def te_on_order_update_def algo_on_order_update_def sample_fill_response_def on_order_update_def
        keeper_add_fill_def side_to_index_def order_manager_init_def model_constants Let_def)
  then obtain te' where r: "run_iteration exact_double 7 ?te = Inr te'" "last_event_time te' = 7"
    "om_state (instrument_side_order (te_orders te') (3, 0)) = DEAD" by blast
  from client_orders_within_limits [OF te0(1) r_into_rtranclp [of "client_step exact_double", OF s] r(1)] te0(1) s r show ?thesis by blast
qed

section \<open>Where the client fails\<close>

text \<open>
  C35: a refusal by the server ends a client that runs an algorithm. The server's invalid request
  response names no instrument; the order manager looks its order up with \<open>at\<close>, which throws
  inside \<open>noexcept\<close> functions, for every state of the engine and the algorithm's orders.
\<close>

theorem server_refusal_ends_client:
  assumes "te_run te" and "te_algo te \<noteq> Default_Algo" and "queue_inv (incoming_ogw_responses te)"
    and "queue_items (incoming_ogw_responses te) = invalid_response c # rs"
  shows "run_iteration D now te = Inl OutOfRange"
proof -
  have "on_order_update (invalid_response c) om = Inl OutOfRange" for om
    by (simp add: on_order_update_def invalid_response_def invalid_defs model_constants unsigned_minus_1_eq_mask
        mask_eq_exp_minus_1)
  then have "process_client_response now (invalid_response c) te = Inl OutOfRange"
    using assms(2) by (cases "te_algo te")
      (simp_all add: process_client_response_def te_on_order_update_def algo_on_order_update_def invalid_response_def)
  then show ?thesis using assms(1,4) get_next_read_element_items [OF assms(3)]
    by (simp add: run_iteration_def drain_responses.simps)
qed

theorem server_refusal_ends_client_witness:
  "\<exists>te0. trade_engine_init exact_double TAKER sample_config (lock_free_queue_init 8 default_client_request)
      (fold enqueue [invalid_response 0] (lock_free_queue_init 8 default_client_response))
      (lock_free_queue_init 8 default_market_update) = Inr te0 \<and>
    run_iteration exact_double 7 (start_engine te0) = Inl OutOfRange"
proof -
  let ?q = "fold enqueue [invalid_response 0] (lock_free_queue_init 8 default_client_response)"
  have q: "queue_inv ?q" "queue_items ?q = [invalid_response 0]"
    using filled_queue [of 8 "[invalid_response 0]" default_client_response] by simp_all
  obtain te0 where te0: "trade_engine_init exact_double TAKER sample_config (lock_free_queue_init 8 default_client_request) ?q
      (lock_free_queue_init 8 default_market_update) = Inr te0"
    "incoming_ogw_responses te0 = ?q" "te_algo te0 = Liquidity_Taker sample_config"
    by (simp add: trade_engine_init_def make_market_books_eq installed_algorithm_def)
  then show ?thesis
    using server_refusal_ends_client [of "start_engine te0" 0 "[]" exact_double 7] q by (auto simp: start_engine_def)
qed

text \<open>
  Cancelling leaves the order live: every further move to another price sends the same cancel again.
\<close>

lemma cancel_sent_again:
  assumes "om_state (instrument_side_order om k) = LIVE" and "om_price (instrument_side_order om k) \<noteq> price"
  shows "rbind (move_order D pk rm k i price sd qty (om, q)) (move_order D pk rm k i price sd qty) =
    Inr (om, send_client_request (cancel_order_request (instrument_side_order om k))
      (send_client_request (cancel_order_request (instrument_side_order om k)) q))"
  using assms by (simp add: move_order_def cancel_order_def)

text \<open>The guards against the invalid feature never hold back: nothing equals a NaN.\<close>

lemma nan_guard_is_void: "\<not> d_eq exact_double x (d_nan exact_double)"
  using exact.not_equal_nan by simp

text \<open>The best prices are both valid whenever an algorithm uses a feature, and the feature is of the same update.\<close>

lemma maker_uses_fresh_price:
  assumes "te_on_order_book_update D i price sd book te = Inr te'" and "two_sided (mb_bbo book)"
  shows "\<exists>total. market_price (te_features te') =
    d_div D (d_of_int D total) (d_of_int D (uint (bid_qty (mb_bbo book) + ask_qty (mb_bbo book))))"
  using assms by (cases "te_algo te")
    (auto simp: te_on_order_book_update_def algo_on_order_book_update_def rbind_Inr_iff fe_on_order_book_update_def
      run_algo_def Let_def)

end
