(* ===== verification/BookPrinting.thy ===== *)
theory BookPrinting
  imports BookProperties Printing
begin

text \<open>
  \<open>order_book::to_string\<close> of \<open>engine/order_book.cpp\<close>: the exchange's book as text, with the
  validity check that reports a side whose prices are not sorted. The loops run over the rings
  of levels and orders with fuel, the size of the pools; the theory proves that it is enough for
  every book the engine reaches, and that the text is a function of the abstract book.
\<close>

section \<open>The loops\<close>

text \<open>
  \<open>do \<dots> while\<close> over linked nodes: the body runs for the node, and the loop is left when its
  successor satisfies \<open>stop\<close>.
\<close>

fun do_ring :: "nat \<Rightarrow> (nat \<Rightarrow> 'a \<Rightarrow> 'a result) \<Rightarrow> (nat \<Rightarrow> ptr) \<Rightarrow> (ptr \<Rightarrow> bool) \<Rightarrow> ptr \<Rightarrow> 'a \<Rightarrow> 'a result" where
  "do_ring fuel body nxt stop itr acc =
     (if fuel = 0 then Inl OutOfFuel
      else rbind (deref itr) (\<lambda>a.
           rbind (body a acc) (\<lambda>acc.
           if stop (nxt a) then Inr acc else do_ring (fuel - 1) body nxt stop (nxt a) acc)))"

declare do_ring.simps [simp del]

lemma do_ring_ok:
  assumes "ring nxt pv xs" and "length xs \<le> fuel" and "\<And>a. stop (Some a) \<longleftrightarrow> a = hd xs"
  shows "do_ring fuel body nxt stop (Some (hd xs)) acc = rfold body xs acc"
proof -
  have "xs = pre @ suf \<Longrightarrow> suf \<noteq> [] \<Longrightarrow> length suf \<le> n \<Longrightarrow>
      do_ring n body nxt stop (Some (hd suf)) acc = rfold body suf acc" for pre suf n acc
  proof (induction suf arbitrary: pre n acc)
    case (Cons a suf)
    then have n: "n \<noteq> 0" by simp
    show ?case
    proof (cases suf)
      case Nil
      then have "nxt a = Some (hd xs)" using ring_last_next [OF assms(1)] Cons.prems(1) by simp
      then show ?thesis using n Nil assms(3) [of "hd xs"] by (subst do_ring.simps) (simp add: rbind_def split: sum.split)
    next
      case (Cons b rest)
      have nx: "nxt a = Some b" using ring_next [OF assms(1) [unfolded Cons.prems(1) Cons]] .
      have "b \<noteq> hd xs" using ring_distinct [OF assms(1)] Cons.prems(1) Cons by (cases pre) auto
      then have "\<not> stop (Some b)" using assms(3) by simp
      moreover have "do_ring (n - 1) body nxt stop (Some b) = rfold body suf"
        using Cons.IH [of "pre @ [a]" "n - 1"] Cons.prems Cons by (intro ext) simp
      ultimately show ?thesis using n nx by (subst do_ring.simps) simp
    qed
  qed simp
  from this [of "[]" xs fuel acc] assms show ?thesis by (cases xs) auto
qed

section \<open>to\_string (order\_book.cpp)\<close>

text \<open>The replacement field \<open>{:<n}\<close> of \<open>fmt\<close> pads on the right.\<close>

definition pad :: "nat \<Rightarrow> string \<Rightarrow> string" where
  "pad n t = t @ replicate (n - length t) CHR '' ''"

definition level_line :: "price_t \<Rightarrow> price_t \<Rightarrow> price_t \<Rightarrow> quantity_t \<Rightarrow> nat \<Rightarrow> string" where
  "level_line price prev next total_qty num_orders = concat
     ['' <px:'', pad 5 (signed_decimal (sint price)), '' prev:'', pad 5 (signed_decimal (sint prev)),
      '' next:'', pad 5 (signed_decimal (sint next)), ''> '', pad 5 (signed_decimal (sint price)),
      '' @ '', pad 6 (decimal (unat total_qty)), ''('', pad 3 (decimal num_orders), '')'', [CHR 0x0A]]"

definition book_order_line :: "order_id_t \<Rightarrow> quantity_t \<Rightarrow> order_id_t \<Rightarrow> order_id_t \<Rightarrow> string" where
  "book_order_line oid qty prev next = concat
     [''[oid:'', decimal (unat oid), '' q:'', decimal (unat qty), '' p:'', decimal (unat prev),
      '' n:'', decimal (unat next), ''] '']"

definition misplaced :: "side_t \<Rightarrow> price_t \<Rightarrow> price_t \<Rightarrow> bool" where
  "misplaced sd last_price price \<longleftrightarrow> sd = SELL \<and> sint price \<le> sint last_price \<or> sd = BUY \<and> sint last_price \<le> sint price"

definition error_line :: "price_t \<Rightarrow> price_t \<Rightarrow> string" where
  "error_line last_price price = concat
     [''ERROR: Bids/Asks not sorted by price. Last: '', signed_decimal (sint last_price),
      '' Current: '', signed_decimal (sint price), [CHR 0x0A]]"

definition level_price :: "order_book \<Rightarrow> ptr \<Rightarrow> price_t" where
  "level_price s p = (case p of None \<Rightarrow> INVALID_PRICE | Some l \<Rightarrow> l_price (level_at s l))"

definition order_id_of :: "order_book \<Rightarrow> ptr \<Rightarrow> order_id_t" where
  "order_id_of s p = (case p of None \<Rightarrow> INVALID_ORDER_ID | Some a \<Rightarrow> o_market_order_id (order_at s a))"

definition print_order :: "order_book \<Rightarrow> nat \<Rightarrow> string" where
  "print_order s a = book_order_line (o_market_order_id (order_at s a)) (o_qty (order_at s a))
     (order_id_of s (prev_order (order_at s a))) (order_id_of s (next_order (order_at s a)))"

text \<open>The lambda \<open>print_price_level\<close>, which appends to the stream and updates \<open>last_price\<close>.\<close>

definition print_price_level :: "bool \<Rightarrow> bool \<Rightarrow> order_book \<Rightarrow> side_t \<Rightarrow> nat \<Rightarrow> string \<times> price_t \<Rightarrow> (string \<times> price_t) result" where
  "print_price_level detailed check_validity s sd l = (\<lambda>(ss, last_price).
     let level = level_at s l; first = first_order level; next = next_order \<circ> order_at s
     in rbind (do_ring MAX_NUM_ORDERS (\<lambda>a (total_qty, num_orders). Inr (total_qty + o_qty (order_at s a), num_orders + 1))
          next (\<lambda>p. p = first) first (0, 0)) (\<lambda>(total_qty, num_orders).
        let ss = ss @ level_line (l_price level) (level_price s (prev_entry level)) (level_price s (next_entry level))
              total_qty num_orders
        in rbind (if detailed
                  then rbind (do_ring MAX_NUM_ORDERS (\<lambda>a ss. Inr (ss @ print_order s a)) next (\<lambda>p. p = first) first ss)
                         (\<lambda>ss. Inr (ss @ [CHR 0x0A]))
                  else Inr ss) (\<lambda>ss.
           if check_validity
           then Inr (ss @ (if misplaced sd last_price (l_price level) then error_line last_price (l_price level) else []),
                  l_price level)
           else Inr (ss, last_price))))"

text \<open>The loop over the levels of a side; a null pointer ends it too.\<close>

definition print_side :: "bool \<Rightarrow> bool \<Rightarrow> order_book \<Rightarrow> side_t \<Rightarrow> price_t \<Rightarrow> string \<Rightarrow> string result" where
  "print_side detailed check_validity s sd last_price ss =
     (if best sd s \<noteq> None
      then rbind (do_ring MAX_PRICE_LEVELS (print_price_level detailed check_validity s sd) (next_entry \<circ> level_at s)
             (\<lambda>p. p = None \<or> p = best sd s) (best sd s) (ss, last_price)) (\<lambda>(ss, last_price). Inr ss)
      else Inr ss)"

definition order_book_to_string :: "bool \<Rightarrow> bool \<Rightarrow> order_book \<Rightarrow> string result" where
  "order_book_to_string detailed validity_check s =
     (let ss = concat [''OrderBook for Instrument ID: '', decimal (unat (instrument_id s)), [CHR 0x0A]];
          ss = concat [ss, ''ASKS:'', [CHR 0x0A]]
      in rbind (print_side detailed validity_check s SELL (- (2 ^ 63)) ss) (\<lambda>ss.
         let ss = concat [ss, [CHR 0x0A], ''                          X'', [CHR 0x0A, CHR 0x0A]];
             ss = concat [ss, ''BIDS:'', [CHR 0x0A]]
         in print_side detailed validity_check s BUY (2 ^ 63 - 1) ss))"

section \<open>The text of an abstract book\<close>

text \<open>A ring as a list: each element with its neighbours.\<close>

definition with_neighbours :: "'a list \<Rightarrow> ('a \<times> 'a \<times> 'a) list" where
  "with_neighbours xs = zip (last xs # butlast xs) (zip xs (tl xs @ [hd xs]))"

definition a_order_line :: "order_info \<times> order_info \<times> order_info \<Rightarrow> string" where
  "a_order_line = (\<lambda>(p, x, n). book_order_line (o_market_order_id x) (o_qty x) (o_market_order_id p) (o_market_order_id n))"

definition a_level_text :: "bool \<Rightarrow> level \<times> level \<times> level \<Rightarrow> string" where
  "a_level_text detailed = (\<lambda>(p, (price, os), n).
     level_line price (fst p) (fst n) (sum_list (map o_qty os)) (length os) @
     (if detailed then concat (map a_order_line (with_neighbours os)) @ [CHR 0x0A] else []))"

fun a_levels_text :: "bool \<Rightarrow> bool \<Rightarrow> side_t \<Rightarrow> price_t \<Rightarrow> (level \<times> level \<times> level) list \<Rightarrow> string" where
  "a_levels_text detailed check sd last_price [] = []"
| "a_levels_text detailed check sd last_price (t # ts) =
     a_level_text detailed t @
     (if check \<and> misplaced sd last_price (fst (fst (snd t))) then error_line last_price (fst (fst (snd t))) else []) @
     a_levels_text detailed check sd (if check then fst (fst (snd t)) else last_price) ts"

definition a_book_text :: "bool \<Rightarrow> bool \<Rightarrow> abook \<Rightarrow> string" where
  "a_book_text detailed check A = concat
     [''OrderBook for Instrument ID: '', decimal (unat (a_instrument A)), [CHR 0x0A], ''ASKS:'', [CHR 0x0A],
      a_levels_text detailed check SELL (- (2 ^ 63)) (with_neighbours (a_asks A)),
      [CHR 0x0A], ''                          X'', [CHR 0x0A, CHR 0x0A], ''BIDS:'', [CHR 0x0A],
      a_levels_text detailed check BUY (2 ^ 63 - 1) (with_neighbours (a_bids A))]"

section \<open>Rings with their neighbours\<close>

lemma with_neighbours_middle: "map (\<lambda>t. f (fst (snd t))) (with_neighbours xs) = map f xs"
proof (cases xs)
  case (Cons y ys)
  have "map (fst \<circ> snd) (with_neighbours xs) = map fst (zip xs (tl xs @ [hd xs]))"
    unfolding with_neighbours_def map_map [symmetric] using Cons by (subst map_snd_zip) simp_all
  also have "\<dots> = xs" using Cons by (subst map_fst_zip) simp_all
  finally show ?thesis using map_map [of f "fst \<circ> snd" "with_neighbours xs"] by (simp add: comp_def)
qed (simp add: with_neighbours_def)

lemma with_neighbours_map: "xs \<noteq> [] \<Longrightarrow> with_neighbours (map f xs) = map (\<lambda>(p, x, n). (f p, f x, f n)) (with_neighbours xs)"
proof -
  assume "xs \<noteq> []"
  moreover have "map f (tl xs) @ [f (hd xs)] = map f (tl xs @ [hd xs])" "f (last xs) # map f (butlast xs) = map f (last xs # butlast xs)"
    by simp_all
  ultimately show ?thesis unfolding with_neighbours_def
    by (simp add: last_map hd_map map_tl [symmetric] map_butlast [symmetric] del: list.map map_append)
      (simp add: zip_map_map comp_def split_beta del: list.map map_append)
qed

lemma with_neighbours_ring:
  assumes "ring nx pv (map f xs)" and "(p, x, n) \<in> set (with_neighbours xs)"
  shows "pv (f x) = Some (f p)" and "nx (f x) = Some (f n)" and "x \<in> set xs" and "p \<in> set xs" and "n \<in> set xs"
proof -
  obtain i where i: "i < length xs" "p = (last xs # butlast xs) ! i" "x = xs ! i" "n = (tl xs @ [hd xs]) ! i"
    using assms(2) by (auto simp: with_neighbours_def set_zip nth_append)
  have ne: "xs \<noteq> []" using i by auto
  have split: "map f xs = map f (take k xs) @ f (xs ! k) # f (xs ! Suc k) # map f (drop (Suc (Suc k)) xs)" if "Suc k < length xs" for k
    using that by (simp add: Cons_nth_drop_Suc flip: list.map(2) map_append)
  show "pv (f x) = Some (f p)" and "p \<in> set xs"
  proof -
    show "pv (f x) = Some (f p)"
    proof (cases i)
      case 0
      then show ?thesis using ring_hd_prev [OF assms(1)] i ne by (simp add: hd_map last_map hd_conv_nth)
    next
      case (Suc k)
      then have "Suc k < length xs" using i(1) by simp
      from ring_prev [OF assms(1) [unfolded split [OF this]]] show ?thesis using i Suc by (simp add: nth_butlast)
    qed
    show "p \<in> set xs" using i ne by (cases i) (auto simp: nth_butlast)
  qed
  show "nx (f x) = Some (f n)" and "n \<in> set xs"
  proof -
    show "nx (f x) = Some (f n)"
    proof (cases "Suc i < length xs")
      case True
      then have "i < length xs - Suc 0" by simp
      then show ?thesis using ring_next [OF assms(1) [unfolded split [OF True]]] i by (simp add: nth_append nth_tl)
    next
      case False
      then have "i = length xs - 1" using i(1) by simp
      then show ?thesis using ring_last_next [OF assms(1)] i ne by (simp add: hd_map last_map last_conv_nth nth_append)
    qed
    show "n \<in> set xs" using i ne by (auto simp: nth_append nth_tl)
  qed
  show "x \<in> set xs" using i by simp
qed

section \<open>The loops on a well-formed book\<close>

lemma rfold_text: "rfold (\<lambda>a ss. Inr (ss @ f a)) xs ss = Inr (ss @ concat (map f xs))"
  by (induction xs arbitrary: ss) simp_all

lemma rfold_quantities:
  "rfold (\<lambda>a (q, n). Inr (q + f a, n + 1)) xs (q0, n0) = Inr (q0 + sum_list (map f xs), n0 + length xs)"
  by (induction xs arbitrary: q0 n0) (simp_all add: add.assoc)

lemma orders_text:
  assumes "ring (next_order \<circ> order_at s) (prev_order \<circ> order_at s) os"
  shows "concat (map (print_order s) os) = concat (map a_order_line (with_neighbours (map (oinfo s) os)))"
proof -
  have ne: "os \<noteq> []" using assms by auto
  have "a_order_line (oinfo s p, oinfo s x, oinfo s n) = print_order s x" if "(p, x, n) \<in> set (with_neighbours os)" for p x n
    using with_neighbours_ring(1,2) [of _ _ "\<lambda>a. a", simplified, OF assms that]
    by (simp add: print_order_def a_order_line_def order_id_of_def oinfo_def)
  then have "map a_order_line (with_neighbours (map (oinfo s) os)) = map (\<lambda>t. print_order s (fst (snd t))) (with_neighbours os)"
    by (auto simp: with_neighbours_map [OF ne])
  then show ?thesis by (simp add: with_neighbours_middle)
qed

definition abs_level :: "order_book \<Rightarrow> nat \<times> nat list \<Rightarrow> level" where
  "abs_level s = (\<lambda>(l, os). (l_price (level_at s l), map (oinfo s) os))"

lemma abs_levels_map: "abs_levels s L = map (abs_level s) L"
  by (simp add: abs_levels_def abs_level_def)

lemma print_price_level_ok:
  assumes "levels_ok s G" and "rings_ok s G" and "\<And>l os. (l, os) \<in> set (G b) \<Longrightarrow> length os \<le> MAX_NUM_ORDERS"
    and "(p, (l, os), n) \<in> set (with_neighbours (G b))"
  shows "print_price_level detailed check s sd l (ss, last_price) =
    Inr (ss @ a_level_text detailed (abs_level s p, abs_level s (l, os), abs_level s n) @
      (if check \<and> misplaced sd last_price (l_price (level_at s l)) then error_line last_price (l_price (level_at s l)) else []),
      if check then l_price (level_at s l) else last_price)"
proof -
  have "G b \<noteq> []" using assms(4) by (auto simp: with_neighbours_def)
  note r = with_neighbours_ring [OF rings_okD(2) [OF assms(2) this] assms(4)]
  note lv = levels_okD [OF assms(1) r(3)]
  have len: "length os \<le> MAX_NUM_ORDERS" by (rule assms(3) [OF r(3)])
  have first: "\<And>a. (Some a = Some (hd os)) = (a = hd os)" by simp
  note loop = do_ring_ok [where nxt = "next_order \<circ> order_at s" and stop = "\<lambda>p. p = Some (hd os)", OF lv(4) len first]
  have total: "sum_list (map (\<lambda>a. o_qty (order_at s a)) os) = sum_list (map o_qty (map (oinfo s) os))"
    by (simp add: comp_def oinfo_def)
  have "level_price s (prev_entry (level_at s l)) = fst (abs_level s p)" "level_price s (next_entry (level_at s l)) = fst (abs_level s n)"
    using r(1,2) by (simp_all add: level_price_def abs_level_def split_beta)
  then show ?thesis
    unfolding print_price_level_def Let_def prod.case lv(3) loop rfold_text rfold_quantities orders_text [OF lv(4)] total
    by (simp add: a_level_text_def abs_level_def)
qed

lemma print_levels_ok:
  assumes "levels_ok s G" and "rings_ok s G" and "\<And>l os. (l, os) \<in> set (G b) \<Longrightarrow> length os \<le> MAX_NUM_ORDERS"
    and "set ts \<subseteq> set (with_neighbours (G b))"
  shows "\<exists>last'. rfold (print_price_level detailed check s sd) (map (\<lambda>t. fst (fst (snd t))) ts) (ss, last_price) =
    Inr (ss @ a_levels_text detailed check sd last_price
      (map (\<lambda>(p, x, n). (abs_level s p, abs_level s x, abs_level s n)) ts), last')"
  using assms(4)
proof (induction ts arbitrary: ss last_price)
  case (Cons t ts)
  obtain p l os n where t: "t = (p, (l, os), n)" by (cases t) auto
  then have m: "(p, (l, os), n) \<in> set (with_neighbours (G b))" using Cons.prems by simp
  let ?q = "l_price (level_at s l)"
  let ?ss = "ss @ a_level_text detailed (abs_level s p, abs_level s (l, os), abs_level s n) @
      (if check \<and> misplaced sd last_price ?q then error_line last_price ?q else [])"
  let ?last = "if check then ?q else last_price"
  have step: "print_price_level detailed check s sd l (ss, last_price) = Inr (?ss, ?last)"
    by (rule print_price_level_ok [OF assms(1-3) m])
  obtain last' where "rfold (print_price_level detailed check s sd) (map (\<lambda>t. fst (fst (snd t))) ts) (?ss, ?last) =
      Inr (?ss @ a_levels_text detailed check sd ?last (map (\<lambda>(p, x, n). (abs_level s p, abs_level s x, abs_level s n)) ts), last')"
    using Cons.IH [where ss = ?ss and last_price = ?last] Cons.prems by auto
  moreover have "fst (abs_level s (l, os)) = ?q" by (simp add: abs_level_def)
  ultimately show ?case unfolding t list.map rfold.simps fst_conv snd_conv step rbind_simps a_levels_text.simps prod.case
    by (simp only: append_assoc) blast
qed simp

lemma print_side_ok:
  assumes "book_ok s G" and "sd = key_side b"
  shows "print_side detailed check s sd last_price ss =
    Inr (ss @ a_levels_text detailed check sd last_price (with_neighbours (abs_levels s (G b))))"
proof (cases "G b = []")
  case True
  then have "best sd s = None" using assms rings_okD(1) [of s G b] by (simp add: book_ok_def lists_ok_def head_ptr_def)
  then show ?thesis using True by (simp add: print_side_def abs_levels_def with_neighbours_def)
next
  case False
  have ok: "rings_ok s G" "levels_ok s G" "level_pool_ok s (set (all_levels G))" "distinct (all_levels G)" "distinct (all_orders G)"
    "order_pool_ok s (set (all_orders G))"
    using assms(1) by (simp_all add: book_ok_def lists_ok_def)
  have sz: "length (all_levels G) \<le> MAX_PRICE_LEVELS" "length (all_orders G) \<le> MAX_NUM_ORDERS"
    using ok card_pool_live [of "price_level_pool s"] card_pool_live [of "order_pool s"]
    by (simp_all add: level_pool_ok_def order_pool_ok_def distinct_card)
  have "length (map fst (G b)) \<le> length (all_levels G)" by (cases b) (simp_all add: all_levels_def)
  then have n: "length (map fst (G b)) \<le> MAX_PRICE_LEVELS" using sz(1) by simp
  have orders: "length os \<le> MAX_NUM_ORDERS" if m: "(l, os) \<in> set (G b)" for l os
  proof -
    obtain xs ys where "G b = xs @ (l, os) # ys" using split_list [OF m] by blast
    then have "length os \<le> length (concat (map snd (G b)))" by simp
    also have "\<dots> \<le> length (all_orders G)" by (cases b) (simp_all add: all_orders_def)
    finally show ?thesis using sz(2) by simp
  qed
  have hd: "best sd s = Some (hd (map fst (G b)))"
    using rings_okD(1) [OF ok(1), of b] False assms(2) by (cases "G b") (simp_all add: head_ptr_def)
  have loop: "do_ring MAX_PRICE_LEVELS body (next_entry \<circ> level_at s) (\<lambda>p. p = None \<or> p = best sd s) (best sd s) acc =
      rfold body (map fst (G b)) acc" for body :: "nat \<Rightarrow> string \<times> price_t \<Rightarrow> (string \<times> price_t) result" and acc
    unfolding hd by (rule do_ring_ok [OF rings_okD(2) [OF ok(1) False] n]) simp
  have m: "map (\<lambda>t. fst (fst (snd t))) (with_neighbours (G b)) = map fst (G b)" by (rule with_neighbours_middle)
  obtain last' where "rfold (print_price_level detailed check s sd) (map fst (G b)) (ss, last_price) =
      Inr (ss @ a_levels_text detailed check sd last_price (with_neighbours (abs_levels s (G b))), last')"
    using print_levels_ok [where G = G and b = b and s = s and ts = "with_neighbours (G b)" and detailed = detailed and check = check
        and sd = sd and ss = ss and last_price = last_price] ok(1,2) orders
    unfolding m abs_levels_map with_neighbours_map [OF False] by blast
  then show ?thesis unfolding print_side_def loop using hd by simp
qed

section \<open>The validity check\<close>

fun in_order :: "side_t \<Rightarrow> price_t \<Rightarrow> price_t list \<Rightarrow> bool" where
  "in_order sd last_price [] \<longleftrightarrow> True"
| "in_order sd last_price (p # ps) \<longleftrightarrow> \<not> misplaced sd last_price p \<and> in_order sd p ps"

lemma unchecked_text: "a_levels_text detailed False sd q ts = concat (map (a_level_text detailed) ts)"
  by (induction ts) simp_all

lemma checked_text_longer:
  "length (concat (map (a_level_text detailed) ts)) \<le> length (a_levels_text detailed True sd q ts)"
  by (induction ts arbitrary: q) (auto intro: add_mono le_trans trans_le_add2)

lemma checked_text_same:
  "a_levels_text detailed True sd q ts = concat (map (a_level_text detailed) ts) \<longleftrightarrow> in_order sd q (map (\<lambda>t. fst (fst (snd t))) ts)"
proof (induction ts arbitrary: q)
  case (Cons t ts)
  let ?p = "fst (fst (snd t))"
  show ?case
  proof (cases "misplaced sd q ?p")
    case True
    have "length (concat (map (a_level_text detailed) (t # ts))) < length (a_levels_text detailed True sd q (t # ts))"
      using checked_text_longer [of detailed ts sd ?p] True by (simp add: error_line_def)
    then have "a_levels_text detailed True sd q (t # ts) \<noteq> concat (map (a_level_text detailed) (t # ts))"
      by (metis less_irrefl)
    then show ?thesis using True by simp
  next
    case False
    then show ?thesis using Cons.IH [of ?p] by simp
  qed
qed simp

lemma checked_side:
  "a_levels_text detailed True sd q (with_neighbours L) = a_levels_text detailed False sd q (with_neighbours L) \<longleftrightarrow>
    in_order sd q (map fst L)"
  unfolding unchecked_text checked_text_same by (simp only: with_neighbours_middle)

lemma checked_side_length:
  "length (a_levels_text detailed False sd q (with_neighbours L)) \<le> length (a_levels_text detailed True sd q (with_neighbours L))"
  unfolding unchecked_text by (rule checked_text_longer)

lemma appended_both_longer:
  assumes "length a \<le> length a'" and "length b \<le> length b'" and "a' @ u @ b' = a @ u @ b"
  shows "a' = a \<and> b' = b"
proof -
  have "length a' + length b' = length a + length b" using arg_cong [OF assms(3), of length] by simp
  then have "length a' = length a" "length b' = length b" using assms(1,2) by simp_all
  then show ?thesis using assms(3) by simp
qed

section \<open>The book as text\<close>

text \<open>
  C36: printing the exchange's book always ends, and prints the abstract book; the validity check
  adds error lines exactly if a side is not sorted from its best price.
\<close>

theorem printed_book_is_abstract:
  assumes "book_rel s G A"
  shows "order_book_to_string detailed check s = Inr (a_book_text detailed check A) \<and>
    (a_book_text detailed True A = a_book_text detailed False A \<longleftrightarrow>
      in_order SELL (- (2 ^ 63)) (map fst (a_asks A)) \<and> in_order BUY (2 ^ 63 - 1) (map fst (a_bids A)))"
proof
  have ok: "book_ok s G" and i: "instrument_id s = a_instrument A"
    and sides: "\<And>b. abs_levels s (G b) = a_side b A"
    using assms by (auto simp: book_rel_def)
  have L: "abs_levels s (G False) = a_asks A" "abs_levels s (G True) = a_bids A"
    using sides by (simp_all add: a_side_def)
  have "SELL = key_side False" "BUY = key_side True" by simp_all
  note p = print_side_ok [OF ok this(1), unfolded L] print_side_ok [OF ok this(2), unfolded L]
  show "order_book_to_string detailed check s = Inr (a_book_text detailed check A)"
    by (simp add: order_book_to_string_def p i a_book_text_def)
  let ?asks = "\<lambda>c. a_levels_text detailed c SELL (- (2 ^ 63)) (with_neighbours (a_asks A))"
  let ?bids = "\<lambda>c. a_levels_text detailed c BUY (2 ^ 63 - 1) (with_neighbours (a_bids A))"
  have printed: "a_book_text detailed c A =
      concat [''OrderBook for Instrument ID: '', decimal (unat (a_instrument A)), [CHR 0x0A], ''ASKS:'', [CHR 0x0A]] @ ?asks c @
      concat [[CHR 0x0A], ''                          X'', [CHR 0x0A, CHR 0x0A], ''BIDS:'', [CHR 0x0A]] @ ?bids c" for c
    by (simp only: a_book_text_def concat.simps append_assoc append_Nil2)
  have "a_book_text detailed True A = a_book_text detailed False A \<longleftrightarrow>
      ?asks True = ?asks False \<and> ?bids True = ?bids False"
    using appended_both_longer [OF checked_side_length checked_side_length] unfolding printed append_same_eq same_append_eq by metis
  then show "a_book_text detailed True A = a_book_text detailed False A \<longleftrightarrow>
      in_order SELL (- (2 ^ 63)) (map fst (a_asks A)) \<and> in_order BUY (2 ^ 63 - 1) (map fst (a_bids A))"
    unfolding checked_side .
qed

theorem printed_book_is_abstract_witness:
  "\<exists>s. order_book_to_string True True s = Inr (a_book_text True True four_order_book)"
proof -
  obtain s G where r: "book_rel s G four_order_book" using four_order_book_rel by blast
  show ?thesis using printed_book_is_abstract [OF r, THEN conjunct1] by blast
qed

end
