(* ===== verification/MarketBookEmbedding.thy ===== *)
theory MarketBookEmbedding
  imports MarketOrderBook OrderBookRefine
begin

text \<open>
  The trading client's book is a variant of the exchange's: the same pools, rings and index
  arrays, with market orders in place of orders. \<open>embed_book\<close> reads a client's book as an order
  book of the exchange whose orders all belong to client 0 under their market order
  identifiers, and the theory proves that under the exchange's heap invariant the client's
  linking and unlinking are the exchange's. What \<open>OrderBookHeap\<close> and \<open>OrderBookLink\<close> prove of
  those is thereby proved of the client's book.
\<close>

section \<open>Results and pools under a mapping\<close>

definition map_result :: "('a \<Rightarrow> 'b) \<Rightarrow> 'a result \<Rightarrow> 'b result" where
  "map_result h m = rbind m (\<lambda>x. Inr (h x))"

lemma map_result_simps [simp]:
  "map_result h (Inl e) = Inl e"
  "map_result h (Inr x) = Inr (h x)"
  "map_result h (if c then m else n) = (if c then map_result h m else map_result h n)"
  by (simp_all add: map_result_def)

lemma map_result_rbind [simp]: "map_result h (rbind m f) = rbind m (\<lambda>x. map_result h (f x))"
  and rbind_map_result [simp]: "rbind (map_result k m) g = rbind m (\<lambda>x. g (k x))"
  by (simp_all add: map_result_def rbind_assoc)

lemma map_result_split [simp]: "map_result h (case x of (a, b) \<Rightarrow> m a b) = (case x of (a, b) \<Rightarrow> map_result h (m a b))"
  by (simp split: prod.split)

lemma map_result_InrD: "Inr t = map_result h m \<Longrightarrow> \<exists>x. m = Inr x \<and> t = h x"
  by (cases m) auto

definition embed_block :: "('a \<Rightarrow> 'b) \<Rightarrow> 'a memory_block \<Rightarrow> 'b memory_block" where
  "embed_block f blk = \<lparr>mb_data = f (mb_data blk), next_free_block = next_free_block blk, is_free = is_free blk\<rparr>"

lemma embed_block_simps [simp]:
  "mb_data (embed_block f blk) = f (mb_data blk)"
  "next_free_block (embed_block f blk) = next_free_block blk"
  "is_free (embed_block f blk) = is_free blk"
  "(embed_block f blk)\<lparr>is_free := b\<rparr> = embed_block f (blk\<lparr>is_free := b\<rparr>)"
  "(embed_block f blk)\<lparr>next_free_block := n\<rparr> = embed_block f (blk\<lparr>next_free_block := n\<rparr>)"
  "(embed_block f blk)\<lparr>mb_data := f v\<rparr> = embed_block f (blk\<lparr>mb_data := v\<rparr>)"
  by (simp_all add: embed_block_def)

definition embed_pool :: "('a \<Rightarrow> 'b) \<Rightarrow> 'a memory_pool \<Rightarrow> 'b memory_pool" where
  "embed_pool f p = \<lparr>memory_blocks = embed_block f \<circ> memory_blocks p,
     memory_blocks_size = memory_blocks_size p, free_block_index = free_block_index p, free_block_count = free_block_count p\<rparr>"

lemma embed_pool_alloc: "pool_alloc (f v) (embed_pool f p) = map_result (\<lambda>(a, q). (a, embed_pool f q)) (pool_alloc v p)"
  by (simp add: pool_alloc_def embed_pool_def Let_def fun_upd_comp)

lemma embed_pool_free: "pool_free i (embed_pool f p) = map_result (embed_pool f) (pool_free i p)"
  by (simp add: pool_free_def embed_pool_def Let_def fun_upd_comp)

lemma embed_pool_get [simp]: "pool_get (embed_pool f p) a = f (pool_get p a)"
  by (simp add: pool_get_def embed_pool_def)

lemma embed_pool_set: "(\<And>x. g' (f x) = f (g x)) \<Longrightarrow> pool_set a g' (embed_pool f p) = embed_pool f (pool_set a g p)"
  by (simp add: pool_set_def embed_pool_def fun_upd_comp)

lemma embed_pool_state [simp]:
  "pool_inv (embed_pool f p) = pool_inv p"
  "pool_live (embed_pool f p) = pool_live p"
  "memory_blocks_size (embed_pool f p) = memory_blocks_size p"
  by (simp_all add: pool_inv_def pool_live_def embed_pool_def comp_def)

section \<open>The embedding\<close>

definition embed_level :: "market_price_level \<Rightarrow> price_level" where
  "embed_level x = \<lparr>l_side = ml_side x, l_price = ml_price x, first_order = ml_first_order x,
     prev_entry = ml_prev_entry x, next_entry = ml_next_entry x\<rparr>"

definition embed_order :: "market_order \<Rightarrow> order" where
  "embed_order x = \<lparr>o_instrument_id = 0, o_client_id = 0, o_client_order_id = m_market_order_id x,
     o_market_order_id = m_market_order_id x, o_side = m_side x, o_price = m_price x, o_qty = m_qty x,
     o_priority = m_priority x, prev_order = m_prev_order x, next_order = m_next_order x\<rparr>"

lemma embed_level_simps [simp]:
  "l_side (embed_level x) = ml_side x" "l_price (embed_level x) = ml_price x"
  "first_order (embed_level x) = ml_first_order x" "prev_entry (embed_level x) = ml_prev_entry x"
  "next_entry (embed_level x) = ml_next_entry x"
  by (simp_all add: embed_level_def)

lemma embed_order_simps [simp]:
  "o_instrument_id (embed_order x) = 0" "o_client_id (embed_order x) = 0"
  "o_client_order_id (embed_order x) = m_market_order_id x" "o_market_order_id (embed_order x) = m_market_order_id x"
  "o_side (embed_order x) = m_side x" "o_price (embed_order x) = m_price x" "o_qty (embed_order x) = m_qty x"
  "o_priority (embed_order x) = m_priority x" "prev_order (embed_order x) = m_prev_order x"
  "next_order (embed_order x) = m_next_order x"
  by (simp_all add: embed_order_def)

definition silent_handler :: message_handler where
  "silent_handler = \<lparr>outgoing_responses = lock_free_queue_init 1 default_client_response,
     outgoing_market_updates = lock_free_queue_init 1 default_market_update\<rparr>"

text \<open>The array of one client, number 0.\<close>

definition own_orders :: "(nat \<Rightarrow> ptr) \<Rightarrow> nat \<Rightarrow> nat \<Rightarrow> ptr" where
  "own_orders f = (\<lambda>c. if c = 0 then f else (\<lambda>_. None))"

definition embed_book :: "market_order_book \<Rightarrow> order_book" where
  "embed_book s = \<lparr>instrument_id = mb_instrument_id s, message_handler = silent_handler,
     client_orders = own_orders (mb_orders s),
     price_level_pool = embed_pool embed_level (mb_price_level_pool s), bid = mb_bid s, ask = mb_ask s,
     price_levels = mb_price_levels s, order_pool = embed_pool embed_order (mb_order_pool s),
     client_response = default_client_response, market_update = default_market_update, next_market_order_id = 0\<rparr>"

lemma embed_reads [simp]:
  "instrument_id (embed_book s) = mb_instrument_id s"
  "next_market_order_id (embed_book s) = 0"
  "best sd (embed_book s) = mb_best sd s"
  "price_levels (embed_book s) = mb_price_levels s"
  "order_pool (embed_book s) = embed_pool embed_order (mb_order_pool s)"
  "price_level_pool (embed_book s) = embed_pool embed_level (mb_price_level_pool s)"
  by (simp_all add: embed_book_def best_def mb_best_def)

lemma embed_objects [simp]:
  "level_at (embed_book s) l = embed_level (mb_level_at s l)"
  "order_at (embed_book s) a = embed_order (mb_order_at s a)"
  unfolding level_at_def order_at_def mb_level_at_def mb_order_at_def embed_reads by (rule embed_pool_get)+

text \<open>Assignments, with the embedding pulled outwards.\<close>

lemma embed_fields:
  "set_best sd p (embed_book s) = embed_book (mb_set_best sd p s)"
  "(embed_book s)\<lparr>price_levels := pl\<rparr> = embed_book (s\<lparr>mb_price_levels := pl\<rparr>)"
  "(embed_book s)\<lparr>price_level_pool := embed_pool embed_level lp\<rparr> = embed_book (s\<lparr>mb_price_level_pool := lp\<rparr>)"
  "(embed_book s)\<lparr>order_pool := embed_pool embed_order op\<rparr> = embed_book (s\<lparr>mb_order_pool := op\<rparr>)"
  by (simp_all add: embed_book_def set_best_def mb_set_best_def)

lemma embed_set_level: "(\<And>x. g (embed_level x) = embed_level (f x)) \<Longrightarrow> set_level a g (embed_book s) = embed_book (mb_set_level a f s)"
  by (simp add: set_level_def mb_set_level_def embed_pool_set [where g = f] embed_fields)

lemma embed_set_order: "(\<And>x. g (embed_order x) = embed_order (f x)) \<Longrightarrow> set_order a g (embed_book s) = embed_book (mb_set_order a f s)"
  by (simp add: set_order_def mb_set_order_def embed_pool_set [where g = f] embed_fields)

lemma embed_writes:
  "set_level a (\<lambda>l. l\<lparr>next_entry := p\<rparr>) (embed_book s) = embed_book (mb_set_level a (\<lambda>l. l\<lparr>ml_next_entry := p\<rparr>) s)"
  "set_level a (\<lambda>l. l\<lparr>prev_entry := p\<rparr>) (embed_book s) = embed_book (mb_set_level a (\<lambda>l. l\<lparr>ml_prev_entry := p\<rparr>) s)"
  "set_level a (\<lambda>l. l\<lparr>first_order := p\<rparr>) (embed_book s) = embed_book (mb_set_level a (\<lambda>l. l\<lparr>ml_first_order := p\<rparr>) s)"
  "set_level a (\<lambda>l. l\<lparr>prev_entry := p, next_entry := q\<rparr>) (embed_book s) =
    embed_book (mb_set_level a (\<lambda>l. l\<lparr>ml_prev_entry := p, ml_next_entry := q\<rparr>) s)"
  "set_order a (\<lambda>x. x\<lparr>next_order := p\<rparr>) (embed_book s) = embed_book (mb_set_order a (\<lambda>x. x\<lparr>m_next_order := p\<rparr>) s)"
  "set_order a (\<lambda>x. x\<lparr>prev_order := p\<rparr>) (embed_book s) = embed_book (mb_set_order a (\<lambda>x. x\<lparr>m_prev_order := p\<rparr>) s)"
  "set_order a (\<lambda>x. x\<lparr>prev_order := p, next_order := q\<rparr>) (embed_book s) =
    embed_book (mb_set_order a (\<lambda>x. x\<lparr>m_prev_order := p, m_next_order := q\<rparr>) s)"
  "set_order a (\<lambda>x. x\<lparr>o_qty := n\<rparr>) (embed_book s) = embed_book (mb_set_order a (\<lambda>x. x\<lparr>m_qty := n\<rparr>) s)"
  by (rule embed_set_level embed_set_order; simp add: embed_level_def embed_order_def)+

lemma embed_if: "(if c then embed_book s else embed_book t) = embed_book (if c then s else t)"
  by simp

lemmas embed_rules = embed_if embed_fields embed_writes embed_pool_free embed_pool_alloc

lemma mb_at_frames [simp]:
  "mb_level_at (mb_set_level a f s) = (mb_level_at s)(a := f (mb_level_at s a))"
  "mb_level_at (mb_set_order a g s) = mb_level_at s"
  "mb_level_at (mb_set_best sd p s) = mb_level_at s"
  "mb_level_at (s\<lparr>mb_price_levels := pl\<rparr>) = mb_level_at s"
  "mb_order_at (mb_set_order a g s) = (mb_order_at s)(a := g (mb_order_at s a))"
  "mb_order_at (mb_set_level a f s) = mb_order_at s"
  "mb_order_at (mb_set_best sd p s) = mb_order_at s"
  "mb_order_at (s\<lparr>mb_price_levels := pl\<rparr>) = mb_order_at s"
  by (simp_all add: mb_level_at_def mb_order_at_def mb_set_level_def mb_set_order_def mb_set_best_def
      pool_get_def pool_set_def fun_eq_iff)

lemma mb_best_frames [simp]:
  "mb_best sd (mb_set_level a f s) = mb_best sd s"
  "mb_best sd (mb_set_order a g s) = mb_best sd s"
  "mb_best sd (s\<lparr>mb_price_levels := pl\<rparr>) = mb_best sd s"
  by (simp_all add: mb_set_level_def mb_set_order_def mb_best_def)

section \<open>The operations\<close>

lemma embed_comparison [simp]: "mb_comparison_func = comparison_func" "mb_price_to_index = price_to_index"
  by (simp_all add: mb_comparison_func_def comparison_func_def mb_price_to_index_def price_to_index_def fun_eq_iff)

lemma embed_find_slot: "find_slot fuel (embed_book s) bst sd p c flag = mb_find_slot fuel s bst sd p c flag"
proof (induction fuel arbitrary: c flag)
  case (Suc fuel)
  then show ?case by (simp add: find_slot.simps [of "Suc fuel"] mb_find_slot.simps [of "Suc fuel"])
qed (simp add: find_slot.simps mb_find_slot.simps)

lemma embed_add_after: "add_after c new (embed_book s) = map_result embed_book (mb_add_after c new s)"
  by (simp add: add_after_def mb_add_after_def Let_def embed_rules)

lemma embed_add_before: "add_before c new (embed_book s) = map_result embed_book (mb_add_before c new s)"
  by (simp add: add_before_def mb_add_before_def Let_def embed_rules)

lemma embed_add_price_level: "add_price_level new (embed_book s) = map_result embed_book (mb_add_price_level new s)"
  by (simp add: add_price_level_def mb_add_price_level_def Let_def embed_rules embed_add_before embed_add_after embed_find_slot
      case_prod_beta' split: option.split cong: if_cong)

text \<open>The client looks a level up by its slot alone.\<close>

lemma embed_get_price_level:
  assumes "\<And>l. mb_price_levels s (price_to_index p) = Some l \<Longrightarrow> ml_side (mb_level_at s l) = sd"
  shows "get_price_level sd p (embed_book s) = mb_get_price_level p s"
  using assms by (auto simp: get_price_level_def mb_get_price_level_def split: option.split)

lemma embed_store_order:
  "set_client_order 0 i p (embed_book s) = map_result embed_book (mb_store_order i p s)"
  by (simp add: set_client_order_def mb_store_order_def model_constants)
    (simp add: embed_book_def own_orders_def fun_eq_iff)

lemma embed_add_order:
  assumes "\<And>l. mb_price_levels s (price_to_index (m_price (mb_order_at s a))) = Some l \<Longrightarrow>
    ml_side (mb_level_at s l) = m_side (mb_order_at s a)"
  shows "add_order a (embed_book s) = map_result embed_book (mb_add_order a s)"
proof -
  have l: "\<lparr>l_side = sd, l_price = q, first_order = Some a, prev_entry = None, next_entry = None\<rparr> =
      embed_level \<lparr>ml_side = sd, ml_price = q, ml_first_order = Some a, ml_prev_entry = None, ml_next_entry = None\<rparr>" for sd q
    by (simp add: embed_level_def)
  have get: "get_price_level (m_side (mb_order_at s a)) (m_price (mb_order_at s a)) (embed_book s) =
      mb_get_price_level (m_price (mb_order_at s a)) s"
    by (rule embed_get_price_level [OF assms])
  show ?thesis
  proof (cases "mb_get_price_level (m_price (mb_order_at s a)) s")
    case None
    then show ?thesis using get
      by (simp add: add_order_def mb_add_order_def Let_def embed_rules l embed_add_price_level case_prod_beta'
          embed_store_order rbind_assoc)
  next
    case (Some k)
    then have "ml_side (mb_level_at s k) = m_side (mb_order_at s a)"
      using assms by (simp add: mb_get_price_level_def)
    then show ?thesis using get Some
      by (simp add: add_order_def mb_add_order_def Let_def embed_rules embed_store_order rbind_assoc)
  qed
qed

text \<open>
  The exchange moves its best pointer when the prices agree, the client when the pointers do:
  the same while no two levels have one price.
\<close>

lemma set_links_swap: "mb_set_level l (\<lambda>x. x\<lparr>ml_next_entry := p, ml_prev_entry := q\<rparr>) s =
    mb_set_level l (\<lambda>x. x\<lparr>ml_prev_entry := q, ml_next_entry := p\<rparr>) s"
  by (rule arg_cong [where f = "\<lambda>f. mb_set_level l f s"], rule ext) simp

lemma links_keep_price:
  "ml_price (mb_level_at (mb_set_level a (\<lambda>l. l\<lparr>ml_next_entry := q\<rparr>) s) k) = ml_price (mb_level_at s k)"
  "ml_price (mb_level_at (mb_set_level a (\<lambda>l. l\<lparr>ml_prev_entry := q\<rparr>) s) k) = ml_price (mb_level_at s k)"
  by simp_all

lemma embed_remove_level:
  assumes "mb_price_levels s (price_to_index p) = Some l" and "ml_side (mb_level_at s l) = sd"
    and "mb_best sd s = Some b" and "ml_price (mb_level_at s b) = ml_price (mb_level_at s l) \<Longrightarrow> b = l"
  shows "remove_price_level sd p (embed_book s) = map_result embed_book (remove_order_at_price sd p s)"
proof -
  have "get_price_level sd p (embed_book s) = Some l" "mb_get_price_level p s = Some l"
    using assms(1,2) by (simp_all add: get_price_level_def mb_get_price_level_def)
  moreover have "ml_price (mb_level_at s b) = ml_price (mb_level_at s l) \<longleftrightarrow> b = l" using assms(4) by auto
  ultimately show ?thesis using assms(3)
    by (simp add: remove_price_level_def remove_order_at_price_def Let_def embed_rules rbind_assoc links_keep_price set_links_swap
        del: at_frames mb_at_frames cong: if_cong)
qed

lemma embed_remove_order:
  assumes "mb_price_levels s (price_to_index (m_price (mb_order_at s a))) = Some l"
    and "ml_side (mb_level_at s l) = m_side (mb_order_at s a)" and "mb_best (m_side (mb_order_at s a)) s = Some b"
    and "ml_price (mb_level_at s b) = ml_price (mb_level_at s l) \<Longrightarrow> b = l"
  shows "remove_order a (embed_book s) = map_result embed_book (mb_remove_order a s)"
proof -
  have get: "get_price_level (m_side (mb_order_at s a)) (m_price (mb_order_at s a)) (embed_book s) = Some l"
    "mb_get_price_level (m_price (mb_order_at s a)) s = Some l"
    using assms(1,2) by (simp_all add: get_price_level_def mb_get_price_level_def)
  note level = embed_remove_level [OF assms]
  show ?thesis
  proof (cases "m_prev_order (mb_order_at s a) = Some a")
    case True
    then show ?thesis using get
      by (simp add: remove_order_def mb_remove_order_def Let_def level embed_store_order embed_rules rbind_assoc)
  next
    case False
    then show ?thesis using get
      by (simp add: remove_order_def mb_remove_order_def Let_def embed_store_order embed_rules rbind_assoc cong: if_cong)
  qed
qed

end
