(* ===== verification/MarketBookRefine.thy ===== *)
theory MarketBookRefine
  imports MarketBookEmbedding
begin

text \<open>
  The client's book computes an abstract one: what each market update does to the levels and
  orders of \<open>abook\<close>, and to the best bid and offer. An update is consistent with a book when it
  adds an order the book has room for, or names an order that rests in it; on consistent updates
  \<open>on_market_update\<close> never fails.
\<close>

section \<open>The abstract client\<close>

definition public_order :: "market_update \<Rightarrow> order_info" where
  "public_order u = \<lparr>o_instrument_id = 0, o_client_id = 0, o_client_order_id = mu_order_id u, o_market_order_id = mu_order_id u,
     o_side = mu_side u, o_price = mu_price u, o_qty = mu_qty u, o_priority = mu_priority u\<rparr>"

definition on_sides :: "(level list \<Rightarrow> level list) \<Rightarrow> abook \<Rightarrow> abook" where
  "on_sides f M = M\<lparr>a_bids := f (a_bids M), a_asks := f (a_asks M)\<rparr>"

definition m_apply :: "market_update \<Rightarrow> abook \<Rightarrow> abook" where
  "m_apply u M = (case mu_type u of
       MU_ADD \<Rightarrow> let own = (mu_side u = BUY) in set_a_side own (a_place (mu_side u) (public_order u) (a_side own M)) M
     | MU_CANCEL \<Rightarrow> on_sides (a_delete 0 (mu_order_id u)) M
     | MU_MODIFY \<Rightarrow> on_sides (a_set_qty 0 (mu_order_id u) (mu_qty u)) M
     | _ \<Rightarrow> M)"

definition m_consistent :: "market_update \<Rightarrow> abook \<Rightarrow> bool" where
  "m_consistent u M = (case mu_type u of
       MU_ADD \<Rightarrow> may_rest 0 (mu_order_id u) (mu_side u) (mu_price u) M
     | MU_CANCEL \<Rightarrow> a_find 0 (mu_order_id u) M \<noteq> None
     | MU_MODIFY \<Rightarrow> (case a_find 0 (mu_order_id u) M of None \<Rightarrow> False | Some x \<Rightarrow> o_price x = mu_price u)
     | MU_TRADE \<Rightarrow> True
     | _ \<Rightarrow> False)"

text \<open>
  The best bid and offer: a side is quoted anew when the update is on that side, at its best
  price or better, and the side was not empty.
\<close>

definition quote :: "level list \<Rightarrow> price_t \<times> quantity_t" where
  "quote L = (case L of [] \<Rightarrow> (INVALID_PRICE, INVALID_QUANTITY) | (p, xs) # _ \<Rightarrow> (p, sum_list (map o_qty xs)))"

definition bid_touched :: "market_update \<Rightarrow> abook \<Rightarrow> bool" where
  "bid_touched u M = (case a_bids M of [] \<Rightarrow> False | (p, xs) # _ \<Rightarrow> mu_side u = BUY \<and> sint p \<le> sint (mu_price u))"

definition ask_touched :: "market_update \<Rightarrow> abook \<Rightarrow> bool" where
  "ask_touched u M = (case a_asks M of [] \<Rightarrow> False | (p, xs) # _ \<Rightarrow> mu_side u = SELL \<and> sint (mu_price u) \<le> sint p)"

definition m_bbo :: "market_update \<Rightarrow> abook \<Rightarrow> bbo_t \<Rightarrow> bbo_t" where
  "m_bbo u M q =
     (if mu_type u = MU_TRADE then q
      else let M' = m_apply u M;
               q = (if bid_touched u M then q\<lparr>bid_price := fst (quote (a_bids M')), bid_qty := snd (quote (a_bids M'))\<rparr> else q)
           in if ask_touched u M then q\<lparr>ask_price := fst (quote (a_asks M')), ask_qty := snd (quote (a_asks M'))\<rparr> else q)"

text \<open>A client's heap represents an abstract book.\<close>

definition client_rel :: "market_order_book \<Rightarrow> ghost \<Rightarrow> abook \<Rightarrow> bool" where
  "client_rel s G M \<longleftrightarrow> book_rel (embed_book s) G M"

lemma client_relD:
  assumes "client_rel s G M"
  shows "book_ok (embed_book s) G" and "a_side b M = abs_levels (embed_book s) (G b)"
    and "rings_ok (embed_book s) G" and "levels_ok (embed_book s) G" and "index_ok (embed_book s) G"
    and "lists_ok (embed_book s) G"
  using assms by (simp_all add: client_rel_def book_rel_def book_ok_def lists_ok_def)

lemma own_orders_0 [simp]: "own_orders f 0 = f"
  by (simp add: own_orders_def)

lemma embed_find_order: "find_client_order 0 i (embed_book s) = mb_find_order i s"
  by (simp add: find_client_order_def mb_find_order_def model_constants) (simp add: embed_book_def)

section \<open>Adding\<close>

lemma no_level_across:
  assumes rel: "client_rel s G M" and adm: "may_rest 0 i sd p M"
    and l: "mb_price_levels s (price_to_index p) = Some l"
  shows "ml_side (mb_level_at s l) = sd"
proof -
  have l': "l \<in> set (all_levels G)" "same_slot (ml_price (mb_level_at s l)) p"
    using client_relD(5) [OF rel] l by (auto simp: index_ok_def same_slot_def)
  then obtain b os where m: "(l, os) \<in> set (G b)" by (auto simp: all_levels_def)
  have here: "(ml_price (mb_level_at s l), map (oinfo (embed_book s)) os) \<in> set (a_side b M)"
    using m unfolding client_relD(2) [OF rel] abs_levels_def by force
  have across: "\<forall>(q, xs) \<in> set (a_side (sd \<noteq> BUY) M). \<not> same_slot q p" using adm by (simp add: may_rest_def list_all_iff)
  have "b \<noteq> (sd \<noteq> BUY)"
  proof
    assume b: "b = (sd \<noteq> BUY)"
    show False using bspec [OF across here [unfolded b]] l'(2) by simp
  qed
  moreover have "ml_side (mb_level_at s l) = key_side b" using levels_okD(2) [OF client_relD(4) [OF rel] m] by simp
  ultimately show ?thesis using adm by (auto simp: may_rest_def)
qed

lemma client_add_ok:
  assumes rel: "client_rel s G M" and adm: "may_rest 0 (mu_order_id u) (mu_side u) (mu_price u) M" and ty: "mu_type u = MU_ADD"
  shows "\<exists>s' G'. change_book u s = Inr s' \<and> client_rel s' G' (m_apply u M)"
proof -
  define b where "b = (mu_side u = BUY)"
  let ?x = "\<lparr>m_market_order_id = mu_order_id u, m_side = mu_side u, m_price = mu_price u, m_qty = mu_qty u,
    m_priority = mu_priority u, m_prev_order = None, m_next_order = None\<rparr>"
  have b: "b \<longleftrightarrow> mu_side u = BUY" by (simp add: b_def)
  have x: "order_info.extend (public_order u) \<lparr>prev_order = None, next_order = None\<rparr> = embed_order ?x"
    by (simp add: public_order_def order_info.defs embed_order_def)
  obtain a q t L where t: "pool_alloc (embed_order ?x) (embed_pool embed_order (mb_order_pool s)) = Inr (a, q)"
    "add_order a ((embed_book s)\<lparr>order_pool := q\<rparr>) = Inr t" "book_ok t (G(b := L))"
    "abs_levels t L = a_place (mu_side u) (public_order u) (abs_levels (embed_book s) (G b))"
    "abs_levels t (G (\<not> b)) = abs_levels (embed_book s) (G (\<not> b))" "instrument_id t = mb_instrument_id s"
    "next_market_order_id t = 0"
    using rest_ok [OF client_relD(1,2) [OF rel] adm b public_order_def [of u]] unfolding x by auto
  obtain op where op: "pool_alloc ?x (mb_order_pool s) = Inr (a, op)" "q = embed_pool embed_order op"
    using t(1) unfolding embed_pool_alloc by (cases "pool_alloc ?x (mb_order_pool s)") auto
  let ?s = "s\<lparr>mb_order_pool := op\<rparr>"
  have "mb_order_at ?s a = ?x" using op(1) by (auto simp: mb_order_at_def pool_alloc_def Let_def rbind_Inr_iff pool_get_def split: if_splits)
  moreover have "mb_price_levels ?s = mb_price_levels s" "mb_level_at ?s = mb_level_at s" by (simp_all add: mb_level_at_def fun_eq_iff)
  ultimately have "add_order a (embed_book ?s) = map_result embed_book (mb_add_order a ?s)"
    using no_level_across [OF rel adm] by (intro embed_add_order) simp
  then obtain s' where s': "mb_add_order a ?s = Inr s'" "t = embed_book s'"
    using t(2) op(2) map_result_InrD [of t embed_book "mb_add_order a ?s"] by (auto simp: embed_fields)
  have "change_book u s = Inr s'" using ty op(1) s'(1) by (simp add: change_book_def)
  moreover have "client_rel s' (G(b := L)) (m_apply u M)"
    using t(3-7) rel ty client_relD(2) [OF rel] unfolding s'(2) client_rel_def
    by (auto simp: book_rel_def m_apply_def Let_def b_def)
  ultimately show ?thesis by blast
qed

section \<open>Cancelling and modifying\<close>

lemma client_find_ok:
  assumes rel: "client_rel s G M" and x: "a_find 0 i M = Some x"
  shows "\<exists>a b l os. mb_find_order i s = Inr (Some a) \<and> (l, os) \<in> set (G b) \<and> a \<in> set os \<and> x = oinfo (embed_book s) a \<and>
    (\<forall>k \<in> set (all_orders G). owned_by 0 i (oinfo (embed_book s) k) \<longleftrightarrow> k = a)"
proof -
  have xs: "a_orders M = map (oinfo (embed_book s)) (all_orders G)" by (rule a_orders_abs [OF client_relD(2) [OF rel]])
  from x obtain k where "k \<in> set (all_orders G)" "owned_by 0 i (oinfo (embed_book s) k)"
    unfolding a_find_def xs find_Some_iff by (metis length_map nth_map nth_mem)
  moreover have "clients_ok (embed_book s) (set (all_orders G))" using client_relD(1) [OF rel] by (simp add: book_ok_def)
  ultimately have "lookup_admissible 0 i" by (auto simp: lookup_admissible_def clients_ok_def owned_by_def oinfo_def)
  from find_client_order_ok [OF client_relD(1,2) [OF rel] this] x obtain a where
    a: "mb_find_order i s = Inr (Some a)" "x = oinfo (embed_book s) a" "a \<in> set (all_orders G)"
    "\<forall>k \<in> set (all_orders G). owned_by 0 i (oinfo (embed_book s) k) \<longleftrightarrow> k = a"
    by (auto simp: embed_find_order)
  moreover obtain b l os where "(l, os) \<in> set (G b)" "a \<in> set os" using a(3) by (auto simp: all_orders_def)
  ultimately show ?thesis by blast
qed

lemma client_remove_embeds:
  assumes rel: "client_rel s G M" and m: "(l, os) \<in> set (G b)" "a \<in> set os"
  shows "remove_order a (embed_book s) = map_result embed_book (mb_remove_order a s)"
proof -
  note lv = levels_okD [OF client_relD(4) [OF rel] m(1)]
  note all = mem_all_levels [where G = G, OF m(1)]
  obtain h hs L where G: "G b = (h, hs) # L" using m(1) by (cases "G b") auto
  then have h: "h \<in> set (all_levels G)" using mem_all_levels [of h hs G b] by simp
  have side: "m_side (mb_order_at s a) = key_side b" using lv(5) [OF m(2)] by simp
  show ?thesis
  proof (rule embed_remove_order)
    show "mb_price_levels s (price_to_index (m_price (mb_order_at s a))) = Some l"
      using index_okD [OF client_relD(5) [OF rel] all] lv(6) [OF m(2)] by (simp add: same_slot_def)
    show "ml_side (mb_level_at s l) = m_side (mb_order_at s a)" using lv(2) side by simp
    show "mb_best (m_side (mb_order_at s a)) s = Some h"
      using rings_okD(1) [OF client_relD(3) [OF rel], of b] G unfolding side by (simp add: head_ptr_def)
    show "h = l" if "ml_price (mb_level_at s h) = ml_price (mb_level_at s l)"
      by (rule index_inj [OF client_relD(5) [OF rel] h all]) (simp add: same_slot_def that)
  qed
qed

lemma client_cancel_ok:
  assumes rel: "client_rel s G M" and x: "a_find 0 (mu_order_id u) M = Some x" and ty: "mu_type u = MU_CANCEL"
  shows "\<exists>s' G'. change_book u s = Inr s' \<and> client_rel s' G' (m_apply u M)"
proof -
  let ?i = "mu_order_id u"
  obtain a b l os where a: "mb_find_order ?i s = Inr (Some a)" "(l, os) \<in> set (G b)" "a \<in> set os"
    using client_find_ok [OF rel x] by blast
  obtain M' ms where c: "a_cancel 0 ?i M = (M', ms)" by (cases "a_cancel 0 ?i M")
  have "unat ?i < MAX_NUM_ORDERS" using a(1) by (simp add: mb_find_order_def split: if_splits)
  then obtain t G' where t: "ob_cancel 0 ?i (embed_book s) = Inr t" "book_rel t G' M'"
    using ob_cancel_ok [OF rel [unfolded client_rel_def] _ c] by (auto simp: lookup_admissible_def)
  obtain s' r v where s': "mb_remove_order a s = Inr s'" "t = publish_update v (respond r (embed_book s'))"
    using t(1) a(1) client_remove_embeds [OF rel a(2,3)]
    by (auto simp: ob_cancel_def embed_find_order Let_def rbind_Inr_iff)
  have "M' = m_apply u M" using c x ty by (simp add: a_cancel_def m_apply_def on_sides_def)
  moreover have "client_rel s' G' M'" using t(2) unfolding s'(2) client_rel_def by (simp add: book_rel_def)
  moreover have "change_book u s = Inr s'" using ty a(1) s'(1) by (simp add: change_book_def)
  ultimately show ?thesis by blast
qed

lemma mb_set_order_cong: "f (mb_order_at s a) = g (mb_order_at s a) \<Longrightarrow> mb_set_order a f s = mb_set_order a g s"
  by (simp add: mb_set_order_def mb_order_at_def pool_set_def pool_get_def)

lemma client_modify_ok:
  assumes rel: "client_rel s G M" and x: "a_find 0 (mu_order_id u) M = Some x" "o_price x = mu_price u" and ty: "mu_type u = MU_MODIFY"
  shows "\<exists>s' G'. change_book u s = Inr s' \<and> client_rel s' G' (m_apply u M)"
proof -
  let ?i = "mu_order_id u" and ?s = "embed_book s"
  obtain a where a: "mb_find_order ?i s = Inr (Some a)" "x = oinfo ?s a"
    and own: "\<forall>k \<in> set (all_orders G). owned_by 0 ?i (oinfo ?s k) \<longleftrightarrow> k = a"
    using client_find_ok [OF rel x(1)] by blast
  define s' where "s' = mb_set_order a (\<lambda>x. x\<lparr>m_qty := mu_qty u\<rparr>) s"
  have "m_price (mb_order_at s a) = mu_price u" using x(2) a(2) by simp
  then have "change_book u s = Inr s'"
    using ty a(1) unfolding s'_def by (auto simp: change_book_def intro: mb_set_order_cong)
  moreover have "client_rel s' G (m_apply u M)"
  proof -
    have e: "embed_book s' = set_order a (\<lambda>x. x\<lparr>o_qty := mu_qty u\<rparr>) ?s" by (simp add: s'_def embed_writes)
    have "a_side c (m_apply u M) = abs_levels (embed_book s') (G c)" for c
      using own mem_all_orders [where G = G and b = c] unfolding e
      by (subst abs_set_qty [where cid = 0 and coid = ?i]) (auto simp: m_apply_def ty on_sides_def a_side_both client_relD(2) [OF rel])
    moreover have "book_ok (embed_book s') G" using client_relD(1) [OF rel] unfolding e by simp
    ultimately show ?thesis using rel unfolding client_rel_def
      by (simp add: book_rel_def m_apply_def ty on_sides_def) (simp add: e s'_def mb_set_order_def)
  qed
  ultimately show ?thesis by blast
qed

lemma change_book_ok:
  assumes "client_rel s G M" and "m_consistent u M" and "mu_type u \<noteq> MU_TRADE"
  shows "\<exists>s' G'. change_book u s = Inr s' \<and> client_rel s' G' (m_apply u M)"
  using assms client_add_ok [OF assms(1)] client_cancel_ok [OF assms(1)] client_modify_ok [OF assms(1)]
  by (cases "mu_type u") (auto simp: m_consistent_def split: option.splits)

section \<open>The best bid and offer\<close>

lemma sum_orders_ring:
  assumes "ring (m_next_order \<circ> mb_order_at s) pv os"
  shows "os = pre @ a # suf \<Longrightarrow> length suf \<le> fuel \<Longrightarrow>
    sum_orders fuel (hd os) (m_next_order (mb_order_at s a)) q s = Inr (q + sum_list (map (\<lambda>k. m_qty (mb_order_at s k)) suf))"
proof (induction suf arbitrary: pre a fuel q)
  case Nil
  then have "m_next_order (mb_order_at s a) = Some (hd os)" using ring_last_next [OF assms] by simp
  then show ?case by (simp add: sum_orders.simps)
next
  case (Cons c suf)
  have n: "m_next_order (mb_order_at s a) = Some c"
    using ring_next [OF assms [unfolded Cons.prems(1)]] by simp
  have "c \<noteq> hd os" using ring_distinct [OF assms] Cons.prems(1) by (cases pre) auto
  moreover have "fuel \<noteq> 0" using Cons.prems(2) by simp
  moreover have "sum_orders (fuel - 1) (hd os) (m_next_order (mb_order_at s c)) q' s =
      Inr (q' + sum_list (map (\<lambda>k. m_qty (mb_order_at s k)) suf))" for q'
    using Cons.IH [of "pre @ [a]" c "fuel - 1" q'] Cons.prems by simp
  ultimately show ?case using n by (simp add: sum_orders.simps [of fuel] add.assoc)
qed

lemma update_side_ok:
  assumes rel: "client_rel s G M"
  shows "update_side (mb_best (key_side b) s) s = Inr (quote (a_side b M))"
proof -
  have bst: "mb_best (key_side b) s = head_ptr (G b)" using rings_okD(1) [OF client_relD(3) [OF rel], of b] by simp
  show ?thesis
  proof (cases "G b")
    case Nil
    then show ?thesis using bst by (simp add: update_side_def head_ptr_def quote_def client_relD(2) [OF rel] abs_levels_def)
  next
    case (Cons x L)
    obtain l os where x: "x = (l, os)" by force
    note lv = levels_okD [OF client_relD(4) [OF rel], of l os b, unfolded Cons x, simplified]
    obtain a rest where os: "os = a # rest" using lv(1) by (cases os) auto
    have r: "ring (m_next_order \<circ> mb_order_at s) (prev_order \<circ> order_at (embed_book s)) os"
      using lv(4) by (simp add: comp_def)
    have "length (level_orders (abs_levels (embed_book s) (G b))) \<le> MAX_NUM_ORDERS"
      by (rule sweep_fuel [OF client_relD(1) [OF rel]])
    then have "length rest \<le> MAX_NUM_ORDERS" unfolding level_orders_abs Cons x os by simp
    from sum_orders_ring [OF r, of "[]" a rest MAX_NUM_ORDERS] this os
    have "sum_orders MAX_NUM_ORDERS a (m_next_order (mb_order_at s a)) (m_qty (mb_order_at s a)) s =
        Inr (sum_list (map (\<lambda>k. m_qty (mb_order_at s k)) os))" by simp
    then show ?thesis using bst lv(3) os
      by (simp add: update_side_def head_ptr_def quote_def client_relD(2) [OF rel] abs_levels_def Cons x comp_def oinfo_def)
  qed
qed

lemma touched_ok:
  assumes rel: "client_rel s G M"
  shows "bid_updated u s = bid_touched u M" and "ask_updated u s = ask_touched u M"
proof -
  have "mb_bid s = head_ptr (G True)" "mb_ask s = head_ptr (G False)"
    using rings_okD(1) [OF client_relD(3) [OF rel], of True] rings_okD(1) [OF client_relD(3) [OF rel], of False]
    by (simp_all add: mb_best_def)
  moreover have "a_bids M = abs_levels (embed_book s) (G True)" "a_asks M = abs_levels (embed_book s) (G False)"
    using client_relD(2) [OF rel, of True] client_relD(2) [OF rel, of False] by (simp_all add: a_side_def)
  ultimately show "bid_updated u s = bid_touched u M" and "ask_updated u s = ask_touched u M"
    by (auto simp: bid_updated_def ask_updated_def bid_touched_def ask_touched_def head_ptr_def abs_levels_def split: list.split)
qed

lemma client_rel_bbo [simp]: "client_rel (s\<lparr>mb_bbo := q\<rparr>) G M = client_rel s G M"
  by (simp add: client_rel_def embed_book_def)

lemma set_keeps_bbo [simp]:
  "mb_bbo (mb_set_level a f s) = mb_bbo s" "mb_bbo (mb_set_order a g s) = mb_bbo s" "mb_bbo (mb_set_best sd p s) = mb_bbo s"
  by (simp_all add: mb_set_level_def mb_set_order_def mb_set_best_def)

lemma link_keeps_bbo:
  "mb_add_after c new s = Inr t \<Longrightarrow> mb_bbo t = mb_bbo s"
  "mb_add_before c new s = Inr t \<Longrightarrow> mb_bbo t = mb_bbo s"
  by (auto simp: mb_add_after_def mb_add_before_def Let_def rbind_Inr_iff)

lemma level_keeps_bbo:
  "mb_add_price_level new s = Inr t \<Longrightarrow> mb_bbo t = mb_bbo s"
  "remove_order_at_price sd p s = Inr t \<Longrightarrow> mb_bbo t = mb_bbo s"
  by (auto simp: mb_add_price_level_def remove_order_at_price_def Let_def rbind_Inr_iff
      split: option.splits if_splits dest!: link_keeps_bbo)

lemma order_keeps_bbo:
  "mb_add_order a s = Inr t \<Longrightarrow> mb_bbo t = mb_bbo s"
  "mb_remove_order a s = Inr t \<Longrightarrow> mb_bbo t = mb_bbo s"
  by (auto simp: mb_add_order_def mb_remove_order_def mb_store_order_def Let_def rbind_Inr_iff
      split: option.splits if_splits dest!: level_keeps_bbo)

lemma change_book_bbo:
  "change_book u s = Inr t \<Longrightarrow> m_consistent u M \<Longrightarrow> mb_bbo t = mb_bbo s"
  by (cases "mu_type u") (auto simp: change_book_def m_consistent_def rbind_Inr_iff dest!: order_keeps_bbo)

text \<open>\<open>on_market_update\<close> on a consistent update.\<close>

definition engine_told :: "market_update \<Rightarrow> engine_call" where
  "engine_told u = (if mu_type u = MU_TRADE then On_trade_update u
     else On_order_book_update (mu_instrument_id u) (mu_price u) (mu_side u))"

lemma on_market_update_ok:
  assumes rel: "client_rel s G M" and c: "m_consistent u M"
  shows "\<exists>s' G'. on_market_update u s = Inr (s', engine_told u) \<and> client_rel s' G' (m_apply u M) \<and>
    mb_bbo s' = m_bbo u M (mb_bbo s)"
proof (cases "mu_type u = MU_TRADE")
  case True
  then show ?thesis using rel
    by (intro exI [of _ s] exI [of _ G]) (simp add: on_market_update_def engine_told_def m_apply_def m_bbo_def)
next
  case False
  from change_book_ok [OF rel c False] obtain t G' where t: "change_book u s = Inr t" "client_rel t G' (m_apply u M)" by blast
  define b where "b = (if bid_touched u M then (mb_bbo s)\<lparr>bid_price := fst (quote (a_bids (m_apply u M))),
    bid_qty := snd (quote (a_bids (m_apply u M)))\<rparr> else mb_bbo s)"
  have "mb_bbo t = mb_bbo s" by (rule change_book_bbo [OF t(1) c])
  then have "(if bid_touched u M then rbind (update_side (mb_bid t) t) (\<lambda>(p, q). Inr (t\<lparr>mb_bbo := (mb_bbo t)\<lparr>bid_price := p, bid_qty := q\<rparr>\<rparr>))
      else Inr t) = Inr (t\<lparr>mb_bbo := b\<rparr>)"
    using update_side_ok [OF t(2), of True] by (auto simp: b_def mb_best_def a_side_def split: prod.split)
  moreover have "update_side (mb_ask (t\<lparr>mb_bbo := b\<rparr>)) (t\<lparr>mb_bbo := b\<rparr>) = Inr (quote (a_asks (m_apply u M)))"
    using update_side_ok [of "t\<lparr>mb_bbo := b\<rparr>" G' "m_apply u M" False] t(2) by (simp add: mb_best_def a_side_def)
  ultimately have "update_bbo (bid_touched u M) (ask_touched u M) t = Inr (t\<lparr>mb_bbo := m_bbo u M (mb_bbo s)\<rparr>)"
    unfolding update_bbo_def using False by (simp add: m_bbo_def Let_def b_def [symmetric] split_beta)
  then show ?thesis using False t touched_ok [OF rel]
    by (intro exI [of _ "t\<lparr>mb_bbo := m_bbo u M (mb_bbo s)\<rparr>"] exI [of _ G'])
      (simp add: on_market_update_def engine_told_def Let_def)
qed

section \<open>A stream of updates\<close>

fun replay :: "market_update list \<Rightarrow> market_order_book \<Rightarrow> (market_order_book \<times> engine_call list) result" where
  "replay [] s = Inr (s, [])"
| "replay (u # us) s = rbind (on_market_update u s) (\<lambda>(s, c). rbind (replay us s) (\<lambda>(s, cs). Inr (s, c # cs)))"

fun all_m_consistent :: "market_update list \<Rightarrow> abook \<Rightarrow> bool" where
  "all_m_consistent [] M \<longleftrightarrow> True"
| "all_m_consistent (u # us) M \<longleftrightarrow> m_consistent u M \<and> all_m_consistent us (m_apply u M)"

lemma replay_ok:
  assumes "client_rel s G M" and "all_m_consistent us M"
  shows "\<exists>s' G'. replay us s = Inr (s', map engine_told us) \<and> client_rel s' G' (fold m_apply us M)"
  using assms
proof (induction us arbitrary: s G M)
  case (Cons u us)
  from Cons.prems(2) have c: "m_consistent u M" "all_m_consistent us (m_apply u M)" by simp_all
  from on_market_update_ok [OF Cons.prems(1) c(1)] obtain t G1 where
    t: "on_market_update u s = Inr (t, engine_told u)" "client_rel t G1 (m_apply u M)" by blast
  from Cons.IH [OF t(2) c(2)] t(1) show ?case by auto
qed auto

section \<open>The empty book\<close>

definition m_init :: "instrument_id_t \<Rightarrow> abook" where
  "m_init i = (a_init i)\<lparr>a_next_id := 0\<rparr>"

lemma market_order_book_init_ok: "\<exists>s. market_order_book_init i = Inr s \<and> client_rel s (\<lambda>_. []) (m_init i) \<and> mb_bbo s = default_bbo"
proof -
  have z: "0 < MAX_PRICE_LEVELS" "0 < MAX_NUM_ORDERS" by (simp_all add: model_constants)
  define s where "s = \<lparr>mb_instrument_id = i, mb_orders = (\<lambda>_. None),
    mb_price_level_pool = fresh_pool MAX_PRICE_LEVELS default_market_price_level, mb_bid = None, mb_ask = None,
    mb_price_levels = (\<lambda>_. None), mb_order_pool = fresh_pool MAX_NUM_ORDERS default_market_order, mb_bbo = default_bbo\<rparr>"
  have "market_order_book_init i = Inr s"
    by (simp add: market_order_book_init_def memory_pool_init_eq z s_def)
  moreover have "pool_inv (fresh_pool MAX_PRICE_LEVELS default_market_price_level)" "pool_inv (fresh_pool MAX_NUM_ORDERS default_market_order)"
    using z by (simp_all add: fresh_pool_inv)
  then have "client_rel s (\<lambda>_. []) (m_init i)"
    by (simp add: client_rel_def z book_rel_def book_ok_def lists_ok_def all_levels_def all_orders_def rings_ok_def
        levels_ok_def index_ok_def level_pool_ok_def clients_ok_def order_pool_ok_def abs_levels_def
        m_init_def a_init_def a_side_def s_def head_ptr_def mb_best_def)
      (auto simp: embed_book_def own_orders_def)
  ultimately show ?thesis by (simp add: s_def)
qed

end
