(* ===== verification/ClientMirror.thy ===== *)
theory ClientMirror
  imports MarketBookRefine SnapshotMirror
begin

text \<open>
  A client that starts with the exchange and receives every market update of an instrument holds
  that instrument's book: the same levels in the same order, with the same orders in the same
  queues, under their market identifiers and without their owners.
\<close>

section \<open>What a client may know of a book\<close>

definition public_info :: "order_info \<Rightarrow> order_info" where
  "public_info x = x\<lparr>o_instrument_id := 0, o_client_id := 0, o_client_order_id := o_market_order_id x\<rparr>"

definition view_levels :: "level list \<Rightarrow> level list" where
  "view_levels = map (\<lambda>(p, xs). (p, map public_info xs))"

definition view :: "abook \<Rightarrow> abook" where
  "view A = \<lparr>a_instrument = a_instrument A, a_bids = view_levels (a_bids A), a_asks = view_levels (a_asks A), a_next_id = 0\<rparr>"

lemma public_info_simps [simp]:
  "o_market_order_id (public_info x) = o_market_order_id x" "o_side (public_info x) = o_side x"
  "o_price (public_info x) = o_price x" "o_qty (public_info x) = o_qty x" "o_priority (public_info x) = o_priority x"
  "owned_by 0 i (public_info x) \<longleftrightarrow> o_market_order_id x = i"
  "public_info (x\<lparr>o_qty := q\<rparr>) = (public_info x)\<lparr>o_qty := q\<rparr>"
  by (simp_all add: public_info_def owned_by_def)

lemma view_levels_simps [simp]:
  "view_levels [] = []" "view_levels ((p, xs) # L) = (p, map public_info xs) # view_levels L"
  "view_levels (L @ L') = view_levels L @ view_levels L'" "view_levels (keep_level p xs) = keep_level p (map public_info xs)"
  "map fst (view_levels L) = map fst L"
  by (auto simp: view_levels_def keep_level_def)

lemma view_simps [simp]:
  "a_side b (view A) = view_levels (a_side b A)" "a_instrument (view A) = a_instrument A"
  "view (A\<lparr>a_next_id := n\<rparr>) = view A" "view (set_a_side b L A) = set_a_side b (view_levels L) (view A)"
  by (simp_all add: view_def a_side_def set_a_side_def)

lemma view_orders: "a_orders (view A) = map public_info (a_orders A)"
proof -
  have "level_orders (view_levels L) = map public_info (level_orders L)" for L by (induction L) auto
  then show ?thesis by (simp add: a_orders_def view_def)
qed

section \<open>One update\<close>

definition mirrors :: "market_update list \<Rightarrow> abook \<Rightarrow> abook \<Rightarrow> bool" where
  "mirrors us A B \<longleftrightarrow> all_m_consistent us (view A) \<and> fold m_apply us (view A) = view B"

lemma all_m_consistent_append: "all_m_consistent (us @ vs) M \<longleftrightarrow> all_m_consistent us M \<and> all_m_consistent vs (fold m_apply us M)"
  by (induction us arbitrary: M) auto

lemma mirrors_append: "mirrors us A B \<Longrightarrow> mirrors vs B C \<Longrightarrow> mirrors (us @ vs) A C"
  by (simp add: mirrors_def all_m_consistent_append)

lemma mirrors_Nil [simp]: "mirrors [] A A"
  by (simp add: mirrors_def)

lemma mirrors_next [simp]: "mirrors us A (B\<lparr>a_next_id := n\<rparr>) = mirrors us A B"
  by (simp add: mirrors_def)

lemma mirrors_trade: "mu_type u = MU_TRADE \<Longrightarrow> mirrors [u] A A"
  by (simp add: mirrors_def m_consistent_def m_apply_def)

text \<open>Removing and changing by market identifier.\<close>

definition delete_id :: "order_id_t \<Rightarrow> level list \<Rightarrow> level list" where
  "delete_id i L = concat (map (\<lambda>(p, xs). keep_level p (filter (\<lambda>x. o_market_order_id x \<noteq> i) xs)) L)"

definition set_qty_id :: "order_id_t \<Rightarrow> quantity_t \<Rightarrow> level list \<Rightarrow> level list" where
  "set_qty_id i q L = map (\<lambda>(p, xs). (p, map (\<lambda>x. if o_market_order_id x = i then x\<lparr>o_qty := q\<rparr> else x) xs)) L"

lemma by_id_simps [simp]:
  "delete_id i [] = []" "delete_id i ((p, xs) # L) = keep_level p (filter (\<lambda>x. o_market_order_id x \<noteq> i) xs) @ delete_id i L"
  "set_qty_id i q [] = []"
  "set_qty_id i q ((p, xs) # L) = (p, map (\<lambda>x. if o_market_order_id x = i then x\<lparr>o_qty := q\<rparr> else x) xs) # set_qty_id i q L"
  by (simp_all add: delete_id_def set_qty_id_def)

lemma view_delete: "a_delete 0 i (view_levels L) = view_levels (delete_id i L)"
  by (induction L) (auto simp: filter_map comp_def)

lemma view_set_qty: "a_set_qty 0 i q (view_levels L) = view_levels (set_qty_id i q L)"
  by (induction L) (auto simp: a_set_qty_def)

lemma view_on_sides:
  "on_sides (a_delete 0 i) (view A) = view (on_sides (delete_id i) A)"
  "on_sides (a_set_qty 0 i q) (view A) = view (on_sides (set_qty_id i q) A)"
  by (simp_all add: on_sides_def view_def view_delete view_set_qty)

lemma fresh_id: "market_id x \<notin> market_id ` set xs \<Longrightarrow> y \<in> set xs \<Longrightarrow> o_market_order_id y \<noteq> o_market_order_id x"
  unfolding market_id_def by (metis imageI)

lemma find_public:
  assumes "distinct_ids (a_orders A)" and "x \<in> set (a_orders A)"
  shows "a_find 0 (o_market_order_id x) (view A) = Some (public_info x)"
proof -
  obtain as bs where xs: "a_orders A = as @ x # bs" using split_list [OF assms(2)] by blast
  then have "market_id x \<notin> market_id ` set as" using assms(1) by (auto simp: distinct_ids_def)
  then have "o_market_order_id y \<noteq> o_market_order_id x" if "y \<in> set as" for y
    using fresh_id that by blast
  then have "List.find (owned_by 0 (o_market_order_id x)) (map public_info (as @ x # bs)) = Some (public_info x)"
    by (simp, intro find_append_Cons) auto
  then show ?thesis by (simp add: a_find_def view_orders xs)
qed

lemma mirrors_cancel:
  assumes "distinct_ids (a_orders A)" and "x \<in> set (a_orders A)" and "mu_type u = MU_CANCEL" and "mu_order_id u = o_market_order_id x"
  shows "mirrors [u] A (on_sides (delete_id (o_market_order_id x)) A)"
  using find_public [OF assms(1,2)] view_on_sides
  by (simp add: mirrors_def m_consistent_def m_apply_def assms(3,4))

lemma mirrors_modify:
  assumes "distinct_ids (a_orders A)" and "x \<in> set (a_orders A)" and "mu_type u = MU_MODIFY" and "mu_order_id u = o_market_order_id x"
    and "mu_price u = o_price x" and "mu_qty u = q"
  shows "mirrors [u] A (on_sides (set_qty_id (o_market_order_id x) q) A)"
  using find_public [OF assms(1,2)] view_on_sides
  by (simp add: mirrors_def m_consistent_def m_apply_def assms(3-6))

lemma view_place: "a_place sd (public_info x) (view_levels L) = view_levels (a_place sd x L)"
proof -
  have "slot_insert fst sd (o_price x, [public_info x]) (view_levels L) = view_levels (slot_insert fst sd (o_price x, [x]) L)"
    unfolding view_levels_def by (subst map_slot_insert [where key' = fst]) auto
  moreover have "(\<exists>(p, xs) \<in> set (view_levels L). same_slot p q) \<longleftrightarrow> (\<exists>(p, xs) \<in> set L. same_slot p q)" for q
    by (force simp: view_levels_def)
  moreover have "map (\<lambda>(p, xs). if same_slot p q then (p, xs @ [public_info x]) else (p, xs)) (view_levels L) =
      view_levels (map (\<lambda>(p, xs). if same_slot p q then (p, xs @ [x]) else (p, xs)) L)" for q
    by (induction L) auto
  ultimately show ?thesis by (simp add: a_place_def)
qed

lemma mirrors_add:
  assumes may: "may_rest cid coid (o_side x) (o_price x) A" and id: "market_id x < MAX_NUM_ORDERS"
    and fresh: "market_id x \<notin> market_id ` set (a_orders A)"
  shows "mirrors [order_update x i] A (set_a_side (o_side x = BUY) (a_place (o_side x) x (a_side (o_side x = BUY) A)) A)"
proof -
  let ?u = "order_update x i"
  have "public_order ?u = public_info x"
    by (simp add: public_order_def order_update_def public_info_def)
  moreover have "may_rest 0 (o_market_order_id x) (o_side x) (o_price x) (view A)"
    using may id fresh_id [OF fresh]
    by (auto simp: may_rest_def view_orders list_all_iff market_id_def model_constants view_levels_def)
  ultimately show ?thesis
    by (simp add: mirrors_def m_consistent_def m_apply_def view_place)
      (simp add: order_update_def Let_def view_place)
qed

section \<open>The operations of the book\<close>

definition solid :: "level list \<Rightarrow> bool" where
  "solid L \<longleftrightarrow> (\<forall>(p, xs) \<in> set L. xs \<noteq> [])"

lemma solid_simps [simp]:
  "solid []" "solid ((p, xs) # L) \<longleftrightarrow> xs \<noteq> [] \<and> solid L" "solid (L @ L') \<longleftrightarrow> solid L \<and> solid L'" "solid (keep_level p xs)"
  by (auto simp: solid_def keep_level_def)

definition traceable :: "abook \<Rightarrow> bool" where
  "traceable A \<longleftrightarrow> distinct_ids (a_orders A) \<and> (\<forall>b. solid (a_side b A))"

lemma delete_id_same:
  assumes "solid L" and "\<And>y. y \<in> set (level_orders L) \<Longrightarrow> o_market_order_id y \<noteq> i"
  shows "delete_id i L = L"
  using assms by (induction L) (auto simp: keep_level_def filter_id_conv)

lemma set_qty_id_same: "(\<And>y. y \<in> set (level_orders L) \<Longrightarrow> o_market_order_id y \<noteq> i) \<Longrightarrow> set_qty_id i q L = L"
  by (induction L) (auto intro!: map_idI)

lemma on_one_side:
  assumes "g (a_side b A) = L" and "g (a_side (\<not> b) A) = a_side (\<not> b) A"
  shows "on_sides g A = set_a_side b L A"
  using assms by (cases b) (simp_all add: on_sides_def set_a_side_def a_side_def)

lemma other_ids:
  assumes "distinct_ids (a_orders A)" and "a_side b A = (p, x # xs) # L"
  shows "y \<in> set xs \<union> set (level_orders L) \<union> set (level_orders (a_side (\<not> b) A)) \<Longrightarrow> o_market_order_id y \<noteq> o_market_order_id x"
proof -
  have "mset (a_orders A) = mset (x # xs @ level_orders L @ level_orders (a_side (\<not> b) A))"
    using orders_by_side [of A b] assms(2) by simp
  from distinct_ids_perm [OF this assms(1)]
  have "market_id x \<notin> market_id ` set (xs @ level_orders L @ level_orders (a_side (\<not> b) A))" by simp
  from fresh_id [OF this]
  show "y \<in> set xs \<union> set (level_orders L) \<union> set (level_orders (a_side (\<not> b) A)) \<Longrightarrow> o_market_order_id y \<noteq> o_market_order_id x"
    by auto
qed

lemma mirrors_match:
  assumes t: "traceable A" and A: "a_side b A = (p, x # xs) # L" and m: "m = min l (o_qty x)"
  shows "mirrors (updates_of (match_msgs i cid sd coid moid l x)) A (set_a_side b (after_match m p x xs L) A)"
proof -
  have d: "distinct_ids (a_orders A)" and s: "solid L" "solid (a_side (\<not> b) A)"
    using t A unfolding traceable_def by (auto dest: spec [of _ b])
  note ids = other_ids [OF d A]
  have "x \<in># mset (a_orders A)" unfolding orders_by_side [of A b] using A by simp
  then have x: "x \<in> set (a_orders A)" by simp
  let ?t = "\<lparr>mu_type = MU_TRADE, mu_order_id = INVALID_ORDER_ID, mu_instrument_id = i, mu_side = sd,
       mu_price = o_price x, mu_qty = min l (o_qty x), mu_priority = INVALID_PRIORITY\<rparr>"
  have t: "mirrors [?t] A A" by (rule mirrors_trade) simp
  have L: "delete_id (o_market_order_id x) (a_side b A) = keep_level p xs @ L"
    "set_qty_id (o_market_order_id x) q (a_side b A) = (p, x\<lparr>o_qty := q\<rparr> # xs) # L"
    "delete_id (o_market_order_id x) (a_side (\<not> b) A) = a_side (\<not> b) A"
    "set_qty_id (o_market_order_id x) q (a_side (\<not> b) A) = a_side (\<not> b) A" for q
  proof -
    have "delete_id (o_market_order_id x) L = L" "set_qty_id (o_market_order_id x) q L = L" for q
      by (rule delete_id_same set_qty_id_same; use ids s in auto)+
    then show "delete_id (o_market_order_id x) (a_side b A) = keep_level p xs @ L"
      "set_qty_id (o_market_order_id x) q (a_side b A) = (p, x\<lparr>o_qty := q\<rparr> # xs) # L" for q
      using ids by (auto simp: A filter_id_conv intro!: map_idI arg_cong [where f = "keep_level p"])
    show "delete_id (o_market_order_id x) (a_side (\<not> b) A) = a_side (\<not> b) A"
      "set_qty_id (o_market_order_id x) q (a_side (\<not> b) A) = a_side (\<not> b) A" for q
      by (rule delete_id_same set_qty_id_same; use ids s in auto)+
  qed
  show ?thesis
  proof (cases "o_qty x - m = 0")
    case True
    have "mirrors ([?t] @ [\<lparr>mu_type = MU_CANCEL, mu_order_id = o_market_order_id x, mu_instrument_id = i,
        mu_side = o_side x, mu_price = o_price x, mu_qty = o_qty x, mu_priority = o_priority x\<rparr>]) A
        (on_sides (delete_id (o_market_order_id x)) A)"
      by (rule mirrors_append [OF t mirrors_cancel [OF d x]]) simp_all
    then show ?thesis using True m on_one_side [OF L(1,3)] by (simp add: updates_match_msgs after_match_def)
  next
    case False
    have "mirrors ([?t] @ [\<lparr>mu_type = MU_MODIFY, mu_order_id = o_market_order_id x, mu_instrument_id = i,
        mu_side = o_side x, mu_price = o_price x, mu_qty = o_qty x - m, mu_priority = o_priority x\<rparr>]) A
        (on_sides (set_qty_id (o_market_order_id x) (o_qty x - m)) A)"
      by (rule mirrors_append [OF t mirrors_modify [OF d x]]) simp_all
    then show ?thesis using False m on_one_side [OF L(2,4)] by (simp add: updates_match_msgs after_match_def)
  qed
qed

lemma traceable_match:
  assumes "traceable A" and A: "a_side b A = (p, x # xs) # L"
  shows "traceable (set_a_side b (after_match m p x xs L) A)"
proof -
  let ?A = "set_a_side b (after_match m p x xs L) A"
  have "mset (a_orders ?A) = mset ((if o_qty x - m = 0 then [] else [x\<lparr>o_qty := o_qty x - m\<rparr>]) @ xs @ level_orders L @
      level_orders (a_side (\<not> b) A))"
    using orders_by_side [of ?A b] by (simp add: orders_after_match)
  moreover have "distinct_ids (x # xs @ level_orders L @ level_orders (a_side (\<not> b) A))"
    using assms distinct_ids_perm [OF orders_by_side [of A b]] A by (simp add: traceable_def)
  then have "distinct_ids ((if o_qty x - m = 0 then [] else [x\<lparr>o_qty := o_qty x - m\<rparr>]) @ xs @ level_orders L @
      level_orders (a_side (\<not> b) A))" by simp
  moreover have "solid (a_side c ?A)" for c
    using assms unfolding traceable_def by (cases "c = b") (auto simp: after_match_def dest: spec [of _ b])
  ultimately show ?thesis unfolding traceable_def using distinct_ids_perm by metis
qed

lemma mirrors_sweep:
  "a_sweep i cid coid moid sd price qty L = (left, L', ms) \<Longrightarrow>
    \<forall>A. a_side b A = L \<longrightarrow> traceable A \<longrightarrow> mirrors (updates_of ms) A (set_a_side b L' A) \<and> traceable (set_a_side b L' A)"
proof (induction rule: sweep_induct)
  case (stop qty L)
  have "set_a_side b (a_side b A) A = A" for A by (simp add: set_a_side_def a_side_def)
  then show ?case by auto
next
  case (step qty p x xs L left L' ms m)
  show ?case
  proof (intro allI impI)
    fix A assume A: "a_side b A = (p, x # xs) # L" and t: "traceable A"
    let ?B = "set_a_side b (after_match m p x xs L) A"
    have "a_side b ?B = after_match m p x xs L" by simp
    with step.IH traceable_match [OF t A] have
      "mirrors (updates_of ms) ?B (set_a_side b L' ?B) \<and> traceable (set_a_side b L' ?B)" by blast
    moreover have "set_a_side b L' ?B = set_a_side b L' A" by (simp add: set_a_side_def)
    ultimately show "mirrors (updates_of (match_msgs i cid sd coid moid qty x @ ms)) A (set_a_side b L' A) \<and>
        traceable (set_a_side b L' A)"
      using mirrors_append [OF mirrors_match [OF t A step.hyps(3)]] by simp
  qed
qed

lemma mirrors_view: "view B = view C \<Longrightarrow> mirrors us A B = mirrors us A C"
  by (simp add: mirrors_def)

lemma add_mirrors:
  assumes t: "traceable A" and keys: "keys_ok (unat (a_next_id A)) (a_orders A)" and room: "unat (a_next_id A) < MAX_NUM_ORDERS"
    and adm: "add_admissible cid coid sd price qty A" and a: "a_add cid coid sd price qty A = (A', ms)"
  shows "mirrors (updates_of ms) A A'"
proof -
  define b where "b = (sd = BUY)"
  let ?opp = "a_side (\<not> b) A" and ?own = "a_side b A"
  obtain left L ms1 where sw: "a_sweep (a_instrument A) cid coid (a_next_id A) sd price qty ?opp = (left, L, ms1)"
    by (metis prod_cases3)
  define A1 where "A1 = set_a_side (\<not> b) L A"
  have m1: "mirrors (updates_of ms1) A A1" using mirrors_sweep [OF sw] t unfolding A1_def by blast
  show ?thesis
  proof (cases "0 < left")
    case False
    then have "A' = A1\<lparr>a_next_id := a_next_id A + 1\<rparr>" "updates_of ms = updates_of ms1"
      using a sw by (auto simp: a_add_def b_def A1_def Let_def)
    then show ?thesis using m1 by simp
  next
    case True
    define x where "x = \<lparr>o_instrument_id = a_instrument A, o_client_id = cid, o_client_order_id = coid,
      o_market_order_id = a_next_id A, o_side = sd, o_price = price, o_qty = left, o_priority = a_priority price ?own\<rparr>"
    have A': "A' = set_a_side b (a_place sd x ?own) (A1\<lparr>a_next_id := a_next_id A + 1\<rparr>)"
      "updates_of ms = updates_of ms1 @ [order_update x (a_instrument A)]"
      using a sw True by (auto simp: a_add_def b_def A1_def Let_def x_def order_update_def)
    have own: "a_side b A1 = ?own" by (simp add: A1_def)
    have may: "may_rest cid coid sd price A1"
      using adm sw True by (auto simp: add_admissible_def b_def A1_def)
    have "mset (a_orders A) = mset (level_orders ?opp @ level_orders ?own)" using orders_by_side [of A "\<not> b"] by simp
    from keys_ok_reduced [OF sweep_front_first [OF sw] keys_ok_perm [OF this keys]]
    have "keys_ok (unat (a_next_id A)) (a_orders A1)"
      using keys_ok_perm orders_by_side [of A1 "\<not> b"] by (simp add: A1_def) (metis mset_append union_commute)
    moreover have id: "market_id x = unat (a_next_id A)" by (simp add: x_def market_id_def)
    ultimately have fresh: "market_id x \<notin> market_id ` set (a_orders A1)" by (auto simp: keys_ok_def list_all_iff)
    have x: "o_side x = sd" "o_price x = price" "(sd = BUY) = b" by (simp_all add: x_def b_def)
    have "market_id x < MAX_NUM_ORDERS" using room by (simp add: id)
    from mirrors_add [where x = x, unfolded x, OF may this fresh, of "a_instrument A"]
    have "mirrors [order_update x (a_instrument A)] A1 (set_a_side b (a_place sd x ?own) A1)" unfolding own .
    from mirrors_append [OF m1 this] show ?thesis unfolding A' by (subst mirrors_view) simp_all
  qed
qed

text \<open>The owner of a resting order and its market identifier name the same order.\<close>

lemma owner_is_id:
  assumes "traceable A" and keys: "keys_ok n (a_orders A)" and x: "a_find cid coid A = Some x"
  shows "x \<in> set (a_orders A)"
    and "y \<in> set (a_orders A) \<Longrightarrow> owned_by cid coid y \<longleftrightarrow> o_market_order_id y = o_market_order_id x"
proof -
  show xs: "x \<in> set (a_orders A)" using x by (auto simp: a_find_def find_Some_iff)
  have ow: "owned_by cid coid x" using x by (auto simp: a_find_def find_Some_iff)
  assume y: "y \<in> set (a_orders A)"
  have "inj_on (snd \<circ> okey) (set (a_orders A))" "inj_on market_id (set (a_orders A))"
    using keys assms(1) by (simp_all add: keys_ok_def traceable_def distinct_ids_def distinct_map)
  then have "(snd \<circ> okey) y = (snd \<circ> okey) x \<longleftrightarrow> y = x" "market_id y = market_id x \<longleftrightarrow> y = x"
    using xs y by (simp_all only: inj_on_eq_iff)
  then show "owned_by cid coid y \<longleftrightarrow> o_market_order_id y = o_market_order_id x"
    using ow unfolding owned_by_key by (auto simp: market_id_def)
qed

lemma delete_by_id: "(\<And>y. y \<in> set (level_orders L) \<Longrightarrow> owned_by cid coid y \<longleftrightarrow> o_market_order_id y = i) \<Longrightarrow>
    a_delete cid coid L = delete_id i L"
  by (induction L) (auto intro!: arg_cong [where f = "keep_level _"] filter_cong)

lemma set_qty_by_id: "(\<And>y. y \<in> set (level_orders L) \<Longrightarrow> owned_by cid coid y \<longleftrightarrow> o_market_order_id y = i) \<Longrightarrow>
    a_set_qty cid coid q L = set_qty_id i q L"
  by (induction L) (auto simp: a_set_qty_def)

lemma on_sides_cong:
  assumes "\<And>L. (\<And>y. y \<in> set (level_orders L) \<Longrightarrow> y \<in> set (a_orders A)) \<Longrightarrow> f L = g L"
  shows "on_sides f A = on_sides g A"
proof -
  have "f (a_bids A) = g (a_bids A)" "f (a_asks A) = g (a_asks A)" by (rule assms; simp add: a_orders_def)+
  then show ?thesis by (simp add: on_sides_def)
qed

lemma solid_delete: "solid (a_delete cid coid L)"
  by (induction L) auto

lemma cancel_mirrors:
  assumes t: "traceable A" and keys: "keys_ok n (a_orders A)" and a: "a_cancel cid coid A = (A', ms)"
  shows "mirrors (updates_of ms) A A' \<and> traceable A' \<and> keys_ok n (a_orders A')"
proof (cases "a_find cid coid A")
  case None
  then show ?thesis using a t keys by (auto simp: a_cancel_def rejected_def)
next
  case (Some x)
  note own = owner_is_id [OF t keys Some]
  obtain u where u: "updates_of ms = [u]" "mu_type u = MU_CANCEL" "mu_order_id u = o_market_order_id x"
    and A': "A' = on_sides (a_delete cid coid) A"
    using a Some by (auto simp: a_cancel_def on_sides_def)
  have "A' = on_sides (delete_id (o_market_order_id x)) A"
    unfolding A' by (rule on_sides_cong, rule delete_by_id, rule own(2))
  then have "mirrors (updates_of ms) A A'"
    using mirrors_cancel [OF _ own(1) u(2,3)] t by (simp add: u(1) traceable_def)
  moreover have orders: "a_orders A' = filter (\<lambda>x. \<not> owned_by cid coid x) (a_orders A)"
    by (simp add: A' on_sides_def a_orders_def orders_delete)
  moreover have "distinct_ids (filter P xs)" if "distinct_ids xs" for P xs
    using that by (simp add: distinct_ids_def distinct_map_filter)
  moreover have "solid (a_side b A')" for b by (simp add: A' on_sides_def a_side_def solid_delete)
  ultimately show ?thesis using t keys by (simp add: traceable_def keys_ok_filter)
qed

lemma modify_mirrors:
  assumes t: "traceable A" and keys: "keys_ok (unat (a_next_id A)) (a_orders A)" and room: "unat (a_next_id A) < MAX_NUM_ORDERS"
    and adm: "modify_admissible cid coid price qty A" and a: "a_modify cid coid price qty A = (A', ms)"
  shows "mirrors (updates_of ms) A A'"
proof (cases "a_find cid coid A")
  case None
  then show ?thesis using a by (auto simp: a_modify_def rejected_def)
next
  case (Some x)
  show ?thesis
  proof (cases "o_price x \<noteq> price \<or> o_qty x < qty")
    case True
    obtain A1 ms1 where c: "a_cancel cid coid A = (A1, ms1)" by fastforce
    obtain A2 ms2 where d: "a_add cid coid (o_side x) price qty A1 = (A2, ms2)" by fastforce
    have A': "A' = A2" "ms = ms1 @ ms2" using a Some True c d by (auto simp: a_modify_def)
    have next': "a_next_id A1 = a_next_id A" using c by (auto simp: a_cancel_def split: option.splits)
    from cancel_mirrors [OF t keys c] have f: "mirrors (updates_of ms1) A A1" "traceable A1"
      "keys_ok (unat (a_next_id A1)) (a_orders A1)" by (simp_all add: next')
    have "add_admissible cid coid (o_side x) price qty A1"
      using adm Some True c by (auto simp: modify_admissible_def)
    from add_mirrors [OF f(2,3) _ this d] room next' have "mirrors (updates_of ms2) A1 A2" by simp
    then show ?thesis using mirrors_append [OF f(1)] by (simp add: A')
  next
    case False
    note own = owner_is_id [OF t keys Some]
    obtain u where u: "updates_of ms = [u]" "mu_type u = MU_MODIFY" "mu_order_id u = o_market_order_id x"
      "mu_price u = o_price x" "mu_qty u = qty" and A': "A' = on_sides (a_set_qty cid coid qty) A"
      using a Some False by (auto simp: a_modify_def on_sides_def)
    have "A' = on_sides (set_qty_id (o_market_order_id x) qty) A"
      unfolding A' by (rule on_sides_cong, rule set_qty_by_id, rule own(2))
    then show ?thesis using mirrors_modify [OF _ own(1) u(2-5)] t by (simp add: u(1) traceable_def)
  qed
qed

section \<open>The engine's stream\<close>

lemma book_solid: "book_rel s G A \<Longrightarrow> solid (a_side b A)"
proof -
  assume rel: "book_rel s G A"
  then have lo: "levels_ok s G" and side: "a_side b A = abs_levels s (G b)"
    by (simp_all add: book_rel_def book_ok_def lists_ok_def)
  show "solid (a_side b A)" using levels_okD(1) [OF lo] by (auto simp: side solid_def abs_levels_def)
qed

lemma process_mirrors:
  assumes rel: "book_rel s G A" and adm: "admissible r As" and A: "A = As ! unat (rq_instrument_id r)"
    and d: "distinct_ids (a_orders A)" and keys: "keys_ok (unat (a_next_id A)) (a_orders A)"
    and a: "a_process r A = (A', ms)" and room: "unat (a_next_id A) < MAX_NUM_ORDERS"
  shows "mirrors (updates_of ms) A A'"
proof -
  have t: "traceable A" using d book_solid [OF rel] by (simp add: traceable_def)
  show ?thesis
  proof (cases "rq_type r")
    case REQ_NEW
    with adm a A have "add_admissible (rq_client_id r) (rq_order_id r) (rq_side r) (rq_price r) (rq_qty r) A"
      and "a_add (rq_client_id r) (rq_order_id r) (rq_side r) (rq_price r) (rq_qty r) A = (A', ms)"
      by (simp_all add: admissible_def a_process_def Let_def)
    then show ?thesis by (rule add_mirrors [OF t keys room])
  next
    case REQ_CANCEL
    with a show ?thesis using cancel_mirrors [OF t keys] by (auto simp: a_process_def)
  next
    case REQ_MODIFY
    with adm a A have "modify_admissible (rq_client_id r) (rq_order_id r) (rq_price r) (rq_qty r) A"
      and "a_modify (rq_client_id r) (rq_order_id r) (rq_price r) (rq_qty r) A = (A', ms)"
      by (simp_all add: admissible_def a_process_def Let_def)
    then show ?thesis by (rule modify_mirrors [OF t keys room])
  qed (use adm in \<open>simp_all add: admissible_def Let_def\<close>)
qed

definition of_instrument :: "instrument_id_t \<Rightarrow> market_update list \<Rightarrow> market_update list" where
  "of_instrument i = filter (\<lambda>u. mu_instrument_id u = i)"

lemma of_instrument_simps [simp]:
  "of_instrument i [] = []" "of_instrument i (us @ vs) = of_instrument i us @ of_instrument i vs"
  by (simp_all add: of_instrument_def)

definition about :: "instrument_id_t \<Rightarrow> out_msg list \<Rightarrow> bool" where
  "about i ms \<longleftrightarrow> (\<forall>u \<in> set (updates_of ms). mu_instrument_id u = i)"

lemma about_append [simp]: "about i (ms @ ns) \<longleftrightarrow> about i ms \<and> about i ns"
  by (auto simp: about_def)

lemma sweep_about: "a_sweep i cid coid moid sd price qty L = (left, L', ms) \<Longrightarrow> about i ms"
proof (induction rule: sweep_induct)
  case (step qty p x xs L left L' ms m)
  then show ?case by (simp add: updates_match_msgs about_def)
qed (simp add: about_def)

lemma add_about: "a_add cid coid sd price qty A = (A', ms) \<Longrightarrow> about (a_instrument A) ms"
  by (auto simp: a_add_def Let_def split: prod.splits if_splits dest!: sweep_about) (auto simp: about_def)

lemma cancel_about: "a_cancel cid coid A = (A', ms) \<Longrightarrow> about (a_instrument A) ms \<and> a_instrument A' = a_instrument A"
  by (auto simp: a_cancel_def rejected_def about_def split: option.splits)

lemma process_about: "a_process r A = (A', ms) \<Longrightarrow> about (a_instrument A) ms"
proof (cases "rq_type r")
  case REQ_MODIFY
  assume "a_process r A = (A', ms)"
  then have m: "a_modify (rq_client_id r) (rq_order_id r) (rq_price r) (rq_qty r) A = (A', ms)"
    using REQ_MODIFY by (simp add: a_process_def)
  show ?thesis
  proof (cases "a_find (rq_client_id r) (rq_order_id r) A")
    case None
    then show ?thesis using m by (auto simp: a_modify_def rejected_def about_def)
  next
    case (Some x)
    show ?thesis
    proof (cases "o_price x \<noteq> rq_price r \<or> o_qty x < rq_qty r")
      case True
      obtain A1 ms1 where c: "a_cancel (rq_client_id r) (rq_order_id r) A = (A1, ms1)" by fastforce
      obtain A2 ms2 where d: "a_add (rq_client_id r) (rq_order_id r) (o_side x) (rq_price r) (rq_qty r) A1 = (A2, ms2)"
        by fastforce
      have "ms = ms1 @ ms2" using m Some True c d by (auto simp: a_modify_def)
      then show ?thesis using cancel_about [OF c] add_about [OF d] by simp
    next
      case False
      then show ?thesis using m Some by (auto simp: a_modify_def about_def)
    qed
  qed
qed (auto simp: a_process_def about_def dest: add_about cancel_about)

lemma of_instrument_about:
  assumes "about j ms"
  shows "of_instrument i (updates_of ms) = (if i = j then updates_of ms else [])"
  using assms by (auto simp: of_instrument_def about_def filter_id_conv filter_empty_conv)

lemma instrument_inj:
  "i < MAX_NUM_INSTRUMENTS \<Longrightarrow> j < MAX_NUM_INSTRUMENTS \<Longrightarrow> (word_of_nat i :: instrument_id_t) = word_of_nat j \<longleftrightarrow> i = j"
  using instrument_index [of i] instrument_index [of j] by metis

lemma step_mirrors:
  assumes m: "mirror n T k As" and rel: "engine_rel me As" and adm: "admissible r As"
    and st: "a_step r As = (As', ms)" and n: "Suc n < MAX_NUM_ORDERS" and i: "i < MAX_NUM_INSTRUMENTS"
  shows "mirrors (of_instrument (word_of_nat i) (updates_of ms)) (As ! i) (As' ! i)"
proof -
  define j where "j = unat (rq_instrument_id r)"
  have j: "j < MAX_NUM_INSTRUMENTS" using adm by (simp add: admissible_def j_def)
  obtain A' where A': "a_process r (As ! j) = (A', ms)" "As' = As[j := A']"
    using st by (auto simp: a_step_def Let_def j_def split: prod.splits)
  obtain s G where book: "book_rel s G (As ! j)" using engine_rel_book [OF rel j] by blast
  have inst: "a_instrument (As ! j) = word_of_nat j" and keys: "keys_ok (unat (a_next_id (As ! j))) (a_orders (As ! j))"
    and nx: "unat (a_next_id (As ! j)) \<le> Suc n" and d: "distinct_ids (a_orders (As ! j))" and len: "length As = MAX_NUM_INSTRUMENTS"
    using m j by (simp_all add: mirror_def)
  have "mirrors (updates_of ms) (As ! j) A'"
    by (rule process_mirrors [OF book adm _ d keys A'(1)]) (use n nx in \<open>simp_all add: j_def\<close>)
  moreover have "of_instrument (word_of_nat i) (updates_of ms) = (if i = j then updates_of ms else [])"
    using of_instrument_about [OF process_about [OF A'(1)]] inst instrument_inj [OF i j] by simp
  ultimately show ?thesis using j len by (simp add: A'(2))
qed

lemma run_mirrors:
  "mirror n T k As \<Longrightarrow> engine_rel me As \<Longrightarrow> all_admissible rs As \<Longrightarrow> a_run rs As = (As', ms) \<Longrightarrow>
    n + length rs < MAX_NUM_ORDERS \<Longrightarrow> i < MAX_NUM_INSTRUMENTS \<Longrightarrow>
    mirrors (of_instrument (word_of_nat i) (updates_of ms)) (As ! i) (As' ! i)"
proof (induction rs arbitrary: n T k As me ms)
  case (Cons r rs)
  obtain As1 ms1 where st: "a_step r As = (As1, ms1)" by (cases "a_step r As")
  obtain ms2 where run: "a_run rs As1 = (As', ms2)" "ms = ms1 @ ms2"
    using Cons.prems(4) st by (auto split: prod.splits)
  have adm: "admissible r As" "all_admissible rs As1" using Cons.prems(3) st by simp_all
  have n: "Suc n < MAX_NUM_ORDERS" "Suc n + length rs < MAX_NUM_ORDERS" using Cons.prems(5) by simp_all
  have one: "mirror (Suc n) (fold apply_update (updates_of ms1) T) (foldl live_after k (updates_of ms1)) As1"
    using mirror_step [OF Cons.prems(1,2) adm(1) st n(1)] by blast
  obtain me' where "engine_rel me' As1" using process_client_request_ok [OF Cons.prems(2) adm(1) st] by blast
  from Cons.IH [OF one this adm(2) run(1) n(2) Cons.prems(6)]
    mirrors_append [OF step_mirrors [OF Cons.prems(1,2) adm(1) st n(1) Cons.prems(6)]]
  show ?case by (simp add: run(2))
qed simp

lemma day_mirrors:
  assumes "all_admissible rs a_engine_init" and "a_run rs a_engine_init = (As, ms)" and "length rs < MAX_NUM_ORDERS"
    and "i < MAX_NUM_INSTRUMENTS"
  shows "mirrors (of_instrument (word_of_nat i) (updates_of ms)) (a_init (word_of_nat i)) (As ! i)"
proof -
  obtain me where "engine_rel me a_engine_init" using engine_rel_init by blast
  from run_mirrors [OF mirror_init this assms(1,2) _ assms(4)] assms(3,4) show ?thesis by (simp add: a_engine_init_def)
qed

lemma view_init: "view (a_init i) = m_init i"
  by (simp add: view_def a_init_def m_init_def)

end
