(* ===== verification/ClientMirrorProperties.thy ===== *)
theory ClientMirrorProperties
  imports ClientMirror MarketOrderBookProperties BookProperties
begin

text \<open>
  What a trading client may rely on: its book stays well formed and its quotes are the book's,
  and a client that has received every update of an instrument holds the exchange's book of it.
\<close>

section \<open>One update\<close>

text \<open>
  C39: the client's heap stays well formed. If it represents an abstract book and the update is
  consistent with that book, \<open>on_market_update\<close> neither fails nor runs out of fuel, the heap
  afterwards represents the updated book (rings closed, index arrays exact, pools accounted
  for), the trade engine is told of it, and the best bid and offer change only on a side whose
  best level the update touches, where they become its first level's price and total quantity.
\<close>

theorem client_book_well_formed:
  assumes "client_rel s G M" and "m_consistent u M"
  shows "\<exists>s' G'. on_market_update u s = Inr (s', engine_told u) \<and> client_rel s' G' (m_apply u M) \<and>
    mb_bbo s' = m_bbo u M (mb_bbo s)"
  by (rule on_market_update_ok [OF assms])

definition second_bid :: market_update where
  "second_bid = sample_bid\<lparr>mu_order_id := 8, mu_qty := 5\<rparr>"

theorem client_book_well_formed_witness:
  "\<exists>b b1 b2 c. market_order_book_init 0 = Inr b \<and> on_market_update sample_bid b = Inr (b1, c) \<and>
    on_market_update second_bid b1 = Inr (b2, On_order_book_update 0 100 BUY) \<and>
    bid_price (mb_bbo b2) = 100 \<and> bid_qty (mb_bbo b2) = 15"
proof -
  obtain b where b: "market_order_book_init 0 = Inr b" "client_rel b (\<lambda>_. []) (m_init 0)"
    using market_order_book_init_ok by blast
  have c: "m_consistent sample_bid (m_init 0)" "m_consistent second_bid (m_apply sample_bid (m_init 0))"
    "bid_touched second_bid (m_apply sample_bid (m_init 0))" "\<not> ask_touched second_bid (m_apply sample_bid (m_init 0))"
    "quote (a_bids (m_apply second_bid (m_apply sample_bid (m_init 0)))) = (100, 15)"
    "mu_type second_bid = MU_ADD" "engine_told second_bid = On_order_book_update 0 100 BUY"
    by code_simp+
  obtain b1 G1 where b1: "on_market_update sample_bid b = Inr (b1, engine_told sample_bid)"
    "client_rel b1 G1 (m_apply sample_bid (m_init 0))" using client_book_well_formed [OF b(2) c(1)] by blast
  obtain b2 where "on_market_update second_bid b1 = Inr (b2, engine_told second_bid)"
    "mb_bbo b2 = m_bbo second_bid (m_apply sample_bid (m_init 0)) (mb_bbo b1)"
    using client_book_well_formed [OF b1(2) c(2)] by blast
  then show ?thesis using b(1) b1(1) c(3-7) by (auto simp: m_bbo_def Let_def)
qed

section \<open>A day\<close>

lemma client_follows_day:
  assumes "all_admissible rs a_engine_init" and "a_run rs a_engine_init = (As, ms)" and "length rs < MAX_NUM_ORDERS"
    and "i < MAX_NUM_INSTRUMENTS"
  shows "\<exists>b b' G. market_order_book_init (word_of_nat i) = Inr b \<and>
    replay (of_instrument (word_of_nat i) (updates_of ms)) b =
      Inr (b', map engine_told (of_instrument (word_of_nat i) (updates_of ms))) \<and>
    client_rel b' G (view (As ! i))"
proof -
  obtain b where b: "market_order_book_init (word_of_nat i) = Inr b" "client_rel b (\<lambda>_. []) (m_init (word_of_nat i))"
    using market_order_book_init_ok by blast
  from day_mirrors [OF assms] replay_ok [OF b(2)] show ?thesis
    unfolding mirrors_def view_init using b(1) by metis
qed

text \<open>
  The client's book is the exchange's. Take any day of fewer than 2048 admissible requests
  and any instrument. A client that starts with the day and is given the updates the engine
  publishes for that instrument, in order, follows all of them without a failure, and its heap
  then represents the exchange's book of the instrument: the same price levels in the same
  order, each with the same orders in the same queue, under their market identifiers, with their
  price, quantity and priority.
\<close>

theorem client_mirrors_exchange:
  assumes "all_admissible rs a_engine_init" and "a_run rs a_engine_init = (As, ms)" and "length rs < MAX_NUM_ORDERS"
    and "i < MAX_NUM_INSTRUMENTS"
  shows "\<exists>b b' G. market_order_book_init (word_of_nat i) = Inr b \<and>
    replay (of_instrument (word_of_nat i) (updates_of ms)) b =
      Inr (b', map engine_told (of_instrument (word_of_nat i) (updates_of ms))) \<and>
    client_rel b' G (view (As ! i))"
  using client_follows_day [OF assms] .

theorem client_mirrors_exchange_witness:
  "\<exists>b b' G cs. market_order_book_init 0 = Inr b \<and>
    replay (of_instrument 0 (updates_of (snd (a_run crossing_requests a_engine_init)))) b = Inr (b', cs) \<and>
    client_rel b' G (view (fst (a_run crossing_requests a_engine_init) ! 0))"
proof -
  have "all_admissible crossing_requests a_engine_init" "length crossing_requests < MAX_NUM_ORDERS" "0 < MAX_NUM_INSTRUMENTS"
    by code_simp+
  from client_mirrors_exchange [OF this(1) _ this(2,3), of "fst (a_run crossing_requests a_engine_init)"
      "snd (a_run crossing_requests a_engine_init)"]
  show ?thesis by (auto simp del: updates_of.simps)
qed

end
