(* ===== verification/Exchange.thy ===== *)
theory Exchange
  imports OrderServer MessageBound
begin

text \<open>
  \<open>src/src/main.cpp\<close>: the exchange as a whole. The three queues are created once and handed
  to the components by pointer, so the state holds each of them once, and a handler of a component
  runs with the queues it shares plugged in. The threads and event loops are a step relation: any
  handler of any component may run next. As in \<open>MarketDataFlow\<close> a handler is one step.
\<close>

section \<open>The components and their queues\<close>

text \<open>The queue of market updates is that of \<open>md_system\<close>.\<close>

record exchange =
  client_requests :: "client_request_internal lock_free_queue"
  client_responses :: "client_response_internal lock_free_queue"
  ex_engine :: matching_engine
  ex_server :: order_server
  ex_market_data :: md_system

definition exchange_init :: "exchange result" where
  "exchange_init =
     (let client_requests = lock_free_queue_init MAX_CLIENT_UPDATES default_client_request;
          client_responses = lock_free_queue_init MAX_CLIENT_UPDATES default_client_response;
          market_updates = lock_free_queue_init MAX_MARKET_UPDATES default_market_update
      in rbind (matching_engine_init client_requests client_responses market_updates) (\<lambda>engine.
         rbind (order_server_init client_requests client_responses) (\<lambda>server.
         rbind md_init (\<lambda>market_data.
           Inr \<lparr>client_requests = client_requests, client_responses = client_responses,
                ex_engine = start_engine engine, ex_server = start_server server, ex_market_data = market_data\<rparr>))))"

definition with_engine :: "(matching_engine \<Rightarrow> matching_engine result) \<Rightarrow> exchange \<Rightarrow> exchange result" where
  "with_engine f x =
     rbind (f ((ex_engine x)\<lparr>matching_engine.incoming_requests := client_requests x,
         me_handler := \<lparr>outgoing_responses = client_responses x,
           outgoing_market_updates = market_updates (ex_market_data x)\<rparr>\<rparr>)) (\<lambda>engine.
       Inr (x\<lparr>ex_engine := engine, client_requests := matching_engine.incoming_requests engine,
         client_responses := outgoing_responses (me_handler engine),
         ex_market_data := (ex_market_data x)\<lparr>market_updates := outgoing_market_updates (me_handler engine)\<rparr>\<rparr>))"

definition with_server :: "(order_server \<Rightarrow> order_server result) \<Rightarrow> exchange \<Rightarrow> exchange result" where
  "with_server f x =
     rbind (f ((ex_server x)\<lparr>order_server.incoming_requests := client_requests x,
         matching_engine_responses := client_responses x\<rparr>)) (\<lambda>server.
       Inr (x\<lparr>ex_server := server, client_requests := order_server.incoming_requests server,
         client_responses := matching_engine_responses server\<rparr>))"

definition with_market_data :: "(md_system \<Rightarrow> md_system result) \<Rightarrow> exchange \<Rightarrow> exchange result" where
  "with_market_data f x = rbind (f (ex_market_data x)) (\<lambda>m. Inr (x\<lparr>ex_market_data := m\<rparr>))"

section \<open>The handlers as steps\<close>

text \<open>
  A step is labelled with the requests the server hands to the engine in it, and with the engine's
  responses the server distributes. A handler that fails ends the program, so it is no step.
\<close>

inductive ex_step :: "(timed_client_request list \<Rightarrow> timed_client_request list) \<Rightarrow> bool \<Rightarrow> exchange \<Rightarrow>
    client_request_internal list \<Rightarrow> client_response_internal list \<Rightarrow> exchange \<Rightarrow> bool" for srt be where
  connect: "with_server (on_new_connection status acc) x = Inr x' \<Longrightarrow> ex_step srt be x [] [] x'"
| read: "with_server (on_read be c r now) x = Inr x' \<Longrightarrow> ex_step srt be x [] [] x'"
| check: "with_server (Inr \<circ> on_check srt) x = Inr x' \<Longrightarrow>
    ex_step srt be x (map request (srt (pending (fifo (ex_server x))))) [] x'"
| engine: "with_engine run_step x = Inr x' \<Longrightarrow> ex_step srt be x [] [] x'"
| respond: "with_server (process_responses 1 be) x = Inr x' \<Longrightarrow>
    ex_step srt be x [] (if order_server.running (ex_server x) then queue_items (client_responses x) else []) x'"
| flush: "with_server (write_message c) x = Inr x' \<Longrightarrow> ex_step srt be x [] [] x'"
| written: "with_server (on_write status writer) x = Inr x' \<Longrightarrow> ex_step srt be x [] [] x'"
| publish: "with_market_data (run_publisher be) x = Inr x' \<Longrightarrow> ex_step srt be x [] [] x'"
| synthesize: "with_market_data run_synthesizer x = Inr x' \<Longrightarrow> ex_step srt be x [] [] x'"
| snapshot: "with_market_data (run_timer be) x = Inr x' \<Longrightarrow> ex_step srt be x [] [] x'"

inductive_cases ex_stepE [consumes 1, case_names connect read check engine respond flush written publish synthesize snapshot]:
  "ex_step srt be x rs ts x'"

inductive ex_run :: "(timed_client_request list \<Rightarrow> timed_client_request list) \<Rightarrow> bool \<Rightarrow>
    client_request_internal list \<Rightarrow> client_response_internal list \<Rightarrow> exchange \<Rightarrow> bool" for srt be where
  start: "exchange_init = Inr x \<Longrightarrow> ex_run srt be [] [] x"
| step: "ex_run srt be rs ts x \<Longrightarrow> ex_step srt be x rs' ts' x' \<Longrightarrow> ex_run srt be (rs @ rs') (ts @ ts') x'"

section \<open>What the server leaves alone\<close>

text \<open>The handlers that neither publish requests nor take responses do not touch the shared queues.\<close>

definition shares :: "order_server \<Rightarrow> order_server \<Rightarrow> bool" where
  "shares s s' \<longleftrightarrow> order_server.incoming_requests s' = order_server.incoming_requests s \<and>
     matching_engine_responses s' = matching_engine_responses s"

lemma shares_refl [simp]: "shares s s"
  by (simp add: shares_def)

lemma shares_trans: "shares s t \<Longrightarrow> shares t u \<Longrightarrow> shares s u"
  by (simp add: shares_def)

lemma shares_update [simp]:
  "shares s (t\<lparr>client_connections := c\<rparr>) = shares s t" "shares s (t\<lparr>fifo := f\<rparr>) = shares s t"
  "shares s (t\<lparr>client_next_incoming_seq_num := n\<rparr>) = shares s t"
  "shares s (t\<lparr>client_next_outgoing_seq_num := n\<rparr>) = shares s t" "shares s (t\<lparr>server_responses := q\<rparr>) = shares s t"
  "shares s (t\<lparr>writer_pool := p\<rparr>) = shares s t" "shares s (t\<lparr>next_client_id := k\<rparr>) = shares s t"
  "shares (s\<lparr>client_connections := c\<rparr>) t = shares s t"
  by (simp_all add: shares_def)

lemma push_shares [simp]: "shares s (push_server_response r t) = shares s t"
  by (simp add: push_server_response_def)

lemma on_new_connection_shares: "on_new_connection status acc s = Inr s' \<Longrightarrow> shares s s'"
  by (auto simp: on_new_connection_def handle_new_connection_def send_connection_accepted_response_def Let_def
      split: if_splits)

lemma receive_request_shares: "receive_request c t x s = Inr s' \<Longrightarrow> shares s s'"
  by (auto simp: receive_request_def send_invalid_response_def Let_def rbind_Inr_iff split: if_splits)

lemma read_requests_shares: "read_requests be c t buf n i s = Inr (k, s') \<Longrightarrow> shares s s'"
proof (induction be c t buf n i s rule: read_requests.induct)
  case (1 be c t buf n i s)
  show ?case
  proof (cases "i + sizeof_client_request_external \<le> n")
    case True
    then obtain s1 where s1: "\<not> TCP_BUFFER_SIZE < i + sizeof_client_request_external"
      "receive_request c t (deserialize_client_request be i buf) s = Inr s1"
      "read_requests be c t buf n (i + sizeof_client_request_external) s1 = Inr (k, s')"
      using "1.prems" by (subst (asm) read_requests.simps) (auto simp: rbind_Inr_iff split: if_splits)
    from shares_trans [OF receive_request_shares [OF s1(2)] "1.IH" [OF True s1(1,2,3)]] show ?thesis .
  qed (use "1.prems" in \<open>simp add: read_requests.simps\<close>)
qed

lemma on_read_shares: "on_read be c r now s = Inr s' \<Longrightarrow> shares s s'"
  by (auto simp: on_read_def read_data_def Let_def rbind_Inr_iff
      split: option.splits read_result.splits if_splits dest!: read_requests_shares)

lemma write_message_shares: "write_message c s = Inr s' \<Longrightarrow> shares s s'"
  by (auto simp: write_message_def rbind_Inr_iff split: option.splits)

lemma on_write_shares: "on_write status writer s = Inr s' \<Longrightarrow> shares s s'"
  by (auto simp: on_write_def rbind_Inr_iff split: if_splits)

lemma process_response_shares: "process_response be r s = Inr s' \<Longrightarrow> shares s s'"
  by (auto simp: process_response_def Let_def rbind_Inr_iff split: if_splits option.splits)

lemma process_responses_helper_shares:
  "process_responses_helper be q s = Inr (q', s') \<Longrightarrow> shares s s' \<and> q_size q' = q_size q \<and>
    (queue_inv q \<longrightarrow> queue_inv q' \<and> queue_items q' = [])"
proof (induction be q s rule: process_responses_helper.induct)
  case (1 be q s)
  show ?case
  proof (cases "get_next_read_element q")
    case None
    then show ?thesis using "1.prems" by (auto simp: process_responses_helper.simps lfq.peek_None_iff)
  next
    case (Some r)
    then obtain s1 where s1: "process_response be r s = Inr s1" "process_responses_helper be (next_read_index q) s1 = Inr (q', s')"
      using "1.prems" by (subst (asm) process_responses_helper.simps) (auto simp: rbind_Inr_iff)
    from "1.IH" [OF Some s1] process_response_shares [OF s1(1)] show ?thesis
      by (auto simp: queue_inv_next_read_index intro: shares_trans)
  qed
qed

text \<open>The two handlers that use the shared queues.\<close>

lemma on_check_queues:
  assumes "std_sort srt"
  shows "order_server.incoming_requests (on_check srt s) =
      fold enqueue (map request (srt (pending (fifo s)))) (order_server.incoming_requests s)"
    and "matching_engine_responses (on_check srt s) = matching_engine_responses s"
proof -
  have len: "length (srt (pending (fifo s))) = pending_size (fifo s)" using assms by simp
  then have "srt (pending (fifo s)) = []" if "is_empty (fifo s)" using that by (simp add: is_empty_def)
  then show "order_server.incoming_requests (on_check srt s) =
      fold enqueue (map request (srt (pending (fifo s)))) (order_server.incoming_requests s)"
    using sequence_and_publish_eq(1) [of srt "fifo s", OF len] by (auto simp: on_check_def case_prod_beta')
  show "matching_engine_responses (on_check srt s) = matching_engine_responses s"
    by (simp add: on_check_def case_prod_beta' Let_def)
qed

lemma process_responses_queues:
  assumes "process_responses 1 be s = Inr s'" and "order_server.running s"
    and "queue_inv (matching_engine_responses s)"
  shows "order_server.incoming_requests s' = order_server.incoming_requests s"
    and "queue_inv (matching_engine_responses s')" and "queue_items (matching_engine_responses s') = []"
    and "q_size (matching_engine_responses s') = q_size (matching_engine_responses s)"
proof -
  obtain q1 s1 q2 s2 where h: "process_responses_helper be (server_responses s) s = Inr (q1, s1)"
    "process_responses_helper be (matching_engine_responses (s1\<lparr>server_responses := q1\<rparr>)) (s1\<lparr>server_responses := q1\<rparr>) = Inr (q2, s2)"
    "s' = s2\<lparr>matching_engine_responses := q2\<rparr>"
    using assms(1,2) by (auto simp: process_responses_turn_def Let_def rbind_Inr_iff)
  have s1: "shares s s1" using process_responses_helper_shares [OF h(1)] by simp
  then have "queue_inv (matching_engine_responses (s1\<lparr>server_responses := q1\<rparr>))" using assms(3) by (simp add: shares_def)
  with process_responses_helper_shares [OF h(2)] have p: "shares (s1\<lparr>server_responses := q1\<rparr>) s2" "queue_inv q2"
    "queue_items q2 = []" "q_size q2 = q_size (matching_engine_responses (s1\<lparr>server_responses := q1\<rparr>))" by blast+
  show "order_server.incoming_requests s' = order_server.incoming_requests s"
    and "queue_inv (matching_engine_responses s')" and "queue_items (matching_engine_responses s') = []"
    and "q_size (matching_engine_responses s') = q_size (matching_engine_responses s)"
    using p s1 h(3) by (simp_all add: shares_def)
qed

end
