(* ===== verification/ExchangeProperties.thy ===== *)
theory ExchangeProperties
  imports Exchange MarketDataProperties OrderServerProperties
begin

text \<open>
  The exchange as a whole: whatever the scheduling of its threads, the engine works off the
  requests the server hands over, once and in order, no queue between the components is overrun,
  and what the clients and the market see is the run of the abstract engine.
\<close>

section \<open>The invariant of every interleaving\<close>

definition ex_queues :: "exchange \<Rightarrow> bool" where
  "ex_queues x \<longleftrightarrow> queue_inv (client_requests x) \<and> q_size (client_requests x) = MAX_CLIENT_UPDATES \<and>
     queue_inv (client_responses x) \<and> q_size (client_responses x) = MAX_CLIENT_UPDATES"

definition ex_inv :: "bool \<Rightarrow> client_request_internal list \<Rightarrow> client_response_internal list \<Rightarrow> exchange \<Rightarrow> bool" where
  "ex_inv be rs ts x \<longleftrightarrow> ex_queues x \<and>
     (\<exists>processed As ms. rs = processed @ queue_items (client_requests x) \<and> a_run processed a_engine_init = (As, ms) \<and>
       engine_rel (ex_engine x) As \<and> responses_of ms = ts @ queue_items (client_responses x) \<and>
       md_run be (updates_of ms) (ex_market_data x))"

lemma ex_inv_obtain:
  assumes "ex_inv be rs ts x"
  obtains processed As ms where "rs = processed @ queue_items (client_requests x)" and "a_run processed a_engine_init = (As, ms)"
    and "engine_rel (ex_engine x) As" and "responses_of ms = ts @ queue_items (client_responses x)"
    and "md_run be (updates_of ms) (ex_market_data x)"
  using assms unfolding ex_inv_def by blast

lemma ex_inv_server [simp]: "ex_inv be rs ts (x\<lparr>ex_server := s\<rparr>) = ex_inv be rs ts x"
  by (simp add: ex_inv_def ex_queues_def)

lemma with_server_shares:
  assumes "with_server f x = Inr x'" and "\<And>s s'. f s = Inr s' \<Longrightarrow> shares s s'"
  shows "x' = x\<lparr>ex_server := ex_server x'\<rparr>"
  using assms(1) by (auto simp: with_server_def rbind_Inr_iff shares_def dest!: assms(2))

lemma exchange_init_ok:
  "\<exists>x. exchange_init = Inr x \<and> client_requests x = lock_free_queue_init MAX_CLIENT_UPDATES default_client_request \<and>
    client_responses x = lock_free_queue_init MAX_CLIENT_UPDATES default_client_response \<and>
    engine_rel (ex_engine x) a_engine_init \<and> md_init = Inr (ex_market_data x) \<and>
    (\<exists>server. order_server_init (client_requests x) (client_responses x) = Inr server \<and> ex_server x = start_server server)"
proof -
  let ?rq = "lock_free_queue_init MAX_CLIENT_UPDATES default_client_request"
  let ?rs = "lock_free_queue_init MAX_CLIENT_UPDATES default_client_response"
  obtain e where e: "matching_engine_init ?rq ?rs (lock_free_queue_init MAX_MARKET_UPDATES default_market_update) = Inr e"
    "engine_rel e a_engine_init" using matching_engine_init_ok by blast
  have "0 < MAX_BUFFERED_RESPONSE" by (simp add: model_constants)
  then obtain s where s: "order_server_init ?rq ?rs = Inr s" by (simp add: order_server_init_def memory_pool_init_eq)
  obtain t where t: "snapshot_synthesizer_init = Inr t" using snapshot_synthesizer_init_ok by blast
  have "\<exists>m. md_init = Inr m" unfolding md_init_def t by simp
  then obtain m where m: "md_init = Inr m" by blast
  have e': "engine_rel (start_engine e) a_engine_init" using e(2) by (simp add: engine_rel_def start_engine_def)
  have "exchange_init = Inr \<lparr>client_requests = ?rq, client_responses = ?rs, ex_engine = start_engine e, ex_server = start_server s,
      ex_market_data = m\<rparr>" unfolding exchange_init_def Let_def e(1) s m by simp
  then show ?thesis using e' s m by (intro exI conjI) (assumption | simp)+
qed

lemma ex_inv_start:
  assumes "exchange_init = Inr x"
  shows "ex_inv be [] [] x"
proof -
  have c: "0 < MAX_CLIENT_UPDATES" by (simp add: model_constants)
  have i: "client_requests x = lock_free_queue_init MAX_CLIENT_UPDATES default_client_request"
    "client_responses x = lock_free_queue_init MAX_CLIENT_UPDATES default_client_response"
    "engine_rel (ex_engine x) a_engine_init" "md_init = Inr (ex_market_data x)"
    using exchange_init_ok unfolding assms Inr_inject by blast+
  then show ?thesis using md_run.start [OF i(4), of be] c by (simp add: ex_inv_def ex_queues_def queue_init_inv)
qed

lemma md_run_sends:
  assumes "md_run be us s" and "all_consistent 0 (us @ vs) no_updates" and "length (us @ vs) \<le> MAX_MARKET_UPDATES"
  shows "md_run be (us @ vs) (s\<lparr>market_updates := fold enqueue vs (market_updates s)\<rparr>)"
  using assms
proof (induction vs arbitrary: us s)
  case (Cons v vs)
  let ?s = "s\<lparr>market_updates := enqueue v (market_updates s)\<rparr>"
  have "all_consistent 0 us no_updates" using Cons.prems(2) by simp
  then have "q_num_elements (market_updates s) < q_size (market_updates s)"
    using md_run_inv [OF Cons.prems(1)] Cons.prems(3)
    by (auto simp: md_inv_def md_wf_def md_split_def simp flip: length_queue_items)
  then have "md_run be (us @ [v]) ?s" using md_run.step [OF Cons.prems(1) md_step.engine] by simp
  from Cons.IH [OF this] Cons.prems(2,3) show ?case by simp
qed simp

text \<open>A turn of the engine cannot fail, and moves one request from the queue to the books.\<close>

lemma ex_inv_engine:
  assumes inv: "ex_inv be rs ts x" and day: "day rs"
  shows "\<exists>x'. with_engine run_step x = Inr x' \<and> ex_inv be rs ts x' \<and>
    queue_items (client_requests x') = tl (queue_items (client_requests x))"
proof -
  obtain processed As ms where h: "rs = processed @ queue_items (client_requests x)" "a_run processed a_engine_init = (As, ms)"
    "engine_rel (ex_engine x) As" "responses_of ms = ts @ queue_items (client_responses x)"
    "md_run be (updates_of ms) (ex_market_data x)" using ex_inv_obtain [OF inv] by metis
  have q: "ex_queues x" using inv by (simp add: ex_inv_def)
  let ?mh = "\<lparr>outgoing_responses = client_responses x, outgoing_market_updates = market_updates (ex_market_data x)\<rparr>"
  let ?e = "(ex_engine x)\<lparr>matching_engine.incoming_requests := client_requests x, me_handler := ?mh\<rparr>"
  have e: "engine_rel ?e As" using h(3) by (simp add: engine_rel_def)
  then have run: "matching_engine.running ?e" by (simp add: engine_rel_def)
  show ?thesis
  proof (cases "queue_items (client_requests x)")
    case Nil
    then have "run_step ?e = Inr ?e" using q run by (simp add: run_step_def get_next_read_element_items ex_queues_def)
    then have "with_engine run_step x = Inr (x\<lparr>ex_engine := ?e\<rparr>)" by (simp add: with_engine_def)
    moreover have "ex_inv be rs ts (x\<lparr>ex_engine := ?e\<rparr>)" using h q e Nil unfolding ex_inv_def ex_queues_def by auto
    ultimately show ?thesis using Nil by simp
  next
    case (Cons r rest)
    obtain As1 ns where st: "a_step r As = (As1, ns)" by force
    have more: "day (processed @ [r])" "a_run (processed @ [r]) a_engine_init = (As1, ms @ ns)"
      using day day_prefix [of "processed @ [r]" rest] h(1,2) st Cons by (simp_all add: a_run_append)
    then have "admissible r As" using h(2) by (simp add: day_def all_admissible_append)
    from process_client_request_ok [OF e this st] obtain e1 where e1: "process_client_request r ?e = Inr e1" "engine_rel e1 As1"
      "me_handler e1 = sends ns ?mh" "matching_engine.incoming_requests e1 = client_requests x" by auto
    let ?e' = "e1\<lparr>matching_engine.incoming_requests := next_read_index (client_requests x)\<rparr>"
    have "run_step ?e = Inr ?e'"
      using q run Cons e1(1,4) by (simp add: run_step_def get_next_read_element_items ex_queues_def)
    then have w: "with_engine run_step x = Inr (x\<lparr>ex_engine := ?e', client_requests := next_read_index (client_requests x),
        client_responses := fold enqueue (responses_of ns) (client_responses x),
        ex_market_data := (ex_market_data x)\<lparr>market_updates := fold enqueue (updates_of ns) (market_updates (ex_market_data x))\<rparr>\<rparr>)"
      (is "_ = Inr ?x") by (simp add: with_engine_def e1(3) sends_queues)
    have fits: "length (responses_of (ms @ ns)) \<le> MAX_CLIENT_UPDATES" "length (updates_of (ms @ ns)) \<le> MAX_MARKET_UPDATES"
      using day_fits_queues [OF more] by auto
    have resp: "length (queue_items (client_responses x)) + length (responses_of ns) \<le> q_size (client_responses x)"
      using fits(1) h(4) q by (simp add: ex_queues_def del: length_queue_items)
    note p = lfq.fold_put [OF _ resp]
    have "all_consistent 0 (updates_of (ms @ ns)) no_updates" by (rule day_consistent [OF more])
    then have "md_run be (updates_of (ms @ ns)) (ex_market_data ?x)"
      using md_run_sends [OF h(5), of "updates_of ns"] fits(2) by simp
    moreover have "queue_items (client_requests ?x) = rest" "ex_queues ?x"
      using q Cons p by (simp_all add: ex_queues_def queue_items_next_read_index queue_inv_next_read_index)
    moreover have "engine_rel (ex_engine ?x) As1" using e1(2) by (simp add: engine_rel_def)
    moreover have "responses_of (ms @ ns) = ts @ queue_items (client_responses ?x)" using h(4) p q by (simp add: ex_queues_def)
    ultimately have "ex_inv be rs ts ?x" unfolding ex_inv_def using more(2) h(1) Cons by (metis append.assoc append_Cons append_Nil)
    then show ?thesis using w Cons q by (simp add: ex_queues_def queue_items_next_read_index)
  qed
qed

lemma ex_inv_market_data:
  assumes inv: "ex_inv be rs ts x" and day: "day rs" and w: "with_market_data f x = Inr x'"
    and f: "\<And>us m m'. md_run be us m \<Longrightarrow> all_consistent 0 us no_updates \<Longrightarrow> length us \<le> MAX_MARKET_UPDATES \<Longrightarrow>
      f m = Inr m' \<Longrightarrow> md_run be us m'"
  shows "ex_inv be rs ts x'"
proof -
  obtain processed As ms where h: "rs = processed @ queue_items (client_requests x)" "a_run processed a_engine_init = (As, ms)"
    "engine_rel (ex_engine x) As" "responses_of ms = ts @ queue_items (client_responses x)"
    "md_run be (updates_of ms) (ex_market_data x)" using ex_inv_obtain [OF inv] by metis
  obtain m' where m': "f (ex_market_data x) = Inr m'" "x' = x\<lparr>ex_market_data := m'\<rparr>"
    using w by (auto simp: with_market_data_def rbind_Inr_iff)
  have "day processed" using day_prefix day h(1) by metis
  from f [OF h(5) day_consistent [OF this h(2)] day_fits_queues(2) [OF this h(2)] m'(1)]
  show ?thesis using h inv m'(2) by (auto simp: ex_inv_def ex_queues_def)
qed

lemma md_run_publisher:
  assumes "md_run be us m" and "all_consistent 0 us no_updates" and "length us \<le> MAX_MARKET_UPDATES" and "run_publisher be m = Inr m'"
  shows "md_run be us m'"
  using md_run.step [OF assms(1) md_step.publisher [OF md_inv_room [OF md_run_inv [OF assms(1,2)] assms(3)] assms(4)]] by simp

lemma md_run_quiet:
  "md_run be us m \<Longrightarrow> run_synthesizer m = Inr m' \<Longrightarrow> md_run be us m'"
  "md_run be us m \<Longrightarrow> run_timer be m = Inr m' \<Longrightarrow> md_run be us m'"
  using md_run.step [OF _ md_step.synthesizer, of be us m m'] md_run.step [OF _ md_step.timer, of be us m m']
  by simp_all

lemma ex_inv_check:
  assumes inv: "ex_inv be rs ts x" and srt: "std_sort srt" and w: "with_server (Inr \<circ> on_check srt) x = Inr x'"
    and room: "length (rs @ rs') \<le> MAX_CLIENT_UPDATES" and rs': "rs' = map request (srt (pending (fifo (ex_server x))))"
  shows "ex_inv be (rs @ rs') ts x'"
proof -
  have x': "x' = x\<lparr>ex_server := ex_server x', client_requests := fold enqueue rs' (client_requests x)\<rparr>"
    using w on_check_queues [OF srt] by (auto simp: with_server_def rs')
  obtain processed As ms where h: "rs = processed @ queue_items (client_requests x)" "a_run processed a_engine_init = (As, ms)"
    "engine_rel (ex_engine x) As" "responses_of ms = ts @ queue_items (client_responses x)"
    "md_run be (updates_of ms) (ex_market_data x)" using ex_inv_obtain [OF inv] by metis
  have q: "ex_queues x" using inv by (simp add: ex_inv_def)
  have "length (queue_items (client_requests x)) + length rs' \<le> q_size (client_requests x)"
    using room h(1) q by (simp add: ex_queues_def del: length_queue_items)
  with lfq.fold_put [of "client_requests x" rs'] q have p: "queue_items (client_requests x') = queue_items (client_requests x) @ rs'"
    "ex_queues x'" by (subst x', simp add: ex_queues_def)+
  have "engine_rel (ex_engine x') As" "responses_of ms = ts @ queue_items (client_responses x')"
    "md_run be (updates_of ms) (ex_market_data x')" using h(3-5) by (subst x', simp)+
  then show ?thesis unfolding ex_inv_def using p h(1,2) by (metis append.assoc)
qed

lemma ex_inv_respond:
  assumes inv: "ex_inv be rs ts x" and w: "with_server (process_responses 1 be) x = Inr x'"
  shows "ex_inv be rs (ts @ (if order_server.running (ex_server x) then queue_items (client_responses x) else [])) x'"
proof (cases "order_server.running (ex_server x)")
  case False
  then have "x' = x\<lparr>ex_server := ex_server x'\<rparr>" using w by (auto simp: with_server_def)
  then show ?thesis using inv False by (metis append_Nil2 ex_inv_server)
next
  case True
  have q: "ex_queues x" using inv by (simp add: ex_inv_def)
  let ?s = "(ex_server x)\<lparr>order_server.incoming_requests := client_requests x, matching_engine_responses := client_responses x\<rparr>"
  obtain s' where s': "process_responses 1 be ?s = Inr s'" "x' = x\<lparr>ex_server := s', client_requests := order_server.incoming_requests s',
      client_responses := matching_engine_responses s'\<rparr>"
    using w by (auto simp: with_server_def rbind_Inr_iff)
  have "order_server.running ?s" "queue_inv (matching_engine_responses ?s)" using True q by (simp_all add: ex_queues_def)
  note p = process_responses_queues [OF s'(1) this]
  obtain processed As ms where h: "rs = processed @ queue_items (client_requests x)" "a_run processed a_engine_init = (As, ms)"
    "engine_rel (ex_engine x) As" "responses_of ms = ts @ queue_items (client_responses x)"
    "md_run be (updates_of ms) (ex_market_data x)" using ex_inv_obtain [OF inv] by metis
  show ?thesis using h p q True unfolding ex_inv_def ex_queues_def s'(2) by auto
qed

lemma ex_inv_step:
  assumes inv: "ex_inv be rs ts x" and st: "ex_step srt be x rs' ts' x'" and srt: "std_sort srt" and day: "day (rs @ rs')"
  shows "ex_inv be (rs @ rs') (ts @ ts') x'"
proof -
  have quiet: "ex_inv be rs ts x'" if w: "with_server f x = Inr x'" and f: "\<And>s s'. f s = Inr s' \<Longrightarrow> shares s s'" for f
    using inv ex_inv_server [of be rs ts "ex_server x'" x] with_server_shares [OF w f] by simp
  have d: "day rs" using day_prefix [OF day] .
  from st show ?thesis
  proof (cases rule: ex_stepE)
    case connect
    then show ?thesis using quiet on_new_connection_shares by simp
  next
    case read
    then show ?thesis using quiet on_read_shares by simp
  next
    case check
    then show ?thesis using ex_inv_check [OF inv srt check(3) _ check(1)] day by (simp add: day_def model_constants)
  next
    case engine
    then show ?thesis using ex_inv_engine [OF inv d] by simp
  next
    case respond
    then show ?thesis using ex_inv_respond [OF inv] by simp
  next
    case flush
    then show ?thesis using quiet write_message_shares by simp
  next
    case written
    then show ?thesis using quiet on_write_shares by simp
  next
    case publish
    then show ?thesis using ex_inv_market_data [OF inv d publish(3)] md_run_publisher by simp
  next
    case synthesize
    then show ?thesis using ex_inv_market_data [OF inv d synthesize(3)] md_run_quiet(1) by simp
  next
    case snapshot
    then show ?thesis using ex_inv_market_data [OF inv d snapshot(3)] md_run_quiet(2) by simp
  qed
qed

lemma ex_run_inv: "ex_run srt be rs ts x \<Longrightarrow> std_sort srt \<Longrightarrow> day rs \<Longrightarrow> ex_inv be rs ts x"
proof (induction rule: ex_run.induct)
  case (start x)
  then show ?case using ex_inv_start by blast
next
  case (step rs ts x rs' ts' x')
  then show ?case using ex_inv_step day_prefix by metis
qed

section \<open>Any schedule\<close>

text \<open>
  C11: the exchange behaves as the abstract engine under every schedule. Let the threads have run
  in any order, with any reads, connections and write completions, and let the requests handed to
  the engine so far be a day of fewer than 2048 admissible ones. Then the engine has processed a
  prefix of them and the rest waits in its queue, in order; its books represent the abstract
  books after that prefix; the responses it sent are exactly those the server has distributed
  followed by those that wait; the market data threads are in a state that its updates lead to;
  and its next turn does not fail.
\<close>

theorem exchange_follows_engine:
  assumes "ex_run srt be rs ts x" and "std_sort srt" and "all_admissible rs a_engine_init" and "length rs < MAX_NUM_ORDERS"
  shows "\<exists>processed As ms. rs = processed @ queue_items (client_requests x) \<and> a_run processed a_engine_init = (As, ms) \<and>
    engine_rel (ex_engine x) As \<and> responses_of ms = ts @ queue_items (client_responses x) \<and>
    md_run be (updates_of ms) (ex_market_data x) \<and> (\<exists>x'. with_engine run_step x = Inr x')"
proof -
  have day: "day rs" using assms(3,4) by (simp add: day_def)
  have inv: "ex_inv be rs ts x" by (rule ex_run_inv [OF assms(1,2) day])
  obtain x' where "with_engine run_step x = Inr x'" using ex_inv_engine [OF inv day] by blast
  with inv show ?thesis unfolding ex_inv_def by blast
qed

text \<open>A client connects and sends two orders, which the server hands to the engine.\<close>

definition two_orders :: "client_request_internal list" where
  "two_orders = map rqx_request [sample_order 1, sample_order 2]"

lemma two_orders_day: "all_admissible two_orders a_engine_init" "length two_orders < MAX_NUM_ORDERS"
  by code_simp+

lemma two_orders_run: "\<exists>x. ex_run (sort_key recv_time) be two_orders [] x"
proof -
  obtain x0 server where x0: "exchange_init = Inr x0" "order_server_init (client_requests x0) (client_responses x0) = Inr server"
    "ex_server x0 = start_server server" using exchange_init_ok by blast
  have s0: "client_connections (ex_server x0) = (\<lambda>_. None)" "next_client_id (ex_server x0) = 0"
    "fifo (ex_server x0) = fifo_sequencer_init" "client_next_incoming_seq_num (ex_server x0) = (\<lambda>_. 1)"
    using x0(2,3) by (auto simp: start_server_def order_server_init_def rbind_Inr_iff)
  obtain x1 where x1: "with_server (on_new_connection 0 True) x0 = Inr x1"
    "client_connections (ex_server x1) 0 = Some tcp_connection_init" "fifo (ex_server x1) = fifo_sequencer_init"
    "client_next_incoming_seq_num (ex_server x1) 0 = 1"
    by (simp add: with_server_def on_new_connection_def handle_new_connection_def send_connection_accepted_response_def
        push_server_response_def Let_def s0 model_constants)
  let ?s = "(ex_server x1)\<lparr>order_server.incoming_requests := client_requests x1, matching_engine_responses := client_responses x1\<rparr>"
  let ?xs = "[sample_order 1, sample_order 2]"
  have "client_connections ?s 0 = Some tcp_connection_init" "next_rcv_valid_index tcp_connection_init = 0" "?xs \<noteq> []"
    "list_all wire_request ?xs" "length ?xs * sizeof_client_request_external \<le> TCP_BUFFER_SIZE"
    "list_all (\<lambda>x. unat (rq_client_id (rqx_request x)) < MAX_NUM_CLIENTS) ?xs"
    "pending_size (fifo ?s) + length ?xs \<le> MAX_PENDING_REQUESTS"
    using x1 by (simp_all add: tcp_connection_init_def model_constants sizeof_defs)
  from on_read_messages [OF this, of be 5] obtain b s2 where s2:
    "on_read be 0 (Received (concat (map request_bytes ?xs))) 5 ?s = Inr s2" and r: "received 0 (5 * NANOS_PER_MILLIS) ?xs
      (?s\<lparr>client_connections := (client_connections ?s)(0 := Some (tcp_connection_init\<lparr>inbound_data := b, next_rcv_valid_index := 0\<rparr>))\<rparr>) s2"
    by blast
  have pend: "map request (sort_key recv_time (pending (fifo s2))) = two_orders"
    using received_facts(1) [OF r] x1(3,4) by (simp add: in_sequence_def two_orders_def)
  obtain x2 where x2: "with_server (on_read be 0 (Received (concat (map request_bytes ?xs))) 5) x1 = Inr x2" "ex_server x2 = s2"
  proof
    show "with_server (on_read be 0 (Received (concat (map request_bytes ?xs))) 5) x1 =
      Inr (x1\<lparr>ex_server := s2, client_requests := order_server.incoming_requests s2,
        client_responses := matching_engine_responses s2\<rparr>)" unfolding with_server_def s2 by simp
  qed simp
  obtain x3 where x3: "with_server (Inr \<circ> on_check (sort_key recv_time)) x2 = Inr x3" by (simp add: with_server_def)
  have "ex_run (sort_key recv_time) be [] [] x2"
    using ex_run.step [OF ex_run.step [OF ex_run.start [OF x0(1)] ex_step.connect [OF x1(1)]] ex_step.read [OF x2(1)]] by simp
  from ex_run.step [OF this ex_step.check [OF x3]] show ?thesis using pend x2(2) by auto
qed

theorem exchange_follows_engine_witness:
  "\<exists>x x'. ex_run (sort_key recv_time) True two_orders [] x \<and> with_engine run_step x = Inr x' \<and>
    (\<exists>processed. two_orders = processed @ queue_items (client_requests x))"
proof -
  obtain x where "ex_run (sort_key recv_time) True two_orders [] x" using two_orders_run by blast
  with exchange_follows_engine [OF this std_sort_sort_key two_orders_day] show ?thesis by blast
qed

section \<open>Coming to rest\<close>

fun engine_turns :: "nat \<Rightarrow> exchange \<Rightarrow> exchange result" where
  "engine_turns 0 x = Inr x"
| "engine_turns (Suc n) x = rbind (with_engine run_step x) (engine_turns n)"

lemma engine_turns_ok:
  assumes "ex_run srt be rs ts x" and "std_sort srt" and "day rs"
  shows "\<exists>x'. engine_turns (length (queue_items (client_requests x))) x = Inr x' \<and> ex_run srt be rs ts x' \<and>
    queue_items (client_requests x') = []"
  using assms(1)
proof (induction "queue_items (client_requests x)" arbitrary: x)
  case Nil
  then show ?case by (metis engine_turns.simps(1) list.size(3))
next
  case (Cons r q)
  obtain x1 where x1: "with_engine run_step x = Inr x1" "queue_items (client_requests x1) = q"
    using ex_inv_engine [OF ex_run_inv [OF Cons.prems assms(2,3)] assms(3)] Cons.hyps(2) by (metis list.sel(3))
  have "ex_run srt be rs ts x1" using ex_run.step [OF Cons.prems ex_step.engine [OF x1(1)]] by simp
  from Cons.hyps(1) [OF x1(2) [symmetric] this] x1 show ?case
    unfolding Cons.hyps(2) [symmetric] by (simp del: length_queue_items)
qed

lemma exchange_rests:
  assumes "ex_run srt be rs ts x" and "std_sort srt" and "day rs" and "a_run rs a_engine_init = (As, ms)"
  shows "\<exists>x1 x2 x3. engine_turns (length (queue_items (client_requests x))) x = Inr x1 \<and>
    with_market_data (run_publisher be) x1 = Inr x2 \<and> with_market_data run_synthesizer x2 = Inr x3 \<and>
    ex_run srt be rs ts x3 \<and> queue_items (client_requests x3) = [] \<and> queue_items (market_updates (ex_market_data x3)) = [] \<and>
    engine_rel (ex_engine x3) As \<and> responses_of ms = ts @ queue_items (client_responses x3) \<and>
    table_of (synthesizer (ex_market_data x3)) = fold apply_update (updates_of ms) no_updates"
proof -
  obtain x1 where x1: "engine_turns (length (queue_items (client_requests x))) x = Inr x1" "ex_run srt be rs ts x1"
    "queue_items (client_requests x1) = []" using engine_turns_ok [OF assms(1-3)] by blast
  have inv: "engine_rel (ex_engine x1) As" "responses_of ms = ts @ queue_items (client_responses x1)"
    "md_run be (updates_of ms) (ex_market_data x1)"
    using ex_inv_obtain [OF ex_run_inv [OF x1(2) assms(2,3)]] x1(3) assms(4) by (metis append_Nil2 prod.inject)+
  obtain m2 m3 where m: "run_publisher be (ex_market_data x1) = Inr m2" "run_synthesizer m2 = Inr m3"
    "queue_items (market_updates m3) = []" "table_of (synthesizer m3) = fold apply_update (updates_of ms) no_updates"
    using md_run_drain [OF inv(3) day_consistent [OF assms(3,4)] day_fits_queues(2) [OF assms(3,4)]] by blast
  have w: "with_market_data (run_publisher be) x1 = Inr (x1\<lparr>ex_market_data := m2\<rparr>)"
    "with_market_data run_synthesizer (x1\<lparr>ex_market_data := m2\<rparr>) = Inr (x1\<lparr>ex_market_data := m3\<rparr>)"
    by (simp_all add: with_market_data_def m(1,2))
  have "ex_run srt be rs ts (x1\<lparr>ex_market_data := m3\<rparr>)"
    using ex_run.step [OF ex_run.step [OF x1(2) ex_step.publish [OF w(1)]] ex_step.synthesize [OF w(2)]] by simp
  then show ?thesis using x1 w inv(1,2) m(3,4) by auto
qed

text \<open>
  C12: the exchange comes to rest. From every state that any schedule leads to, as many turns of
  the engine as requests wait, one turn of the publisher and one of the synthesizer all return and
  lead to a state of the same run where no request and no update waits: the books represent the
  abstract books after all the requests, every response has been distributed or waits for the
  server, and the snapshot table holds for each instrument exactly its resting orders.
\<close>

theorem exchange_comes_to_rest:
  assumes "ex_run srt be rs ts x" and "std_sort srt" and "all_admissible rs a_engine_init" and "length rs < MAX_NUM_ORDERS"
    and "a_run rs a_engine_init = (As, ms)"
  shows "\<exists>x1 x2 x3. engine_turns (length (queue_items (client_requests x))) x = Inr x1 \<and>
    with_market_data (run_publisher be) x1 = Inr x2 \<and> with_market_data run_synthesizer x2 = Inr x3 \<and>
    ex_run srt be rs ts x3 \<and> queue_items (client_requests x3) = [] \<and> queue_items (market_updates (ex_market_data x3)) = [] \<and>
    engine_rel (ex_engine x3) As \<and> responses_of ms = ts @ queue_items (client_responses x3) \<and>
    (\<forall>i < MAX_NUM_INSTRUMENTS. table_of (synthesizer (ex_market_data x3)) i =
      map_of (map (\<lambda>o'. (unat (o_market_order_id o'), order_update o' (word_of_nat i))) (a_orders (As ! i))))"
proof -
  have "day rs" using assms(3,4) by (simp add: day_def)
  from exchange_rests [OF assms(1,2) this assms(5)] obtain x1 x2 x3 where
    h: "engine_turns (length (queue_items (client_requests x))) x = Inr x1" "with_market_data (run_publisher be) x1 = Inr x2"
      "with_market_data run_synthesizer x2 = Inr x3" "ex_run srt be rs ts x3" "queue_items (client_requests x3) = []"
      "queue_items (market_updates (ex_market_data x3)) = []" "engine_rel (ex_engine x3) As"
      "responses_of ms = ts @ queue_items (client_responses x3)"
      "table_of (synthesizer (ex_market_data x3)) = fold apply_update (updates_of ms) no_updates" by blast
  have "table_of (synthesizer (ex_market_data x3)) i = map_of (map (\<lambda>o'. (unat (o_market_order_id o'), order_update o' (word_of_nat i))) (a_orders (As ! i)))"
    if "i < MAX_NUM_INSTRUMENTS" for i
    using stream_mirrors(2) [OF assms(3,5,4) that] h(9) by (simp add: live_orders_def market_id_def)
  with h(1-8) show ?thesis by blast
qed

theorem exchange_comes_to_rest_witness:
  "\<exists>x x1. ex_run (sort_key recv_time) True two_orders [] x \<and>
    engine_turns (length (queue_items (client_requests x))) x = Inr x1 \<and>
    (\<exists>x2 x3. with_market_data (run_publisher True) x1 = Inr x2 \<and> with_market_data run_synthesizer x2 = Inr x3 \<and>
      map_option mu_qty (table_of (synthesizer (ex_market_data x3)) 0 2) = Some 10 \<and> queue_items (client_requests x3) = [])"
proof -
  obtain x where x: "ex_run (sort_key recv_time) True two_orders [] x" using two_orders_run by blast
  define As ms where "As = fst (a_run two_orders a_engine_init)" and "ms = snd (a_run two_orders a_engine_init)"
  have run: "a_run two_orders a_engine_init = (As, ms)" by (simp add: As_def ms_def)
  have q: "map_option mu_qty (map_of (map (\<lambda>o'. (unat (o_market_order_id o'), order_update o' (word_of_nat 0))) (a_orders (As ! 0))) 2) = Some 10"
    unfolding As_def by code_simp
  have pos: "0 < MAX_NUM_INSTRUMENTS" by (simp add: model_constants)
  obtain x1 x2 x3 where h: "engine_turns (length (queue_items (client_requests x))) x = Inr x1"
    "with_market_data (run_publisher True) x1 = Inr x2" "with_market_data run_synthesizer x2 = Inr x3"
    "queue_items (client_requests x3) = []"
    "\<forall>i < MAX_NUM_INSTRUMENTS. table_of (synthesizer (ex_market_data x3)) i =
      map_of (map (\<lambda>o'. (unat (o_market_order_id o'), order_update o' (word_of_nat i))) (a_orders (As ! i)))"
    using exchange_comes_to_rest [OF x std_sort_sort_key two_orders_day run] by blast
  have "map_option mu_qty (table_of (synthesizer (ex_market_data x3)) 0 2) = Some 10"
    using h(5) [rule_format, OF pos] q by (simp only:)
  with x h(1-4) show ?thesis by blast
qed

end
