(* ===== verification/DayUpdates.thy ===== *)
theory DayUpdates
  imports FeedHandlerProperties MessageBound
begin

text \<open>
  What the updates of a day look like: they have the types and sides that can be encoded, their
  instruments exist, and a condition on the prices of all requests holds for the prices of all
  updates.
\<close>

text \<open>
  Orders and updates take their sides and prices from requests. A side decoded from a byte is
  never an unknown value that has a name; \<open>P\<close> is any condition on prices.
\<close>

definition request_side_ok :: "client_request_internal \<Rightarrow> bool" where
  "request_side_ok r \<longleftrightarrow> wire_side (rq_side r)"

definition request_fits :: "(price_t \<Rightarrow> bool) \<Rightarrow> client_request_internal \<Rightarrow> bool" where
  "request_fits P r \<longleftrightarrow> request_side_ok r \<and> (rq_type r = REQ_CANCEL \<or> P (rq_price r))"

definition order_fits :: "(price_t \<Rightarrow> bool) \<Rightarrow> order_info \<Rightarrow> bool" where
  "order_fits P x \<longleftrightarrow> wire_side (o_side x) \<and> P (o_price x)"

definition orders_fit :: "(price_t \<Rightarrow> bool) \<Rightarrow> order_info list \<Rightarrow> bool" where
  "orders_fit P = list_all (order_fits P)"

definition update_fits :: "(price_t \<Rightarrow> bool) \<Rightarrow> market_update \<Rightarrow> bool" where
  "update_fits P u \<longleftrightarrow> update_ok u \<and> P (mu_price u)"

definition messages_fit :: "(price_t \<Rightarrow> bool) \<Rightarrow> out_msg list \<Rightarrow> bool" where
  "messages_fit P ms \<longleftrightarrow> list_all (update_fits P) (updates_of ms)"

lemma orders_fit_simps [simp]:
  "orders_fit P []" "orders_fit P (x # xs) \<longleftrightarrow> order_fits P x \<and> orders_fit P xs"
  "orders_fit P (xs @ ys) \<longleftrightarrow> orders_fit P xs \<and> orders_fit P ys"
  by (simp_all add: orders_fit_def)

lemma messages_fit_append [simp]: "messages_fit P [] " "messages_fit P (ms @ ns) \<longleftrightarrow> messages_fit P ms \<and> messages_fit P ns"
  by (simp_all add: messages_fit_def update_fits_def)

lemma sweep_sides:
  "a_sweep i cid coid moid sd price qty L = (left, L', ms) \<Longrightarrow> wire_side sd \<Longrightarrow> orders_fit P (level_orders L) \<Longrightarrow>
    messages_fit P ms \<and> orders_fit P (level_orders L')"
proof (induction rule: sweep_induct)
  case (step qty p x xs L left L' ms m)
  then show ?case by (auto simp: updates_match_msgs messages_fit_def update_fits_def update_ok_def order_fits_def after_match_def keep_level_def split: if_splits)
qed (simp_all add: messages_fit_def update_fits_def)

lemma orders_fit_subset: "orders_fit P ys \<Longrightarrow> set xs \<subseteq> set ys \<Longrightarrow> orders_fit P xs"
  by (auto simp: orders_fit_def order_fits_def list_all_iff)

definition book_fits :: "(price_t \<Rightarrow> bool) \<Rightarrow> abook \<Rightarrow> bool" where
  "book_fits P A \<longleftrightarrow> orders_fit P (a_orders A)"

lemma book_fits_iff: "book_fits P A \<longleftrightarrow> orders_fit P (level_orders (a_side b A)) \<and> orders_fit P (level_orders (a_side (\<not> b) A))"
  by (cases b) (auto simp: book_fits_def a_orders_def a_side_def)

lemma place_sides:
  "order_fits P x \<Longrightarrow> orders_fit P (level_orders L) \<Longrightarrow> orders_fit P (level_orders (a_place sd x L))"
  by (auto simp: a_place_def orders_fit_def list_all_iff split: if_splits)

lemma add_sides:
  assumes "a_add cid coid sd price qty A = (A', ms)" and "wire_side sd" and "P price" and "book_fits P A"
  shows "messages_fit P ms \<and> book_fits P A'"
proof -
  obtain left L ns where sw: "a_sweep (a_instrument A) cid coid (a_next_id A) sd price qty (a_side (sd \<noteq> BUY) A) = (left, L, ns)"
    by (metis prod_cases3)
  note s = sweep_sides [OF sw assms(2)] assms(4) [unfolded book_fits_iff [of P _ "sd = BUY"]]
  then have L: "messages_fit P ns" "orders_fit P (level_orders L)" "orders_fit P (level_orders (a_side (sd = BUY) A))" by simp_all
  show ?thesis using assms(1) sw L place_sides assms(2,3)
    by (auto simp: a_add_def Let_def order_fits_def book_fits_iff [of P _ "sd = BUY"] messages_fit_def update_fits_def update_ok_def split: if_splits)
qed

lemma delete_sides: "orders_fit P (level_orders L) \<Longrightarrow> orders_fit P (level_orders (a_delete cid coid L))"
  using orders_fit_subset [OF _ filter_is_subset] by (simp only: orders_delete)

lemma find_side: "a_find cid coid A = Some x \<Longrightarrow> book_fits P A \<Longrightarrow> order_fits P x"
  by (auto simp: a_find_def find_Some_iff book_fits_def orders_fit_def list_all_iff)

lemma cancel_sides:
  assumes "a_cancel cid coid A = (A', ms)" and "book_fits P A"
  shows "messages_fit P ms \<and> book_fits P A'"
proof (cases "a_find cid coid A")
  case (Some x)
  show ?thesis using assms Some find_side [OF Some assms(2)] delete_sides
    by (auto simp: a_cancel_def order_fits_def book_fits_def a_orders_def messages_fit_def update_fits_def update_ok_def)
qed (use assms in \<open>auto simp: a_cancel_def rejected_def messages_fit_def update_fits_def\<close>)

lemma set_qty_sides: "orders_fit P (level_orders L) \<Longrightarrow> orders_fit P (level_orders (a_set_qty cid coid q L))"
  by (auto simp: a_set_qty_def orders_fit_def order_fits_def list_all_iff)

lemma modify_sides:
  assumes "a_modify cid coid price qty A = (A', ms)" and "book_fits P A" and "P price"
  shows "messages_fit P ms \<and> book_fits P A'"
proof (cases "a_find cid coid A")
  case (Some x)
  note x = find_side [OF Some assms(2)]
  show ?thesis
  proof (cases "o_price x \<noteq> price \<or> o_qty x < qty")
    case True
    obtain A1 ms1 where c: "a_cancel cid coid A = (A1, ms1)" by fastforce
    obtain A2 ms2 where d: "a_add cid coid (o_side x) price qty A1 = (A2, ms2)" by fastforce
    have "ms = ms1 @ ms2" "A' = A2" using assms(1) Some True c d by (auto simp: a_modify_def)
    then show ?thesis using cancel_sides [OF c assms(2)] add_sides [OF d, of P] x assms(3) by (simp add: order_fits_def)
  next
    case False
    then show ?thesis using assms Some x set_qty_sides
      by (auto simp: a_modify_def order_fits_def messages_fit_def update_fits_def update_ok_def book_fits_def a_orders_def)
  qed
qed (use assms in \<open>auto simp: a_modify_def rejected_def messages_fit_def update_fits_def\<close>)

lemma process_sides:
  assumes "a_process r A = (A', ms)" and "request_fits P r" and "book_fits P A"
  shows "messages_fit P ms \<and> book_fits P A'"
  using assms add_sides [of "rq_client_id r" "rq_order_id r" "rq_side r" "rq_price r" "rq_qty r" A A' ms]
    cancel_sides [of "rq_client_id r" "rq_order_id r" A A' ms]
    modify_sides [of "rq_client_id r" "rq_order_id r" "rq_price r" "rq_qty r" A A' ms]
  by (cases "rq_type r") (auto simp: a_process_def request_fits_def request_side_ok_def)

lemma run_sides:
  "a_run rs As = (As', ms) \<Longrightarrow> all_admissible rs As \<Longrightarrow> length As = MAX_NUM_INSTRUMENTS \<Longrightarrow>
    list_all (request_fits P) rs \<Longrightarrow> list_all (book_fits P) As \<Longrightarrow> messages_fit P ms"
proof (induction rs arbitrary: As ms)
  case (Cons r rs)
  let ?i = "unat (rq_instrument_id r)"
  have i: "?i < length As" using Cons.prems(2,3) by (simp add: admissible_def)
  obtain A' ms1 where a: "a_process r (As ! ?i) = (A', ms1)" by force
  have st: "a_step r As = (As[?i := A'], ms1)" using a by (simp add: a_step_def)
  obtain ms2 where run: "a_run rs (As[?i := A']) = (As', ms2)" "ms = ms1 @ ms2"
    using Cons.prems(1) st by (auto split: prod.splits)
  have "messages_fit P ms1" "book_fits P A'"
    using process_sides [OF a] Cons.prems(4,5) i by (auto simp: list_all_length)
  moreover from this have "list_all (book_fits P) (As[?i := A'])"
    using Cons.prems(5) set_update_subset_insert [of As ?i A'] by (auto simp: list_all_iff)
  ultimately show ?case using Cons.IH [OF run(1)] Cons.prems(2-4) st run(2) by simp
qed simp

lemma day_fits:
  assumes "a_run rs a_engine_init = (As, ms)" and "day rs" and "list_all (request_fits P) rs"
  shows "list_all (update_fits P) (updates_of ms)"
proof -
  have "list_all (book_fits P) a_engine_init"
    by (simp add: a_engine_init_def list_all_length book_fits_def a_init_def a_orders_def)
  moreover have "length a_engine_init = MAX_NUM_INSTRUMENTS" by (simp add: a_engine_init_def)
  ultimately have "messages_fit P ms" using run_sides [OF assms(1)] assms(2,3) by (simp add: day_def)
  then show ?thesis by (simp add: messages_fit_def)
qed

lemma day_updates_ok:
  assumes "a_run rs a_engine_init = (As, ms)" and "day rs" and "list_all request_side_ok rs"
  shows "list_all update_ok (updates_of ms)"
proof -
  have "list_all (request_fits (\<lambda>_. True)) rs" using assms(3) by (simp add: list_all_iff request_fits_def)
  from day_fits [OF assms(1,2) this] show ?thesis by (simp add: list_all_iff update_fits_def)
qed

text \<open>Every update names an instrument of the exchange.\<close>

lemma consistent_instrument: "all_consistent k us T \<Longrightarrow> u \<in> set us \<Longrightarrow> unat (mu_instrument_id u) < MAX_NUM_INSTRUMENTS"
  by (induction us arbitrary: k T) (auto simp: consistent_def Let_def)

end
