(* ===== verification/DayStream.thy ===== *)
theory DayStream
  imports ExchangeProperties DayUpdates ClientMirrorProperties
begin

text \<open>
  The market data of a day, from the requests that arrive at the order server to the books of a
  trading client: every update of an exchange run can be encoded, the datagrams sent are the
  published updates in order with consecutive numbers, and a client that receives all of them
  ends with the exchange's books.
\<close>

section \<open>What the server hands over came off the wire\<close>

definition pending_ok :: "order_server \<Rightarrow> bool" where
  "pending_ok s \<longleftrightarrow> list_all (\<lambda>t. request_side_ok (request t)) (pending (fifo s))"

lemma pending_ok_fifo: "fifo s' = fifo s \<Longrightarrow> pending_ok s' = pending_ok s"
  by (simp add: pending_ok_def)

lemma push_fifo [simp]: "fifo (push_server_response r s) = fifo s"
  by (simp add: push_server_response_def)

lemma on_new_connection_fifo: "on_new_connection status acc s = Inr s' \<Longrightarrow> fifo s' = fifo s"
  by (auto simp: on_new_connection_def handle_new_connection_def send_connection_accepted_response_def Let_def
      split: if_splits)

lemma write_message_fifo: "write_message c s = Inr s' \<Longrightarrow> fifo s' = fifo s"
  by (auto simp: write_message_def rbind_Inr_iff split: option.splits)

lemma on_write_fifo: "on_write status writer s = Inr s' \<Longrightarrow> fifo s' = fifo s"
  by (auto simp: on_write_def rbind_Inr_iff split: if_splits)

lemma process_response_fifo: "process_response be r s = Inr s' \<Longrightarrow> fifo s' = fifo s"
  by (auto simp: process_response_def Let_def rbind_Inr_iff split: if_splits option.splits)

lemma process_responses_helper_fifo: "process_responses_helper be q s = Inr (q', s') \<Longrightarrow> fifo s' = fifo s"
proof (induction be q s rule: process_responses_helper.induct)
  case (1 be q s)
  show ?case
  proof (cases "get_next_read_element q")
    case (Some r)
    then obtain s1 where s1: "process_response be r s = Inr s1" "process_responses_helper be (next_read_index q) s1 = Inr (q', s')"
      using "1.prems" by (subst (asm) process_responses_helper.simps) (auto simp: rbind_Inr_iff)
    from "1.IH" [OF Some s1] process_response_fifo [OF s1(1)] show ?thesis by simp
  qed (use "1.prems" in \<open>simp add: process_responses_helper.simps\<close>)
qed

lemma process_responses_fifo: "process_responses 1 be s = Inr s' \<Longrightarrow> fifo s' = fifo s"
  by (auto simp: process_responses_turn_def Let_def rbind_Inr_iff dest!: process_responses_helper_fifo split: if_splits)

lemma add_request_pending: "add_request t r f = Inr g \<Longrightarrow> pending g = pending f @ [\<lparr>recv_time = t, request = r\<rparr>]"
  by (rule add_request_ok [of f t r]) (auto simp: add_request_def split: if_splits)

lemma receive_request_pending:
  "receive_request c t x s = Inr s' \<Longrightarrow> wire_request x \<Longrightarrow> pending_ok s \<Longrightarrow> pending_ok s'"
  by (auto simp: receive_request_def send_invalid_response_def Let_def rbind_Inr_iff pending_ok_def request_side_ok_def
      wire_request_def dest!: add_request_pending split: if_splits)

lemma read_requests_pending: "read_requests be c t buf n i s = Inr (k, s') \<Longrightarrow> pending_ok s \<Longrightarrow> pending_ok s'"
proof (induction be c t buf n i s rule: read_requests.induct)
  case (1 be c t buf n i s)
  show ?case
  proof (cases "i + sizeof_client_request_external \<le> n")
    case True
    then obtain s1 where s1: "\<not> TCP_BUFFER_SIZE < i + sizeof_client_request_external"
      "receive_request c t (deserialize_client_request be i buf) s = Inr s1"
      "read_requests be c t buf n (i + sizeof_client_request_external) s1 = Inr (k, s')"
      using "1.prems" by (subst (asm) read_requests.simps) (auto simp: rbind_Inr_iff split: if_splits)
    from "1.IH" [OF True s1(1,2,3)] receive_request_pending [OF s1(2)] "1.prems"(2) show ?thesis by simp
  qed (use "1.prems" in \<open>simp add: read_requests.simps\<close>)
qed

lemma read_data_pending: "read_data be c t s = Inr s' \<Longrightarrow> pending_ok s \<Longrightarrow> pending_ok s'"
  by (auto simp: read_data_def rbind_Inr_iff pending_ok_def split: option.splits if_splits dest!: read_requests_pending [unfolded pending_ok_def])

lemma on_read_pending:
  assumes "on_read be c r now s = Inr s'" and "pending_ok s"
  shows "pending_ok s'"
proof (cases "s' = s")
  case False
  then obtain conn where "read_data be c (now * NANOS_PER_MILLIS) (s\<lparr>client_connections := conn\<rparr>) = Inr s'"
    using assms(1) by (auto simp: on_read_def Let_def split: option.splits read_result.splits if_splits)
  from read_data_pending [OF this] assms(2) show ?thesis by (simp add: pending_ok_def)
qed (use assms in simp)

lemma on_check_pending: "std_sort srt \<Longrightarrow> pending_ok s \<Longrightarrow> pending_ok (on_check srt s)"
  by (auto simp: on_check_def case_prod_beta' Let_def pending_ok_def sequence_and_publish_eq)

lemma with_server_pending:
  assumes "with_server f x = Inr x'" and "pending_ok (ex_server x)"
    and "\<And>s s'. f s = Inr s' \<Longrightarrow> pending_ok s \<Longrightarrow> pending_ok s'"
  shows "pending_ok (ex_server x')"
proof -
  let ?s = "(ex_server x)\<lparr>order_server.incoming_requests := client_requests x, matching_engine_responses := client_responses x\<rparr>"
  obtain s' where "f ?s = Inr s'" "ex_server x' = s'" using assms(1) by (auto simp: with_server_def rbind_Inr_iff)
  moreover have "pending_ok ?s" using assms(2) by (simp add: pending_ok_def)
  ultimately show ?thesis using assms(3) by blast
qed

lemma published_requests_ok:
  assumes "std_sort srt" and "pending_ok s"
  shows "list_all request_side_ok (map request (srt (pending (fifo s))))"
proof -
  have "set (srt (pending (fifo s))) = set (pending (fifo s))"
    using assms(1) unfolding std_sort_def by (metis set_mset_mset)
  then show ?thesis using assms(2) by (simp add: pending_ok_def list_all_iff)
qed

lemma ex_run_requests:
  "ex_run srt be rs ts x \<Longrightarrow> std_sort srt \<Longrightarrow> list_all request_side_ok rs \<and> pending_ok (ex_server x)"
proof (induction rule: ex_run.induct)
  case (start x)
  then have "fifo (ex_server x) = fifo_sequencer_init"
    by (auto simp: exchange_init_def Let_def rbind_Inr_iff start_server_def order_server_init_def)
  then show ?case by (simp add: pending_ok_def)
next
  case (step rs ts x rs' ts' x')
  then have ok: "list_all request_side_ok rs" "pending_ok (ex_server x)" by simp_all
  note w = with_server_pending [OF _ ok(2)]
  have quiet: "pending_ok (ex_server x')" if "with_server f x = Inr x'" and "\<And>s s'. f s = Inr s' \<Longrightarrow> fifo s' = fifo s" for f
    using w [OF that(1)] that(2) pending_ok_fifo by blast
  have "list_all request_side_ok rs' \<and> pending_ok (ex_server x')"
    using step.hyps(2)
  proof (cases rule: ex_stepE)
    case connect
    then show ?thesis using quiet [OF connect(3) on_new_connection_fifo] by simp
  next
    case read
    then show ?thesis using w [OF read(3) on_read_pending] by simp
  next
    case check
    then show ?thesis using w [OF check(3)] on_check_pending [OF step.prems] published_requests_ok [OF step.prems ok(2)] by auto
  next
    case respond
    then show ?thesis using quiet [OF respond(3) process_responses_fifo] by simp
  next
    case flush
    then show ?thesis using quiet [OF flush(3) write_message_fifo] by simp
  next
    case written
    then show ?thesis using quiet [OF written(3) on_write_fifo] by simp
  qed (use ok in \<open>auto simp: with_engine_def with_market_data_def rbind_Inr_iff\<close>)
  then show ?case using ok(1) by simp
qed

section \<open>The datagrams are the published updates\<close>

lemma published_stream:
  "md_run be us s \<Longrightarrow> all_consistent 0 us no_updates \<Longrightarrow>
    \<exists>dss published. us = published @ queue_items (market_updates s) \<and> sent (publisher s) = map datagram dss \<and>
      concat dss = numbered 1 published"
proof (induction rule: md_run.induct)
  case (start s)
  then have "sent (publisher s) = []" "queue_items (market_updates s) = []"
    by (auto simp: md_init_def rbind_Inr_iff market_data_publisher_init_def)
  then show ?case by (intro exI [of _ "[]"]) simp
next
  case (step us s vs s')
  have c: "all_consistent 0 us no_updates" using step.prems by simp
  obtain dss published where ih: "us = published @ queue_items (market_updates s)" "sent (publisher s) = map datagram dss"
    "concat dss = numbered 1 published" using step.IH [OF c] by blast
  have inv: "md_inv us s" by (rule md_run_inv [OF step.hyps(1) c])
  then obtain seen waiting where wf: "md_wf s" and us: "us = seen @ waiting @ queue_items (market_updates s)"
    and split: "md_split seen waiting (queue_items (market_updates s)) s"
    by (rule md_inv_obtain) (auto simp: md_split_def)
  from step.hyps(2) show ?case
  proof (cases rule: md_stepE)
    case (engine u)
    then show ?thesis using ih wf by (auto simp: queue_items_enqueue md_wf_def)
  next
    case publisher
    let ?q = "queue_items (market_updates s)"
    have p: "published = seen @ waiting" using ih(1) us by simp
    have n: "next_inc_seq_num (publisher s) = 1 + word_of_nat (length published)"
      using split p by (simp add: md_split_def add.assoc)
    have s': "queue_items (market_updates s') = []" "sent (publisher s') = sent (publisher s) @
        (if ?q = [] then [] else [datagram (numbered (next_inc_seq_num (publisher s)) ?q)])"
      using md_inv_publisher [OF inv publisher(2), of be] publisher(3) by auto
    let ?new = "if ?q = [] then [] else [numbered (1 + word_of_nat (length published)) ?q]"
    have "sent (publisher s') = map datagram (dss @ ?new)" "concat (dss @ ?new) = numbered 1 us"
      using s'(2) ih n by (simp_all add: numbered_append)
    then show ?thesis using s'(1) publisher(1) by (intro exI [of _ "dss @ ?new"] exI [of _ us]) simp
  qed (use ih in \<open>auto simp: run_synthesizer_def run_timer_def rbind_Inr_iff\<close>)
qed

section \<open>The client's feed\<close>

lemma numbered_split:
  "numbered n us = ds @ rest \<Longrightarrow> \<exists>us1 us2. us = us1 @ us2 \<and> ds = numbered n us1 \<and> rest = numbered (n + word_of_nat (length us1)) us2"
proof (induction us arbitrary: n ds)
  case (Cons u us)
  show ?case
  proof (cases ds)
    case Nil
    then show ?thesis using Cons.prems by (intro exI [of _ "[]"] exI [of _ "u # us"]) simp
  next
    case (Cons d ds')
    then have "numbered (n + 1) us = ds' @ rest" "d = \<lparr>cmu_sequence_number = n, cmu_update = u\<rparr>" using Cons.prems by simp_all
    with Cons.IH [OF this(1)] obtain us1 us2 where "us = us1 @ us2" "ds' = numbered (n + 1) us1"
      "rest = numbered (n + 1 + word_of_nat (length us1)) us2" by blast
    with \<open>d = _\<close> show ?thesis unfolding Cons by (intro exI [of _ "u # us1"] exI [of _ us2]) (simp add: add.assoc)
  qed
qed simp

lemma update_ok_wire: "update_ok u \<Longrightarrow> wire_market_update_type (mu_type u) \<and> wire_side (mu_side u)"
  by (auto simp: update_ok_def)

lemma increments_received:
  assumes "concat dss = numbered (next_expected_seq s) us" and "list_all update_ok us"
    and "length us \<le> MAX_MARKET_UPDATES" and "\<not> in_recovery s" and "mc_offset (get_feed False s) = 0"
  shows "\<exists>s'. receive_datagrams be False (map datagram dss) s = Inr s' \<and> \<not> in_recovery s' \<and>
    next_expected_seq s' = next_expected_seq s + word_of_nat (length us) \<and>
    incoming_updates s' = fold enqueue us (incoming_updates s)"
  using assms
proof (induction dss arbitrary: s us)
  case Nil
  then have "length us = 0" by (metis concat.simps(1) length_numbered list.size(3))
  then show ?case using Nil.prems by (simp add: receive_datagrams_def)
next
  case (Cons ds dss)
  have "numbered (next_expected_seq s) us = ds @ concat dss" using Cons.prems(1) by simp
  then obtain us1 us2 where us: "us = us1 @ us2" and ds: "ds = numbered (next_expected_seq s) us1"
    and rest: "concat dss = numbered (next_expected_seq s + word_of_nat (length us1)) us2"
    using numbered_split by blast
  let ?t = "s\<lparr>next_expected_seq := next_expected_seq s + word_of_nat (length us1), incoming_updates := fold enqueue us1 (incoming_updates s)\<rparr>"
  have "list_all wire_market_update ds"
    using Cons.prems(2) update_ok_wire unfolding ds wire_numbered us by (auto simp: list_all_iff)
  moreover have "length ds * sizeof_client_market_update \<le> FEED_BUFFER_SIZE"
    using Cons.prems(3) us by (simp add: ds model_constants sizeof_defs)
  ultimately obtain conn where
    r: "feed_on_read be False (Received (datagram ds)) s = Inr (set_feed False conn ?t)" "mc_offset conn = 0"
    using feed_on_read_messages [OF Cons.prems(5), of ds be] receive_in_sequence [OF Cons.prems(4), of us1]
    by (auto simp: datagram_def ds)
  let ?s = "set_feed False conn ?t"
  have "concat dss = numbered (next_expected_seq ?s) us2" "list_all update_ok us2" "length us2 \<le> MAX_MARKET_UPDATES"
    "\<not> in_recovery ?s" "mc_offset (get_feed False ?s) = 0"
    using rest Cons.prems(2-4) us r(2) by simp_all
  from Cons.IH [OF this] show ?case using r(1) us by (auto simp: receive_datagrams_def add.assoc)
qed

lemma feed_follows_exchange:
  assumes "ex_run srt be rs ts x" and "std_sort srt" and "day rs"
    and "queue_items (client_requests x) = []" and "queue_items (market_updates (ex_market_data x)) = []"
  shows "\<exists>As ms f. a_run rs a_engine_init = (As, ms) \<and> engine_rel (ex_engine x) As \<and>
    receive_datagrams be' False (sent (publisher (ex_market_data x)))
      (feed_handler_init (lock_free_queue_init MAX_MARKET_UPDATES default_market_update)) = Inr f \<and> \<not> in_recovery f \<and>
    queue_inv (incoming_updates f) \<and> queue_items (incoming_updates f) = updates_of ms"
proof -
  obtain As ms where run: "a_run rs a_engine_init = (As, ms)" and rel: "engine_rel (ex_engine x) As"
    and md: "md_run be (updates_of ms) (ex_market_data x)"
    using ex_inv_obtain [OF ex_run_inv [OF assms(1-3)]] assms(4) by (metis append_Nil2)
  note len = day_fits_queues(2) [OF assms(3) run]
  have ok: "list_all update_ok (updates_of ms)"
    using day_updates_ok [OF run assms(3)] ex_run_requests [OF assms(1,2)] by blast
  obtain dss where dss: "sent (publisher (ex_market_data x)) = map datagram dss" "concat dss = numbered 1 (updates_of ms)"
    using published_stream [OF md day_consistent [OF assms(3) run]] assms(5) by auto
  let ?q = "lock_free_queue_init MAX_MARKET_UPDATES default_market_update"
  have "concat dss = numbered (next_expected_seq (feed_handler_init ?q)) (updates_of ms)"
    "\<not> in_recovery (feed_handler_init ?q)" "mc_offset (get_feed False (feed_handler_init ?q)) = 0"
    using dss(2) by (simp_all add: feed_handler_init_def get_feed_def multicast_connection_init_def)
  from increments_received [OF this(1) ok len this(2,3), of be'] obtain f where
    f: "receive_datagrams be' False (map datagram dss) (feed_handler_init ?q) = Inr f" "\<not> in_recovery f"
      "incoming_updates f = fold enqueue (updates_of ms) ?q"
    by (auto simp: feed_handler_init_def)
  have "queue_inv (incoming_updates f)" "queue_items (incoming_updates f) = updates_of ms"
    unfolding f(3) by (rule filled_queue(1) [OF _ len] filled_queue(2) [OF _ len], simp add: model_constants)+
  then show ?thesis unfolding dss(1) using run rel f(1,2) by blast
qed

text \<open>
  C13: the market data reaches the client. Let the exchange have run under any schedule, with a
  day of fewer than 2048 admissible requests handed to the engine, and be at rest, that is no
  request and no update waits (which it always can come to). A client whose feed handler has been
  given every datagram the publisher sent, whatever the byte orders of the two hosts, has read
  them without a failure and without a recovery; and for every instrument a book that is built
  from the updates it queued follows them without a failure and ends as the exchange's book: the
  same levels in the same order with the same orders, identifiers, quantities and priorities.
\<close>

theorem market_data_reaches_client:
  assumes "ex_run srt be rs ts x" and "std_sort srt" and "all_admissible rs a_engine_init" and "length rs < MAX_NUM_ORDERS"
    and "queue_items (client_requests x) = []" and "queue_items (market_updates (ex_market_data x)) = []"
  shows "\<exists>As ms f. a_run rs a_engine_init = (As, ms) \<and> engine_rel (ex_engine x) As \<and>
    receive_datagrams be' False (sent (publisher (ex_market_data x)))
      (feed_handler_init (lock_free_queue_init MAX_MARKET_UPDATES default_market_update)) = Inr f \<and> \<not> in_recovery f \<and>
    (\<forall>i < MAX_NUM_INSTRUMENTS. \<exists>b b' G.
      market_order_book_init (word_of_nat i) = Inr b \<and>
      MarketBookRefine.replay (of_instrument (word_of_nat i) (queue_items (incoming_updates f))) b =
        Inr (b', map engine_told (of_instrument (word_of_nat i) (queue_items (incoming_updates f)))) \<and>
      client_rel b' G (view (As ! i)))"
proof -
  have day: "day rs" using assms(3,4) by (simp add: day_def)
  obtain As ms f where f: "a_run rs a_engine_init = (As, ms)" "engine_rel (ex_engine x) As"
    "receive_datagrams be' False (sent (publisher (ex_market_data x)))
      (feed_handler_init (lock_free_queue_init MAX_MARKET_UPDATES default_market_update)) = Inr f" "\<not> in_recovery f"
    "queue_items (incoming_updates f) = updates_of ms"
    using feed_follows_exchange [OF assms(1,2) day assms(5,6)] by blast
  then show ?thesis using client_follows_day [OF assms(3) f(1) assms(4)] by metis
qed

theorem market_data_reaches_client_witness:
  "\<exists>x f b b' G cs. ex_run (sort_key recv_time) True two_orders [] x \<and>
    receive_datagrams False False (sent (publisher (ex_market_data x)))
      (feed_handler_init (lock_free_queue_init MAX_MARKET_UPDATES default_market_update)) = Inr f \<and>
    market_order_book_init 0 = Inr b \<and>
    MarketBookRefine.replay (of_instrument 0 (queue_items (incoming_updates f))) b = Inr (b', cs) \<and>
    client_rel b' G (view (fst (a_run two_orders a_engine_init) ! 0))"
proof -
  obtain x0 where x0: "ex_run (sort_key recv_time) True two_orders [] x0" using two_orders_run by blast
  have day: "day two_orders" using two_orders_day by (simp add: day_def)
  obtain x where x: "ex_run (sort_key recv_time) True two_orders [] x" "queue_items (client_requests x) = []"
    "queue_items (market_updates (ex_market_data x)) = []"
    using exchange_rests [OF x0 std_sort_sort_key day surjective_pairing] by blast
  have pos: "0 < MAX_NUM_INSTRUMENTS" by (simp add: model_constants)
  obtain As ms f where r: "a_run two_orders a_engine_init = (As, ms)"
    "receive_datagrams False False (sent (publisher (ex_market_data x)))
      (feed_handler_init (lock_free_queue_init MAX_MARKET_UPDATES default_market_update)) = Inr f"
    "\<forall>i < MAX_NUM_INSTRUMENTS. \<exists>b b' G.
      market_order_book_init (word_of_nat i) = Inr b \<and>
      MarketBookRefine.replay (of_instrument (word_of_nat i) (queue_items (incoming_updates f))) b =
        Inr (b', map engine_told (of_instrument (word_of_nat i) (queue_items (incoming_updates f)))) \<and>
      client_rel b' G (view (As ! i))"
    using market_data_reaches_client [OF x(1) std_sort_sort_key two_orders_day x(2,3), of False] by blast
  have As: "As = fst (a_run two_orders a_engine_init)" by (simp add: r(1))
  from r(3) [rule_format, OF pos, unfolded semiring_1_class.of_nat_0] show ?thesis using x(1) r(2) unfolding As by blast
qed

end
