(* ===== verification/TradingDay.thy ===== *)
theory TradingDay
  imports DayStream TradeEngineProperties
begin

text \<open>
  The trading client's engine on the updates of a day: with prices below \<open>2 ^ 30\<close> in absolute
  value and a clip other than \<open>2 ^ 31\<close> none of its computations overflows, whatever the floating
  point arithmetic and whichever algorithm is installed, and its books are the exchange's.
\<close>

section \<open>Prices and quotes\<close>

definition modest :: "price_t \<Rightarrow> bool" where
  "modest p \<longleftrightarrow> \<bar>sint p\<bar> < 2 ^ 30"

definition bbo_modest :: "bbo_t \<Rightarrow> bool" where
  "bbo_modest b \<longleftrightarrow> (bid_price b = INVALID_PRICE \<or> modest (bid_price b)) \<and> (ask_price b = INVALID_PRICE \<or> modest (ask_price b))"

definition levels_modest :: "level list \<Rightarrow> bool" where
  "levels_modest L \<longleftrightarrow> (\<forall>l \<in> set L. modest (fst l))"

definition book_modest :: "abook \<Rightarrow> bool" where
  "book_modest M \<longleftrightarrow> levels_modest (a_bids M) \<and> levels_modest (a_asks M)"

lemma quote_modest: "levels_modest L \<Longrightarrow> fst (quote L) = INVALID_PRICE \<or> modest (fst (quote L))"
  by (auto simp: quote_def levels_modest_def split: list.split)

lemma levels_modest_ops:
  "modest (o_price x) \<Longrightarrow> levels_modest L \<Longrightarrow> levels_modest (a_place sd x L)"
  "levels_modest L \<Longrightarrow> levels_modest (a_delete c i L)" "levels_modest L \<Longrightarrow> levels_modest (a_set_qty c i q L)"
  by (auto simp: levels_modest_def a_place_def a_delete_def a_set_qty_def keep_level_def split: if_splits)

lemma m_apply_modest:
  assumes "modest (mu_price u)" and "book_modest M"
  shows "book_modest (m_apply u M)"
  using assms levels_modest_ops
  by (auto simp: m_apply_def book_modest_def a_side_def set_a_side_def on_sides_def public_order_def Let_def
      split: market_update_type.split)

lemma m_bbo_modest:
  assumes "modest (mu_price u)" and "book_modest M" and "bbo_modest b"
  shows "bbo_modest (m_bbo u M b)"
  using m_apply_modest [OF assms(1,2)] assms(3) quote_modest
  by (auto simp: m_bbo_def bbo_modest_def book_modest_def Let_def)

section \<open>No overflow\<close>

lemma price_times_quantity:
  assumes "modest p"
  shows "\<bar>sint p * uint (q :: quantity_t)\<bar> < 2 ^ 62"
proof -
  have "\<bar>sint p\<bar> * uint q \<le> 2 ^ 30 * uint q" using assms by (intro mult_right_mono) (simp_all add: modest_def)
  also have "\<dots> < 2 ^ 62" using unsigned_less [of q] by simp
  finally show ?thesis by (simp add: abs_mult)
qed

lemma features_return:
  assumes "bbo_modest b"
  shows "\<exists>fe'. fe_on_order_book_update D b fe = Inr fe'"
proof (cases "two_sided b")
  case True
  then have "modest (bid_price b)" "modest (ask_price b)" using assms by (auto simp: bbo_modest_def two_sided_def)
  from price_times_quantity [OF this(1), of "ask_qty b"] price_times_quantity [OF this(2), of "bid_qty b"]
  show ?thesis using True by (simp add: fe_on_order_book_update_def)
qed (simp add: fe_on_order_book_update_def)

lemma maker_prices_return:
  assumes "bbo_modest b" and "two_sided b"
  shows "\<exists>x. maker_prices D fair_price thr b = Inr x"
proof -
  have "\<bar>sint (bid_price b)\<bar> < 2 ^ 30" "\<bar>sint (ask_price b)\<bar> < 2 ^ 30"
    using assms by (auto simp: bbo_modest_def two_sided_def modest_def)
  then show ?thesis by (simp add: maker_prices_def)
qed

lemma positions_return:
  assumes "flat D pk" and "unat i < MAX_NUM_INSTRUMENTS"
  shows "\<exists>pk'. keeper_update_bbo D i b pk = Inr pk' \<and> flat D pk'"
proof -
  have "\<exists>pk'. keeper_update_bbo D i b pk = Inr pk'"
    using assms by (simp add: keeper_update_bbo_def position_update_bbo_def flat_def Let_def)
  then show ?thesis using flat_update_bbo [OF _ assms(1)] by blast
qed

definition clips_ok :: "'d trade_engine_config_map \<Rightarrow> bool" where
  "clips_ok cfgs \<longleftrightarrow> (\<forall>i < MAX_NUM_INSTRUMENTS. sint (clip (cfgs i)) \<noteq> - (2 ^ 31))"

lemma risk_returns:
  assumes "flat D pk" and "sint qty \<noteq> - (2 ^ 31)" and "unat i < MAX_NUM_INSTRUMENTS"
  shows "\<exists>x. check_pretrade_risk D pk (risk_manager_init cfgs) i sd qty = Inr x"
proof -
  have "- (2 ^ 31) \<le> sint qty" "sint qty < 2 ^ 31" using sint_range_size [of qty] by (simp_all add: word_size)
  then have "\<bar>sint qty\<bar> < 2 ^ 31" using assms(2) by linarith
  then show ?thesis using assms(1,3)
    by (simp add: check_pretrade_risk_def risk_manager_init_def check_risk_def flat_def i_abs_def side_to_value_def)
qed

lemma move_orders_return:
  assumes "flat D pk" and "sint qty \<noteq> - (2 ^ 31)" and "unat i < MAX_NUM_INSTRUMENTS"
  shows "\<exists>s'. move_orders D pk (risk_manager_init cfgs) i bp ap qty s = Inr s'"
proof -
  have "\<exists>t. open_order D pk (risk_manager_init cfgs) k i price sd qty s = Inr t" for k price sd s
    using risk_returns [OF assms, of cfgs sd] by (cases s) (auto simp: open_order_def)
  then have "\<exists>t. move_order D pk (risk_manager_init cfgs) k i price sd qty s = Inr t" for k price sd s
    by (cases s) (auto simp: move_order_def split: om_order_state.split)
  then show ?thesis using assms(3) by (simp add: move_orders_def) (metis rbind_simps(2))
qed

section \<open>One update\<close>

text \<open>The state of the engine that its handlers keep, and what they leave alone.\<close>

definition trading_ok :: "'d double_ops \<Rightarrow> 'd trade_engine_config_map \<Rightarrow> 'd trade_engine \<Rightarrow> bool" where
  "trading_ok D cfgs te \<longleftrightarrow> flat D (te_positions te) \<and> te_risk te = risk_manager_init cfgs \<and>
     te_algo te \<in> {Default_Algo, Market_Maker cfgs, Liquidity_Taker cfgs}"

definition answers :: "'d double_ops \<Rightarrow> 'd trade_engine_config_map \<Rightarrow> 'd trade_engine \<Rightarrow> 'd trade_engine result \<Rightarrow> bool" where
  "answers D cfgs te r \<longleftrightarrow> (\<exists>te'. r = Inr te' \<and> trading_ok D cfgs te' \<and> instrument_order_book te' = instrument_order_book te \<and>
     incoming_md_updates te' = incoming_md_updates te)"

lemma run_algo_answers:
  assumes "trading_ok D cfgs te" and "\<exists>s. f (te_orders te, outgoing_ogw_requests te) = Inr s"
  shows "answers D cfgs te (run_algo f te)"
  using assms by (auto simp: answers_def run_algo_def trading_ok_def)

lemma engine_called_answers:
  assumes "trading_ok D cfgs te" and "clips_ok cfgs" and "bbo_modest (mb_bbo book)" and "unat (mu_instrument_id u) < MAX_NUM_INSTRUMENTS"
  shows "answers D cfgs te (engine_called D (engine_told u) book te)"
proof (cases "mu_type u = MU_TRADE")
  case True
  let ?te = "te\<lparr>te_features := fe_on_trade_update D u (mb_bbo book) (te_features te)\<rparr>"
  have ok: "trading_ok D cfgs ?te" using assms(1) by (simp add: trading_ok_def)
  have "\<exists>s. taker_on_trade_update D (te_positions ?te) (risk_manager_init cfgs) cfgs (te_features ?te) u (mb_bbo book)
      (te_orders ?te, outgoing_ogw_requests ?te) = Inr s"
    using move_orders_return [of D "te_positions te" "clip (cfgs (unat (mu_instrument_id u)))" "mu_instrument_id u" cfgs] assms
    by (auto simp: taker_on_trade_update_def Let_def trading_ok_def clips_ok_def)
  then have "answers D cfgs ?te (algo_on_trade_update D u book ?te)"
    using ok run_algo_answers [OF ok] by (auto simp: algo_on_trade_update_def trading_ok_def answers_def)
  then show ?thesis using True by (simp add: engine_told_def engine_called_def te_on_trade_update_def answers_def)
next
  case False
  obtain pk where pk: "keeper_update_bbo D (mu_instrument_id u) (mb_bbo book) (te_positions te) = Inr pk" "flat D pk"
    using positions_return assms(1,4) unfolding trading_ok_def by blast
  obtain fe where fe: "fe_on_order_book_update D (mb_bbo book) (te_features te) = Inr fe"
    using features_return [OF assms(3)] by blast
  let ?te = "te\<lparr>te_positions := pk, te_features := fe\<rparr>"
  have ok: "trading_ok D cfgs ?te" using assms(1) pk(2) by (simp add: trading_ok_def)
  have "\<exists>s. maker_on_order_book_update D pk (risk_manager_init cfgs) cfgs fe (mu_instrument_id u) (mb_bbo book)
      (te_orders ?te, outgoing_ogw_requests ?te) = Inr s"
  proof (cases "two_sided (mb_bbo book)")
    case True
    from maker_prices_return [OF assms(3) True] obtain bp ap where
      "maker_prices D (market_price fe) (threshold (cfgs (unat (mu_instrument_id u)))) (mb_bbo book) = Inr (bp, ap)" by force
    then show ?thesis
      using move_orders_return [OF pk(2), of "clip (cfgs (unat (mu_instrument_id u)))" "mu_instrument_id u" cfgs] assms(2,4)
      by (auto simp: maker_on_order_book_update_def Let_def clips_ok_def)
  qed (simp add: maker_on_order_book_update_def Let_def)
  then have "answers D cfgs ?te (algo_on_order_book_update D (mu_instrument_id u) book ?te)"
    using ok run_algo_answers [OF ok] by (auto simp: algo_on_order_book_update_def trading_ok_def answers_def)
  then show ?thesis using False pk(1) fe
    by (simp add: engine_told_def engine_called_def te_on_order_book_update_def answers_def)
qed

section \<open>A stream of updates\<close>

definition books_follow :: "(nat \<Rightarrow> abook) \<Rightarrow> 'd trade_engine \<Rightarrow> bool" where
  "books_follow Ms te \<longleftrightarrow> (\<forall>i < MAX_NUM_INSTRUMENTS. book_modest (Ms i) \<and>
     (\<exists>b G. instrument_order_book te i = Some b \<and> client_rel b G (Ms i) \<and> bbo_modest (mb_bbo b)))"

lemma update_followed:
  assumes "trading_ok D cfgs te" and "clips_ok cfgs" and "books_follow Ms te" and "unat (mu_instrument_id u) < MAX_NUM_INSTRUMENTS"
    and "modest (mu_price u)" and "m_consistent u (Ms (unat (mu_instrument_id u)))"
  shows "\<exists>te'. process_market_update D now u te = Inr te' \<and> trading_ok D cfgs te' \<and>
    books_follow (Ms(unat (mu_instrument_id u) := m_apply u (Ms (unat (mu_instrument_id u))))) te' \<and>
    incoming_md_updates te' = next_read_index (incoming_md_updates te)"
proof -
  let ?i = "unat (mu_instrument_id u)"
  obtain b G where b: "instrument_order_book te ?i = Some b" "client_rel b G (Ms ?i)" "bbo_modest (mb_bbo b)" "book_modest (Ms ?i)"
    using assms(3,4) unfolding books_follow_def by blast
  obtain b' G' where b': "on_market_update u b = Inr (b', engine_told u)" "client_rel b' G' (m_apply u (Ms ?i))"
    "mb_bbo b' = m_bbo u (Ms ?i) (mb_bbo b)" using on_market_update_ok [OF b(2) assms(6)] by blast
  let ?te = "te\<lparr>instrument_order_book := (instrument_order_book te)(?i := Some b')\<rparr>"
  have "trading_ok D cfgs ?te" using assms(1) by (simp add: trading_ok_def)
  moreover have q: "bbo_modest (mb_bbo b')" using m_bbo_modest [OF assms(5) b(4,3)] b'(3) by simp
  ultimately have "answers D cfgs ?te (engine_called D (engine_told u) b' ?te)"
    using engine_called_answers assms(2,4) by blast
  then obtain te1 where te1: "engine_called D (engine_told u) b' ?te = Inr te1" "trading_ok D cfgs te1"
    "instrument_order_book te1 = (instrument_order_book te)(?i := Some b')" "incoming_md_updates te1 = incoming_md_updates te"
    by (auto simp: answers_def)
  have "books_follow (Ms(?i := m_apply u (Ms ?i))) te1"
    using assms(3) b'(2) q te1(3) m_apply_modest [OF assms(5) b(4)] by (auto simp: books_follow_def)
  then show ?thesis using assms(4) b(1) b'(1) te1
    by (auto simp: process_market_update_def Let_def trading_ok_def books_follow_def)
qed

lemma of_instrument_Cons:
  assumes "i < MAX_NUM_INSTRUMENTS" and "unat (mu_instrument_id u) < MAX_NUM_INSTRUMENTS"
  shows "of_instrument (word_of_nat i) (u # us) = (if unat (mu_instrument_id u) = i then u # of_instrument (word_of_nat i) us
    else of_instrument (word_of_nat i) us)"
proof -
  have "mu_instrument_id u = word_of_nat i \<longleftrightarrow> unat (mu_instrument_id u) = i"
    using instrument_inj [OF assms(2,1)] by simp
  then show ?thesis by (simp add: of_instrument_def)
qed

lemma updates_followed:
  assumes "trading_ok D cfgs te" and "clips_ok cfgs" and "books_follow Ms te" and "queue_inv (incoming_md_updates te)"
    and "queue_items (incoming_md_updates te) = us" and "\<forall>u \<in> set us. unat (mu_instrument_id u) < MAX_NUM_INSTRUMENTS \<and> modest (mu_price u)"
    and "\<forall>i < MAX_NUM_INSTRUMENTS. all_m_consistent (of_instrument (word_of_nat i) us) (Ms i)"
  shows "\<exists>te'. drain_updates D now te = Inr te' \<and> queue_items (incoming_md_updates te') = [] \<and>
    books_follow (\<lambda>i. fold m_apply (of_instrument (word_of_nat i) us) (Ms i)) te'"
  using assms(1,3-7)
proof (induction us arbitrary: te Ms)
  case Nil
  then show ?case by (simp add: drain_updates.simps get_next_read_element_items)
next
  case (Cons u us)
  let ?i = "unat (mu_instrument_id u)"
  let ?Ms = "Ms(?i := m_apply u (Ms ?i))"
  have u: "?i < MAX_NUM_INSTRUMENTS" "modest (mu_price u)" using Cons.prems(5) by simp_all
  have head: "m_consistent u (Ms ?i)" using Cons.prems(6) [rule_format, OF u(1)] of_instrument_Cons [OF u(1) u(1)] by simp
  have rest: "all_m_consistent (of_instrument (word_of_nat i) us) (?Ms i)" if "i < MAX_NUM_INSTRUMENTS" for i
  proof (cases "?i = i")
    case True
    then have "all_m_consistent (u # of_instrument (word_of_nat i) us) (Ms i)"
      using Cons.prems(6) [rule_format, OF that] of_instrument_Cons [OF that u(1)] by (simp only: if_True simp_thms)
    then have "all_m_consistent (of_instrument (word_of_nat i) us) (m_apply u (Ms i))" by (simp only: all_m_consistent.simps)
    then show ?thesis by (simp only: True fun_upd_same)
  qed (use Cons.prems(6) [rule_format, OF that] of_instrument_Cons [OF that u(1)] in \<open>simp\<close>)
  obtain te1 where te1: "process_market_update D now u te = Inr te1" "trading_ok D cfgs te1" "books_follow ?Ms te1"
    "incoming_md_updates te1 = next_read_index (incoming_md_updates te)"
    using update_followed [OF Cons.prems(1) assms(2) Cons.prems(2) u head] by blast
  have q: "queue_inv (incoming_md_updates te1)" "queue_items (incoming_md_updates te1) = us"
    using te1(4) queue_inv_next_read_index [OF Cons.prems(3)] queue_items_next_read_index [OF Cons.prems(3)] Cons.prems(4) by simp_all
  have "get_next_read_element (incoming_md_updates te) = Some u"
    using get_next_read_element_items [OF Cons.prems(3)] Cons.prems(4) by simp
  then have d: "drain_updates D now te = drain_updates D now te1" using te1(1) by (simp add: drain_updates.simps [of D now te])
  obtain te' where te': "drain_updates D now te1 = Inr te'" "queue_items (incoming_md_updates te') = []"
    "books_follow (\<lambda>i. fold m_apply (of_instrument (word_of_nat i) us) (?Ms i)) te'"
    using Cons.IH [OF te1(2,3) q] Cons.prems(5) rest by auto
  have "fold m_apply (of_instrument (word_of_nat i) (u # us)) (Ms i) = fold m_apply (of_instrument (word_of_nat i) us) (?Ms i)"
    if "i < MAX_NUM_INSTRUMENTS" for i
    using of_instrument_Cons [OF that u(1), of us]
    by (cases "?i = i") (simp_all only: if_True if_False simp_thms fun_upd_same fun_upd_other fold_simps not_sym)
  then have "books_follow (\<lambda>i. fold m_apply (of_instrument (word_of_nat i) (u # us)) (Ms i)) te'"
    using te'(3) by (simp add: books_follow_def)
  then show ?case using d te'(1,2) by simp
qed

section \<open>The day\<close>

lemma trade_engine_starts:
  "\<exists>te. trade_engine_init D algo cfgs requests responses updates = Inr te \<and> trading_ok D cfgs te \<and>
    books_follow (\<lambda>i. m_init (word_of_nat i)) te \<and> incoming_md_updates te = updates \<and> incoming_ogw_responses te = responses"
proof -
  have "client_rel (new_book i) (\<lambda>_. []) (m_init i)" "mb_bbo (new_book i) = default_bbo" for i
    using market_order_book_init_ok [of i] by (simp_all add: market_order_book_init_eq)
  moreover have "book_modest (m_init i)" "bbo_modest default_bbo" for i
    by (simp_all add: book_modest_def levels_modest_def m_init_def a_init_def bbo_modest_def default_bbo_def)
  ultimately show ?thesis
    by (auto simp: trade_engine_init_def make_market_books_eq trading_ok_def flat_init installed_algorithm_def books_follow_def)
qed

text \<open>
  C14: the trading client follows the exchange. Let the exchange have run under any schedule with
  a day of fewer than 2048 admissible requests at prices below \<open>2 ^ 30\<close> in absolute value, and be at
  rest, and let the client's feed handler have been given every datagram of the incremental
  stream. Then one iteration of the trade engine's loop on the queue the feed handler filled,
  with no response waiting, returns: no assertion fails, no pointer is null and no signed integer
  overflows in books, positions, features, algorithm, risk check and order manager, for every
  algorithm, configuration (but for a clip of \<open>2 ^ 31\<close>) and floating point arithmetic. It
  leaves no update waiting, and the engine's book of every instrument is the exchange's.
\<close>

theorem trading_client_follows_exchange:
  assumes "ex_run srt be rs ts x" and "std_sort srt" and "all_admissible rs a_engine_init" and "length rs < MAX_NUM_ORDERS"
    and "queue_items (client_requests x) = []" and "queue_items (market_updates (ex_market_data x)) = []"
    and "\<forall>r \<in> set rs. modest (rq_price r)" and "clips_ok cfgs" and "queue_inv responses" and "queue_items responses = []"
  shows "\<exists>As ms f te te'. a_run rs a_engine_init = (As, ms) \<and>
    receive_datagrams be' False (sent (publisher (ex_market_data x)))
      (feed_handler_init (lock_free_queue_init MAX_MARKET_UPDATES default_market_update)) = Inr f \<and>
    trade_engine_init D algo cfgs requests responses (incoming_updates f) = Inr te \<and>
    run_iteration D now (TradeEngine.start_engine te) = Inr te' \<and> queue_items (incoming_md_updates te') = [] \<and>
    (\<forall>i < MAX_NUM_INSTRUMENTS. \<exists>b G. instrument_order_book te' i = Some b \<and> client_rel b G (view (As ! i)))"
proof -
  have day: "day rs" using assms(3,4) by (simp add: day_def)
  obtain As ms f where f: "a_run rs a_engine_init = (As, ms)"
    "receive_datagrams be' False (sent (publisher (ex_market_data x)))
      (feed_handler_init (lock_free_queue_init MAX_MARKET_UPDATES default_market_update)) = Inr f"
    "queue_inv (incoming_updates f)" "queue_items (incoming_updates f) = updates_of ms"
    using feed_follows_exchange [OF assms(1,2) day assms(5,6)] by blast
  obtain te where te: "trade_engine_init D algo cfgs requests responses (incoming_updates f) = Inr te" "trading_ok D cfgs te"
    "books_follow (\<lambda>i. m_init (word_of_nat i)) te" "incoming_md_updates te = incoming_updates f" "incoming_ogw_responses te = responses"
    using trade_engine_starts by blast
  let ?te = "TradeEngine.start_engine te"
  have s: "trading_ok D cfgs ?te" "books_follow (\<lambda>i. m_init (word_of_nat i)) ?te"
    using te(2,3) by (simp_all add: TradeEngine.start_engine_def trading_ok_def books_follow_def)
  have q: "queue_inv (incoming_md_updates ?te)" "queue_items (incoming_md_updates ?te) = updates_of ms"
    using te(4) f(3,4) by (simp_all add: TradeEngine.start_engine_def)
  have "list_all (request_fits modest) rs"
    using ex_run_requests [OF assms(1,2)] assms(7) by (simp add: list_all_iff request_fits_def)
  from day_fits [OF f(1) day this] have "\<forall>u \<in> set (updates_of ms). modest (mu_price u)"
    by (simp add: list_all_iff update_fits_def)
  moreover have "\<forall>u \<in> set (updates_of ms). unat (mu_instrument_id u) < MAX_NUM_INSTRUMENTS"
    using consistent_instrument [OF day_consistent [OF day f(1)]] by blast
  ultimately have u: "\<forall>u \<in> set (updates_of ms). unat (mu_instrument_id u) < MAX_NUM_INSTRUMENTS \<and> modest (mu_price u)" by blast
  have m: "all_m_consistent (of_instrument (word_of_nat i) (updates_of ms)) (m_init (word_of_nat i))"
    "fold m_apply (of_instrument (word_of_nat i) (updates_of ms)) (m_init (word_of_nat i)) = view (As ! i)"
    if "i < MAX_NUM_INSTRUMENTS" for i
    using day_mirrors [OF assms(3) f(1) assms(4) that] by (simp_all add: mirrors_def view_init)
  obtain te' where te': "drain_updates D now ?te = Inr te'" "queue_items (incoming_md_updates te') = []"
    "books_follow (\<lambda>i. fold m_apply (of_instrument (word_of_nat i) (updates_of ms)) (m_init (word_of_nat i))) te'"
    using updates_followed [OF s(1) assms(8) s(2) q u] m(1) by blast
  have "get_next_read_element (incoming_ogw_responses ?te) = None"
    using get_next_read_element_items [OF assms(9)] assms(10) te(5) by (simp add: TradeEngine.start_engine_def)
  then have "run_iteration D now ?te = Inr te'"
    using te'(1) by (simp add: run_iteration_def drain_responses.simps TradeEngine.start_engine_def)
  moreover have "\<forall>i < MAX_NUM_INSTRUMENTS. \<exists>b G. instrument_order_book te' i = Some b \<and> client_rel b G (view (As ! i))"
    using te'(3) m(2) unfolding books_follow_def by metis
  ultimately show ?thesis using f(1,2) te(1) te'(2) by blast
qed

theorem trading_client_follows_exchange_witness:
  "\<exists>x f te te' b G. ex_run (sort_key recv_time) True two_orders [] x \<and>
    receive_datagrams False False (sent (publisher (ex_market_data x)))
      (feed_handler_init (lock_free_queue_init MAX_MARKET_UPDATES default_market_update)) = Inr f \<and>
    trade_engine_init exact_double MAKER sample_config (lock_free_queue_init 8 default_client_request)
      (lock_free_queue_init 8 default_client_response) (incoming_updates f) = Inr te \<and>
    run_iteration exact_double 7 (TradeEngine.start_engine te) = Inr te' \<and>
    instrument_order_book te' 0 = Some b \<and> client_rel b G (view (fst (a_run two_orders a_engine_init) ! 0))"
proof -
  obtain x0 where x0: "ex_run (sort_key recv_time) True two_orders [] x0" using two_orders_run by blast
  have day: "day two_orders" using two_orders_day by (simp add: day_def)
  obtain x where x: "ex_run (sort_key recv_time) True two_orders [] x" "queue_items (client_requests x) = []"
    "queue_items (market_updates (ex_market_data x)) = []"
    using exchange_rests [OF x0 std_sort_sort_key day surjective_pairing] by blast
  have c: "\<forall>r \<in> set two_orders. modest (rq_price r)" "clips_ok sample_config"
    "queue_inv (lock_free_queue_init 8 default_client_response)" "queue_items (lock_free_queue_init 8 default_client_response) = []"
    by (simp_all add: two_orders_def sample_order_def modest_def clips_ok_def sample_config_def queue_init_inv)
  have pos: "0 < MAX_NUM_INSTRUMENTS" by (simp add: model_constants)
  obtain As ms f te te' where r: "a_run two_orders a_engine_init = (As, ms)"
    "receive_datagrams False False (sent (publisher (ex_market_data x)))
      (feed_handler_init (lock_free_queue_init MAX_MARKET_UPDATES default_market_update)) = Inr f"
    "trade_engine_init exact_double MAKER sample_config (lock_free_queue_init 8 default_client_request)
      (lock_free_queue_init 8 default_client_response) (incoming_updates f) = Inr te"
    "run_iteration exact_double 7 (TradeEngine.start_engine te) = Inr te'"
    "\<forall>i < MAX_NUM_INSTRUMENTS. \<exists>b G. instrument_order_book te' i = Some b \<and> client_rel b G (view (As ! i))"
    using trading_client_follows_exchange [OF x(1) std_sort_sort_key two_orders_day x(2,3) c,
        of False exact_double MAKER "lock_free_queue_init 8 default_client_request" 7] by blast
  have "As = fst (a_run two_orders a_engine_init)" by (simp add: r(1))
  with r(5) [rule_format, OF pos] show ?thesis using x(1) r(2-4) by blast
qed

end
