(* ===== verification/RandomTrader.thy ===== *)
theory RandomTrader
  imports TradeEngine
begin

text \<open>
  \<open>example/main.cpp\<close>, the session of the \<open>RANDOM\<close> algorithm: a hundred orders near a price that
  drifts, some below it, and cancels of the latter, sent through the trade engine. The engine of
  \<open><random>\<close> is a state \<open>'g\<close>, and a \<open>uniform_int_distribution\<close> a call of the parameter
  \<open>draw\<close>, of which \<open>uniform_int\<close> says what the standard promises: a value between the bounds.
\<close>

type_synonym 'g drawing = "int \<Rightarrow> int \<Rightarrow> 'g \<Rightarrow> int \<times> 'g"

definition uniform_int :: "'g drawing \<Rightarrow> bool" where
  "uniform_int draw \<longleftrightarrow> (\<forall>a b g. a \<le> b \<longrightarrow> a \<le> fst (draw a b g) \<and> fst (draw a b g) \<le> b)"

section \<open>The session\<close>

record 'g random_trader =
  rt_gen :: 'g
  rt_order_id :: order_id_t
  client_requests_vec :: "client_request_internal list"
  below_market_buy_orders :: "client_request_internal list"
  instrument_base_price :: "price_t list"
  rt_requests :: request_queue

text \<open>Drawing from a distribution advances the generator.\<close>

definition drawn :: "'g drawing \<Rightarrow> int \<Rightarrow> int \<Rightarrow> 'g random_trader \<Rightarrow> int \<times> 'g random_trader" where
  "drawn draw a b s = (let (v, g) = draw a b (rt_gen s) in (v, s\<lparr>rt_gen := g\<rparr>))"

definition rt_send :: "client_request_internal \<Rightarrow> 'g random_trader \<Rightarrow> 'g random_trader" where
  "rt_send r s = s\<lparr>rt_requests := send_client_request r (rt_requests s)\<rparr>"

fun initial_prices :: "'g drawing \<Rightarrow> nat \<Rightarrow> 'g random_trader \<Rightarrow> 'g random_trader" where
  "initial_prices draw 0 s = s"
| "initial_prices draw (Suc n) s =
     (let (p, s) = drawn draw 100 199 s
      in initial_prices draw n (s\<lparr>instrument_base_price := instrument_base_price s @ [word_of_int p]\<rparr>))"

text \<open>The regular order of iteration \<open>i\<close>; the result names its instrument.\<close>

definition regular_order :: "'g drawing \<Rightarrow> nat \<Rightarrow> 'g random_trader \<Rightarrow> nat \<times> 'g random_trader" where
  "regular_order draw i s =
     (let (instrument, s) = drawn draw 0 (int MAX_NUM_INSTRUMENTS - 1) s; k = nat instrument;
          trend_adjustment = (if i mod 2 = 0 then 1 else - 1);
          s = s\<lparr>instrument_base_price := (instrument_base_price s)[k := instrument_base_price s ! k + trend_adjustment]\<rparr>;
          (offset, s) = drawn draw 1 10 s; price = instrument_base_price s ! k + word_of_int offset;
          (qty, s) = drawn draw 1 100 s;
          (side, s) = drawn draw 0 99 s;
          new_request = \<lparr>rq_type = REQ_NEW, rq_client_id = 0, rq_instrument_id = word_of_nat k, rq_order_id = rt_order_id s,
            rq_side = (if side < 50 then BUY else SELL), rq_price = price, rq_qty = word_of_int qty\<rparr>;
          s = rt_send new_request (s\<lparr>rt_order_id := rt_order_id s + 1\<rparr>)
      in (k, s\<lparr>client_requests_vec := client_requests_vec s @ [new_request]\<rparr>))"

text \<open>
  The order below the market, in 30 of 100 cases. C++ leaves open which operand of the difference
  is drawn first; here the left one. Nothing below depends on it.
\<close>

definition below_market_order :: "'g drawing \<Rightarrow> nat \<Rightarrow> 'g random_trader \<Rightarrow> 'g random_trader" where
  "below_market_order draw k s =
     (let (probability, s) = drawn draw 1 100 s
      in if probability \<le> 30 then
           let (below, s) = drawn draw 50 90 s;
               (offset, s) = drawn draw 1 10 s;
               (qty, s) = drawn draw 1 100 s;
               r = \<lparr>rq_type = REQ_NEW, rq_client_id = 0, rq_instrument_id = word_of_nat k, rq_order_id = rt_order_id s,
                 rq_side = BUY, rq_price = word_of_int (below - offset), rq_qty = word_of_int qty\<rparr>;
               s = rt_send r (s\<lparr>rt_order_id := rt_order_id s + 1\<rparr>)
           in s\<lparr>below_market_buy_orders := below_market_buy_orders s @ [r]\<rparr>
         else s)"

text \<open>The cancel, in 30 of 100 cases; nothing is drawn when there is nothing to cancel.\<close>

definition cancel_of :: "client_request_internal \<Rightarrow> client_request_internal" where
  "cancel_of r = r\<lparr>rq_type := REQ_CANCEL, rq_price := 0, rq_qty := 0\<rparr>"

definition cancel_below_market :: "'g drawing \<Rightarrow> 'g random_trader \<Rightarrow> 'g random_trader" where
  "cancel_below_market draw s =
     (if below_market_buy_orders s = [] then s
      else let (probability, s) = drawn draw 1 100 s
           in if probability \<le> 30 then
                let r = last (below_market_buy_orders s)
                in rt_send (cancel_of r) (s\<lparr>below_market_buy_orders := butlast (below_market_buy_orders s)\<rparr>)
              else s)"

definition random_turn :: "'g drawing \<Rightarrow> nat \<Rightarrow> 'g random_trader \<Rightarrow> 'g random_trader" where
  "random_turn draw i s = (let (k, s) = regular_order draw i s in cancel_below_market draw (below_market_order draw k s))"

fun random_turns :: "'g drawing \<Rightarrow> nat \<Rightarrow> nat \<Rightarrow> 'g random_trader \<Rightarrow> 'g random_trader" where
  "random_turns draw i 0 s = s"
| "random_turns draw i (Suc n) s = random_turns draw (i + 1) n (random_turn draw i s)"

text \<open>The session, with the first order identifier of the command line and the engine's queue.\<close>

definition random_session :: "'g drawing \<Rightarrow> 'g \<Rightarrow> order_id_t \<Rightarrow> request_queue \<Rightarrow> 'g random_trader" where
  "random_session draw g order_id q =
     random_turns draw 0 100 (initial_prices draw MAX_NUM_INSTRUMENTS
       \<lparr>rt_gen = g, rt_order_id = order_id, client_requests_vec = [], below_market_buy_orders = [],
        instrument_base_price = [], rt_requests = q\<rparr>)"

section \<open>What is sent\<close>

definition news :: "client_request_internal list \<Rightarrow> client_request_internal list" where
  "news rs = filter (\<lambda>r. rq_type r = REQ_NEW) rs"

definition cancels :: "client_request_internal list \<Rightarrow> client_request_internal list" where
  "cancels rs = filter (\<lambda>r. rq_type r = REQ_CANCEL) rs"

lemma news_cancels_simps [simp]:
  "news [] = []" "cancels [] = []" "news (rs @ rs') = news rs @ news rs'" "cancels (rs @ rs') = cancels rs @ cancels rs'"
  "news [r] = (if rq_type r = REQ_NEW then [r] else [])" "cancels [r] = (if rq_type r = REQ_CANCEL then [r] else [])"
  by (simp_all add: news_def cancels_def)

definition below_market :: "client_request_internal \<Rightarrow> bool" where
  "below_market r \<longleftrightarrow> rq_type r = REQ_NEW \<and> rq_side r = BUY \<and> 40 \<le> sint (rq_price r) \<and> sint (rq_price r) \<le> 89"

text \<open>
  \<open>random_new id r\<close>: a new order with the identifier \<open>id\<close>; \<open>cancels_earlier\<close>: every cancel answers
  to an order below the market that was sent before it.
\<close>

definition random_new :: "client_request_internal \<Rightarrow> bool" where
  "random_new r \<longleftrightarrow> rq_client_id r = 0 \<and> unat (rq_instrument_id r) < MAX_NUM_INSTRUMENTS \<and> rq_side r \<in> {BUY, SELL} \<and>
     1 \<le> unat (rq_qty r) \<and> unat (rq_qty r) \<le> 100"

definition cancels_earlier :: "client_request_internal list \<Rightarrow> bool" where
  "cancels_earlier rs \<longleftrightarrow> (\<forall>k < length rs. rq_type (rs ! k) = REQ_CANCEL \<longrightarrow>
     (\<exists>r \<in> set (take k rs). below_market r \<and> rs ! k = cancel_of r))"

lemma cancels_earlier_snoc:
  "cancels_earlier (rs @ [r]) \<longleftrightarrow> cancels_earlier rs \<and>
    (rq_type r = REQ_CANCEL \<longrightarrow> (\<exists>x \<in> set rs. below_market x \<and> r = cancel_of x))"
  by (auto simp: cancels_earlier_def nth_append less_Suc_eq)

lemma cancels_earlier_obtain:
  assumes "cancels_earlier rs" and "r \<in> set rs" and "rq_type r = REQ_CANCEL"
  obtains x where "x \<in> set rs" and "below_market x" and "r = cancel_of x"
proof -
  obtain k where "k < length rs" "rs ! k = r" using assms(2) by (auto simp: in_set_conv_nth)
  then show ?thesis using assms(1,3) that unfolding cancels_earlier_def by (blast dest: in_set_takeD)
qed

definition session_inv :: "order_id_t \<Rightarrow> request_queue \<Rightarrow> client_request_internal list \<Rightarrow> 'g random_trader \<Rightarrow> bool" where
  "session_inv order_id q sent s \<longleftrightarrow>
     rt_requests s = fold enqueue sent q \<and> length (instrument_base_price s) = MAX_NUM_INSTRUMENTS \<and>
     list_all (\<lambda>r. rq_type r \<in> {REQ_NEW, REQ_CANCEL}) sent \<and> list_all random_new (news sent) \<and>
     map rq_order_id (news sent) = map (\<lambda>k. order_id + word_of_nat k) [0..<length (news sent)] \<and>
     rt_order_id s = order_id + word_of_nat (length (news sent)) \<and> cancels_earlier sent \<and>
     set (below_market_buy_orders s) \<subseteq> {r \<in> set sent. below_market r} \<and>
     distinct (map rq_order_id (below_market_buy_orders s) @ map rq_order_id (cancels sent))"

lemma drawn_ok:
  assumes "uniform_int draw" and "a \<le> b"
  obtains v g where "drawn draw a b s = (v, s\<lparr>rt_gen := g\<rparr>)" and "a \<le> v" and "v \<le> b"
  using assms unfolding uniform_int_def drawn_def by (metis (mono_tags, lifting) case_prod_beta')

lemma session_gen [simp]: "session_inv i q sent (s\<lparr>rt_gen := g\<rparr>) = session_inv i q sent s"
  by (simp add: session_inv_def)

lemma rt_send_enqueue: "rt_send r s = s\<lparr>rt_requests := enqueue r (rt_requests s)\<rparr>"
  by (simp add: rt_send_def send_client_request_def enqueue_def)

lemma small_word_inj: "j < k \<Longrightarrow> k < 2 ^ 64 \<Longrightarrow> (word_of_nat j :: u64) \<noteq> word_of_nat k"
  by (simp add: word_unat_eq_iff unat_of_nat)

lemma unat_small_int: "0 \<le> z \<Longrightarrow> z < 2 ^ 32 \<Longrightarrow> unat (word_of_int z :: u32) = nat z"
  by (simp add: unat_eq_nat_uint uint_word_of_int_eq take_bit_int_eq_self)

text \<open>The next identifier has not been used.\<close>

lemma next_id_fresh:
  assumes inv: "session_inv i q sent s" and room: "length (news sent) < 2 ^ 64" and r: "r \<in> set sent"
  shows "rq_order_id r \<noteq> rt_order_id s"
proof -
  have new: "rq_order_id x \<noteq> rt_order_id s" if "x \<in> set sent" "rq_type x = REQ_NEW" for x
  proof -
    have "rq_order_id x \<in> set (map rq_order_id (news sent))" using that by (simp add: news_def)
    then obtain j where "j < length (news sent)" "rq_order_id x = i + word_of_nat j"
      using inv unfolding session_inv_def by auto
    then show ?thesis using small_word_inj [of j] room inv by (simp add: session_inv_def)
  qed
  have "\<exists>x \<in> set sent. rq_type x = REQ_NEW \<and> rq_order_id r = rq_order_id x"
  proof (cases "rq_type r = REQ_NEW")
    case False
    then have "rq_type r = REQ_CANCEL" using inv r by (auto simp: session_inv_def list_all_iff)
    moreover have "cancels_earlier sent" using inv by (simp add: session_inv_def)
    ultimately obtain x where "x \<in> set sent" "below_market x" "r = cancel_of x" using r cancels_earlier_obtain by metis
    then show ?thesis by (auto simp: below_market_def cancel_of_def)
  qed (use r in auto)
  then show ?thesis using new by metis
qed

lemma regular_order_ok:
  assumes u: "uniform_int draw" and inv: "session_inv id0 q sent s"
  shows "\<exists>k s' r. regular_order draw i s = (k, s') \<and> k < MAX_NUM_INSTRUMENTS \<and> session_inv id0 q (sent @ [r]) s' \<and>
    rq_type r = REQ_NEW"
proof -
  have b: "0 \<le> int MAX_NUM_INSTRUMENTS - 1" by (simp add: model_constants)
  obtain v g1 where d1: "drawn draw 0 (int MAX_NUM_INSTRUMENTS - 1) s = (v, s\<lparr>rt_gen := g1\<rparr>)" "0 \<le> v" "v \<le> int MAX_NUM_INSTRUMENTS - 1"
    using drawn_ok [OF u b] by blast
  define k where "k = nat v"
  have k: "k < MAX_NUM_INSTRUMENTS" using d1(2,3) by (simp add: k_def)
  define s1 where "s1 = s\<lparr>rt_gen := g1, instrument_base_price := (instrument_base_price s)[k := instrument_base_price s ! k +
    (if i mod 2 = 0 then 1 else - 1)]\<rparr>"
  obtain offset g2 where d2: "drawn draw 1 10 s1 = (offset, s1\<lparr>rt_gen := g2\<rparr>)" by (rule drawn_ok [OF u, of 1 10 s1]) auto
  obtain qty g3 where d3: "drawn draw 1 100 (s1\<lparr>rt_gen := g2\<rparr>) = (qty, s1\<lparr>rt_gen := g3\<rparr>)" "1 \<le> qty" "qty \<le> 100"
    by (rule drawn_ok [OF u, of 1 100 "s1\<lparr>rt_gen := g2\<rparr>"]) auto
  obtain side g4 where d4: "drawn draw 0 99 (s1\<lparr>rt_gen := g3\<rparr>) = (side, s1\<lparr>rt_gen := g4\<rparr>)"
    by (rule drawn_ok [OF u, of 0 99 "s1\<lparr>rt_gen := g3\<rparr>"]) auto
  define r where "r = \<lparr>rq_type = REQ_NEW, rq_client_id = 0, rq_instrument_id = word_of_nat k, rq_order_id = rt_order_id s,
    rq_side = (if side < 50 then BUY else SELL), rq_price = instrument_base_price s1 ! k + word_of_int offset, rq_qty = word_of_int qty\<rparr>"
  define s' where "s' = s1\<lparr>rt_gen := g4, rt_order_id := rt_order_id s + 1, rt_requests := enqueue r (rt_requests s),
    client_requests_vec := client_requests_vec s @ [r]\<rparr>"
  have "regular_order draw i s = (k, s')"
    using d1(1) d2 d3(1) d4 by (simp add: regular_order_def Let_def k_def [symmetric] s1_def r_def s'_def rt_send_enqueue)
  moreover have "random_new r" using k d3(2,3)
    by (auto simp: random_new_def r_def model_constants unat_of_nat unat_small_int)
  then have "session_inv id0 q (sent @ [r]) s'"
    using inv by (auto simp: session_inv_def s'_def s1_def r_def cancels_earlier_snoc)
  ultimately show ?thesis using k by (auto simp: r_def)
qed

lemma below_market_order_ok:
  assumes u: "uniform_int draw" and inv: "session_inv id0 q sent s" and k: "k < MAX_NUM_INSTRUMENTS" and room: "length (news sent) < 2 ^ 64"
  shows "\<exists>new. session_inv id0 q (sent @ new) (below_market_order draw k s) \<and> length new \<le> 1"
proof -
  obtain pr g1 where d1: "drawn draw 1 100 s = (pr, s\<lparr>rt_gen := g1\<rparr>)" by (rule drawn_ok [OF u, of 1 100 s]) auto
  obtain below g2 where d2: "drawn draw 50 90 (s\<lparr>rt_gen := g1\<rparr>) = (below, s\<lparr>rt_gen := g2\<rparr>)" "50 \<le> below" "below \<le> 90"
    by (rule drawn_ok [OF u, of 50 90 "s\<lparr>rt_gen := g1\<rparr>"]) auto
  obtain offset g3 where d3: "drawn draw 1 10 (s\<lparr>rt_gen := g2\<rparr>) = (offset, s\<lparr>rt_gen := g3\<rparr>)" "1 \<le> offset" "offset \<le> 10"
    by (rule drawn_ok [OF u, of 1 10 "s\<lparr>rt_gen := g2\<rparr>"]) auto
  obtain qty g4 where d4: "drawn draw 1 100 (s\<lparr>rt_gen := g3\<rparr>) = (qty, s\<lparr>rt_gen := g4\<rparr>)" "1 \<le> qty" "qty \<le> 100"
    by (rule drawn_ok [OF u, of 1 100 "s\<lparr>rt_gen := g3\<rparr>"]) auto
  define r where "r = \<lparr>rq_type = REQ_NEW, rq_client_id = 0, rq_instrument_id = word_of_nat k, rq_order_id = rt_order_id s,
    rq_side = BUY, rq_price = word_of_int (below - offset), rq_qty = word_of_int qty\<rparr>"
  have new: "random_new r" using k d4(2,3)
    by (auto simp: random_new_def r_def model_constants unat_of_nat unat_small_int)
  have "sint (rq_price r) = below - offset" using d2(2,3) d3(2,3)
    by (simp add: r_def signed_of_int signed_take_bit_int_eq_self del: of_int_diff)
  then have bm: "below_market r" using d2(2,3) d3(2,3) by (simp add: below_market_def r_def)
  show ?thesis
  proof (cases "pr \<le> 30")
    case True
    have "rt_order_id s \<notin> rq_order_id ` set xs" if "set xs \<subseteq> set sent" for xs
      using next_id_fresh [OF inv room] that by fastforce
    moreover have "set (below_market_buy_orders s) \<subseteq> set sent" "set (cancels sent) \<subseteq> set sent"
      using inv by (auto simp: session_inv_def cancels_def)
    ultimately have fresh: "rt_order_id s \<notin> rq_order_id ` set (below_market_buy_orders s)"
      "rt_order_id s \<notin> rq_order_id ` set (cancels sent)" by blast+
    have "below_market_order draw k s = s\<lparr>rt_gen := g4, rt_order_id := rt_order_id s + 1, rt_requests := enqueue r (rt_requests s),
        below_market_buy_orders := below_market_buy_orders s @ [r]\<rparr>"
      using True d1 d2(1) d3(1) d4(1) by (simp add: below_market_order_def Let_def r_def rt_send_enqueue)
    moreover have "session_inv id0 q (sent @ [r]) \<dots>"
      using inv new bm fresh by (auto simp: session_inv_def cancels_earlier_snoc r_def)
    ultimately show ?thesis by (intro exI [of _ "[r]"]) simp
  next
    case False
    then show ?thesis using inv d1 by (intro exI [of _ "[]"]) (simp add: below_market_order_def)
  qed
qed

lemma cancel_below_market_ok:
  assumes u: "uniform_int draw" and inv: "session_inv id0 q sent s"
  shows "\<exists>new. session_inv id0 q (sent @ new) (cancel_below_market draw s) \<and> length new \<le> 1 \<and> news new = []"
proof (cases "below_market_buy_orders s = []")
  case True
  then show ?thesis using inv by (intro exI [of _ "[]"]) (simp add: cancel_below_market_def)
next
  case False
  then obtain rs r where rs: "below_market_buy_orders s = rs @ [r]" by (metis rev_exhaust)
  obtain pr g where d: "drawn draw 1 100 s = (pr, s\<lparr>rt_gen := g\<rparr>)" by (rule drawn_ok [OF u, of 1 100 s]) auto
  show ?thesis
  proof (cases "pr \<le> 30")
    case True
    have "cancel_below_market draw s = s\<lparr>rt_gen := g, below_market_buy_orders := rs, rt_requests := enqueue (cancel_of r) (rt_requests s)\<rparr>"
      using True d rs by (simp add: cancel_below_market_def rt_send_enqueue)
    moreover have "session_inv id0 q (sent @ [cancel_of r]) \<dots>"
      using inv rs by (auto simp: session_inv_def cancels_earlier_snoc cancel_of_def)
    ultimately show ?thesis by (intro exI [of _ "[cancel_of r]"]) (simp add: cancel_of_def)
  next
    case False
    then show ?thesis using inv d rs by (intro exI [of _ "[]"]) (simp add: cancel_below_market_def)
  qed
qed

lemma random_turn_ok:
  assumes u: "uniform_int draw" and inv: "session_inv id0 q sent s" and room: "length sent + 1 < 2 ^ 64"
  shows "\<exists>new. session_inv id0 q (sent @ new) (random_turn draw i s) \<and> length new \<le> 3 \<and> 1 \<le> length (news new)"
proof -
  obtain k s1 r where r: "regular_order draw i s = (k, s1)" "k < MAX_NUM_INSTRUMENTS" "session_inv id0 q (sent @ [r]) s1" "rq_type r = REQ_NEW"
    using regular_order_ok [OF u inv] by blast
  have "length (news (sent @ [r])) \<le> length (sent @ [r])" unfolding news_def by (rule length_filter_le)
  then have "length (news (sent @ [r])) < 2 ^ 64" using room by simp
  then obtain xs where xs: "session_inv id0 q ((sent @ [r]) @ xs) (below_market_order draw k s1)" "length xs \<le> 1"
    using below_market_order_ok [OF u r(3,2)] by blast
  obtain ys where ys: "session_inv id0 q (((sent @ [r]) @ xs) @ ys) (cancel_below_market draw (below_market_order draw k s1))"
    "length ys \<le> 1" "news ys = []" using cancel_below_market_ok [OF u xs(1)] by blast
  show ?thesis using ys xs(2) r(1,4)
    by (intro exI [of _ "r # xs @ ys"]) (simp add: random_turn_def news_def)
qed

lemma random_turns_ok:
  assumes u: "uniform_int draw" and inv: "session_inv id0 q sent s" and room: "length sent + 3 * n < 2 ^ 64"
  shows "\<exists>new. session_inv id0 q (sent @ new) (random_turns draw i n s) \<and> length new \<le> 3 * n \<and> n \<le> length (news new)"
  using inv room
proof (induction n arbitrary: i s sent)
  case 0
  then show ?case by (intro exI [of _ "[]"]) simp
next
  case (Suc n)
  obtain xs where xs: "session_inv id0 q (sent @ xs) (random_turn draw i s)" "length xs \<le> 3" "1 \<le> length (news xs)"
    using random_turn_ok [OF u Suc.prems(1)] Suc.prems(2) by auto
  have "length (sent @ xs) + 3 * n < 2 ^ 64" using xs(2) Suc.prems(2) by simp
  from Suc.IH [OF xs(1) this, of "i + 1"] obtain ys where "session_inv id0 q ((sent @ xs) @ ys) (random_turns draw (i + 1) n (random_turn draw i s))"
    "length ys \<le> 3 * n" "n \<le> length (news ys)" by blast
  with xs(2,3) show ?case by (intro exI [of _ "xs @ ys"]) simp
qed

lemma initial_prices_ok:
  assumes u: "uniform_int draw"
  shows "\<exists>g ps. initial_prices draw n s = s\<lparr>rt_gen := g, instrument_base_price := instrument_base_price s @ ps\<rparr> \<and> length ps = n"
proof (induction n arbitrary: s)
  case 0
  then show ?case by (intro exI [of _ "rt_gen s"] exI [of _ "[]"]) simp
next
  case (Suc n)
  obtain v g where d: "drawn draw 100 199 s = (v, s\<lparr>rt_gen := g\<rparr>)" by (rule drawn_ok [OF u, of 100 199 s]) auto
  obtain g' ps where "initial_prices draw n (s\<lparr>rt_gen := g, instrument_base_price := instrument_base_price s @ [word_of_int v]\<rparr>) =
      s\<lparr>rt_gen := g', instrument_base_price := (instrument_base_price s @ [word_of_int v]) @ ps\<rparr>" "length ps = n"
    using Suc.IH [of "s\<lparr>rt_gen := g, instrument_base_price := instrument_base_price s @ [word_of_int v]\<rparr>"] by auto
  with d show ?case by (intro exI [of _ g'] exI [of _ "word_of_int v # ps"]) simp
qed

text \<open>
  C38: whatever the random numbers, a session sends between 100 and 300 requests, all of them new
  orders and cancels the gateway can encode; the new orders have valid instruments, sides and
  quantities and consecutive identifiers from the given one; every cancel names an order below
  the market that was sent before, and none is cancelled twice.
\<close>

theorem random_session_requests:
  assumes "uniform_int draw"
  shows "\<exists>sent. rt_requests (random_session draw g id0 q) = fold enqueue sent q \<and> 100 \<le> length sent \<and> length sent \<le> 300 \<and>
    list_all (\<lambda>r. wire_request_type (rq_type r) \<and> wire_side (rq_side r)) sent \<and> list_all random_new (news sent) \<and>
    map rq_order_id (news sent) = map (\<lambda>k. id0 + word_of_nat k) [0..<length (news sent)] \<and>
    cancels_earlier sent \<and> distinct (map rq_order_id (cancels sent))"
proof -
  let ?s = "\<lparr>rt_gen = g, rt_order_id = id0, client_requests_vec = [], below_market_buy_orders = [],
    instrument_base_price = [], rt_requests = q\<rparr>"
  obtain g' ps where p: "initial_prices draw MAX_NUM_INSTRUMENTS ?s = ?s\<lparr>rt_gen := g', instrument_base_price := ps\<rparr>"
    "length ps = MAX_NUM_INSTRUMENTS" using initial_prices_ok [OF assms, of MAX_NUM_INSTRUMENTS ?s] by auto
  have "session_inv id0 q [] (initial_prices draw MAX_NUM_INSTRUMENTS ?s)"
    using p by (simp add: session_inv_def cancels_earlier_def)
  from random_turns_ok [OF assms this, of 100 0] obtain sent where s: "session_inv id0 q sent (random_session draw g id0 q)"
    "length sent \<le> 300" "100 \<le> length (news sent)" by (auto simp: random_session_def)
  have "length (news sent) \<le> length sent" unfolding news_def by (rule length_filter_le)
  then have len: "100 \<le> length sent" using s(3) by simp
  have "wire_request_type (rq_type r) \<and> wire_side (rq_side r)" if r: "r \<in> set sent" for r
  proof (cases "rq_type r = REQ_NEW")
    case True
    then have "random_new r" using s(1) r by (auto simp: session_inv_def list_all_iff news_def)
    then show ?thesis using True by (auto simp: random_new_def)
  next
    case False
    then have c: "rq_type r = REQ_CANCEL" using s(1) r by (auto simp: session_inv_def list_all_iff)
    moreover have "cancels_earlier sent" using s(1) by (simp add: session_inv_def)
    ultimately obtain x where "below_market x" "r = cancel_of x" using r cancels_earlier_obtain by metis
    then show ?thesis using c by (simp add: below_market_def cancel_of_def)
  qed
  then have "list_all (\<lambda>r. wire_request_type (rq_type r) \<and> wire_side (rq_side r)) sent" by (simp add: list_all_iff)
  moreover have "distinct (map rq_order_id (cancels sent))" using s(1) unfolding session_inv_def distinct_append by blast
  ultimately show ?thesis using s(1,2) len unfolding session_inv_def
    by (intro exI [of _ sent] conjI; elim conjE) assumption+
qed

definition lowest :: "unit drawing" where
  "lowest a b g = (a, g)"

theorem random_session_requests_witness:
  "\<exists>sent. rt_requests (random_session lowest () 1 (lock_free_queue_init 512 default_client_request)) =
      fold enqueue sent (lock_free_queue_init 512 default_client_request) \<and> 100 \<le> length sent \<and> cancels_earlier sent"
proof -
  have "uniform_int lowest" by (simp add: uniform_int_def lowest_def)
  from random_session_requests [OF this] show ?thesis by blast
qed

end
