(* ===== verification/LastMessage.thy ===== *)
theory LastMessage
  imports MatchingEngine
begin

text \<open>
  The order book keeps the last response and the last update it sent in the members
  \<open>client_response_\<close> and \<open>market_update_\<close>, which \<open>get_client_response\<close> and \<open>get_market_update\<close>
  hand out: every operation leaves in them what it last wrote to the two queues.
\<close>

section \<open>The last message\<close>

text \<open>\<open>get_client_response\<close> and \<open>get_market_update\<close>.\<close>

definition get_client_response :: "order_book \<Rightarrow> client_response_internal" where
  "get_client_response s = client_response s"

definition get_market_update :: "order_book \<Rightarrow> market_update" where
  "get_market_update s = market_update s"

definition last_written :: "'a lock_free_queue \<Rightarrow> 'a" where
  "last_written q = q_data q ((q_next_write_index q + q_size q - 1) mod q_size q)"

lemma last_written_enqueue:
  assumes "q_next_write_index q < q_size q"
  shows "last_written (enqueue x q) = x"
proof -
  let ?n = "q_size q" and ?w = "q_next_write_index q"
  have "((?w + 1) mod ?n + ?n - 1) mod ?n = ?w" using assms by (cases "?w + 1 = ?n") auto
  then show ?thesis by (simp add: last_written_def queue_defs)
qed

text \<open>
  \<open>members s\<close>: what the operations on the heap do not touch; \<open>echoes s\<close>: the two members hold
  what was last written to the two queues.
\<close>

definition members :: "order_book \<Rightarrow> message_handler \<times> client_response_internal \<times> market_update" where
  "members s = (message_handler s, client_response s, market_update s)"

lemma members_frames [simp]:
  "members (set_level l f s) = members s" "members (set_order a g s) = members s"
  "members (set_best sd p s) = members s" "members (s\<lparr>price_levels := pl\<rparr>) = members s"
  "members (s\<lparr>price_level_pool := lp\<rparr>) = members s" "members (s\<lparr>order_pool := op\<rparr>) = members s"
  "members (s\<lparr>client_orders := co\<rparr>) = members s" "members (s\<lparr>next_market_order_id := n\<rparr>) = members s"
  by (simp_all add: members_def set_level_def set_order_def set_best_def)

text \<open>\<open>yields P r\<close>: if \<open>r\<close> is a result then it satisfies \<open>P\<close>; one rule per construct of the operations.\<close>

definition yields :: "('a \<Rightarrow> bool) \<Rightarrow> 'a result \<Rightarrow> bool" where
  "yields P r \<longleftrightarrow> (\<forall>x. r = Inr x \<longrightarrow> P x)"

lemma yields_return: "P x \<Longrightarrow> yields P (Inr x)"
  by (simp add: yields_def)

lemma yields_error: "yields P (Inl e)"
  by (simp add: yields_def)

lemma yields_read: "(\<And>x. r = Inr x \<Longrightarrow> yields P (f x)) \<Longrightarrow> yields P (rbind r f)"
  by (auto simp: yields_def rbind_Inr_iff)

lemma yields_then: "yields Q r \<Longrightarrow> (\<And>x. Q x \<Longrightarrow> yields P (f x)) \<Longrightarrow> yields P (rbind r f)"
  by (auto simp: yields_def rbind_Inr_iff)

lemma yields_cases:
  "(c \<Longrightarrow> yields P r) \<Longrightarrow> (\<not> c \<Longrightarrow> yields P r') \<Longrightarrow> yields P (if c then r else r')"
  "yields P r \<Longrightarrow> (\<And>x. yields P (f x)) \<Longrightarrow> yields P (case p of None \<Rightarrow> r | Some x \<Rightarrow> f x)"
  "(\<And>a b. z = (a, b) \<Longrightarrow> yields P (g a b)) \<Longrightarrow> yields P (case z of (a, b) \<Rightarrow> g a b)"
  by (auto split: option.split prod.split)

lemma yields_mono: "yields P r \<Longrightarrow> (\<And>x. P x \<Longrightarrow> Q x) \<Longrightarrow> yields Q r"
  by (auto simp: yields_def)

abbreviation keeps :: "message_handler \<times> client_response_internal \<times> market_update \<Rightarrow> order_book result \<Rightarrow> bool" where
  "keeps m \<equiv> yields (\<lambda>s. members s = m)"

lemma keeps_then: "keeps m r \<Longrightarrow> (\<And>s. members s = m \<Longrightarrow> keeps m (f s)) \<Longrightarrow> keeps m (rbind r f)"
  by (rule yields_then)

lemma members_if: "members (if c then s else s') = (if c then members s else members s')"
  by simp

lemma add_after_keeps: "members s = m \<Longrightarrow> keeps m (add_after c n s)"
  unfolding add_after_def Let_def by (intro yields_read yields_return) (simp only: members_frames)

lemma add_before_keeps: "members s = m \<Longrightarrow> keeps m (add_before c n s)"
  unfolding add_before_def Let_def by (intro yields_read yields_return) (simp only: members_frames)

lemma add_price_level_keeps: "members s = m \<Longrightarrow> keeps m (add_price_level n s)"
  unfolding add_price_level_def Let_def
  by (intro yields_cases yields_return keeps_then [of _ "add_before a b t" for a b t] yields_read add_before_keeps add_after_keeps;
      simp only: members_frames)

lemma set_client_order_keeps: "members s = m \<Longrightarrow> keeps m (set_client_order c i p s)"
  unfolding set_client_order_def by (intro yields_cases yields_return yields_error) (simp only: members_frames)

lemma remove_price_level_keeps: "members s = m \<Longrightarrow> keeps m (remove_price_level sd p s)"
  unfolding remove_price_level_def Let_def
  by (rule yields_cases(2), rule yields_return, assumption, rule keeps_then)
    ((intro yields_cases yields_read yields_return; simp only: members_frames members_if if_cancel)+)

lemma add_order_keeps: "members s = m \<Longrightarrow> keeps m (add_order a s)"
  unfolding add_order_def Let_def
  by (rule keeps_then, (intro yields_cases yields_read yields_return add_price_level_keeps; simp only: members_frames))
    (rule set_client_order_keeps)

lemma remove_order_keeps:
  assumes "members s = m"
  shows "keeps m (remove_order a s)"
  unfolding remove_order_def Let_def
proof (rule keeps_then)
  show "keeps m (if prev_order (order_at s a) = Some a then remove_price_level (o_side (order_at s a)) (o_price (order_at s a)) s
    else rbind (deref (prev_order (order_at s a))) (\<lambda>before. rbind (deref (next_order (order_at s a))) (\<lambda>after.
      rbind (deref (get_price_level (o_side (order_at s a)) (o_price (order_at s a)) s)) (\<lambda>l.
        Inr (set_order a (\<lambda>x. x\<lparr>prev_order := None, next_order := None\<rparr>)
          (if first_order (level_at (set_order after (\<lambda>x. x\<lparr>prev_order := Some before\<rparr>) (set_order before (\<lambda>x. x\<lparr>next_order := Some after\<rparr>) s)) l) = Some a
           then set_level l (\<lambda>x. x\<lparr>first_order := Some after\<rparr>) (set_order after (\<lambda>x. x\<lparr>prev_order := Some before\<rparr>) (set_order before (\<lambda>x. x\<lparr>next_order := Some after\<rparr>) s))
           else set_order after (\<lambda>x. x\<lparr>prev_order := Some before\<rparr>) (set_order before (\<lambda>x. x\<lparr>next_order := Some after\<rparr>) s)))))))"
    using assms by (intro yields_cases yields_read yields_return remove_price_level_keeps)
      (simp_all only: members_frames members_if if_cancel)
next
  fix t
  assume "members t = m"
  then show "keeps m (rbind (set_client_order (o_client_id (order_at t a)) (o_client_order_id (order_at t a)) None t) (\<lambda>s.
      rbind (pool_free a (order_pool s)) (\<lambda>op. Inr (s\<lparr>order_pool := op\<rparr>))))"
    by (intro keeps_then [OF set_client_order_keeps] yields_read yields_return) (simp_all only: members_frames)
qed

text \<open>\<open>echoes s\<close>: the two members hold what was last written to the two queues.\<close>

definition echoes :: "order_book \<Rightarrow> bool" where
  "echoes s \<longleftrightarrow> (let r = outgoing_responses (message_handler s); u = outgoing_market_updates (message_handler s) in
     q_next_write_index r < q_size r \<and> client_response s = last_written r \<and>
     q_next_write_index u < q_size u \<and> market_update s = last_written u)"

lemma echoes_members: "members s' = members s \<Longrightarrow> echoes s \<Longrightarrow> echoes s'"
  by (simp add: members_def echoes_def)

lemma echoes_kept: "echoes s \<Longrightarrow> (\<And>m. members s = m \<Longrightarrow> keeps m r) \<Longrightarrow> yields echoes r"
  by (rule yields_mono [of "\<lambda>t. members t = members s"]) (auto intro: echoes_members)

lemma write_index_enqueue: "q_next_write_index q < q_size q \<Longrightarrow> q_next_write_index (enqueue x q) < q_size q"
  by (auto simp: queue_defs)

lemma sent_queues:
  "outgoing_responses (message_handler (respond r s)) = enqueue r (outgoing_responses (message_handler s))"
  "outgoing_market_updates (message_handler (respond r s)) = outgoing_market_updates (message_handler s)"
  "outgoing_responses (message_handler (publish_update u s)) = outgoing_responses (message_handler s)"
  "outgoing_market_updates (message_handler (publish_update u s)) = enqueue u (outgoing_market_updates (message_handler s))"
  by (simp_all add: respond_def publish_update_def send_client_response_def send_market_update_def enqueue_def)

lemma echoes_messages:
  "echoes s \<Longrightarrow> echoes (respond r s)" "echoes s \<Longrightarrow> echoes (publish_update u s)"
  unfolding echoes_def Let_def sent_queues
  by (simp_all add: respond_def publish_update_def last_written_enqueue write_index_enqueue)

lemma echoes_frames:
  "echoes s \<Longrightarrow> echoes (set_order a g s)" "echoes s \<Longrightarrow> echoes (s\<lparr>order_pool := op\<rparr>)"
  "echoes s \<Longrightarrow> echoes (s\<lparr>next_market_order_id := n\<rparr>)"
  by (erule echoes_members [rotated], simp only: members_frames)+

lemma remove_order_echoes: "echoes s \<Longrightarrow> yields echoes (remove_order a s)"
  by (rule echoes_kept [of s]) (assumption, rule remove_order_keeps)

lemma add_order_echoes: "echoes s \<Longrightarrow> yields echoes (add_order a s)"
  by (rule echoes_kept [of s]) (assumption, rule add_order_keeps)

lemma echoes_match_order: "echoes s \<Longrightarrow> yields (\<lambda>(l, s). echoes s) (match_order cid sd coid moid q a s)"
  unfolding match_order_def Let_def
  by (intro yields_cases yields_then [OF remove_order_echoes] yields_return case_prodI echoes_messages echoes_frames)

lemma echoes_match_loop: "echoes s \<Longrightarrow> yields (\<lambda>(l, s). echoes s) (match_loop fuel cid coid moid sd price q s)"
proof (induction fuel cid coid moid sd price q s rule: match_loop.induct)
  case (1 fuel cid coid moid sd price q s)
  have "yields (\<lambda>(l, s). echoes s) (rbind (match_order cid sd coid moid q a s)
      (\<lambda>(l, s). match_loop (fuel - 1) cid coid moid sd price l s))"
    if "q \<noteq> 0 \<and> opposite sd s \<noteq> None" "fuel \<noteq> 0" "deref (opposite sd s) = Inr l" "deref (first_order (level_at s l)) = Inr a"
      "\<not> too_far sd (o_price (order_at s a)) price" for l a
    using echoes_match_order [OF "1.prems"] "1.IH" [OF that]
    by (force simp: yields_def rbind_Inr_iff)
  with "1.prems" show ?case
    by (subst match_loop.simps) (auto intro!: yields_return yields_error yields_read)
qed

lemma echoes_rest: "echoes s \<Longrightarrow> yields echoes (rbind (add_order a s) (\<lambda>s. Inr (publish_update (u s) s)))"
  by (intro yields_then [OF add_order_echoes] yields_return echoes_messages)

lemma echoes_add:
  assumes "echoes s"
  shows "yields echoes (ob_add cid coid sd price q s)"
proof -
  have "yields (\<lambda>(l, s). echoes s) (check_for_match cid coid moid sd price q (respond r (s\<lparr>next_market_order_id := n\<rparr>)))" for moid r n
    unfolding check_for_match_def by (intro echoes_match_loop echoes_messages echoes_frames assms)
  then show ?thesis unfolding ob_add_def Let_def get_new_market_order_id_def prod.case
  proof (rule yields_then)
    fix x :: "quantity_t \<times> order_book"
    obtain l t where x: "x = (l, t)" by force
    assume "case x of (l, s) \<Rightarrow> echoes s"
    then have t: "echoes t" by (simp add: x)
    show "yields echoes (case x of (leaves_qty, t) \<Rightarrow> if 0 < leaves_qty
      then rbind (get_order_priority_at_price_level sd price t) (\<lambda>priority. rbind (pool_alloc \<lparr>o_instrument_id = instrument_id t,
        o_client_id = cid, o_client_order_id = coid, o_market_order_id = next_market_order_id s, o_side = sd, o_price = price,
        o_qty = leaves_qty, o_priority = priority, prev_order = None, next_order = None\<rparr> (order_pool t)) (\<lambda>(a, op).
        rbind (add_order a (t\<lparr>order_pool := op\<rparr>)) (\<lambda>s'. Inr (publish_update \<lparr>mu_type = MU_ADD, mu_order_id = next_market_order_id s,
          mu_instrument_id = instrument_id s', mu_side = sd, mu_price = price, mu_qty = leaves_qty, mu_priority = priority\<rparr> s'))))
      else Inr t)"
      unfolding x prod.case using t
      by (auto intro!: yields_return yields_read echoes_rest echoes_frames)
  qed
qed

lemma echoes_cancel: "echoes s \<Longrightarrow> yields echoes (ob_cancel cid coid s)"
  unfolding ob_cancel_def Let_def
  by (rule yields_read, rule yields_cases(2)) (auto intro!: yields_return yields_then [OF remove_order_echoes] echoes_messages)

lemma echoes_modify: "echoes s \<Longrightarrow> yields echoes (ob_modify cid coid price q s)"
  unfolding ob_modify_def Let_def
  by (rule yields_read, rule yields_cases(2))
    (auto intro!: yields_return yields_then [OF echoes_cancel] echoes_add echoes_messages echoes_frames)

lemma echoes_dispatch: "echoes s \<Longrightarrow> yields echoes (dispatch_request r s)"
  by (cases "rq_type r") (simp_all add: dispatch_request_def echoes_add echoes_cancel echoes_modify yields_error)

end
