(* ===== verification/OrderBookTest.thy ===== *)
theory OrderBookTest
  imports LastMessage
begin

text \<open>
  \<open>test/order_book_test.cpp\<close>: the test suite of the order book, test by test, on the model's
  operations. A test runs calls on a fresh book of instrument 1 and evaluates its expectations;
  its result is whether all of them hold. All tests pass.
\<close>

section \<open>The fixture and the expectations\<close>

definition test_messages :: message_handler where
  "test_messages = \<lparr>outgoing_responses = lock_free_queue_init MAX_CLIENT_UPDATES default_client_response,
     outgoing_market_updates = lock_free_queue_init MAX_MARKET_UPDATES default_market_update\<rparr>"

definition set_up :: "order_book result" where
  "set_up = order_book_init 1 test_messages"

definition client_responses :: "order_book \<Rightarrow> client_response_internal lock_free_queue" where
  "client_responses s = outgoing_responses (message_handler s)"

definition market_updates :: "order_book \<Rightarrow> market_update lock_free_queue" where
  "market_updates s = outgoing_market_updates (message_handler s)"

text \<open>Reading a queue element by element, each with its expectations.\<close>

fun expect_read :: "('a \<Rightarrow> bool) list \<Rightarrow> 'a lock_free_queue \<Rightarrow> bool" where
  "expect_read [] q \<longleftrightarrow> True"
| "expect_read (P # Ps) q \<longleftrightarrow> (case get_next_read_element q of
     Some x \<Rightarrow> P x \<and> expect_read Ps (next_read_index q) | None \<Rightarrow> False)"

definition typed :: "client_response_type \<Rightarrow> client_response_internal \<Rightarrow> bool" where
  "typed t r \<longleftrightarrow> rs_type r = t"

definition answered :: "client_id_t \<Rightarrow> client_response_type \<Rightarrow> client_response_internal \<Rightarrow> bool" where
  "answered c t r \<longleftrightarrow> rs_client_id r = c \<and> rs_type r = t"

definition filled :: "client_id_t \<Rightarrow> quantity_t \<Rightarrow> client_response_internal \<Rightarrow> bool" where
  "filled c leaves r \<longleftrightarrow> rs_type r = FILLED \<and> rs_client_id r = c \<and> rs_leaves_qty r = leaves"

definition updated :: "market_update_type \<Rightarrow> market_update \<Rightarrow> bool" where
  "updated t u \<longleftrightarrow> mu_type u = t"

section \<open>The tests\<close>

definition add_buy_order_no_match :: "bool result" where
  "add_buy_order_no_match = rbind set_up (\<lambda>s.
     rbind (ob_add 1 1 BUY 100 100 s) (\<lambda>s.
     let r = get_client_response s; u = get_market_update s in
     Inr (rs_type r = ACCEPTED \<and> rs_client_id r = 1 \<and> rs_instrument_id r = 1 \<and> rs_client_order_id r = 1 \<and>
       rs_market_order_id r = 1 \<and> rs_side r = BUY \<and> rs_price r = 100 \<and> rs_leaves_qty r = 100 \<and>
       mu_type u = MU_ADD \<and> mu_order_id u = 1 \<and> mu_instrument_id u = 1 \<and> mu_side u = BUY \<and> mu_price u = 100 \<and> mu_qty u = 100)))"

definition add_sell_order_no_match :: "bool result" where
  "add_sell_order_no_match = rbind set_up (\<lambda>s.
     rbind (ob_add 1 1 SELL 100 100 s) (\<lambda>s.
     let r = get_client_response s; u = get_market_update s in
     Inr (rs_type r = ACCEPTED \<and> rs_client_id r = 1 \<and> rs_instrument_id r = 1 \<and> rs_client_order_id r = 1 \<and>
       rs_market_order_id r = 1 \<and> rs_side r = SELL \<and> rs_price r = 100 \<and> rs_leaves_qty r = 100 \<and>
       mu_type u = MU_ADD \<and> mu_order_id u = 1 \<and> mu_instrument_id u = 1 \<and> mu_side u = SELL \<and> mu_price u = 100 \<and> mu_qty u = 100)))"

definition add_buy_order_with_match :: "bool result" where
  "add_buy_order_with_match = rbind set_up (\<lambda>s.
     rbind (ob_add 2 2 SELL 100 100 s) (\<lambda>s.
     rbind (ob_add 1 1 BUY (100 + 1) 100 s) (\<lambda>s.
     let r = get_client_response s; u = get_market_update s in
     Inr (rs_type r = FILLED \<and> rs_client_id r = 2 \<and> rs_instrument_id r = 1 \<and> rs_client_order_id r = 2 \<and>
       rs_market_order_id r = 1 \<and> rs_side r = SELL \<and> rs_price r = 100 \<and> rs_leaves_qty r = 0 \<and>
       mu_type u = MU_CANCEL \<and> mu_order_id u = 1 \<and> mu_instrument_id u = 1 \<and> mu_side u = SELL \<and> mu_price u = 100 \<and> mu_qty u = 100))))"

definition add_sell_order_with_match :: "bool result" where
  "add_sell_order_with_match = rbind set_up (\<lambda>s.
     rbind (ob_add 2 2 BUY 100 100 s) (\<lambda>s.
     rbind (ob_add 1 1 SELL (100 - 1) 100 s) (\<lambda>s.
     let r = get_client_response s; u = get_market_update s in
     Inr (rs_type r = FILLED \<and> rs_client_id r = 2 \<and> rs_instrument_id r = 1 \<and> rs_client_order_id r = 2 \<and>
       rs_market_order_id r = 1 \<and> rs_side r = BUY \<and> rs_price r = 100 \<and> rs_leaves_qty r = 0 \<and>
       mu_type u = MU_CANCEL \<and> mu_order_id u = 1 \<and> mu_instrument_id u = 1 \<and> mu_side u = BUY \<and> mu_price u = 100 \<and> mu_qty u = 100))))"

definition multiple_orders_with_partial_and_full_matches :: "bool result" where
  "multiple_orders_with_partial_and_full_matches = rbind set_up (\<lambda>s.
     rbind (ob_add 1 1 BUY 102 100 s) (\<lambda>s.
     rbind (ob_add 2 2 BUY 101 150 s) (\<lambda>s.
     rbind (ob_add 3 3 SELL 100 50 s) (\<lambda>s.
     rbind (ob_add 4 4 SELL 100 200 s) (\<lambda>s.
     Inr (queue_size (client_responses s) = 10 \<and>
       expect_read [answered 1 ACCEPTED, answered 2 ACCEPTED, answered 3 ACCEPTED, filled 3 0, filled 1 50,
         answered 4 ACCEPTED, filled 4 150, filled 1 0, filled 4 0, filled 2 0] (client_responses s) \<and>
       queue_size (market_updates s) = 8 \<and>
       expect_read (map updated [MU_ADD, MU_ADD, MU_TRADE, MU_MODIFY, MU_TRADE, MU_CANCEL, MU_TRADE, MU_CANCEL]) (market_updates s)))))))"

definition modify_order_and_match :: "bool result" where
  "modify_order_and_match = rbind set_up (\<lambda>s.
     rbind (ob_add 1 1 BUY 100 100 s) (\<lambda>s.
     rbind (ob_add 2 2 SELL 101 50 s) (\<lambda>s.
     rbind (ob_modify 1 1 100 150 s) (\<lambda>s.
     rbind (ob_add 3 3 SELL 99 75 s) (\<lambda>s.
     Inr (queue_size (client_responses s) = 7 \<and>
       expect_read [typed ACCEPTED, typed ACCEPTED, typed CANCELED, typed ACCEPTED, typed ACCEPTED, filled 3 0, filled 1 75] (client_responses s) \<and>
       queue_size (market_updates s) = 6 \<and>
       expect_read (map updated [MU_ADD, MU_ADD, MU_CANCEL, MU_ADD, MU_TRADE, MU_MODIFY]) (market_updates s)))))))"

definition cancel_non_existent_order :: "bool result" where
  "cancel_non_existent_order = rbind set_up (\<lambda>s.
     rbind (ob_cancel 1 1 s) (\<lambda>s.
     Inr (queue_size (client_responses s) = 1 \<and> expect_read [answered 1 CANCEL_REJECTED] (client_responses s))))"

section \<open>They pass\<close>

text \<open>
  \<open>after A ms s\<close>: the book \<open>s\<close> represents the abstract book \<open>A\<close> and has sent the messages \<open>ms\<close>
  since the fixture made it. One rule per construct of a test runs it on the abstract book.
\<close>

definition after :: "abook \<Rightarrow> out_msg list \<Rightarrow> order_book \<Rightarrow> bool" where
  "after A ms s \<longleftrightarrow> (\<exists>G. book_rel s G A) \<and> echoes s \<and> message_handler s = sends ms test_messages"

definition passes :: "abook \<Rightarrow> out_msg list \<Rightarrow> (order_book \<Rightarrow> bool result) \<Rightarrow> bool" where
  "passes A ms f \<longleftrightarrow> (\<forall>s. after A ms s \<longrightarrow> f s = Inr True)"

lemma passes_begin:
  assumes "passes (a_init 1) [] f"
  shows "rbind set_up f = Inr True"
proof -
  obtain s where s: "order_book_init 1 test_messages = Inr s" "book_rel s (\<lambda>_. []) (a_init 1)" "message_handler s = test_messages"
    using order_book_init_ok by blast
  have "client_response s = default_client_response" "market_update s = default_market_update"
    using s(1) by (auto simp: order_book_init_def rbind_Inr_iff)
  then have "echoes s"
    by (simp add: echoes_def s(3) test_messages_def last_written_def lock_free_queue_init_def model_constants)
  with s assms show ?thesis by (auto simp: set_up_def after_def passes_def)
qed

lemma passes_step:
  assumes "\<And>s G. book_rel s G A \<Longrightarrow> \<exists>s'. r s = Inr s' \<and> (\<exists>G'. book_rel s' G' A') \<and> message_handler s' = sends ms' (message_handler s)"
    and "\<And>s. echoes s \<Longrightarrow> yields echoes (r s)" and "passes A' (ms @ ms') f"
  shows "passes A ms (\<lambda>s. rbind (r s) f)"
  unfolding passes_def
proof (intro allI impI)
  fix s
  assume "after A ms s"
  then obtain G where "book_rel s G A" "echoes s" "message_handler s = sends ms test_messages"
    by (auto simp: after_def)
  with assms(1) [of s G] assms(2) [of s] obtain s' where "r s = Inr s'" "after A' (ms @ ms') s'"
    by (auto simp: after_def yields_def)
  with assms(3) show "rbind (r s) f = Inr True" by (simp add: passes_def)
qed

lemma passes_add:
  assumes "add_admissible c i sd p q A" and "passes (fst (a_add c i sd p q A)) (ms @ snd (a_add c i sd p q A)) f"
  shows "passes A ms (\<lambda>s. rbind (ob_add c i sd p q s) f)"
  by (rule passes_step [OF _ echoes_add assms(2)]) (drule ob_add_ok [OF _ assms(1) surjective_pairing], blast)

lemma passes_modify:
  assumes "modify_admissible c i p q A" and "passes (fst (a_modify c i p q A)) (ms @ snd (a_modify c i p q A)) f"
  shows "passes A ms (\<lambda>s. rbind (ob_modify c i p q s) f)"
  by (rule passes_step [OF _ echoes_modify assms(2)]) (drule ob_modify_ok [OF _ assms(1) surjective_pairing], blast)

lemma passes_cancel:
  assumes "lookup_admissible c i" and "passes (fst (a_cancel c i A)) (ms @ snd (a_cancel c i A)) f"
  shows "passes A ms (\<lambda>s. rbind (ob_cancel c i s) f)"
  by (rule passes_step [OF _ echoes_cancel assms(2)]) (drule ob_cancel_ok [OF _ assms(1) surjective_pairing], blast)

text \<open>The queues and the two members then hold the abstract book's messages.\<close>

lemma last_written_fold:
  assumes "q_next_write_index q < q_size q"
  shows "q_next_write_index (fold enqueue xs q) < q_size (fold enqueue xs q) \<and>
    (xs \<noteq> [] \<longrightarrow> last_written (fold enqueue xs q) = last xs)"
proof (induction xs rule: rev_induct)
  case (snoc x xs)
  then show ?case using write_index_enqueue [of "fold enqueue xs q" x] last_written_enqueue [of "fold enqueue xs q" x] by auto
qed (use assms in simp)

lemma after_messages:
  assumes "after A ms s" and "length (responses_of ms) \<le> 16" and "length (updates_of ms) \<le> 16"
  shows "queue_inv (client_responses s)" "queue_items (client_responses s) = responses_of ms"
    and "queue_inv (market_updates s)" "queue_items (market_updates s) = updates_of ms"
    and "responses_of ms \<noteq> [] \<Longrightarrow> get_client_response s = last (responses_of ms)"
    and "updates_of ms \<noteq> [] \<Longrightarrow> get_market_update s = last (updates_of ms)"
proof -
  let ?r = "lock_free_queue_init MAX_CLIENT_UPDATES default_client_response"
  let ?u = "lock_free_queue_init MAX_MARKET_UPDATES default_market_update"
  have q: "client_responses s = fold enqueue (responses_of ms) ?r" "market_updates s = fold enqueue (updates_of ms) ?u"
    using assms(1) by (simp_all add: after_def client_responses_def market_updates_def sends_queues test_messages_def)
  have m: "length (responses_of ms) \<le> MAX_CLIENT_UPDATES" "length (updates_of ms) \<le> MAX_MARKET_UPDATES"
    using assms(2,3) by (simp_all add: model_constants)
  show "queue_inv (client_responses s)" "queue_items (client_responses s) = responses_of ms"
    "queue_inv (market_updates s)" "queue_items (market_updates s) = updates_of ms"
    unfolding q by (rule filled_queue [OF _ m(1)] filled_queue [OF _ m(2)], simp add: model_constants)+
  have w: "q_next_write_index ?r < q_size ?r" "q_next_write_index ?u < q_size ?u"
    by (simp_all add: lock_free_queue_init_def model_constants)
  have e: "echoes s" using assms(1) by (simp add: after_def)
  show "get_client_response s = last (responses_of ms)" if "responses_of ms \<noteq> []"
    using e that last_written_fold [OF w(1), of "responses_of ms"] q(1)
    by (simp add: echoes_def get_client_response_def client_responses_def Let_def)
  show "get_market_update s = last (updates_of ms)" if "updates_of ms \<noteq> []"
    using e that last_written_fold [OF w(2), of "updates_of ms"] q(2)
    by (simp add: echoes_def get_market_update_def market_updates_def Let_def)
qed

lemma expect_read_items:
  "queue_inv q \<Longrightarrow> expect_read Ps q \<longleftrightarrow> list_all2 (\<lambda>P x. P x) Ps (take (length Ps) (queue_items q))"
  by (induction Ps q rule: expect_read.induct)
    (auto simp: get_next_read_element_items queue_items_next_read_index queue_inv_next_read_index split: list.splits)

lemma queue_size_items: "queue_size q = length (queue_items q)"
  by (simp add: queue_size_def)

lemma passes_members:
  assumes "length (responses_of ms) \<le> 16" and "length (updates_of ms) \<le> 16"
    and "responses_of ms \<noteq> []" and "updates_of ms \<noteq> []" and "P (last (responses_of ms)) (last (updates_of ms))"
  shows "passes A ms (\<lambda>s. let r = get_client_response s; u = get_market_update s in Inr (P r u))"
  unfolding passes_def Let_def using after_messages(5,6) [OF _ assms(1,2)] assms(3-5) by simp

lemma passes_responses:
  assumes "length (responses_of ms) \<le> 16" and "length (updates_of ms) \<le> 16"
    and "length (responses_of ms) = n" and "list_all2 (\<lambda>P x. P x) Ps (take (length Ps) (responses_of ms))"
  shows "passes A ms (\<lambda>s. Inr (queue_size (client_responses s) = n \<and> expect_read Ps (client_responses s)))"
  unfolding passes_def using after_messages(1,2) [OF _ assms(1,2)] assms(3,4)
  by (simp add: expect_read_items queue_size_items)

lemma passes_queues:
  assumes "length (responses_of ms) \<le> 16" and "length (updates_of ms) \<le> 16"
    and "length (responses_of ms) = n" and "list_all2 (\<lambda>P x. P x) Ps (take (length Ps) (responses_of ms))"
    and "length (updates_of ms) = m" and "list_all2 (\<lambda>P x. P x) Us (take (length Us) (updates_of ms))"
  shows "passes A ms (\<lambda>s. Inr (queue_size (client_responses s) = n \<and> expect_read Ps (client_responses s) \<and>
    queue_size (market_updates s) = m \<and> expect_read Us (market_updates s)))"
  unfolding passes_def using after_messages(1-4) [OF _ assms(1,2)] assms(3-6)
  by (simp add: expect_read_items queue_size_items)

text \<open>
  Every test of the order book's test suite passes: run on the model of the book (its heap,
  pools and queues, not on the abstract book), each evaluates all its expectations to true and
  none of its calls fails.
\<close>

lemma all_tests_pass:
  "add_buy_order_no_match = Inr True \<and> add_sell_order_no_match = Inr True \<and>
   add_buy_order_with_match = Inr True \<and> add_sell_order_with_match = Inr True \<and>
   multiple_orders_with_partial_and_full_matches = Inr True \<and> modify_order_and_match = Inr True \<and>
   cancel_non_existent_order = Inr True"
proof (intro conjI)
  show "add_buy_order_no_match = Inr True" unfolding add_buy_order_no_match_def
    by (rule passes_begin passes_add passes_members | code_simp)+
  show "add_sell_order_no_match = Inr True" unfolding add_sell_order_no_match_def
    by (rule passes_begin passes_add passes_members | code_simp)+
  show "add_buy_order_with_match = Inr True" unfolding add_buy_order_with_match_def
    by (rule passes_begin passes_add passes_members | code_simp)+
  show "add_sell_order_with_match = Inr True" unfolding add_sell_order_with_match_def
    by (rule passes_begin passes_add passes_members | code_simp)+
  show "multiple_orders_with_partial_and_full_matches = Inr True" unfolding multiple_orders_with_partial_and_full_matches_def
    by (rule passes_begin passes_add passes_queues | code_simp)+
  show "modify_order_and_match = Inr True" unfolding modify_order_and_match_def
    by (rule passes_begin passes_add passes_modify passes_queues | code_simp)+
  show "cancel_non_existent_order = Inr True" unfolding cancel_non_existent_order_def
    by (rule passes_begin passes_cancel passes_responses | code_simp)+
qed

end
