(* ===== verification/UtilityExamples.thy ===== *)
theory UtilityExamples
  imports MemoryPool Clock
begin

text \<open>
  The programs that show off the utilities: \<open>memory_pool_example.cpp\<close>,
  \<open>lock_free_queue_example.cpp\<close>, \<open>logger_example.cpp\<close> and \<open>thread_example.cpp\<close>, with what they
  print. A thread's \<open>std::cout\<close> is the text it has written. How a stream prints a pointer or a
  floating point number is a parameter.
\<close>

definition newline :: string where
  "newline = [CHR 0x0A]"

section \<open>The memory pool example\<close>

text \<open>The struct of the examples, an array of three integers, and its text.\<close>

type_synonym my_struct = "int \<times> int \<times> int"

definition my_struct_text :: "my_struct \<Rightarrow> string" where
  "my_struct_text d = (case d of (a, b, c) \<Rightarrow>
     signed_decimal a @ '','' @ signed_decimal b @ '','' @ signed_decimal c)"

text \<open>One turn of the loop; \<open>dbl\<close> converts to \<open>double\<close>, \<open>sd\<close> and \<open>at\<close> print doubles and addresses.\<close>

definition pool_turn :: "(nat \<Rightarrow> 'd) \<Rightarrow> ('d \<Rightarrow> string) \<Rightarrow> (nat \<Rightarrow> string) \<Rightarrow> nat \<Rightarrow>
    'd memory_pool \<times> my_struct memory_pool \<times> string \<Rightarrow> ('d memory_pool \<times> my_struct memory_pool \<times> string) result" where
  "pool_turn dbl sd at i = (\<lambda>(prim_pool, struct_pool, cout).
     rbind (pool_alloc (dbl i) prim_pool) (\<lambda>(p_ret, prim_pool).
     rbind (pool_alloc (int i, int i + 1, int i + 2) struct_pool) (\<lambda>(s_ret, struct_pool).
     let prim = sd (pool_get prim_pool p_ret); struct = my_struct_text (pool_get struct_pool s_ret);
         cout = cout @ ''prim elem:'' @ prim @ '' allocated at:'' @ at p_ret @ newline @
           ''struct elem:'' @ struct @ '' allocated at:'' @ at s_ret @ newline
     in if i mod 5 = 0 then
          let cout = cout @ ''deallocating prim elem:'' @ prim @ '' from:'' @ at p_ret @ newline @
                ''deallocating struct elem:'' @ struct @ '' from:'' @ at s_ret @ newline
          in rbind (pool_free p_ret prim_pool) (\<lambda>prim_pool.
             rbind (pool_free s_ret struct_pool) (\<lambda>struct_pool. Inr (prim_pool, struct_pool, cout)))
        else Inr (prim_pool, struct_pool, cout))))"

definition memory_pool_example :: "(nat \<Rightarrow> 'd) \<Rightarrow> ('d \<Rightarrow> string) \<Rightarrow> (nat \<Rightarrow> string) \<Rightarrow>
    ('d memory_pool \<times> my_struct memory_pool \<times> string) result" where
  "memory_pool_example dbl sd at =
     rbind (memory_pool_init 50 (dbl 0)) (\<lambda>prim_pool.
     rbind (memory_pool_init 50 (0, 0, 0)) (\<lambda>struct_pool.
     rfold (pool_turn dbl sd at) [0..<50] (prim_pool, struct_pool, [])))"

text \<open>
  What an allocation and, every fifth time, its release do to the live objects. After \<open>i\<close> turns
  no more than \<open>i\<close> are live, so the pools of 50 never run out.
\<close>

definition pool_after :: "nat \<Rightarrow> 'a memory_pool \<Rightarrow> bool" where
  "pool_after i p \<longleftrightarrow> pool_inv p \<and> memory_blocks_size p = 50 \<and> card (pool_live p) = i - (i + 4) div 5"

lemma pool_after_fresh: "pool_after 0 (fresh_pool 50 d)"
  using fresh_pool_inv [of 50 d] by (simp add: pool_after_def)

lemma pool_turn_alloc:
  assumes "pool_after i p" and "i < 50"
  shows "\<exists>a q. pool_alloc v p = Inr (a, q) \<and> pool_get q a = v \<and> (i mod 5 \<noteq> 0 \<longrightarrow> pool_after (Suc i) q) \<and>
    (i mod 5 = 0 \<longrightarrow> (\<exists>r. pool_free a q = Inr r \<and> pool_after (Suc i) r))"
proof -
  have p: "pool_inv p" "card (pool_live p) < memory_blocks_size p" "memory_blocks_size p = 50"
    "card (pool_live p) = i - (i + 4) div 5" using assms by (auto simp: pool_after_def)
  obtain a q where q: "pool_alloc v p = Inr (a, q)" "a \<notin> pool_live p" "pool_live q = insert a (pool_live p)" "pool_inv q"
    "pool_get q = (pool_get p)(a := v)" "memory_blocks_size q = memory_blocks_size p"
    using pool.alloc_ok [OF p(1,2)] by blast
  have c: "card (pool_live q) = Suc (i - (i + 4) div 5)"
    using q(2,3) p(4) pool.finite_live [OF p(1)] by simp
  obtain r where r: "pool_free a q = Inr r" "pool_live r = pool_live q - {a}" "pool_inv r" "memory_blocks_size r = memory_blocks_size q"
    using pool.free_ok [OF q(4)] q(3) by blast
  have "pool_live r = pool_live p" using r(2) q(2,3) by auto
  moreover have "(Suc i + 4) div 5 = (if i mod 5 = 0 then Suc ((i + 4) div 5) else (i + 4) div 5)" "(i + 4) div 5 \<le> i"
    by presburger+
  ultimately show ?thesis using q r c p by (auto simp: pool_after_def Suc_diff_le)
qed

text \<open>The example runs to its end; 40 objects of each pool stay allocated.\<close>

lemma memory_pool_example_runs:
  "\<exists>p s cout. memory_pool_example dbl sd at = Inr (p, s, cout) \<and> card (pool_live p) = 40 \<and> card (pool_live s) = 40"
proof -
  have "\<exists>p s cout. rfold (pool_turn dbl sd at) [0..<n] (fresh_pool 50 (dbl 0), fresh_pool 50 (0, 0, 0), []) = Inr (p, s, cout) \<and>
    pool_after n p \<and> pool_after n s" if "n \<le> 50" for n
    using that
  proof (induction n)
    case (Suc n)
    then obtain p s cout where ih: "rfold (pool_turn dbl sd at) [0..<n] (fresh_pool 50 (dbl 0), fresh_pool 50 (0, 0, 0), []) = Inr (p, s, cout)"
      "pool_after n p" "pool_after n s" by auto
    from pool_turn_alloc [OF ih(2), of "dbl n"] pool_turn_alloc [OF ih(3), of "(int n, int n + 1, int n + 2)"] Suc.prems
    have "\<exists>p' s' cout'. pool_turn dbl sd at n (p, s, cout) = Inr (p', s', cout') \<and> pool_after (Suc n) p' \<and> pool_after (Suc n) s'"
      by (cases "n mod 5 = 0") (auto simp: pool_turn_def Let_def)
    then show ?case using ih(1) by (auto simp: rfold_append)
  qed (simp add: pool_after_fresh)
  from this [of 50] show ?thesis by (auto simp: memory_pool_example_def memory_pool_init_eq pool_after_def)
qed

section \<open>The queue example\<close>

text \<open>
  The producer writes 50 elements, one a second, into a queue of 20; the consumer starts after
  five seconds, takes one a second and leaves when it finds the queue empty; \<open>main\<close> joins it at
  the end. The steps of the two
  threads may come in any order. The consumer reads the element after it has released the slot,
  through the pointer it still has.
\<close>

definition elem :: "nat \<Rightarrow> my_struct" where
  "elem i = (int i, int i * 10, int i * 100)"

record queue_example =
  lfq :: "my_struct lock_free_queue"
  produced :: nat
  main_out :: string
  consumer_out :: string
  consumer_exited :: bool
  main_exited :: bool

definition queue_example_init :: queue_example where
  "queue_example_init = \<lparr>lfq = lock_free_queue_init 20 (0, 0, 0), produced = 0, main_out = [], consumer_out = [], consumer_exited = False, main_exited = False\<rparr>"

definition produce :: "queue_example \<Rightarrow> queue_example" where
  "produce s =
     (if produced s < 50 then
        let d = elem (produced s);
            q = next_write_index (put_next_write_element d (lfq s))
        in s\<lparr>lfq := q, produced := produced s + 1,
             main_out := main_out s @ ''main constructed elem:'' @ my_struct_text d @ '' lfq-size:'' @ decimal (queue_size q) @ newline\<rparr>
      else if consumer_exited s \<and> \<not> main_exited s then s\<lparr>main_exited := True, main_out := main_out s @ ''main exiting.'' @ newline\<rparr>
      else s)"

definition consumed_line :: "my_struct \<Rightarrow> nat \<Rightarrow> string" where
  "consumed_line d n = ''consumeFunction read elem:'' @ my_struct_text d @ '' lfq-size:'' @ decimal n @ newline"

definition consume :: "queue_example \<Rightarrow> queue_example" where
  "consume s =
     (if consumer_exited s then s
      else if queue_size (lfq s) \<noteq> 0 then
        let slot = q_next_read_index (lfq s); q = next_read_index (lfq s)
        in s\<lparr>lfq := q, consumer_out := consumer_out s @ consumed_line (q_data q slot) (queue_size q)\<rparr>
      else s\<lparr>consumer_exited := True, consumer_out := consumer_out s @ ''consumeFunction exiting.'' @ newline\<rparr>)"

text \<open>A schedule: whether the producer moves next.\<close>

fun queue_example_run :: "bool list \<Rightarrow> queue_example \<Rightarrow> queue_example" where
  "queue_example_run [] s = s"
| "queue_example_run (b # bs) s = queue_example_run bs (if b then produce s else consume s)"

text \<open>
  While the producer leads by at most the queue's size, the consumer has read the elements in
  order from the first, and the others wait.
\<close>

definition in_order :: "nat \<Rightarrow> queue_example \<Rightarrow> bool" where
  "in_order k s \<longleftrightarrow> queue_inv (lfq s) \<and> q_size (lfq s) = 20 \<and> queue_items (lfq s) = map elem [k..<produced s] \<and> k \<le> produced s"

lemma in_order_init: "in_order 0 queue_example_init"
  by (simp add: in_order_def queue_example_init_def queue_init_inv)

lemma in_order_produce:
  assumes "in_order k s" and "produced s < k + 20"
  shows "in_order k (produce s)"
proof (cases "produced s < 50")
  case True
  have "q_num_elements (lfq s) < q_size (lfq s)" using assms by (simp add: in_order_def flip: length_queue_items)
  moreover have "lfq (produce s) = enqueue (elem (produced s)) (lfq s)" "produced (produce s) = Suc (produced s)"
    using True by (simp_all add: produce_def enqueue_def Let_def)
  ultimately show ?thesis using assms(1) by (simp add: in_order_def queue_items_enqueue queue_inv_enqueue)
qed (use assms in \<open>simp add: produce_def in_order_def\<close>)

lemma in_order_consume:
  assumes "in_order k s" and "\<not> consumer_exited s" and "k < produced s"
  shows "in_order (Suc k) (consume s)"
    and "consumer_out (consume s) = consumer_out s @ consumed_line (elem k) (produced s - Suc k)"
proof -
  have items: "queue_items (lfq s) = elem k # map elem [Suc k..<produced s]"
    using assms(1,3) by (simp add: in_order_def upt_conv_Cons)
  have inv: "queue_inv (lfq s)" using assms(1) by (simp add: in_order_def)
  have n: "queue_size (lfq s) = produced s - k" using assms(1) by (simp add: in_order_def queue_size_def flip: length_queue_items)
  have "get_next_read_element (lfq s) = Some (elem k)" using get_next_read_element_items [OF inv] items by simp
  then have "q_data (lfq s) (q_next_read_index (lfq s)) = elem k" by (auto simp: get_next_read_element_def split: if_splits)
  moreover have "q_data (next_read_index (lfq s)) = q_data (lfq s)" "queue_size (next_read_index (lfq s)) = produced s - Suc k"
    using n by (simp_all add: queue_defs)
  ultimately show "consumer_out (consume s) = consumer_out s @ consumed_line (elem k) (produced s - Suc k)"
    using assms(2,3) n by (simp add: consume_def Let_def)
  have "queue_items (next_read_index (lfq s)) = map elem [Suc k..<produced s]"
    using queue_items_next_read_index [OF inv] items by simp
  then show "in_order (Suc k) (consume s)"
    using assms n queue_inv_next_read_index [OF inv] by (simp add: in_order_def consume_def Let_def)
qed

text \<open>A lead of 21 loses the first element: the consumer reads the last one instead.\<close>

lemma produce_run:
  "produced s + n \<le> 50 \<Longrightarrow>
    lfq (queue_example_run (replicate n True) s) = fold enqueue (map elem [produced s..<produced s + n]) (lfq s)"
proof (induction n arbitrary: s)
  case (Suc n)
  have "lfq (produce s) = enqueue (elem (produced s)) (lfq s)" "produced (produce s) = Suc (produced s)"
    using Suc.prems by (simp_all add: produce_def enqueue_def Let_def)
  then show ?case using Suc.IH [of "produce s"] Suc.prems by (simp add: upt_conv_Cons del: upt_Suc)
qed simp

lemma full_queue_loses:
  "queue_inv q \<Longrightarrow> q_num_elements q = q_size q \<Longrightarrow> get_next_read_element (enqueue x q) = Some x"
  by (auto simp: queue_inv_def queue_defs)

lemma lead_loses_element:
  "get_next_read_element (lfq (queue_example_run (replicate 20 True) queue_example_init)) = Some (elem 0)"
  "get_next_read_element (lfq (queue_example_run (replicate 21 True) queue_example_init)) = Some (elem 20)"
proof -
  let ?q = "lock_free_queue_init 20 (0, 0, 0) :: my_struct lock_free_queue"
  have r: "lfq (queue_example_run (replicate n True) queue_example_init) = fold enqueue (map elem [0..<n]) ?q" if "n \<le> 50" for n
    using produce_run [of queue_example_init n] that by (simp add: queue_example_init_def)
  have f: "queue_inv (fold enqueue (map elem [0..<20]) ?q)" "queue_items (fold enqueue (map elem [0..<20]) ?q) = map elem [0..<20]"
    "q_size (fold enqueue (map elem [0..<20]) ?q) = 20" by (simp_all add: filled_queue)
  have "get_next_read_element (fold enqueue (map elem [0..<20]) ?q) = Some (elem 0)"
    using get_next_read_element_items [OF f(1)] unfolding f(2) by (simp add: upt_conv_Cons)
  then show "get_next_read_element (lfq (queue_example_run (replicate 20 True) queue_example_init)) = Some (elem 0)"
    by (simp only: r)
  have "q_num_elements (fold enqueue (map elem [0..<20]) ?q) = q_size (fold enqueue (map elem [0..<20]) ?q)"
    using f(2,3) by (simp flip: length_queue_items)
  moreover have "fold enqueue (map elem [0..<21]) ?q = enqueue (elem 20) (fold enqueue (map elem [0..<20]) ?q)"
    using upt_Suc_append [of 0 20] by simp
  ultimately show "get_next_read_element (lfq (queue_example_run (replicate 21 True) queue_example_init)) = Some (elem 20)"
    using full_queue_loses [OF f(1)] r [of 21] by simp
qed

section \<open>The logger example\<close>

definition logger_example :: "'f \<Rightarrow> 'd \<Rightarrow> ('f, 'd) log_queue \<Rightarrow> ('f, 'd) log_queue result" where
  "logger_example f d q =
     rbind (log_line (''Logging a char:% an int:% and an unsigned:%'' @ newline) [Char_Arg CHR ''d'', Int_Arg 3, Unsigned_Long_Arg 65] q) (\<lambda>q.
     rbind (log_line (''Logging a float:% and a double:%'' @ newline) [Float_Arg f, Double_Arg d] q) (\<lambda>q.
     rbind (log_line (''Logging a C-string:'' @ [CHR 0x27] @ ''%'' @ [CHR 0x27] @ newline) [C_String_Arg (Some ''test C-string'')] q) (\<lambda>q.
     log_line (''Logging a string:'' @ [CHR 0x27] @ ''%'' @ [CHR 0x27] @ newline) [String_Arg ''test string''] q)))"

text \<open>The file after the worker has caught up.\<close>

lemma logger_example_file:
  assumes "logger_init e True ''logging_example.log'' = Inr l"
  shows "\<exists>q. logger_example f d (log_queue l) = Inr q \<and> log_file (flush_queue sf sd (l\<lparr>log_queue := q\<rparr>)) =
    ''Logging a char:d an int:3 and an unsigned:65'' @ newline @
    ''Logging a float:'' @ sf f @ '' and a double:'' @ sd d @ newline @
    ''Logging a C-string:'' @ [CHR 0x27] @ ''test C-string'' @ [CHR 0x27] @ newline @
    ''Logging a string:'' @ [CHR 0x27] @ ''test string'' @ [CHR 0x27] @ newline"
proof -
  let ?l1 = "line_entries (pieces (''Logging a char:% an int:% and an unsigned:%'' @ newline)) [Char_Arg CHR ''d'', Int_Arg 3, Unsigned_Long_Arg 65] :: ('a, 'b) log_entry list"
  let ?l2 = "line_entries (pieces (''Logging a float:% and a double:%'' @ newline)) [Float_Arg f, Double_Arg d]"
  let ?l3 = "line_entries (pieces (''Logging a C-string:'' @ [CHR 0x27] @ ''%'' @ [CHR 0x27] @ newline)) [C_String_Arg (Some ''test C-string'')] :: ('a, 'b) log_entry list"
  let ?l4 = "line_entries (pieces (''Logging a string:'' @ [CHR 0x27] @ ''%'' @ [CHR 0x27] @ newline)) [String_Arg ''test string''] :: ('a, 'b) log_entry list"
  let ?es = "?l1 @ ?l2 @ ?l3 @ ?l4"
  have h: "logger_example f d q = Inr (fold enqueue ?es q)" for q
    by (simp add: logger_example_def log_line_ok holes_def newline_def)
  have l: "log_queue l = lock_free_queue_init LOG_QUEUE_SIZE e" "log_file l = []" "log_running l"
    using assms by (auto simp: logger_init_def)
  have len: "length ?es \<le> LOG_QUEUE_SIZE" by (simp add: newline_def model_constants)
  have q: "queue_inv (fold enqueue ?es (log_queue l))" "queue_items (fold enqueue ?es (log_queue l)) = ?es"
    unfolding l(1) by (rule filled_queue(1) [OF _ len] filled_queue(2) [OF _ len], simp add: model_constants)+
  have t: "decimal 65 = ''65''" "decimal 3 = ''3''" by code_simp+
  from flush_entries_ok [OF q(1), of sf sd "[]"] have
    "log_file (flush_queue sf sd (l\<lparr>log_queue := fold enqueue ?es (log_queue l)\<rparr>)) = concat (map (entry_text sf sd) ?es)"
    unfolding q(2) using l(2,3) by (auto simp: flush_queue_def)
  also have "\<dots> = ''Logging a char:d an int:3 and an unsigned:65'' @ newline @
    ''Logging a float:'' @ sf f @ '' and a double:'' @ sd d @ newline @
    ''Logging a C-string:'' @ [CHR 0x27] @ ''test C-string'' @ [CHR 0x27] @ newline @
    ''Logging a string:'' @ [CHR 0x27] @ ''test string'' @ [CHR 0x27] @ newline"
    by (simp add: newline_def t signed_decimal_def c_str_def)
  finally show ?thesis using h by blast
qed

section \<open>The thread example\<close>

definition dummy_function :: "int \<Rightarrow> int \<Rightarrow> bool \<Rightarrow> string result" where
  "dummy_function a b sleep = rbind (i32 (a + b)) (\<lambda>sum. Inr (
     ''dummyFunction('' @ signed_decimal a @ '','' @ signed_decimal b @ '')'' @ newline @
     ''dummyFunction output='' @ signed_decimal sum @ newline @
     (if sleep then ''dummyFunction sleeping...'' @ newline else []) @
     ''dummyFunction done.'' @ newline))"

text \<open>The texts of the two threads and of \<open>main\<close>; the threads are joined when \<open>main\<close> ends.\<close>

definition thread_example :: "bool \<Rightarrow> (string \<times> string \<times> string) result" where
  "thread_example pinned =
     rbind (create_thread (- 1) pinned (dummy_function 12 21 False)) (\<lambda>t1.
     rbind (create_thread 1 pinned (dummy_function 15 51 True)) (\<lambda>t2.
     Inr (t1, t2, ''main waiting for threads to be done.'' @ newline @ ''main exiting.'' @ newline)))"

lemma thread_example_ends: "(\<exists>x. thread_example pinned = Inr x) \<longleftrightarrow> pinned"
  by (auto simp: thread_example_def create_thread_def dummy_function_def)

end
