(* ===== verification/Spec2Isabelle.thy ===== *)
theory Spec2Isabelle
  imports Serializer BookProperties Printing MarketDataProperties OrderServerProperties FeedHandlerProperties
    MarketOrderBookProperties ResponsePath PositionProperties TradeEngineProperties Logger BookPrinting
    ClientMirrorProperties ExchangeProperties TradingDay RandomTrader OrderBookTest UtilityExamples
begin

text \<open>
  Verification of a small electronic exchange and of its sample trading client (C++).

  The program. The exchange (\<open>src/src\<close>) is three components connected by three ring buffers
  that \<open>main.cpp\<close> creates. The order server accepts TCP connections, decodes client requests,
  screens them by client identifier and sequence number, sorts those of one event loop iteration
  by receive time and writes them to the request queue. The matching engine takes one request at
  a time, dispatches it to the order book of its instrument, and writes responses and market
  updates to the other two queues. The server's second thread distributes the responses to the
  connections; the market data publisher sends the updates as UDP datagrams and passes them to
  the snapshot synthesizer, which keeps a table of live orders and publishes it every minute.
  The client (\<open>src/example\<close>) has a feed handler that follows the updates and recovers from
  gaps with a snapshot, an order gateway that talks to the server, and a trade engine with client
  order books, features, two algorithms, an order manager, a risk check and a position keeper.
  \<open>src/utils\<close> holds the ring buffer, two memory pools, byte order, the logger and assertions.

  How the model reads. A class is a record of the same name, its members record fields, an
  operation a definition of the same name with the object as its last argument; enumerations are
  datatypes with their byte values; integers are words of the source's width (\<open>price_t\<close>, an
  \<open>int64_t\<close>, as 64 bits read by \<open>sint\<close>); \<open>size_t\<close> counters are natural numbers. An object in
  a pool is an address, a pointer an optional address, so aliasing is as in the code: the order
  book is a heap of levels and orders in circular doubly linked lists with its two index arrays.
  What can go wrong is a value of \<open>error\<close> (Prelude): null dereferences, accesses out of bounds,
  \<open>at()\<close>, assertions, \<open>FATAL\<close>, signed overflow. \<open>DEBUG_ASSERT\<close> checks, as in builds without
  \<open>NDEBUG\<close>. libuv is modelled by its callbacks' arguments; a write or a datagram is recorded
  with its bytes at the call.

  Theories, by the part of the sources they model.

  \<^item> Prelude: errors, results, signed ranges, pointers, linked paths and rings. Types, Printing:
    \<open>models/*.hpp\<close> and every \<open>to_string\<close>. ByteOrder, Serializer: the byte order of \<open>utils.hpp\<close>,
    \<open>serializer.hpp\<close>, the market data encoder and decoder. MessageStream: the receiving side of
    a byte stream, with the locale \<open>message_stream\<close> of a fixed size codec.
  \<^item> LockFreeQueue, MemoryPool, Logger, Clock: the utilities, with the locales \<open>bounded_queue\<close> and
    \<open>allocator\<close>, interpreted on the ring buffer and the pool. UtilityExamples: the programs that
    show them off, with what they print.
  \<^item> MessageHandler, OrderBook, MatchingEngine: \<open>src/engine\<close>. OrderBookSpec is the abstract book,
    a list of levels per side; OrderBookHeap the heap invariant; OrderBookLink and
    OrderBookRefine show that the heap operations compute the abstract ones, messages included.
    TradingRules, PriceTimePriority (the fills of a match as a relation that does not mention the
    code's tests) and BookProperties state what traders rely on; BookPrinting the book's
    \<open>to_string\<close>; MessageBound how many messages a day of requests can cause. LastMessage is about
    the last response and update a book hands out, and OrderBookTest is \<open>test/order_book_test.cpp\<close>,
    whose tests all pass.
  \<^item> FifoSequencer, OrderServer, OrderServerResponses, OrderServerProperties: \<open>src/order_server\<close>.
  \<^item> MarketDataBuffer, MarketDataPublisher, SnapshotSynthesizer, MarketDataFlow,
    SnapshotMirror, MarketDataProperties: \<open>src/market_data\<close>, its threads as a step relation, and
    the proof that the table of the synthesizer is the books.
  \<^item> Exchange, ExchangeProperties: \<open>main.cpp\<close>, all components with their shared queues as one
    step relation, and its invariant. DayUpdates and DayStream follow a day's market data from
    there through the publisher's datagrams into the books of a client, and TradingDay into the
    trade engine.
  \<^item> FeedHandler, FeedRecovery, FeedHandlerProperties: the client's feed handler.
    MarketOrderBook, MarketPrinting, MarketOrderBookProperties: the client's order book.
    MarketBookEmbedding reads its heap as an exchange heap, so that MarketBookRefine reuses the
    exchange's refinement; ClientMirror and ClientMirrorProperties compare it with the exchange.
  \<^item> GatewaySerializer, OrderGateway, OrderGatewayProperties: the client's order gateway; ResponsePath
    follows the responses from the server's queue through it to the trade engine's. Doubles,
    TradingUtils, PositionKeeper, OrderManager, TradeEngine with PositionProperties and
    TradeEngineProperties: \<open>trading_utils\<close> and \<open>trading_engine\<close>. RandomTrader: the random
    session of \<open>example/main.cpp\<close>, for any outcome of its distributions.

  What is shown. The order book never fails on admissible input and refines the abstract book
  (add, cancel, modify); matching conserves quantity, respects limits and consumes the opposite
  side from the front; the engine refines an array of abstract books. Whatever the schedule of
  the exchange's threads, no request, response or update is lost, repeated or reordered, no queue
  is overrun by a day of fewer than 2048 requests, and the exchange comes to rest in a state where
  the snapshot table holds exactly the resting orders. Requests, responses and updates survive
  the wire between hosts of either byte order; gateway and server agree in both directions
  (\<open>gateway_requests_accepted\<close> and, while at most two responses per client wait,
  \<open>responses_reach_trade_engine\<close>), as do publisher and feed handler, synthesizer and recovery. A
  client that receives every datagram of the day ends with the exchange's books
  (\<open>market_data_reaches_client\<close>), and its trade engine follows without a failure or an overflow
  for either algorithm, at modest prices and with no response waiting
  (\<open>trading_client_follows_exchange\<close>). Each order of the client is by itself within the risk
  limits, but fills are never counted against them: the position keeper ignores them. The
  bookkeeping it could use marks positions to market, given a logger. The order book's own tests
  pass. Beside these stand the theorems about what the code does not do right, for instance the
  price levels that can be linked out of order (\<open>new_level_sorted_iff\<close> has the exact condition,
  \<open>gap_order_crosses_book\<close> how the book then crosses), the queue of response indices that has two
  entries, requests split between two reads, the queue slot released before it is copied, the
  second recovery that never completes, and CLEAR in the client's book.

  Assumptions. Admissible requests (\<open>admissible\<close>) are those whose identifiers are inside the
  arrays, not in use by a resting order, and whose price does not share a slot of the level table
  with the other side; what happens otherwise is stated where the code's behaviour is defined.
  \<open>std::sort\<close> is a parameter of which only ordering and permutation are assumed (\<open>std_sort\<close>), the
  host's byte order, clock readings and results of libuv calls are arguments, double arithmetic is
  the record \<open>double_ops\<close> with its comparisons as the locale \<open>ieee_comparisons\<close> and an exact
  instance for results without rounding. A handler of a thread is one step of the step relations;
  the accesses inside are interleaved only for the publisher's loop (\<open>publish_step\<close>, in
  \<open>slot_released_too_early\<close>).

  Fuel and termination. Loops that walk the heap carry fuel and report \<open>OutOfFuel\<close>; the
  refinement theorems show it is never used up: \<open>find_slot\<close> has one step per slot of the level
  table and one more, \<open>match_loop\<close> one per order of the pool and one more, the walks over orders
  and levels of the printing functions and of the client's book the size of the pool they walk
  (one that has asks is shown to walk for ever, whatever the fuel). The loops over queues and
  buffers are total functions with a measure.

  Not modelled, and why. Sockets, multicast membership, event loop set-up, starting and pinning
  threads, reading clocks and sleeping are calls of the operating system or of libuv; their
  results are arguments (Clock has what the program computes around them). Destructors that
  close handles, the signal handler and the text of most log lines have no effect on the state
  verified here. The rest of the two \<open>main\<close> functions is construction and waiting. \<open>fmt\<close> and the
  unused JSON library are vendored; the order book's text uses \<open>fmt\<close> only with plain holes and
  left aligned widths, written out in BookPrinting.
\<close>

section \<open>Queues, pools and the wire\<close>

text \<open>
  A ring buffer of capacity \<open>n\<close> returns what was put into it in the order it was put,
  as long as no more than \<open>n\<close> elements are stored.
\<close>

theorem queue_fifo:
  assumes "0 < n" and "length xs \<le> n" and "k < length xs"
  shows "get_next_read_element ((next_read_index ^^ k) (fold enqueue xs (lock_free_queue_init n d)))
    = Some (xs ! k)"
proof -
  note f = filled_queue [OF assms(1,2)]
  show ?thesis using lfq.funpow_pop [OF f(1), of k] f(2) assms(3)
    by (simp add: get_next_read_element_items Cons_nth_drop_Suc [symmetric])
qed

theorem queue_fifo_witness:
  "get_next_read_element ((next_read_index ^^ 1) (fold enqueue [5, 7, 9 :: nat] (lock_free_queue_init 3 0)))
    = Some 7"
  using queue_fifo [of 3 "[5, 7, 9]" 1 0] by simp

text \<open>
  C16: a fresh pool of \<open>n\<close> blocks hands out \<open>n\<close> distinct objects that keep their values;
  the next allocation fails, and after any one of them has been freed there is room again, while
  freeing it twice fails.
\<close>

theorem pool_allocates_exactly:
  assumes "0 < n" and "length vs = n"
  shows "\<exists>p as q. memory_pool_init n d = Inr p \<and> alloc_all pool_alloc vs p = Inr (as, q) \<and> distinct as \<and>
    map (pool_get q) as = vs \<and> (\<exists>e. pool_alloc v q = Inl e) \<and>
    (\<forall>a \<in> set as. \<exists>r. pool_free a q = Inr r \<and> (\<exists>b t. pool_alloc v r = Inr (b, t)) \<and>
      (\<exists>e. pool_free a r = Inl e))"
proof -
  let ?p = "fresh_pool n d"
  have p: "pool_inv ?p" using assms(1) by (rule fresh_pool_inv)
  then obtain as q where q: "alloc_all pool_alloc vs ?p = Inr (as, q)" "distinct as" "length as = n"
    "pool_live q = set as" "pool_inv q" "map (pool_get q) as = vs" "memory_blocks_size q = n"
    using pool.alloc_all_ok [OF p, of vs] assms(2) by auto
  have c: "card (pool_live q) = memory_blocks_size q" using q(2-4,7) distinct_card [of as] by simp
  have "\<exists>r. pool_free a q = Inr r \<and> (\<exists>b t. pool_alloc v r = Inr (b, t)) \<and> (\<exists>e. pool_free a r = Inl e)"
    if "a \<in> set as" for a
  proof -
    have a: "a \<in> pool_live q" using that q(4) by simp
    then obtain r where r: "pool_free a q = Inr r" using pool.free_ok [OF q(5)] by blast
    from pool.alloc_after_free [OF q(5) a _ r, of v] pool.free_twice [OF q(5) a r] c r
    show ?thesis by auto
  qed
  moreover have "\<exists>e. pool_alloc v q = Inl e" by (rule pool.alloc_full [OF q(5) c])
  moreover have "memory_pool_init n d = Inr ?p" using assms(1) by (rule memory_pool_init_eq)
  ultimately show ?thesis using q(1,2,6) by blast
qed

theorem pool_allocates_exactly_witness:
  "\<exists>p as q. memory_pool_init 2 (0 :: nat) = Inr p \<and> alloc_all pool_alloc [7, 8] p = Inr (as, q) \<and> distinct as"
  using pool_allocates_exactly [of 2 "[7, 8]" 0] by fastforce

lemma request_wire:
  assumes "wire_request x"
  shows "deserialize_client_request be' base (serialize_client_request be x base buf) = x \<and>
    serialize_client_request be x base buf = serialize_client_request be' x base buf \<and>
    (\<forall>i. i < base \<or> base + sizeof_client_request_external \<le> i \<longrightarrow>
      serialize_client_request be x base buf i = buf i)"
proof -
  have "deserialize_client_request be' base (serialize_client_request be x base buf) = x"
    by (rule deserialize_client_request_image [OF _ assms]) (simp add: serialize_client_request_eq)
  then show ?thesis by (auto simp: serialize_client_request_eq write_bytes_def)
qed

lemma response_wire:
  assumes "wire_response x"
  shows "deserialize_client_response be' base (serialize_client_response be x base buf) = x \<and>
    serialize_client_response be x base buf = serialize_client_response be' x base buf \<and>
    (\<forall>i. i < base \<or> base + sizeof_client_response_external \<le> i \<longrightarrow>
      serialize_client_response be x base buf i = buf i)"
proof -
  have "deserialize_client_response be' base (serialize_client_response be x base buf) = x"
    by (rule deserialize_client_response_image [OF _ assms]) (simp add: serialize_client_response_eq)
  then show ?thesis by (auto simp: serialize_client_response_eq write_bytes_def)
qed

lemma market_update_wire:
  assumes "wire_market_update x"
  shows "deserialize_market_update be' base (serialize_client_market_update be x base buf) = x \<and>
    serialize_client_market_update be x base buf = serialize_client_market_update be' x base buf \<and>
    (\<forall>i. i < base \<or> base + sizeof_client_market_update \<le> i \<longrightarrow>
      serialize_client_market_update be x base buf i = buf i)"
proof -
  have "deserialize_market_update be' base (serialize_client_market_update be x base buf) = x"
    by (rule deserialize_market_update_image [OF _ assms]) (simp add: serialize_client_market_update_eq)
  then show ?thesis by (auto simp: serialize_client_market_update_eq write_bytes_def)
qed

text \<open>
  C17: the three messages of the wire. A request, a response or a market update encoded by a host
  of either byte order and decoded by a host of either byte order, at any position of a buffer,
  is the same message; the hosts write the same bytes, and nothing outside the 35, 47 or 39 bytes
  of the message is touched. Conversely whatever 35 bytes a server decodes as a request, encoding
  the request writes them back, so that no two byte sequences mean the same request.
\<close>

theorem wire_roundtrip:
  assumes "wire_request x" and "wire_response y" and "wire_market_update z"
  shows "(deserialize_client_request be' base (serialize_client_request be x base buf) = x \<and>
      serialize_client_request be x base buf = serialize_client_request be' x base buf \<and>
      (\<forall>i. i < base \<or> base + sizeof_client_request_external \<le> i \<longrightarrow>
        serialize_client_request be x base buf i = buf i)) \<and>
    (deserialize_client_response be' base (serialize_client_response be y base buf) = y \<and>
      serialize_client_response be y base buf = serialize_client_response be' y base buf \<and>
      (\<forall>i. i < base \<or> base + sizeof_client_response_external \<le> i \<longrightarrow>
        serialize_client_response be y base buf i = buf i)) \<and>
    (deserialize_market_update be' base (serialize_client_market_update be z base buf) = z \<and>
      serialize_client_market_update be z base buf = serialize_client_market_update be' z base buf \<and>
      (\<forall>i. i < base \<or> base + sizeof_client_market_update \<le> i \<longrightarrow>
        serialize_client_market_update be z base buf i = buf i)) \<and>
    serialize_client_request be (deserialize_client_request be' base buf) base buf = buf"
proof (intro conjI [OF request_wire [OF assms(1)]] conjI [OF response_wire [OF assms(2)]]
    conjI [OF market_update_wire [OF assms(3)]])
  show "serialize_client_request be (deserialize_client_request be' base buf) base buf = buf"
    by (simp add: serialize_client_request_eq request_bytes_deserialize)
qed

theorem wire_roundtrip_witness:
  "deserialize_client_request True 3 (serialize_client_request False
     \<lparr>rqx_sequence_number = 1, rqx_request = default_client_request\<rparr> 3 (\<lambda>_. 0)) =
     \<lparr>rqx_sequence_number = 1, rqx_request = default_client_request\<rparr> \<and>
   deserialize_client_response True 3 (serialize_client_response False
     \<lparr>rsx_sequence_number = 1, rsx_response = default_client_response\<rparr> 3 (\<lambda>_. 0)) =
     \<lparr>rsx_sequence_number = 1, rsx_response = default_client_response\<rparr> \<and>
   deserialize_market_update True 3 (serialize_client_market_update False
     \<lparr>cmu_sequence_number = 1, cmu_update = default_market_update\<rparr> 3 (\<lambda>_. 0)) =
     \<lparr>cmu_sequence_number = 1, cmu_update = default_market_update\<rparr>"
proof -
  have "wire_request \<lparr>rqx_sequence_number = 1, rqx_request = default_client_request\<rparr>"
    "wire_response \<lparr>rsx_sequence_number = 1, rsx_response = default_client_response\<rparr>"
    "wire_market_update \<lparr>cmu_sequence_number = 1, cmu_update = default_market_update\<rparr>"
    by (simp_all add: wire_request_def default_client_request_def wire_response_def default_client_response_def
        wire_market_update_def default_market_update_def)
  note r = wire_roundtrip [OF this]
  show ?thesis by (intro conjI r [THEN conjunct1, THEN conjunct1] r [THEN conjunct2, THEN conjunct1, THEN conjunct1]
        r [THEN conjunct2, THEN conjunct2, THEN conjunct1, THEN conjunct1])
qed

end
